(* ===== verification/Prelude.thy ===== *)
theory Prelude
  imports Main "HOL-Library.Word" "HOL-Library.Monad_Syntax"
begin

unbundle bit_operations_syntax

text \<open>
  Shared vocabulary of the development: the machine types of the 32-bit kernel, pointer chains
  (singly linked lists threaded through a field of the elements) with the walks the C code makes
  over them, and generic facts on lists and words.

  Conventions used by every theory.
  \<^item> \<open>uint8_t\<close>, \<open>uint16_t\<close>, \<open>uint32_t\<close>, \<open>uint64_t\<close>, \<open>size_t\<close> and addresses are words of
    that width, so that arithmetic wraps as in C. \<open>int\<close> values that never leave a small range are
    of type \<^typ>\<open>int\<close>.
  \<^item> A pointer to an object of a fixed table is an index; a pointer that may be \<open>NULL\<close> is an
    \<open>option\<close>.
  \<^item> An operation that can follow a dangling or \<open>NULL\<close> pointer, or loop without end on a corrupt
    structure, returns an \<open>option\<close>: \<^const>\<open>None\<close> is "does not return normally". Theorems that an
    operation works state that it returns \<^const>\<open>Some\<close>.
\<close>

type_synonym u8 = "8 word"
type_synonym u16 = "16 word"
type_synonym u32 = "32 word"
type_synonym u64 = "64 word"

named_theorems chain_simps "pointer chains and their updates"
named_theorems frame_simps "fields an operation leaves unchanged"

section \<open>Pointer chains\<close>

text \<open>
  \<open>chain nxt p xs\<close>: starting from pointer \<open>p\<close> and following \<open>nxt\<close>, the elements met are exactly
  \<open>xs\<close>, and the last one points to \<open>NULL\<close>.
\<close>

fun chain :: "('a \<Rightarrow> 'a option) \<Rightarrow> 'a option \<Rightarrow> 'a list \<Rightarrow> bool" where
  "chain nxt p [] = (p = None)"
| "chain nxt p (x # xs) = (p = Some x \<and> chain nxt (nxt x) xs)"

lemma chain_None [simp]: "chain nxt None xs = (xs = [])"
  by (cases xs) auto

lemma chain_Some: "chain nxt (Some x) ys = (\<exists>xs. ys = x # xs \<and> chain nxt (nxt x) xs)"
  by (cases ys) auto

lemma chain_upd_notin [simp, chain_simps]:
  "y \<notin> set xs \<Longrightarrow> chain (nxt(y := v)) p xs = chain nxt p xs"
  by (induction xs arbitrary: p) auto

lemma chain_cong:
  "(\<And>x. x \<in> set xs \<Longrightarrow> nxt x = nxt' x) \<Longrightarrow> chain nxt p xs = chain nxt' p xs"
  by (induction xs arbitrary: p) auto

lemma chain_unique: "chain nxt p xs \<Longrightarrow> chain nxt p ys \<Longrightarrow> xs = ys"
proof (induction xs arbitrary: p ys)
  case Nil
  then show ?case by (cases ys) auto
next
  case (Cons x xs)
  then show ?case by (cases ys) auto
qed

fun seg :: "('a \<Rightarrow> 'a option) \<Rightarrow> 'a option \<Rightarrow> 'a list \<Rightarrow> 'a option \<Rightarrow> bool" where
  "seg nxt p [] q = (p = q)"
| "seg nxt p (x # xs) q = (p = Some x \<and> seg nxt (nxt x) xs q)"

lemma chain_append:
  "chain nxt p (xs @ ys) = (\<exists>q. seg nxt p xs q \<and> chain nxt q ys)"
  by (induction xs arbitrary: p) auto

lemma seg_append:
  "seg nxt p (xs @ ys) r = (\<exists>q. seg nxt p xs q \<and> seg nxt q ys r)"
  by (induction xs arbitrary: p) auto

lemma seg_upd_notin [simp, chain_simps]:
  "y \<notin> set xs \<Longrightarrow> seg (nxt(y := v)) p xs q = seg nxt p xs q"
  by (induction xs arbitrary: p) auto

lemma chain_suffix_unique:
  assumes "chain nxt (nxt x) xs" shows "x \<notin> set xs"
proof
  assume "x \<in> set xs"
  then obtain us vs where xs: "xs = us @ x # vs" by (meson split_list)
  with assms have "chain nxt (nxt x) vs" by (auto simp: chain_append)
  with assms have "xs = vs" by (rule chain_unique)
  with xs show False by (metis append.assoc append_Cons append_self_conv2 list.distinct(1) same_append_eq self_append_conv2)
qed

lemma chain_distinct: "chain nxt p xs \<Longrightarrow> distinct xs"
proof (induction xs arbitrary: p)
  case Nil
  then show ?case by simp
next
  case (Cons x xs)
  then have "chain nxt (nxt x) xs" by simp
  with Cons.IH chain_suffix_unique show ?case by force
qed

text \<open>Appending at the tail: the old last element is linked to the new one.\<close>

lemma chain_snoc:
  assumes "chain nxt p (xs @ [x])" "y \<notin> set xs" "y \<noteq> x"
  shows "chain (nxt(y := None, x := Some y)) p (xs @ [x, y])"
proof -
  have "x \<notin> set xs" using chain_distinct [OF assms(1)] by auto
  moreover have "seg nxt p xs (Some x)" using assms(1) by (auto simp: chain_append)
  ultimately show ?thesis using assms(2,3) by (auto simp: chain_append)
qed

text \<open>Unlinking an inner element.\<close>

lemma chain_unlink:
  assumes "chain nxt p (xs @ x # y # ys)"
  shows "chain (nxt(x := nxt y)) p (xs @ x # ys)"
proof -
  have d: "distinct (xs @ x # y # ys)" using assms by (rule chain_distinct)
  have "seg nxt p xs (Some x)" and "chain nxt (nxt y) ys" using assms by (auto simp: chain_append)
  with d show ?thesis by (auto simp: chain_append)
qed

section \<open>Walks\<close>

text \<open>
  The loop \<open>for (p = head; p; p = p->next) if (test p) return p;\<close>: \<open>Some None\<close> when the end of the
  chain is met first, \<^const>\<open>None\<close> when the chain never ends.
\<close>

partial_function (option) find_chain ::
  "('a \<Rightarrow> 'a option) \<Rightarrow> ('a \<Rightarrow> bool) \<Rightarrow> 'a option \<Rightarrow> 'a option option" where
  "find_chain nxt test p =
     (case p of None \<Rightarrow> Some None
      | Some x \<Rightarrow> if test x then Some (Some x) else find_chain nxt test (nxt x))"

declare find_chain.simps [code]

lemma find_chain_eq: "chain nxt p xs \<Longrightarrow> find_chain nxt test p = Some (find test xs)"
  by (induction xs arbitrary: p) (auto simp: find_chain.simps)

text \<open>A chain that comes back to itself without a hit keeps the loop running forever.\<close>

lemma find_chain_cycle:
  assumes "nxt x = Some x" "\<not> test x"
  shows "find_chain nxt test (Some x) = None"
proof -
  have "n = nxt \<longrightarrow> t = test \<longrightarrow> p \<noteq> Some x" if "find_chain n t p = Some y" for n t p y
    using that
    by (rule find_chain.raw_induct [of "\<lambda>n t p y. n = nxt \<longrightarrow> t = test \<longrightarrow> p \<noteq> Some x", rotated])
      (use assms in \<open>auto split: option.splits if_splits\<close>)
  then show ?thesis by (cases "find_chain nxt test (Some x)") auto
qed

text \<open>The loop that counts the elements of a chain.\<close>

partial_function (option) count_chain ::
  "('a \<Rightarrow> 'a option) \<Rightarrow> 'a option \<Rightarrow> u32 \<Rightarrow> u32 option" where
  "count_chain nxt p n = (case p of None \<Rightarrow> Some n | Some x \<Rightarrow> count_chain nxt (nxt x) (n + 1))"

declare count_chain.simps [code]

lemma count_chain_eq: "chain nxt p xs \<Longrightarrow> count_chain nxt p n = Some (n + of_nat (length xs))"
  by (induction xs arbitrary: p n) (auto simp: count_chain.simps)

text \<open>Any chain-indexed loop that carries a state.\<close>

partial_function (option) list_chain ::
  "('a \<Rightarrow> 'a option) \<Rightarrow> 'a option \<Rightarrow> 'a list option" where
  "list_chain nxt p = (case p of None \<Rightarrow> Some []
      | Some x \<Rightarrow> Option.bind (list_chain nxt (nxt x)) (\<lambda>xs. Some (x # xs)))"

declare list_chain.simps [code]

lemma list_chain_eq: "chain nxt p xs \<Longrightarrow> list_chain nxt p = Some xs"
  by (induction xs arbitrary: p) (auto simp: list_chain.simps)

text \<open>A counted loop \<open>for (i = ...; ...)\<close> whose body may fail to return.\<close>

fun fold_opt :: "('a \<Rightarrow> 's \<Rightarrow> 's option) \<Rightarrow> 'a list \<Rightarrow> 's \<Rightarrow> 's option" where
  "fold_opt f [] s = Some s"
| "fold_opt f (x # xs) s = Option.bind (f x s) (fold_opt f xs)"

lemma fold_opt_append [simp]:
  "fold_opt f (xs @ ys) s = Option.bind (fold_opt f xs s) (fold_opt f ys)"
  by (induction xs arbitrary: s) (auto split: Option.bind_splits)

lemma fold_opt_invariant:
  assumes "I s" "\<And>x s. x \<in> set xs \<Longrightarrow> I s \<Longrightarrow> \<exists>s'. f x s = Some s' \<and> I s'"
  shows "\<exists>s'. fold_opt f xs s = Some s' \<and> I s'"
  using assms
proof (induction xs arbitrary: s)
  case Nil
  then show ?case by simp
next
  case (Cons x xs)
  from Cons.prems obtain s1 where "f x s = Some s1" "I s1" by (metis list.set_intros(1))
  with Cons.IH [of s1] Cons.prems(2) show ?case by auto
qed

section \<open>Lists\<close>

lemma find_Some_split:
  assumes "find P xs = Some x"
  shows "\<exists>us vs. xs = us @ x # vs \<and> P x \<and> (\<forall>u \<in> set us. \<not> P u)"
  using assms
proof (induction xs)
  case Nil
  then show ?case by simp
next
  case (Cons y ys)
  show ?case
  proof (cases "P y")
    case True
    with Cons.prems have "y # ys = [] @ x # ys \<and> P x \<and> (\<forall>u \<in> set []. \<not> P u)" by simp
    then show ?thesis by blast
  next
    case False
    with Cons obtain us vs where "ys = us @ x # vs" "P x" "\<forall>u \<in> set us. \<not> P u" by auto
    with False have "y # ys = (y # us) @ x # vs \<and> P x \<and> (\<forall>u \<in> set (y # us). \<not> P u)" by simp
    then show ?thesis by blast
  qed
qed

lemma find_split: "(\<forall>u \<in> set us. \<not> P u) \<Longrightarrow> P x \<Longrightarrow> find P (us @ x # vs) = Some x"
  by (induction us) auto

section \<open>Words\<close>

text \<open>The bytes of a string literal.\<close>

definition bytes_of :: "string \<Rightarrow> u8 list" where
  "bytes_of = map of_char"


lemma unat_of_nat32: "n < 4294967296 \<Longrightarrow> unat (of_nat n :: u32) = n"
  by (simp add: unat_of_nat)

lemma unat_add32: "unat a + unat b < 4294967296 \<Longrightarrow> unat (a + b :: u32) = unat a + unat b"
  by (simp add: unat_word_ariths)

lemma unat_sub32: "unat b \<le> unat a \<Longrightarrow> unat (a - b :: u32) = unat a - unat b"
  by (simp add: unat_sub_if_size)

lemma unat_lt32: "unat (w :: u32) < 4294967296"
  using unsigned_less [of w, where 'a = nat] by simp

lemma unat_drop_bit32: "unat (drop_bit n (w :: u32)) = unat w div 2 ^ n"
  by (rule trans [OF unat_drop_bit_eq drop_bit_eq_div])

lemma unat_take_bit32: "unat (take_bit n (w :: u32)) = unat w mod 2 ^ n"
  by (rule trans [OF unsigned_take_bit_eq take_bit_eq_mod])

lemma unat_and_mask32: "unat ((w :: u32) AND mask n) = unat w mod 2 ^ n"
  unfolding take_bit_eq_mask [symmetric] by (rule unat_take_bit32)

lemma unat_and_not_mask32: "unat ((w :: u32) AND NOT (mask n)) = unat w - unat w mod 2 ^ n"
proof -
  have e: "w AND NOT (mask n) = w - (w AND mask n)"
    by (subst disjunctive_diff) (auto simp: bit_simps intro!: bit_word_eqI)
  have "w AND mask n \<le> w" by (simp add: word_le_nat_alt unat_and_mask32)
  then show ?thesis unfolding e by (simp add: unat_sub unat_and_mask32)
qed

end
