(* ===== verification/Kernel_Types.thy ===== *)
theory Kernel_Types
  imports Prelude
begin

text \<open>
  The enumerations and constants that the kernel's components share: privilege tiers
  (\<open>kernel/tier.h\<close>), capability bits (\<open>kernel/caps.h\<close>), error numbers (\<open>kernel/errno.h\<close>), task states
  and sizes (\<open>kernel/task.h\<close>).
\<close>

section \<open>Tiers\<close>

datatype tier = TIER_KERNEL | TIER_SYSTEM | TIER_USER | TIER_CRITICAL

text \<open>The numeric value of the C enumerator; the C code compares tiers by it.\<close>

fun tier_num :: "tier \<Rightarrow> nat" where
  "tier_num TIER_KERNEL = 0"
| "tier_num TIER_SYSTEM = 1"
| "tier_num TIER_USER = 2"
| "tier_num TIER_CRITICAL = 3"

text \<open>The cast \<open>(tier_t)n\<close> of a number that has been checked to be at most \<open>TIER_CRITICAL\<close>.\<close>

definition tier_of_nat :: "nat \<Rightarrow> tier" where
  "tier_of_nat n = (if n = 0 then TIER_KERNEL else if n = 1 then TIER_SYSTEM
                    else if n = 2 then TIER_USER else TIER_CRITICAL)"

lemma tier_of_nat_num [simp]: "tier_of_nat (tier_num t) = t"
  by (cases t) (simp_all add: tier_of_nat_def)

lemma tier_num_of_nat: "n \<le> 3 \<Longrightarrow> tier_num (tier_of_nat n) = n"
  by (auto simp: tier_of_nat_def)

lemma tier_num_inject [simp]: "tier_num a = tier_num b \<longleftrightarrow> a = b"
  by (cases a; cases b) auto

instantiation tier :: linorder
begin

definition less_eq_tier :: "tier \<Rightarrow> tier \<Rightarrow> bool" where
  "less_eq_tier a b \<longleftrightarrow> tier_num a \<le> tier_num b"

definition less_tier :: "tier \<Rightarrow> tier \<Rightarrow> bool" where
  "less_tier a b \<longleftrightarrow> tier_num a < tier_num b"

instance
  by standard (auto simp: less_eq_tier_def less_tier_def)

end

definition tier_is_user :: "tier \<Rightarrow> bool" where
  "tier_is_user t \<longleftrightarrow> t = TIER_USER \<or> t = TIER_CRITICAL"

definition tier_is_critical :: "tier \<Rightarrow> bool" where
  "tier_is_critical t \<longleftrightarrow> t = TIER_CRITICAL"

fun tier_to_queue_idx :: "tier \<Rightarrow> nat" where
  "tier_to_queue_idx TIER_KERNEL = 0"
| "tier_to_queue_idx TIER_SYSTEM = 1"
| "tier_to_queue_idx TIER_CRITICAL = 1"
| "tier_to_queue_idx TIER_USER = 2"

abbreviation FREE_PAGES_CRITICAL :: u32 where "FREE_PAGES_CRITICAL \<equiv> 64"
abbreviation FREE_PAGES_WARN :: u32 where "FREE_PAGES_WARN \<equiv> 128"

section \<open>Capabilities\<close>

abbreviation CAP_WRITE :: u32 where "CAP_WRITE \<equiv> push_bit 0 1"
abbreviation CAP_READ :: u32 where "CAP_READ \<equiv> push_bit 1 1"
abbreviation CAP_GETCHAR :: u32 where "CAP_GETCHAR \<equiv> push_bit 2 1"
abbreviation CAP_PUTCHAR :: u32 where "CAP_PUTCHAR \<equiv> push_bit 3 1"
abbreviation CAP_CLEAR :: u32 where "CAP_CLEAR \<equiv> push_bit 4 1"
abbreviation CAP_EXIT :: u32 where "CAP_EXIT \<equiv> push_bit 5 1"
abbreviation CAP_FORK :: u32 where "CAP_FORK \<equiv> push_bit 6 1"
abbreviation CAP_EXEC :: u32 where "CAP_EXEC \<equiv> push_bit 7 1"
abbreviation CAP_WAIT :: u32 where "CAP_WAIT \<equiv> push_bit 8 1"
abbreviation CAP_TIER_QUERY :: u32 where "CAP_TIER_QUERY \<equiv> push_bit 9 1"
abbreviation CAP_TIER_REQUEST :: u32 where "CAP_TIER_REQUEST \<equiv> push_bit 10 1"
abbreviation CAP_REBOOT :: u32 where "CAP_REBOOT \<equiv> push_bit 11 1"
abbreviation CAP_POWEROFF :: u32 where "CAP_POWEROFF \<equiv> push_bit 12 1"
abbreviation CAP_KILL :: u32 where "CAP_KILL \<equiv> push_bit 13 1"
abbreviation CAP_MOUNT :: u32 where "CAP_MOUNT \<equiv> push_bit 14 1"
abbreviation CAP_MLFQ_QUERY :: u32 where "CAP_MLFQ_QUERY \<equiv> push_bit 15 1"
abbreviation CAP_YIELD :: u32 where "CAP_YIELD \<equiv> push_bit 16 1"
abbreviation CAP_SET_TIER :: u32 where "CAP_SET_TIER \<equiv> push_bit 17 1"
abbreviation CAP_SANDBOX :: u32 where "CAP_SANDBOX \<equiv> push_bit 18 1"
abbreviation CAP_SANDBOX_QUERY :: u32 where "CAP_SANDBOX_QUERY \<equiv> push_bit 19 1"

abbreviation CAP_ALL :: u32 where "CAP_ALL \<equiv> 0xFFFFFFFF"
abbreviation CAP_SYSTEM_DEFAULT :: u32 where "CAP_SYSTEM_DEFAULT \<equiv> CAP_ALL"

definition CAP_USER_DEFAULT :: u32 where
  "CAP_USER_DEFAULT = CAP_WRITE OR CAP_READ OR CAP_GETCHAR OR CAP_PUTCHAR OR CAP_CLEAR OR
     CAP_EXIT OR CAP_FORK OR CAP_EXEC OR CAP_WAIT OR CAP_TIER_QUERY OR CAP_MLFQ_QUERY OR
     CAP_YIELD OR CAP_SANDBOX_QUERY"

definition CAP_PRIVILEGED :: u32 where
  "CAP_PRIVILEGED = CAP_TIER_REQUEST OR CAP_REBOOT OR CAP_POWEROFF OR CAP_KILL OR CAP_MOUNT OR
     CAP_SET_TIER OR CAP_SANDBOX"

lemmas cap_defs = CAP_USER_DEFAULT_def CAP_PRIVILEGED_def

lemma user_caps_unprivileged: "CAP_USER_DEFAULT AND CAP_PRIVILEGED = 0"
  by (simp add: cap_defs push_bit_eq_mult)

section \<open>Error numbers\<close>

abbreviation EPERM :: int where "EPERM \<equiv> 1"
abbreviation ENOENT :: int where "ENOENT \<equiv> 2"
abbreviation EIO :: int where "EIO \<equiv> 5"
abbreviation ENOEXEC :: int where "ENOEXEC \<equiv> 8"
abbreviation ENOMEM :: int where "ENOMEM \<equiv> 12"
abbreviation EACCES :: int where "EACCES \<equiv> 13"
abbreviation ENOTDIR :: int where "ENOTDIR \<equiv> 20"
abbreviation EINVAL :: int where "EINVAL \<equiv> 22"

section \<open>Tasks: states and sizes\<close>

datatype task_state = TASK_RUNNING | TASK_READY | TASK_WAITING | TASK_EXITED

abbreviation FD_MAX :: nat where "FD_MAX \<equiv> 8"
abbreviation TASK_PRIO_NORMAL :: int where "TASK_PRIO_NORMAL \<equiv> 10"
abbreviation TASK_PRIO_HIGH :: int where "TASK_PRIO_HIGH \<equiv> 20"
abbreviation TASK_PRIO_IDLE :: int where "TASK_PRIO_IDLE \<equiv> 1"
abbreviation TASK_TIMESLICE :: int where "TASK_TIMESLICE \<equiv> 20"
abbreviation STACK_SIZE :: nat where "STACK_SIZE \<equiv> 16384"
abbreviation TASK_INHERITED :: u32 where "TASK_INHERITED \<equiv> 1"
abbreviation MAX_TASKS :: nat where "MAX_TASKS \<equiv> 16"
abbreviation NR_QUEUES :: nat where "NR_QUEUES \<equiv> 5"
abbreviation PAGE_SIZE :: nat where "PAGE_SIZE \<equiv> 4096"

end
