(* ===== verification/Task.thy ===== *)
theory Task
  imports Kernel_Types
begin

text \<open>
  The task table and the run queues of \<open>kernel/task.c\<close>, at the level of the C pointers: five
  singly linked queues threaded through \<open>task_t.next\<close>, each with a head and a tail pointer.

  A task pointer is an index: \<open>tasks[i]\<close> for \<open>i < MAX_TASKS\<close>, and \<open>MAX_TASKS\<close> itself for
  \<open>idle_task\<close>. Addresses fixed by the linker (\<open>page_directory\<close>) are fields that nothing writes.
  Addresses of kernel functions and of cells of a task's own kernel stack, which the code stores on
  that stack, are symbolic (\<open>kword\<close>).
\<close>

section \<open>State\<close>

datatype kcode = Task_exit_handler | Idle_loop | User_process_entry | Fork_return | Kernel_fn nat

datatype kword = KVal u32 | KCode kcode | KStack nat

record task =
  t_pid :: int
  t_esp :: nat
  t_ebp :: kword
  t_ebx :: kword
  t_esi :: kword
  t_edi :: kword
  t_stack :: "nat \<Rightarrow> kword"
  t_priority :: int
  t_timeslice :: int
  t_state :: task_state
  t_next :: "nat option"
  t_cur_queue :: int
  t_map :: u32
  t_cr3 :: u32
  t_tier :: tier
  t_user_entry :: u32
  t_user_stack :: u32
  t_exit_code :: int
  t_parent :: "nat option"
  t_in_use :: bool
  t_mlfq_level :: int
  t_mlfq_cont_ticks :: int
  t_caps :: u32
  t_mem_limit :: u64
  t_cpu_quota :: u32
  t_root_path :: string
  t_tier_override :: int
  t_pages_charged :: u32
  t_quota_used_ticks :: u32
  t_quota_done :: bool
  t_kill_pending :: bool
  t_flags :: u32
  t_saved_tier :: tier
  t_wd_managed :: bool
  t_fd_table :: "nat \<Rightarrow> u32"

text \<open>The task that \<open>memset(t, 0, sizeof(task_t))\<close> leaves.\<close>

definition zero_task :: task where
  "zero_task = \<lparr>t_pid = 0, t_esp = 0, t_ebp = KVal 0, t_ebx = KVal 0, t_esi = KVal 0, t_edi = KVal 0, t_stack = (\<lambda>_. KVal 0), t_priority = 0,
     t_timeslice = 0, t_state = TASK_RUNNING, t_next = None, t_cur_queue = 0, t_map = 0, t_cr3 = 0,
     t_tier = TIER_KERNEL, t_user_entry = 0, t_user_stack = 0, t_exit_code = 0, t_parent = None,
     t_in_use = False, t_mlfq_level = 0, t_mlfq_cont_ticks = 0, t_caps = 0, t_mem_limit = 0,
     t_cpu_quota = 0, t_root_path = [], t_tier_override = 0, t_pages_charged = 0,
     t_quota_used_ticks = 0, t_quota_done = False, t_kill_pending = False, t_flags = 0,
     t_saved_tier = TIER_KERNEL, t_wd_managed = False, t_fd_table = (\<lambda>_. 0)\<rparr>"

record sched_state =
  tasks :: "nat \<Rightarrow> task"
  pid_counter :: int
  current_task :: "nat option"
  rq_head :: "nat \<Rightarrow> nat option"
  rq_tail :: "nat \<Rightarrow> nat option"
  tss_stack :: "nat option"
  cr3 :: u32
  kernel_pd :: u32

definition idle_ref :: nat where [simp]: "idle_ref = MAX_TASKS"

definition upd_task :: "nat \<Rightarrow> (task \<Rightarrow> task) \<Rightarrow> 'a sched_state_scheme \<Rightarrow> 'a sched_state_scheme" where
  "upd_task i f s = s\<lparr>tasks := (tasks s)(i := f (tasks s i))\<rparr>"

abbreviation next_of :: "'a sched_state_scheme \<Rightarrow> nat \<Rightarrow> nat option" where
  "next_of s \<equiv> \<lambda>i. t_next (tasks s i)"

definition get_current_task :: "'a sched_state_scheme \<Rightarrow> nat option" where
  "get_current_task s = current_task s"

section \<open>Run queues\<close>

definition clamp2 :: "int \<Rightarrow> int" where
  "clamp2 l = (if l < 0 then 0 else if l > 2 then 2 else l)"

definition task_qidx :: "nat option \<Rightarrow> 'a sched_state_scheme \<Rightarrow> nat" where
  "task_qidx p s = (case p of None \<Rightarrow> 2
     | Some t \<Rightarrow> if t_tier (tasks s t) = TIER_USER then nat (2 + clamp2 (t_mlfq_level (tasks s t)))
                 else tier_to_queue_idx (t_tier (tasks s t)))"

definition enqueue_task :: "nat option \<Rightarrow> 'a sched_state_scheme \<Rightarrow> 'a sched_state_scheme" where
  "enqueue_task p s = (case p of None \<Rightarrow> s | Some t \<Rightarrow>
     (let q = task_qidx (Some t) s;
          s = upd_task t (\<lambda>x. x\<lparr>t_cur_queue := int q, t_next := None\<rparr>) s
      in case rq_tail s q of
           Some l \<Rightarrow> (upd_task l (\<lambda>x. x\<lparr>t_next := Some t\<rparr>) s)\<lparr>rq_tail := (rq_tail s)(q := Some t)\<rparr>
         | None \<Rightarrow> s\<lparr>rq_head := (rq_head s)(q := Some t), rq_tail := (rq_tail s)(q := Some t)\<rparr>))"

definition dequeue_task :: "nat option \<Rightarrow> 'a sched_state_scheme \<Rightarrow> 'a sched_state_scheme option" where
  "dequeue_task p s = (case p of None \<Rightarrow> Some s | Some t \<Rightarrow>
     (let qi = t_cur_queue (tasks s t); q = nat qi in
      if qi < 0 \<or> qi \<ge> int NR_QUEUES then Some s
      else if rq_head s q = Some t then
        (let nx = t_next (tasks s t);
             s = s\<lparr>rq_head := (rq_head s)(q := nx)\<rparr>;
             s = (if nx = None then s\<lparr>rq_tail := (rq_tail s)(q := None)\<rparr> else s)
         in Some (upd_task t (\<lambda>x. x\<lparr>t_next := None\<rparr>) s))
      else do {
        prev \<leftarrow> find_chain (next_of s) (\<lambda>r. t_next (tasks s r) = Some t) (rq_head s q);
        case prev of None \<Rightarrow> Some s
        | Some r \<Rightarrow>
           (let s' = upd_task r (\<lambda>x. x\<lparr>t_next := t_next (tasks s t)\<rparr>) s;
                s' = (if rq_tail s q = Some t then s'\<lparr>rq_tail := (rq_tail s)(q := Some r)\<rparr> else s')
            in Some (upd_task t (\<lambda>x. x\<lparr>t_next := None\<rparr>) s'))
      }))"

text \<open>
  The move of the head element to the tail that \<open>pick_next_task\<close> makes in two places:
  \<open>rq_head[q] = t->next; rq_tail[q]->next = t; rq_tail[q] = t; t->next = NULL\<close>.
\<close>

definition rotate_head :: "nat \<Rightarrow> nat \<Rightarrow> 'a sched_state_scheme \<Rightarrow> 'a sched_state_scheme option" where
  "rotate_head q t s = (case rq_tail s q of None \<Rightarrow> None | Some l \<Rightarrow>
     (let s = s\<lparr>rq_head := (rq_head s)(q := t_next (tasks s t))\<rparr>;
          s = upd_task l (\<lambda>x. x\<lparr>t_next := Some t\<rparr>) s;
          s = s\<lparr>rq_tail := (rq_tail s)(q := Some t)\<rparr>
      in Some (upd_task t (\<lambda>x. x\<lparr>t_next := None\<rparr>) s)))"

text \<open>\<open>while (t->quota_done) { rotate; t = rq_head[q]; }\<close>\<close>

partial_function (option) skip_done ::
  "nat \<Rightarrow> nat \<Rightarrow> 'a sched_state_scheme \<Rightarrow> (nat \<times> 'a sched_state_scheme) option" where
  "skip_done q t s =
     (if t_quota_done (tasks s t) then
        Option.bind (rotate_head q t s) (\<lambda>s.
          case rq_head s q of None \<Rightarrow> None | Some t' \<Rightarrow> skip_done q t' s)
      else Some (t, s))"

declare skip_done.simps [code]

definition take_head :: "nat \<Rightarrow> nat \<Rightarrow> 'a sched_state_scheme \<Rightarrow>
    (nat option \<times> 'a sched_state_scheme) option" where
  "take_head q t s =
     (if t_next (tasks s t) \<noteq> None then do { s \<leftarrow> rotate_head q t s; Some (Some t, s) }
      else Some (Some t, s\<lparr>rq_head := (rq_head s)(q := None), rq_tail := (rq_tail s)(q := None)\<rparr>))"

text \<open>One iteration of the loop over the queues: \<open>(None, s)\<close> is \<open>continue\<close>.\<close>

definition pick_queue :: "nat \<Rightarrow> 'a sched_state_scheme \<Rightarrow>
    (nat option \<times> 'a sched_state_scheme) option" where
  "pick_queue q s = (case rq_head s q of None \<Rightarrow> Some (None, s) | Some t \<Rightarrow>
     if t_quota_done (tasks s t) then do {
       found \<leftarrow> find_chain (next_of s) (\<lambda>r. \<not> t_quota_done (tasks s r)) (Some t);
       if found = None then Some (None, s)
       else do { (t, s) \<leftarrow> skip_done q t s; take_head q t s }
     }
     else take_head q t s)"

fun pick_scan :: "nat list \<Rightarrow> 'a sched_state_scheme \<Rightarrow>
    (nat option \<times> 'a sched_state_scheme) option" where
  "pick_scan [] s = Some (None, s)"
| "pick_scan (q # qs) s = do {
     (r, s) \<leftarrow> pick_queue q s;
     if r = None then pick_scan qs s else Some (r, s)
   }"

definition pick_next_task :: "'a sched_state_scheme \<Rightarrow> (nat option \<times> 'a sched_state_scheme) option" where
  "pick_next_task s = pick_scan [0..<NR_QUEUES] s"

definition pick_next_lower :: "nat \<Rightarrow> 'a sched_state_scheme \<Rightarrow>
    (nat option \<times> 'a sched_state_scheme) option" where
  "pick_next_lower min_q s = pick_scan [min_q..<NR_QUEUES] s"

fun peek_scan :: "nat list \<Rightarrow> 'a sched_state_scheme \<Rightarrow> nat option option" where
  "peek_scan [] s = Some None"
| "peek_scan (q # qs) s = do {
     r \<leftarrow> find_chain (next_of s) (\<lambda>r. \<not> t_quota_done (tasks s r)) (rq_head s q);
     if r = None then peek_scan qs s else Some r
   }"

definition peek_next_task :: "'a sched_state_scheme \<Rightarrow> nat option option" where
  "peek_next_task s = peek_scan [0..<NR_QUEUES] s"

section \<open>Task slots\<close>

definition create_task_slot :: "'a sched_state_scheme \<Rightarrow> nat option \<times> 'a sched_state_scheme" where
  "create_task_slot s =
     (case find (\<lambda>i. \<not> t_in_use (tasks s i)) [0..<MAX_TASKS] of
        None \<Rightarrow> (None, s)
      | Some i \<Rightarrow>
          (let s = upd_task i (\<lambda>_. zero_task\<lparr>t_in_use := True, t_cur_queue := -1,
                                     t_pid := pid_counter s\<rparr>) s
           in (Some i, s\<lparr>pid_counter := pid_counter s + 1\<rparr>)))"

definition free_task_slot :: "nat option \<Rightarrow> 'a sched_state_scheme \<Rightarrow> 'a sched_state_scheme" where
  "free_task_slot p s = (case p of None \<Rightarrow> s
     | Some i \<Rightarrow> if i \<ge> MAX_TASKS then s else upd_task i (\<lambda>_. zero_task) s)"

text \<open>The word index of the top of a task's kernel stack.\<close>

definition stack_words :: nat where [simp]: "stack_words = STACK_SIZE div 4"

definition create_task :: "kcode \<Rightarrow> int \<Rightarrow> 'a sched_state_scheme \<Rightarrow>
    nat option \<times> 'a sched_state_scheme" where
  "create_task func priority s =
     (let (p, s) = create_task_slot s in
      case p of None \<Rightarrow> (None, s)
      | Some t \<Rightarrow>
         (Some t, upd_task t (\<lambda>x. x\<lparr>
            t_priority := (if priority > 0 then priority else TASK_PRIO_NORMAL),
            t_timeslice := TASK_TIMESLICE, t_state := TASK_READY, t_cr3 := kernel_pd s,
            t_tier := TIER_USER, t_next := None, t_map := 0, t_mlfq_level := 0,
            t_mlfq_cont_ticks := 0, t_caps := CAP_USER_DEFAULT, t_mem_limit := 0, t_cpu_quota := 0,
            t_pages_charged := 0, t_quota_used_ticks := 0, t_quota_done := False,
            t_wd_managed := False, t_parent := None, t_tier_override := -1, t_root_path := [],
            t_stack := (t_stack x)(stack_words - 1 := KCode Task_exit_handler,
                                   stack_words - 2 := KCode func),
            t_esp := stack_words - 2, t_ebp := KStack (stack_words - 2)\<rparr>) s))"

definition task_set_tier :: "nat option \<Rightarrow> tier \<Rightarrow> 'a sched_state_scheme \<Rightarrow>
    'a sched_state_scheme option" where
  "task_set_tier p tier s = (case p of None \<Rightarrow> Some s | Some t \<Rightarrow>
     (let oldq = task_qidx (Some t) s;
          newq = (if tier = TIER_USER then nat (2 + clamp2 (t_mlfq_level (tasks s t)))
                  else tier_to_queue_idx tier)
      in if oldq \<noteq> newq \<and> t_state (tasks s t) = TASK_READY \<and> current_task s \<noteq> Some t then do {
           s \<leftarrow> dequeue_task (Some t) s;
           Some (enqueue_task (Some t) (upd_task t (\<lambda>x. x\<lparr>t_tier := tier\<rparr>) s))
         }
         else Some (upd_task t (\<lambda>x. x\<lparr>t_tier := tier\<rparr>) s)))"

definition task_set_mlfq_level :: "nat option \<Rightarrow> int \<Rightarrow> 'a sched_state_scheme \<Rightarrow>
    'a sched_state_scheme option" where
  "task_set_mlfq_level p level s = (case p of None \<Rightarrow> Some s | Some t \<Rightarrow>
     (let level = clamp2 level in
      if t_mlfq_level (tasks s t) = level then Some s
      else (let oldq = task_qidx (Some t) s;
                s = upd_task t (\<lambda>x. x\<lparr>t_mlfq_level := level\<rparr>) s;
                newq = task_qidx (Some t) s
            in if oldq \<noteq> newq \<and> t_state (tasks s t) = TASK_READY \<and> current_task s \<noteq> Some t then do {
                 s \<leftarrow> dequeue_task (Some t) s;
                 Some (enqueue_task (Some t) s)
               }
               else Some s)))"

definition task_quota_period_reset :: "'a sched_state_scheme \<Rightarrow> 'a sched_state_scheme" where
  "task_quota_period_reset s = fold (\<lambda>i s.
     if t_in_use (tasks s i)
     then upd_task i (\<lambda>x. x\<lparr>t_quota_used_ticks := 0, t_quota_done := False\<rparr>) s else s)
     [0..<MAX_TASKS] s"

definition task_find_child :: "nat option \<Rightarrow> int \<Rightarrow> 'a sched_state_scheme \<Rightarrow> nat option" where
  "task_find_child parent pid s = (case parent of None \<Rightarrow> None
     | Some p \<Rightarrow> find (\<lambda>i. t_in_use (tasks s i) \<and> t_parent (tasks s i) = Some p \<and>
                      (pid = -1 \<or> t_pid (tasks s i) = pid)) [0..<MAX_TASKS])"

definition task_reap_orphans :: "'a sched_state_scheme \<Rightarrow> 'a sched_state_scheme" where
  "task_reap_orphans s = fold (\<lambda>i s.
     if \<not> t_in_use (tasks s i) \<or> t_state (tasks s i) \<noteq> TASK_EXITED then s
     else if t_parent (tasks s i) \<noteq> None \<or> t_wd_managed (tasks s i) then s
     else free_task_slot (Some i) s) [0..<MAX_TASKS] s"

definition task_init :: "'a sched_state_scheme \<Rightarrow> 'a sched_state_scheme" where
  "task_init s =
     (let s = s\<lparr>rq_head := (\<lambda>q. if q < NR_QUEUES then None else rq_head s q),
                rq_tail := (\<lambda>q. if q < NR_QUEUES then None else rq_tail s q)\<rparr>;
          s = upd_task idle_ref (\<lambda>_. zero_task\<lparr>t_priority := TASK_PRIO_IDLE,
                t_timeslice := TASK_TIMESLICE, t_state := TASK_READY, t_cr3 := kernel_pd s,
                t_tier := TIER_KERNEL, t_caps := CAP_ALL,
                t_stack := (\<lambda>_. KVal 0)(stack_words - 1 := KCode Task_exit_handler,
                                         stack_words - 2 := KCode Idle_loop),
                t_esp := stack_words - 2, t_ebp := KStack (stack_words - 2)\<rparr>) s
      in s\<lparr>current_task := Some idle_ref\<rparr>)"

definition task_mlfq_aging :: "'a sched_state_scheme \<Rightarrow> 'a sched_state_scheme option" where
  "task_mlfq_aging s = fold_opt (\<lambda>i s.
     if t_in_use (tasks s i) \<and> t_tier (tasks s i) = TIER_USER \<and> t_mlfq_level (tasks s i) > 0 \<and>
        \<not> t_quota_done (tasks s i) \<and>
        (t_state (tasks s i) = TASK_READY \<or> t_state (tasks s i) = TASK_RUNNING)
     then task_set_mlfq_level (Some i) (t_mlfq_level (tasks s i) - 1) s
     else Some s) [0..<MAX_TASKS] s"

end
