(* ===== verification/Task_Queues.thy ===== *)
theory Task_Queues
  imports Task
begin

text \<open>
  The run queues of \<open>Task\<close> as five lists. \<open>rq_inv s Q\<close> relates the pointers of \<open>s\<close> to the lists \<open>Q\<close>:
  the chain from each head is the list, the tail pointer is its last element, and every member
  records the queue it is in. The pointer operations refine list operations:
  appending, deleting, and rotating past the tasks whose CPU quota is spent.
\<close>

section \<open>Invariant\<close>

definition tail_of :: "'a list \<Rightarrow> 'a option" where
  "tail_of xs = (if xs = [] then None else Some (last xs))"

definition rq_inv :: "'a sched_state_scheme \<Rightarrow> (nat \<Rightarrow> nat list) \<Rightarrow> bool" where
  "rq_inv s Q \<longleftrightarrow> (\<forall>q < NR_QUEUES.
     chain (next_of s) (rq_head s q) (Q q) \<and> rq_tail s q = tail_of (Q q) \<and>
     (\<forall>t \<in> set (Q q). t_cur_queue (tasks s t) = int q))"

definition queued :: "(nat \<Rightarrow> nat list) \<Rightarrow> nat set" where
  "queued Q = (\<Union>q < NR_QUEUES. set (Q q))"

lemma tail_of_simps [simp]:
  "tail_of [] = None" "tail_of (xs @ [x]) = Some x" "tail_of (x # xs) = Some (last (x # xs))"
  by (auto simp: tail_of_def)

lemma tail_of_None [simp]: "tail_of xs = None \<longleftrightarrow> xs = []"
  by (simp add: tail_of_def)

lemma tail_of_Some: "tail_of xs = Some l \<longleftrightarrow> (\<exists>ys. xs = ys @ [l])"
  by (cases xs rule: rev_cases) (auto simp: tail_of_def)

lemma rq_invD:
  assumes "rq_inv s Q" "q < NR_QUEUES"
  shows "chain (next_of s) (rq_head s q) (Q q)" "rq_tail s q = tail_of (Q q)"
    "\<And>t. t \<in> set (Q q) \<Longrightarrow> t_cur_queue (tasks s t) = int q" "distinct (Q q)"
proof -
  show *: "chain (next_of s) (rq_head s q) (Q q)" "rq_tail s q = tail_of (Q q)"
    "\<And>t. t \<in> set (Q q) \<Longrightarrow> t_cur_queue (tasks s t) = int q"
    using assms by (simp_all add: rq_inv_def)
  show "distinct (Q q)" using *(1) by (rule chain_distinct)
qed

lemma queuedI: "q < NR_QUEUES \<Longrightarrow> t \<in> set (Q q) \<Longrightarrow> t \<in> queued Q"
  unfolding queued_def by blast

lemma queuedE:
  assumes "t \<in> queued Q"
  obtains q where "q < NR_QUEUES" "t \<in> set (Q q)"
  using assms unfolding queued_def by blast

lemma not_queued: "t \<notin> queued Q \<Longrightarrow> q < NR_QUEUES \<Longrightarrow> t \<notin> set (Q q)"
  by (blast intro: queuedI)

lemma rq_inv_disjoint:
  assumes "rq_inv s Q" "q < NR_QUEUES" "q' < NR_QUEUES" "t \<in> set (Q q)" "t \<in> set (Q q')"
  shows "q = q'"
  using rq_invD(3) [OF assms(1,2,4)] rq_invD(3) [OF assms(1,3,5)] by simp

lemma rq_inv_head:
  assumes "rq_inv s Q" "q < NR_QUEUES"
  shows "rq_head s q = (case Q q of [] \<Rightarrow> None | t # _ \<Rightarrow> Some t)"
  using rq_invD(1) [OF assms] by (cases "Q q") auto

text \<open>Changes of fields that are not \<open>next\<close> or \<open>cur_queue\<close> keep the queues.\<close>

lemma tasks_upd_task [simp]: "tasks (upd_task i f s) = (tasks s)(i := f (tasks s i))"
  by (simp add: upd_task_def)

lemma upd_task_other [simp]:
  "rq_head (upd_task i f s) = rq_head s" "rq_tail (upd_task i f s) = rq_tail s"
  "current_task (upd_task i f s) = current_task s" "pid_counter (upd_task i f s) = pid_counter s"
  "cr3 (upd_task i f s) = cr3 s" "kernel_pd (upd_task i f s) = kernel_pd s"
  "tss_stack (upd_task i f s) = tss_stack s" "sched_state.more (upd_task i f s) = sched_state.more s"
  by (simp_all add: upd_task_def)

text \<open>The step from \<open>s\<close> to \<open>s'\<close> changes queue pointers only.\<close>

definition only_queues :: "'a sched_state_scheme \<Rightarrow> 'a sched_state_scheme \<Rightarrow> bool" where
  "only_queues s s' \<longleftrightarrow>
     (\<forall>i. tasks s' i = (tasks s i)\<lparr>t_next := t_next (tasks s' i), t_cur_queue := t_cur_queue (tasks s' i)\<rparr>) \<and>
     s' = s\<lparr>tasks := tasks s', rq_head := rq_head s', rq_tail := rq_tail s'\<rparr>"

lemma only_queues_refl [simp]: "only_queues s s"
  by (simp add: only_queues_def)

lemma only_queues_trans [trans]:
  assumes a: "only_queues s s'" and b: "only_queues s' s''"
  shows "only_queues s s''"
  unfolding only_queues_def
proof (intro conjI allI)
  show "tasks s'' i = (tasks s i)\<lparr>t_next := t_next (tasks s'' i), t_cur_queue := t_cur_queue (tasks s'' i)\<rparr>" for i
    using a [unfolded only_queues_def, THEN conjunct1, rule_format, of i]
      b [unfolded only_queues_def, THEN conjunct1, rule_format, of i]
    by (cases "tasks s i"; cases "tasks s' i"; cases "tasks s'' i") (simp only: task.update_convs task.simps)
  show "s'' = s\<lparr>tasks := tasks s'', rq_head := rq_head s'', rq_tail := rq_tail s''\<rparr>"
    using a [unfolded only_queues_def, THEN conjunct2] b [unfolded only_queues_def, THEN conjunct2]
    by (cases s; cases s'; cases s'') simp
qed

lemma only_queues_task:
  assumes "only_queues s s'"
  shows "t_quota_done (tasks s' i) = t_quota_done (tasks s i)" "t_tier (tasks s' i) = t_tier (tasks s i)"
    "t_mlfq_level (tasks s' i) = t_mlfq_level (tasks s i)" "t_state (tasks s' i) = t_state (tasks s i)"
    "t_in_use (tasks s' i) = t_in_use (tasks s i)" "t_timeslice (tasks s' i) = t_timeslice (tasks s i)"
    "t_pid (tasks s' i) = t_pid (tasks s i)" "t_parent (tasks s' i) = t_parent (tasks s i)"
    "t_exit_code (tasks s' i) = t_exit_code (tasks s i)" "t_kill_pending (tasks s' i) = t_kill_pending (tasks s i)"
    "t_quota_used_ticks (tasks s' i) = t_quota_used_ticks (tasks s i)" "t_caps (tasks s' i) = t_caps (tasks s i)"
proof -
  have e: "tasks s' i = (tasks s i)\<lparr>t_next := t_next (tasks s' i), t_cur_queue := t_cur_queue (tasks s' i)\<rparr>"
    using assms by (simp add: only_queues_def)
  show "t_quota_done (tasks s' i) = t_quota_done (tasks s i)" "t_tier (tasks s' i) = t_tier (tasks s i)"
    "t_mlfq_level (tasks s' i) = t_mlfq_level (tasks s i)" "t_state (tasks s' i) = t_state (tasks s i)"
    "t_in_use (tasks s' i) = t_in_use (tasks s i)" "t_timeslice (tasks s' i) = t_timeslice (tasks s i)"
    "t_pid (tasks s' i) = t_pid (tasks s i)" "t_parent (tasks s' i) = t_parent (tasks s i)"
    "t_exit_code (tasks s' i) = t_exit_code (tasks s i)" "t_kill_pending (tasks s' i) = t_kill_pending (tasks s i)"
    "t_quota_used_ticks (tasks s' i) = t_quota_used_ticks (tasks s i)" "t_caps (tasks s' i) = t_caps (tasks s i)"
    by (subst e, simp)+
qed

lemma only_queues_state:
  assumes "only_queues s s'"
  shows "current_task s' = current_task s" "pid_counter s' = pid_counter s" "cr3 s' = cr3 s"
    "kernel_pd s' = kernel_pd s" "tss_stack s' = tss_stack s" "sched_state.more s' = sched_state.more s"
proof -
  have e: "s' = s\<lparr>tasks := tasks s', rq_head := rq_head s', rq_tail := rq_tail s'\<rparr>"
    using assms by (simp add: only_queues_def)
  show "current_task s' = current_task s" "pid_counter s' = pid_counter s" "cr3 s' = cr3 s"
    "kernel_pd s' = kernel_pd s" "tss_stack s' = tss_stack s" "sched_state.more s' = sched_state.more s"
    by (subst e, simp)+
qed

lemmas only_queues_fields = only_queues_task only_queues_state

lemma next_of_upd:
  "next_of (upd_task i f s) = (next_of s)(i := t_next (f (tasks s i)))"
  by (rule ext) simp

lemma rq_inv_cong:
  assumes "rq_inv s Q" "\<And>q. q < NR_QUEUES \<Longrightarrow> rq_head s' q = rq_head s q"
    "\<And>q. q < NR_QUEUES \<Longrightarrow> rq_tail s' q = rq_tail s q"
    "\<And>t. t \<in> queued Q \<Longrightarrow> t_next (tasks s' t) = t_next (tasks s t)"
    "\<And>t. t \<in> queued Q \<Longrightarrow> t_cur_queue (tasks s' t) = t_cur_queue (tasks s t)"
  shows "rq_inv s' Q"
  unfolding rq_inv_def
proof (intro allI impI conjI ballI)
  fix q assume q: "q < NR_QUEUES"
  have "chain (next_of s') (rq_head s q) (Q q) = chain (next_of s) (rq_head s q) (Q q)"
    by (rule chain_cong) (use assms(4) q in \<open>auto simp: queued_def\<close>)
  with rq_invD [OF assms(1) q] assms(2,3) [OF q]
  show "chain (next_of s') (rq_head s' q) (Q q)" "rq_tail s' q = tail_of (Q q)" by simp_all
  show "t_cur_queue (tasks s' t) = int q" if "t \<in> set (Q q)" for t
    using rq_invD(3) [OF assms(1) q that] assms(5) [of t] that q by (auto simp: queued_def)
qed

lemma rq_inv_upd_task:
  assumes "rq_inv s Q" "\<And>x. t_next (f x) = t_next x" "\<And>x. t_cur_queue (f x) = t_cur_queue x"
  shows "rq_inv (upd_task i f s) Q"
  by (rule rq_inv_cong [OF assms(1)]) (use assms(2,3) in auto)

lemma rq_inv_upd_task_notin:
  assumes "rq_inv s Q" "i \<notin> queued Q"
  shows "rq_inv (upd_task i f s) Q"
  by (rule rq_inv_cong [OF assms(1)]) (use assms(2) in auto)

section \<open>Enqueue\<close>

lemma task_qidx_bound: "task_qidx p s < NR_QUEUES"
  by (cases p; cases "t_tier (tasks s (the p))") (auto simp: task_qidx_def clamp2_def)

lemma task_qidx_upd_other:
  "t_tier (tasks s' t) = t_tier (tasks s t) \<Longrightarrow> t_mlfq_level (tasks s' t) = t_mlfq_level (tasks s t)
    \<Longrightarrow> task_qidx (Some t) s' = task_qidx (Some t) s"
  by (simp add: task_qidx_def)

lemma enqueue_task_inv:
  assumes inv: "rq_inv s Q" and t: "t \<notin> queued Q"
  defines "q \<equiv> task_qidx (Some t) s"
  shows "rq_inv (enqueue_task (Some t) s) (Q(q := Q q @ [t]))"
proof -
  have q: "q < NR_QUEUES" unfolding q_def by (rule task_qidx_bound)
  let ?u = "upd_task t (\<lambda>x. x\<lparr>t_cur_queue := int q, t_next := None\<rparr>) s"
  have inv': "rq_inv ?u Q" using inv t by (rule rq_inv_upd_task_notin)
  show ?thesis
  proof (cases "Q q = []")
    case True
    then have "rq_tail ?u q = None" using rq_invD(2) [OF inv' q] by simp
    then have e: "enqueue_task (Some t) s =
        ?u\<lparr>rq_head := (rq_head s)(q := Some t), rq_tail := (rq_tail s)(q := Some t)\<rparr>"
      by (simp add: enqueue_task_def Let_def q_def)
    show ?thesis unfolding e rq_inv_def
      using rq_invD [OF inv'] True by (auto simp: fun_upd_def)
  next
    case False
    then obtain ys l where l: "Q q = ys @ [l]" by (cases "Q q" rule: rev_cases) auto
    then have tl: "rq_tail ?u q = Some l" using rq_invD(2) [OF inv' q] by simp
    have lt: "l \<noteq> t" "t \<notin> set ys" using not_queued [OF t q] l by auto
    have e: "enqueue_task (Some t) s =
        (upd_task l (\<lambda>x. x\<lparr>t_next := Some t\<rparr>) ?u)\<lparr>rq_tail := (rq_tail s)(q := Some t)\<rparr>"
      using tl by (simp add: enqueue_task_def Let_def q_def)
    have n: "next_of (enqueue_task (Some t) s) = (next_of s)(t := None, l := Some t)"
      unfolding e using lt by (auto simp: fun_eq_iff)
    show ?thesis unfolding rq_inv_def
    proof (intro allI impI conjI)
      fix q' assume q': "q' < NR_QUEUES"
      show "chain (next_of (enqueue_task (Some t) s)) (rq_head (enqueue_task (Some t) s) q')
              ((Q(q := Q q @ [t])) q')"
      proof (cases "q' = q")
        case True
        then show ?thesis using chain_snoc [of "next_of s" "rq_head s q" ys l t] rq_invD(1) [OF inv q] lt l
          unfolding n by (simp add: e)
      next
        case False
        have "l \<notin> set (Q q')" "t \<notin> set (Q q')"
          using rq_inv_disjoint [OF inv q q', of l] False l t q' by (auto simp: queued_def)
        then show ?thesis using False rq_invD(1) [OF inv q'] unfolding n by (simp add: e)
      qed
      show "rq_tail (enqueue_task (Some t) s) q' = tail_of ((Q(q := Q q @ [t])) q')"
        using rq_invD(2) [OF inv q'] by (simp add: e)
      show "\<forall>x \<in> set ((Q(q := Q q @ [t])) q'). t_cur_queue (tasks (enqueue_task (Some t) s) x) = int q'"
        using rq_invD(3) [OF inv q'] lt not_queued [OF t q'] by (auto simp: e split: if_splits)
    qed
  qed
qed

lemma enqueue_task_frame: "only_queues s (enqueue_task p s)"
  by (cases p) (auto simp: only_queues_def enqueue_task_def upd_task_def Let_def split: option.split)

section \<open>Dequeue\<close>

lemma filter_neq_append: "distinct (us @ t # vs) \<Longrightarrow> filter (\<lambda>x. x \<noteq> t) (us @ t # vs) = us @ vs"
proof -
  assume d: "distinct (us @ t # vs)"
  have "filter (\<lambda>x. x \<noteq> t) us = us" "filter (\<lambda>x. x \<noteq> t) vs = vs"
    by (rule filter_True, use d in auto)+
  then show ?thesis by simp
qed

lemma filter_neq_notin: "t \<notin> set xs \<Longrightarrow> filter (\<lambda>x. x \<noteq> t) xs = xs"
  by (rule filter_True) auto

lemma chain_next_in:
  "chain nxt p xs \<Longrightarrow> r \<in> set xs \<Longrightarrow> nxt r = Some t \<Longrightarrow> t \<in> set xs"
proof (induction xs arbitrary: p)
  case Nil
  then show ?case by simp
next
  case (Cons x xs)
  then show ?case by (cases xs) auto
qed

lemma chain_pred:
  assumes "chain nxt p (us @ r # t # vs)"
  shows "find (\<lambda>x. nxt x = Some t) (us @ r # t # vs) = Some r"
proof -
  have d: "distinct (us @ r # t # vs)" using assms by (rule chain_distinct)
  have "nxt r = Some t" using assms by (auto simp: chain_append)
  moreover have "nxt u \<noteq> Some t" if u: "u \<in> set us" for u
  proof
    assume "nxt u = Some t"
    obtain as bs where us: "us = as @ u # bs" using u by (meson split_list)
    with assms have "chain nxt (nxt u) (bs @ r # t # vs)" by (auto simp: chain_append seg_append)
    with \<open>nxt u = Some t\<close> have "hd (bs @ r # t # vs) = t" by (cases bs) auto
    with d us show False by (cases bs) auto
  qed
  ultimately show ?thesis by (intro find_split) auto
qed

lemma dequeue_task_inv:
  assumes inv: "rq_inv s Q"
  shows "\<exists>s'. dequeue_task (Some t) s = Some s' \<and> rq_inv s' (\<lambda>q. filter (\<lambda>x. x \<noteq> t) (Q q)) \<and>
     only_queues s s'"
proof (cases "t \<in> queued Q")
  case False
  have same: "rq_inv s (\<lambda>q. filter (\<lambda>x. x \<noteq> t) (Q q))"
    using inv False unfolding rq_inv_def queued_def by (auto simp: filter_neq_notin)
  have "dequeue_task (Some t) s = Some s"
  proof (cases "0 \<le> t_cur_queue (tasks s t) \<and> t_cur_queue (tasks s t) < int NR_QUEUES")
    case True
    let ?q = "nat (t_cur_queue (tasks s t))"
    have q: "?q < NR_QUEUES" using True by (simp add: nat_less_iff)
    have tq: "t \<notin> set (Q ?q)" using False q by (auto simp: queued_def)
    have "rq_head s ?q \<noteq> Some t" using rq_inv_head [OF inv q] tq by (cases "Q ?q") auto
    moreover have "find (\<lambda>r. t_next (tasks s r) = Some t) (Q ?q) = None"
      using chain_next_in [OF rq_invD(1) [OF inv q]] tq by (auto simp: find_None_iff)
    then have "find_chain (next_of s) (\<lambda>r. t_next (tasks s r) = Some t) (rq_head s ?q) = Some None"
      using find_chain_eq [OF rq_invD(1) [OF inv q]] by simp
    ultimately show ?thesis using True by (simp add: dequeue_task_def Let_def)
  qed (auto simp: dequeue_task_def Let_def)
  with same show ?thesis by simp
next
  case True
  then obtain q where q: "q < NR_QUEUES" and tq: "t \<in> set (Q q)" by (auto simp: queued_def)
  have cq: "t_cur_queue (tasks s t) = int q" using rq_invD(3) [OF inv q tq] .
  then have rng: "\<not> (t_cur_queue (tasks s t) < 0 \<or> t_cur_queue (tasks s t) \<ge> int NR_QUEUES)"
    using q by simp
  obtain us vs where spl: "Q q = us @ t # vs" using tq by (meson split_list)
  have d: "distinct (us @ t # vs)" using rq_invD(4) [OF inv q] spl by simp
  have oth: "t \<notin> set (Q q')" if "q' < NR_QUEUES" "q' \<noteq> q" for q'
    using rq_inv_disjoint [OF inv q that(1) tq] that(2) by auto
  have C: "chain (next_of s) (rq_head s q) (us @ t # vs)" using rq_invD(1) [OF inv q] spl by simp
  show ?thesis
  proof (cases us rule: rev_cases)
    case Nil
    let ?nx = "t_next (tasks s t)"
    have h: "rq_head s q = Some t" using C Nil by simp
    have cv: "chain (next_of s) ?nx vs" using C Nil by simp
    have nx: "(?nx = None) = (vs = [])" using cv by (cases vs) auto
    let ?s = "upd_task t (\<lambda>x. x\<lparr>t_next := None\<rparr>)
       (if ?nx = None then s\<lparr>rq_head := (rq_head s)(q := ?nx), rq_tail := (rq_tail s)(q := None)\<rparr>
        else s\<lparr>rq_head := (rq_head s)(q := ?nx)\<rparr>)"
    have e: "dequeue_task (Some t) s = Some ?s"
      using rng cq h by (simp add: dequeue_task_def Let_def)
    have n: "next_of ?s = (next_of s)(t := None)" by (auto simp: fun_eq_iff)
    have "rq_inv ?s (\<lambda>q. filter (\<lambda>x. x \<noteq> t) (Q q))"
      unfolding rq_inv_def
    proof (intro allI impI conjI)
      fix q' assume q': "q' < NR_QUEUES"
      show "chain (next_of ?s) (rq_head ?s q') (filter (\<lambda>x. x \<noteq> t) (Q q'))"
      proof (cases "q' = q")
        case True
        then show ?thesis using cv d Nil spl nx filter_neq_append [OF d] unfolding n by auto
      next
        case False
        then show ?thesis using rq_invD(1) [OF inv q'] oth [OF q' False] unfolding n
          by (simp add: filter_neq_notin)
      qed
      show "rq_tail ?s q' = tail_of (filter (\<lambda>x. x \<noteq> t) (Q q'))"
      proof (cases "q' = q")
        case True
        then show ?thesis using rq_invD(2) [OF inv q] spl Nil nx filter_neq_append [OF d]
          by (auto simp: tail_of_def)
      next
        case False
        then show ?thesis using rq_invD(2) [OF inv q'] oth [OF q' False] by (simp add: filter_neq_notin)
      qed
      show "\<forall>x \<in> set (filter (\<lambda>x. x \<noteq> t) (Q q')). t_cur_queue (tasks ?s x) = int q'"
        using rq_invD(3) [OF inv q'] by simp
    qed
    with e show ?thesis by (simp add: only_queues_def upd_task_def)
  next
    case (snoc ws r)
    have hr: "rq_head s q \<noteq> Some t" using C d snoc by (cases ws) auto
    have f: "find_chain (next_of s) (\<lambda>r. t_next (tasks s r) = Some t) (rq_head s q) = Some (Some r)"
      using chain_pred [of "next_of s" "rq_head s q" ws r t vs] find_chain_eq [OF C] C snoc by simp
    let ?s0 = "upd_task r (\<lambda>x. x\<lparr>t_next := t_next (tasks s t)\<rparr>) s"
    let ?s1 = "if rq_tail s q = Some t then ?s0\<lparr>rq_tail := (rq_tail s)(q := Some r)\<rparr> else ?s0"
    let ?s = "upd_task t (\<lambda>x. x\<lparr>t_next := None\<rparr>) ?s1"
    have e: "dequeue_task (Some t) s = Some ?s"
      using rng cq hr f by (simp add: dequeue_task_def Let_def)
    have n: "next_of ?s = (next_of s)(r := t_next (tasks s t), t := None)"
      by (auto simp: fun_eq_iff)
    have rt: "r \<noteq> t" using d snoc by auto
    have tl: "rq_tail s q = Some t \<longleftrightarrow> vs = []"
      using rq_invD(2) [OF inv q] spl d by (cases vs rule: rev_cases) (auto simp: tail_of_def)
    have "rq_inv ?s (\<lambda>q. filter (\<lambda>x. x \<noteq> t) (Q q))"
      unfolding rq_inv_def
    proof (intro allI impI conjI)
      fix q' assume q': "q' < NR_QUEUES"
      show "chain (next_of ?s) (rq_head ?s q') (filter (\<lambda>x. x \<noteq> t) (Q q'))"
      proof (cases "q' = q")
        case True
        have "chain ((next_of s)(r := t_next (tasks s t))) (rq_head s q) (ws @ r # vs)"
          using chain_unlink [of "next_of s" "rq_head s q" ws r t vs] C snoc by simp
        then show ?thesis using True d snoc spl filter_neq_append [OF d] rt unfolding n by simp
      next
        case False
        have "r \<notin> set (Q q')" using rq_inv_disjoint [OF inv q q', of r] False spl snoc by auto
        then show ?thesis using False rq_invD(1) [OF inv q'] oth [OF q' False] unfolding n
          by (simp add: filter_neq_notin)
      qed
      show "rq_tail ?s q' = tail_of (filter (\<lambda>x. x \<noteq> t) (Q q'))"
      proof (cases "q' = q")
        case True
        have "rq_tail s q = tail_of (us @ t # vs)" using rq_invD(2) [OF inv q] spl by simp
        then show ?thesis using True tl snoc spl filter_neq_append [OF d]
          by (cases vs rule: rev_cases) (auto simp: tail_of_def)
      next
        case False
        then show ?thesis using rq_invD(2) [OF inv q'] oth [OF q' False] by (simp add: filter_neq_notin)
      qed
      show "\<forall>x \<in> set (filter (\<lambda>x. x \<noteq> t) (Q q')). t_cur_queue (tasks ?s x) = int q'"
        using rq_invD(3) [OF inv q'] by simp
    qed
    with e show ?thesis by (simp add: only_queues_def upd_task_def)
  qed
qed

section \<open>Picking\<close>

text \<open>
  What \<open>pick_next_task\<close> promises of one queue: the first task with CPU quota left is chosen. It and
  the tasks in front of it go to the back; a task that is alone is taken out of the queue.
\<close>

definition spec_pick :: "(nat \<Rightarrow> bool) \<Rightarrow> nat list \<Rightarrow> (nat \<times> nat list) option" where
  "spec_pick dn xs = (case dropWhile dn xs of [] \<Rightarrow> None
     | t # r \<Rightarrow> Some (t, if r @ takeWhile dn xs = [] then [] else r @ takeWhile dn xs @ [t]))"

fun spec_pick_scan :: "(nat \<Rightarrow> bool) \<Rightarrow> nat list \<Rightarrow> (nat \<Rightarrow> nat list) \<Rightarrow> nat option \<times> (nat \<Rightarrow> nat list)" where
  "spec_pick_scan dn [] Q = (None, Q)"
| "spec_pick_scan dn (q # qs) Q = (case spec_pick dn (Q q) of None \<Rightarrow> spec_pick_scan dn qs Q
     | Some (t, xs) \<Rightarrow> (Some t, Q(q := xs)))"

lemma rotate_head_inv:
  assumes inv: "rq_inv s Q" and q: "q < NR_QUEUES" and Q: "Q q = t # xs" "xs \<noteq> []"
  shows "\<exists>s'. rotate_head q t s = Some s' \<and> rq_inv s' (Q(q := xs @ [t])) \<and> only_queues s s'"
proof -
  obtain ys l where l: "xs = ys @ [l]" using Q(2) by (cases xs rule: rev_cases) auto
  have tl: "rq_tail s q = Some l" using rq_invD(2) [OF inv q] Q l by simp
  have C: "chain (next_of s) (t_next (tasks s t)) (ys @ [l])" using rq_invD(1) [OF inv q] Q l by simp
  have d: "distinct (t # ys @ [l])" using rq_invD(4) [OF inv q] Q l by simp
  let ?s = "(upd_task t (\<lambda>x. x\<lparr>t_next := None\<rparr>) (upd_task l (\<lambda>x. x\<lparr>t_next := Some t\<rparr>)
     (s\<lparr>rq_head := (rq_head s)(q := t_next (tasks s t))\<rparr>)))\<lparr>rq_tail := (rq_tail s)(q := Some t)\<rparr>"
  have e: "rotate_head q t s = Some ?s" using tl by (simp add: rotate_head_def Let_def upd_task_def)
  have n: "next_of ?s = (next_of s)(t := None, l := Some t)" using d by (auto simp: fun_eq_iff)
  have "rq_inv ?s (Q(q := xs @ [t]))"
    unfolding rq_inv_def
  proof (intro allI impI conjI)
    fix q' assume q': "q' < NR_QUEUES"
    show "chain (next_of ?s) (rq_head ?s q') ((Q(q := xs @ [t])) q')"
    proof (cases "q' = q")
      case True
      then show ?thesis using chain_snoc [of "next_of s" "t_next (tasks s t)" ys l t] C d l
        unfolding n by simp
    next
      case False
      have "l \<notin> set (Q q')" "t \<notin> set (Q q')"
        using rq_inv_disjoint [OF inv q q', of l] rq_inv_disjoint [OF inv q q', of t] False Q l by auto
      then show ?thesis using False rq_invD(1) [OF inv q'] unfolding n by simp
    qed
    show "rq_tail ?s q' = tail_of ((Q(q := xs @ [t])) q')" using rq_invD(2) [OF inv q'] by simp
    show "\<forall>x \<in> set ((Q(q := xs @ [t])) q'). t_cur_queue (tasks ?s x) = int q'"
    proof
      fix x assume "x \<in> set ((Q(q := xs @ [t])) q')"
      then have "x \<in> set (Q q')" using Q by (cases "q' = q") auto
      then have "t_cur_queue (tasks s x) = int q'" by (rule rq_invD(3) [OF inv q'])
      then show "t_cur_queue (tasks ?s x) = int q'" by auto
    qed
  qed
  moreover have "only_queues s ?s" by (simp add: only_queues_def upd_task_def)
  ultimately show ?thesis using e by simp
qed

lemma skip_done_inv:
  assumes "rq_inv s Q" "q < NR_QUEUES" "Q q = ds @ t # r"
    "\<forall>d \<in> set ds. t_quota_done (tasks s d)" "\<not> t_quota_done (tasks s t)"
  shows "\<exists>s'. skip_done q (hd (ds @ [t])) s = Some (t, s') \<and> rq_inv s' (Q(q := t # r @ ds)) \<and> only_queues s s'"
  using assms
proof (induction ds arbitrary: s Q r)
  case Nil
  then show ?case by (subst skip_done.simps) (auto simp: fun_upd_idem)
next
  case (Cons d ds)
  obtain s1 where s1: "rotate_head q d s = Some s1" "rq_inv s1 (Q(q := (ds @ t # r) @ [d]))" "only_queues s s1"
    using rotate_head_inv [of s Q q d "ds @ t # r"] Cons.prems by auto
  obtain s2 where s2: "skip_done q (hd (ds @ [t])) s1 = Some (t, s2)"
      "rq_inv s2 (Q(q := t # (r @ [d]) @ ds))" "only_queues s1 s2"
    using Cons.IH [OF s1(2) Cons.prems(2), of "r @ [d]"] Cons.prems(4,5) only_queues_task(1) [OF s1(3)]
    by (simp only: fun_upd_same append.assoc append.simps simp_thms fun_upd_upd set_simps ball_simps) blast
  have h: "rq_head s1 q = Some (hd (ds @ [t]))"
    using rq_inv_head [OF s1(2) Cons.prems(2)] by (cases ds) auto
  have "skip_done q d s = Some (t, s2)"
    using s1(1) s2(1) h Cons.prems(4) by (subst skip_done.simps) simp
  with s2(2) only_queues_trans [OF s1(3) s2(3)] show ?case
    by (simp only: append.simps append.assoc list.sel) blast
qed

lemma take_head_inv:
  assumes inv: "rq_inv s Q" and q: "q < NR_QUEUES" and Q: "Q q = t # xs"
  shows "\<exists>s'. take_head q t s = Some (Some t, s') \<and> only_queues s s' \<and>
     rq_inv s' (Q(q := if xs = [] then [] else xs @ [t]))"
proof (cases "xs = []")
  case True
  have "t_next (tasks s t) = None" using rq_invD(1) [OF inv q] Q True by simp
  then show ?thesis using inv True
    by (auto simp: take_head_def rq_inv_def only_queues_def)
next
  case False
  have "t_next (tasks s t) \<noteq> None" using rq_invD(1) [OF inv q] Q False by (cases xs) auto
  then show ?thesis using rotate_head_inv [OF inv q Q False] False by (auto simp: take_head_def)
qed

lemma pick_queue_inv:
  assumes inv: "rq_inv s Q" and q: "q < NR_QUEUES"
  shows "\<exists>s'. only_queues s s' \<and> (case spec_pick (\<lambda>t. t_quota_done (tasks s t)) (Q q) of
       None \<Rightarrow> pick_queue q s = Some (None, s) | Some (t, xs) \<Rightarrow>
         pick_queue q s = Some (Some t, s') \<and> rq_inv s' (Q(q := xs)))"
proof (cases "Q q")
  case Nil
  then show ?thesis using rq_inv_head [OF inv q]
    by (simp add: spec_pick_def pick_queue_def) (blast intro: only_queues_refl)
next
  case (Cons t xs)
  let ?dn = "\<lambda>t. t_quota_done (tasks s t)"
  have h: "rq_head s q = Some t" using rq_inv_head [OF inv q] Cons by simp
  show ?thesis
  proof (cases "?dn t")
    case False
    then show ?thesis using take_head_inv [OF inv q Cons] h Cons
      by (auto simp: spec_pick_def pick_queue_def)
  next
    case True
    have f: "find_chain (next_of s) (\<lambda>r. \<not> ?dn r) (Some t) = Some (find (\<lambda>r. \<not> ?dn r) (Q q))"
      using find_chain_eq [OF rq_invD(1) [OF inv q]] h by simp
    have fd: "find (\<lambda>r. \<not> ?dn r) (Q q) = (case dropWhile ?dn (Q q) of [] \<Rightarrow> None | u # _ \<Rightarrow> Some u)"
      by (simp add: find_dropWhile comp_def)
    show ?thesis
    proof (cases "dropWhile ?dn (Q q)")
      case Nil
      have "pick_queue q s = Some (None, s)" using f fd h True unfolding Nil by (simp add: pick_queue_def)
      moreover have "spec_pick ?dn (Q q) = None" unfolding spec_pick_def Nil by simp
      ultimately show ?thesis by (simp only: option.case) (blast intro: only_queues_refl)
    next
      case (Cons u r)
      define ds where "ds = takeWhile ?dn (Q q)"
      have spl: "Q q = ds @ u # r" using takeWhile_dropWhile_id [of ?dn "Q q"] Cons ds_def by simp
      have un: "\<not> ?dn u" using Cons by (metis hd_dropWhile list.distinct(1) list.sel(1))
      have dd: "\<forall>d \<in> set ds. ?dn d" unfolding ds_def by (auto dest: set_takeWhileD)
      have ne: "ds \<noteq> []" using spl \<open>Q q = t # xs\<close> True un by (cases ds) auto
      have hd: "hd (ds @ [u]) = t" using spl \<open>Q q = t # xs\<close> ne by (cases ds) auto
      obtain s1 where s1: "skip_done q t s = Some (u, s1)" "rq_inv s1 (Q(q := u # r @ ds))" "only_queues s s1"
        using skip_done_inv [OF inv q spl dd un] hd by auto
      obtain s2 where s2: "take_head q u s1 = Some (Some u, s2)" "only_queues s1 s2"
          "rq_inv s2 (Q(q := (r @ ds) @ [u]))"
        using take_head_inv [OF s1(2) q, of u "r @ ds"] ne by auto
      have "pick_queue q s = Some (Some u, s2)"
        using f fd h True s1 s2 Cons by (simp add: pick_queue_def)
      moreover have "spec_pick ?dn (Q q) = Some (u, (r @ ds) @ [u])"
        using Cons ne by (simp add: spec_pick_def ds_def)
      ultimately show ?thesis using s2(3) only_queues_trans [OF s1(3) s2(2)] by auto
    qed
  qed
qed

lemma pick_scan_inv:
  assumes "rq_inv s Q" "set qs \<subseteq> {..<NR_QUEUES}"
  shows "\<exists>s'. pick_scan qs s = Some (fst (spec_pick_scan (\<lambda>t. t_quota_done (tasks s t)) qs Q), s') \<and>
     only_queues s s' \<and> rq_inv s' (snd (spec_pick_scan (\<lambda>t. t_quota_done (tasks s t)) qs Q))"
  using assms(2)
proof (induction qs)
  case Nil
  then show ?case using assms(1) by auto
next
  case (Cons q qs)
  then show ?case using pick_queue_inv [OF assms(1), of q]
    by (auto split: option.splits prod.splits)
qed

text \<open>The choice is the first task with quota left, in queue order; \<open>peek_next_task\<close> makes the same one.\<close>

definition runnable :: "'a sched_state_scheme \<Rightarrow> nat \<Rightarrow> bool" where
  "runnable s t \<longleftrightarrow> \<not> t_quota_done (tasks s t)"

lemma find_append_case: "find P (xs @ ys) = (case find P xs of None \<Rightarrow> find P ys | Some x \<Rightarrow> Some x)"
  by (induction xs) auto

lemma find_spec_pick: "find (\<lambda>t. \<not> dn t) xs = map_option fst (spec_pick dn xs)"
proof (cases "dropWhile dn xs")
  case Nil
  show ?thesis unfolding spec_pick_def find_dropWhile comp_def not_not Nil by simp
next
  case (Cons t r)
  show ?thesis unfolding spec_pick_def find_dropWhile comp_def not_not Cons by simp
qed

lemma spec_pick_scan_find:
  "fst (spec_pick_scan dn qs Q) = find (\<lambda>t. \<not> dn t) (concat (map Q qs))"
proof (induction qs)
  case Nil
  then show ?case by simp
next
  case (Cons q qs)
  then show ?case
    by (cases "spec_pick dn (Q q)") (auto simp: find_append_case find_spec_pick [of dn "Q q"])
qed

lemma spec_pick_set:
  assumes "spec_pick dn xs = Some (t, ys)"
  shows "t \<in> set xs" "ys = [] \<and> xs = [t] \<or> set ys = set xs" "\<not> dn t"
proof -
  obtain r where r: "dropWhile dn xs = t # r"
      and ys: "ys = (if r @ takeWhile dn xs = [] then [] else r @ takeWhile dn xs @ [t])"
    using assms by (auto simp: spec_pick_def split: list.splits)
  have x: "xs = takeWhile dn xs @ t # r" using r takeWhile_dropWhile_id [of dn xs] by simp
  then show "t \<in> set xs" by (metis in_set_conv_decomp)
  have "set xs = set (takeWhile dn xs) \<union> insert t (set r)" by (subst x) auto
  moreover have "xs = [t]" if "r @ takeWhile dn xs = []" using that by (subst x) auto
  ultimately show "ys = [] \<and> xs = [t] \<or> set ys = set xs" using ys by auto
  show "\<not> dn t" using r by (metis hd_dropWhile list.distinct(1) list.sel(1))
qed

lemma spec_pick_scan_cases:
  assumes "spec_pick_scan dn qs Q = (r, Q')"
  shows "r = None \<and> Q' = Q \<and> (\<forall>q \<in> set qs. \<forall>t \<in> set (Q q). dn t) \<or>
    (\<exists>q t xs. q \<in> set qs \<and> r = Some t \<and> spec_pick dn (Q q) = Some (t, xs) \<and> Q' = Q(q := xs))"
  using assms
proof (induction qs)
  case Nil
  then show ?case by simp
next
  case (Cons q qs)
  show ?case
  proof (cases "spec_pick dn (Q q)")
    case None
    then have "\<forall>t \<in> set (Q q). dn t"
      using find_spec_pick [of dn "Q q"] by (simp add: find_None_iff)
    then show ?thesis using Cons None by auto
  next
    case (Some p)
    then obtain t xs where "spec_pick dn (Q q) = Some (t, xs)" by (cases p) auto
    then have "q \<in> set (q # qs) \<and> r = Some t \<and> spec_pick dn (Q q) = Some (t, xs) \<and> Q' = Q(q := xs)"
      using Cons.prems by simp
    then show ?thesis by blast
  qed
qed

text \<open>Only the picked task can leave the queues.\<close>

lemma spec_pick_scan_queued:
  assumes sp: "spec_pick_scan dn qs Q = (r, Q')" and qs: "set qs \<subseteq> {..<NR_QUEUES}"
  shows "queued Q' \<subseteq> queued Q" "\<And>t. t \<in> queued Q \<Longrightarrow> r \<noteq> Some t \<Longrightarrow> t \<in> queued Q'"
    "\<And>t. r = Some t \<Longrightarrow> t \<in> queued Q \<and> \<not> dn t"
proof -
  have "queued Q' \<subseteq> queued Q \<and> (\<forall>t. t \<in> queued Q \<longrightarrow> r \<noteq> Some t \<longrightarrow> t \<in> queued Q') \<and>
    (\<forall>t. r = Some t \<longrightarrow> t \<in> queued Q \<and> \<not> dn t)"
  proof (cases r)
    case None
    then show ?thesis using spec_pick_scan_cases [OF sp] by auto
  next
    case (Some t)
    then obtain q xs where q: "q \<in> set qs" "spec_pick dn (Q q) = Some (t, xs)" "Q' = Q(q := xs)"
      using spec_pick_scan_cases [OF sp] by auto
    have qn: "q < NR_QUEUES" using q(1) qs by auto
    note p = spec_pick_set [OF q(2)]
    have xs: "set xs \<subseteq> set (Q q)" "set (Q q) \<subseteq> insert t (set xs)" using p by auto
    have "queued Q' \<subseteq> queued Q"
      unfolding queued_def q(3) using xs(1) qn by (fastforce split: if_splits)
    moreover have "u \<in> queued Q'" if u: "u \<in> queued Q" "u \<noteq> t" for u
    proof -
      obtain q' where q': "q' < NR_QUEUES" "u \<in> set (Q q')" using u(1) by (rule queuedE)
      then have "u \<in> set (Q' q')" using xs(2) u(2) unfolding q(3) by (cases "q' = q") auto
      then show ?thesis by (rule queuedI [OF q'(1)])
    qed
    ultimately show ?thesis using Some p queuedI [of q t Q, OF qn] by auto
  qed
  then show "queued Q' \<subseteq> queued Q" "\<And>t. t \<in> queued Q \<Longrightarrow> r \<noteq> Some t \<Longrightarrow> t \<in> queued Q'"
    "\<And>t. r = Some t \<Longrightarrow> t \<in> queued Q \<and> \<not> dn t" by blast+
qed

lemma peek_scan_eq:
  assumes "rq_inv s Q" "set qs \<subseteq> {..<NR_QUEUES}"
  shows "peek_scan qs s = Some (find (\<lambda>t. \<not> t_quota_done (tasks s t)) (concat (map Q qs)))"
  using assms(2)
proof (induction qs)
  case Nil
  then show ?case by simp
next
  case (Cons q qs)
  then show ?case using find_chain_eq [OF rq_invD(1) [OF assms(1), of q]]
    by (auto simp: find_append_case split: option.split)
qed

lemma pick_next_task_inv:
  assumes "rq_inv s Q"
  obtains s' Q' r where "pick_next_task s = Some (r, s')" "only_queues s s'" "rq_inv s' Q'"
    "spec_pick_scan (\<lambda>t. t_quota_done (tasks s t)) [0..<NR_QUEUES] Q = (r, Q')"
    "peek_next_task s = Some r"
proof -
  have sub: "set [0..<NR_QUEUES] \<subseteq> {..<NR_QUEUES}" by (simp only: set_upt) auto
  let ?sp = "spec_pick_scan (\<lambda>t. t_quota_done (tasks s t)) [0..<NR_QUEUES] Q"
  obtain s' where s': "pick_next_task s = Some (fst ?sp, s')" "only_queues s s'" "rq_inv s' (snd ?sp)"
    using pick_scan_inv [OF assms sub] unfolding pick_next_task_def by blast
  have "peek_next_task s = Some (fst ?sp)"
    unfolding peek_next_task_def spec_pick_scan_find by (rule peek_scan_eq [OF assms sub])
  with s' show thesis by (intro that) auto
qed

section \<open>Moving a task between queues\<close>

lemma queued_remove: "queued (\<lambda>q. filter (\<lambda>x. x \<noteq> t) (Q q)) = queued Q - {t}"
  unfolding queued_def by auto

lemma queued_append:
  assumes "q < NR_QUEUES"
  shows "queued (Q(q := Q q @ [t])) = insert t (queued Q)"
  using assms unfolding queued_def by (auto split: if_splits)

text \<open>A task in a queue that waits for the CPU is in the queue of its tier and MLFQ level.\<close>

definition placed :: "'a sched_state_scheme \<Rightarrow> (nat \<Rightarrow> nat list) \<Rightarrow> bool" where
  "placed s Q \<longleftrightarrow> (\<forall>t \<in> queued Q. current_task s \<noteq> Some t \<longrightarrow>
     t_state (tasks s t) = TASK_READY \<and> t_cur_queue (tasks s t) = int (task_qidx (Some t) s))"

lemma enqueue_task_cur_queue:
  "t_cur_queue (tasks (enqueue_task (Some t) s) t) = int (task_qidx (Some t) s)"
  by (auto simp: enqueue_task_def Let_def split: option.split)

lemma enqueue_task_cur_queue_other:
  "u \<noteq> t \<Longrightarrow> t_cur_queue (tasks (enqueue_task (Some t) s) u) = t_cur_queue (tasks s u)"
  by (auto simp: enqueue_task_def Let_def split: option.split)

lemma only_queues_qidx: "only_queues s s' \<Longrightarrow> task_qidx (Some t) s' = task_qidx (Some t) s"
  by (simp add: task_qidx_def only_queues_fields)

lemma requeue_inv:
  assumes inv: "rq_inv s Q"
  shows "\<exists>s1 Q'. dequeue_task (Some t) s = Some s1 \<and> only_queues s s1 \<and>
    rq_inv (enqueue_task (Some t) (upd_task t f s1)) Q' \<and> queued Q' = insert t (queued Q) \<and>
    (\<forall>u. u \<noteq> t \<longrightarrow> u \<in> queued Q \<longrightarrow> t_cur_queue (tasks s1 u) = t_cur_queue (tasks s u))"
proof -
  let ?F = "\<lambda>q. filter (\<lambda>x. x \<noteq> t) (Q q)"
  obtain s1 where s1: "dequeue_task (Some t) s = Some s1" "rq_inv s1 ?F" "only_queues s s1"
    using dequeue_task_inv [OF inv] by blast
  have tn: "t \<notin> queued ?F" by (simp add: queued_remove)
  let ?q = "task_qidx (Some t) (upd_task t f s1)"
  have "rq_inv (enqueue_task (Some t) (upd_task t f s1)) (?F(?q := ?F ?q @ [t]))"
    by (rule enqueue_task_inv [OF rq_inv_upd_task_notin [OF s1(2) tn] tn])
  moreover have "queued (?F(?q := ?F ?q @ [t])) = insert t (queued Q)"
    using queued_append [of ?q ?F t, OF task_qidx_bound] by (simp add: queued_remove)
  moreover have "t_cur_queue (tasks s1 u) = t_cur_queue (tasks s u)" if u: "u \<noteq> t" "u \<in> queued Q" for u
  proof -
    obtain q where q: "q < NR_QUEUES" "u \<in> set (Q q)" using u(2) by (rule queuedE)
    then show ?thesis using rq_invD(3) [OF inv q] rq_invD(3) [OF s1(2) q(1), of u] u(1) by simp
  qed
  ultimately show ?thesis using s1(1,3) by blast
qed

lemma task_set_tier_alt:
  "task_set_tier (Some t) tr s =
     (if task_qidx (Some t) s \<noteq> task_qidx (Some t) (upd_task t (\<lambda>x. x\<lparr>t_tier := tr\<rparr>) s) \<and>
         t_state (tasks s t) = TASK_READY \<and> current_task s \<noteq> Some t
      then Option.bind (dequeue_task (Some t) s)
             (\<lambda>s. Some (enqueue_task (Some t) (upd_task t (\<lambda>x. x\<lparr>t_tier := tr\<rparr>) s)))
      else Some (upd_task t (\<lambda>x. x\<lparr>t_tier := tr\<rparr>) s))"
proof -
  have "task_qidx (Some t) (upd_task t (\<lambda>x. x\<lparr>t_tier := tr\<rparr>) s) =
      (if tr = TIER_USER then nat (2 + clamp2 (t_mlfq_level (tasks s t))) else tier_to_queue_idx tr)"
    by (simp add: task_qidx_def)
  then show ?thesis by (simp only: task_set_tier_def Let_def option.case)
qed

lemma task_set_tier_inv:
  assumes inv: "rq_inv s Q"
  shows "\<exists>s' Q'. task_set_tier (Some t) tr s = Some s' \<and> rq_inv s' Q' \<and> t_tier (tasks s' t) = tr \<and>
     queued Q \<subseteq> queued Q' \<and> queued Q' \<subseteq> insert t (queued Q)"
proof (cases "task_qidx (Some t) s \<noteq> task_qidx (Some t) (upd_task t (\<lambda>x. x\<lparr>t_tier := tr\<rparr>) s) \<and>
    t_state (tasks s t) = TASK_READY \<and> current_task s \<noteq> Some t")
  case True
  obtain s1 Q' where s1: "dequeue_task (Some t) s = Some s1" "only_queues s s1"
      "rq_inv (enqueue_task (Some t) (upd_task t (\<lambda>x. x\<lparr>t_tier := tr\<rparr>) s1)) Q'"
      "queued Q' = insert t (queued Q)"
    using requeue_inv [OF inv, of t "\<lambda>x. x\<lparr>t_tier := tr\<rparr>"] by blast
  have "task_set_tier (Some t) tr s = Some (enqueue_task (Some t) (upd_task t (\<lambda>x. x\<lparr>t_tier := tr\<rparr>) s1))"
    unfolding task_set_tier_alt if_P [OF True] s1(1) by simp
  moreover have "t_tier (tasks (enqueue_task (Some t) (upd_task t (\<lambda>x. x\<lparr>t_tier := tr\<rparr>) s1)) t) = tr"
    by (simp add: only_queues_task(2) [OF enqueue_task_frame])
  ultimately show ?thesis using s1(3,4) by auto
next
  case False
  have "task_set_tier (Some t) tr s = Some (upd_task t (\<lambda>x. x\<lparr>t_tier := tr\<rparr>) s)"
    unfolding task_set_tier_alt if_not_P [OF False] ..
  moreover have "rq_inv (upd_task t (\<lambda>x. x\<lparr>t_tier := tr\<rparr>) s) Q" by (rule rq_inv_upd_task [OF inv]) simp_all
  ultimately show ?thesis by auto
qed

text \<open>
  \<open>task_set_mlfq_level\<close> changes the level of one task and the queue pointers, nothing else.
\<close>

lemma task_set_mlfq_level_inv:
  assumes inv: "rq_inv s Q"
  shows "\<exists>s' Q'. task_set_mlfq_level (Some t) l s = Some s' \<and> rq_inv s' Q' \<and>
     only_queues (upd_task t (\<lambda>x. x\<lparr>t_mlfq_level := clamp2 l\<rparr>) s) s' \<and>
     queued Q \<subseteq> queued Q' \<and> queued Q' \<subseteq> insert t (queued Q)"
proof (cases "t_mlfq_level (tasks s t) = clamp2 l")
  case True
  then have "upd_task t (\<lambda>x. x\<lparr>t_mlfq_level := clamp2 l\<rparr>) s = s"
    by (simp add: upd_task_def fun_upd_idem flip: True)
  then show ?thesis using True inv by (auto simp: task_set_mlfq_level_def)
next
  case False
  let ?u = "upd_task t (\<lambda>x. x\<lparr>t_mlfq_level := clamp2 l\<rparr>) s"
  have inv': "rq_inv ?u Q" by (rule rq_inv_upd_task [OF inv]) simp_all
  obtain s1 Q' where s1: "dequeue_task (Some t) ?u = Some s1" "only_queues ?u s1"
      "rq_inv (enqueue_task (Some t) (upd_task t (\<lambda>x. x) s1)) Q'" "queued Q' = insert t (queued Q)"
    using requeue_inv [OF inv', of t "\<lambda>x. x"] by blast
  have i: "upd_task t (\<lambda>x. x) s1 = s1" by (simp add: upd_task_def)
  have "task_set_mlfq_level (Some t) l s = Some ?u \<or>
      task_set_mlfq_level (Some t) l s = Some (enqueue_task (Some t) s1)"
    using False s1(1) by (simp add: task_set_mlfq_level_def Let_def)
  then show ?thesis
    using s1 inv' only_queues_trans [OF s1(2) enqueue_task_frame] unfolding i by auto
qed

text \<open>The tasks that the aging pass promotes by one level.\<close>

definition ages :: "task \<Rightarrow> bool" where
  "ages x \<longleftrightarrow> t_in_use x \<and> t_tier x = TIER_USER \<and> 0 < t_mlfq_level x \<and> \<not> t_quota_done x \<and>
     (t_state x = TASK_READY \<or> t_state x = TASK_RUNNING)"

definition aged_level :: "task \<Rightarrow> int" where
  "aged_level x = (if ages x then clamp2 (t_mlfq_level x - 1) else t_mlfq_level x)"

lemma task_mlfq_aging_inv:
  assumes "rq_inv s Q"
  shows "\<exists>s' Q'. task_mlfq_aging s = Some s' \<and> rq_inv s' Q' \<and> queued Q \<subseteq> queued Q' \<and>
     current_task s' = current_task s \<and>
     (\<forall>i. t_mlfq_level (tasks s' i) = (if i < MAX_TASKS then aged_level (tasks s i) else t_mlfq_level (tasks s i)))"
proof -
  let ?f = "\<lambda>i s. if ages (tasks s i) then task_set_mlfq_level (Some i) (t_mlfq_level (tasks s i) - 1) s else Some s"
  have step: "\<exists>s' Q'. fold_opt ?f [0..<n] s = Some s' \<and> rq_inv s' Q' \<and> queued Q \<subseteq> queued Q' \<and>
     current_task s' = current_task s \<and>
     (\<forall>i. t_mlfq_level (tasks s' i) = (if i < n then aged_level (tasks s i) else t_mlfq_level (tasks s i))) \<and>
     (\<forall>i \<ge> n. ages (tasks s' i) = ages (tasks s i))" for n
  proof (induction n)
    case 0
    then show ?case using assms by auto
  next
    case (Suc n)
    then obtain s1 Q1 where s1: "fold_opt ?f [0..<n] s = Some s1" "rq_inv s1 Q1" "queued Q \<subseteq> queued Q1"
        "current_task s1 = current_task s"
        "\<And>i. t_mlfq_level (tasks s1 i) = (if i < n then aged_level (tasks s i) else t_mlfq_level (tasks s i))"
        "\<And>i. i \<ge> n \<Longrightarrow> ages (tasks s1 i) = ages (tasks s i)"
      by auto
    obtain s2 Q2 where s2: "task_set_mlfq_level (Some n) (t_mlfq_level (tasks s1 n) - 1) s1 = Some s2"
        "rq_inv s2 Q2" "queued Q1 \<subseteq> queued Q2"
        "only_queues (upd_task n (\<lambda>x. x\<lparr>t_mlfq_level := clamp2 (t_mlfq_level (tasks s1 n) - 1)\<rparr>) s1) s2"
      using task_set_mlfq_level_inv [OF s1(2)] by blast
    show ?case
    proof (cases "ages (tasks s n)")
      case False
      then show ?thesis using s1 by (auto simp: less_Suc_eq aged_level_def)
    next
      case True
      have "fold_opt ?f [0..<Suc n] s = Some s2" using True s1(1,6) s2(1) by simp
      moreover have "ages (tasks s2 i) = ages (tasks s i)" if "i \<ge> Suc n" for i
        using that s1(6) [of i] by (simp add: ages_def only_queues_fields [OF s2(4)])
      moreover have "t_mlfq_level (tasks s2 i) =
          (if i < Suc n then aged_level (tasks s i) else t_mlfq_level (tasks s i))" for i
        using s1(5) [of i] True by (auto simp: only_queues_fields [OF s2(4)] less_Suc_eq aged_level_def)
      moreover have "current_task s2 = current_task s" using s1(4) only_queues_state(1) [OF s2(4)] by simp
      moreover have "queued Q \<subseteq> queued Q2" using s1(3) s2(3) by (rule subset_trans)
      ultimately show ?thesis using s2(2) by blast
    qed
  qed
  have "task_mlfq_aging s = fold_opt ?f [0..<MAX_TASKS] s"
    by (simp only: task_mlfq_aging_def ages_def conj_ac)
  with step [of MAX_TASKS] show ?thesis by auto
qed

section \<open>The contract of the run queues\<close>

text \<open>
  What the scheduler, the locks and the exit path rely on: \<open>enqueue\<close> of a task that is in no queue
  appends it to the queue of its index, and \<open>dequeue\<close> of any task returns and deletes it.
\<close>

locale run_queue =
  fixes inv :: "'s \<Rightarrow> (nat \<Rightarrow> nat list) \<Rightarrow> bool"
    and enq :: "nat \<Rightarrow> 's \<Rightarrow> 's"
    and deq :: "nat \<Rightarrow> 's \<Rightarrow> 's option"
    and qidx :: "nat \<Rightarrow> 's \<Rightarrow> nat"
  assumes qidx_bound: "qidx t s < NR_QUEUES"
    and enq_law: "inv s Q \<Longrightarrow> t \<notin> queued Q \<Longrightarrow> inv (enq t s) (Q(qidx t s := Q (qidx t s) @ [t]))"
    and deq_law: "inv s Q \<Longrightarrow> \<exists>s'. deq t s = Some s' \<and> inv s' (\<lambda>q. filter (\<lambda>x. x \<noteq> t) (Q q))"
begin

lemma enq_deq:
  assumes "inv s Q" "t \<notin> queued Q"
  shows "\<exists>s' Q'. deq t (enq t s) = Some s' \<and> inv s' Q' \<and> (\<forall>q < NR_QUEUES. Q' q = Q q)"
proof -
  let ?Q = "Q(qidx t s := Q (qidx t s) @ [t])"
  obtain s' where s': "deq t (enq t s) = Some s'" "inv s' (\<lambda>q. filter (\<lambda>x. x \<noteq> t) (?Q q))"
    using deq_law [OF enq_law [OF assms]] by blast
  have "filter (\<lambda>x. x \<noteq> t) (?Q q) = Q q" if "q < NR_QUEUES" for q
    using not_queued [OF assms(2) that] by (auto simp: filter_neq_notin)
  with s' show ?thesis by blast
qed

lemma deq_twice:
  assumes "inv s Q"
  shows "\<exists>s1 s2. deq t s = Some s1 \<and> deq t s1 = Some s2 \<and> inv s2 (\<lambda>q. filter (\<lambda>x. x \<noteq> t) (Q q))"
proof -
  obtain s1 where s1: "deq t s = Some s1" "inv s1 (\<lambda>q. filter (\<lambda>x. x \<noteq> t) (Q q))"
    using deq_law [OF assms] by blast
  obtain s2 where "deq t s1 = Some s2" "inv s2 (\<lambda>q. filter (\<lambda>x. x \<noteq> t) (filter (\<lambda>x. x \<noteq> t) (Q q)))"
    using deq_law [OF s1(2)] by blast
  with s1(1) show ?thesis by simp
qed

lemma deq_enq_any:
  assumes "inv s Q"
  shows "\<exists>s1 Q'. deq t s = Some s1 \<and> inv (enq t s1) Q' \<and> queued Q' = insert t (queued Q)"
proof -
  let ?F = "\<lambda>q. filter (\<lambda>x. x \<noteq> t) (Q q)"
  obtain s1 where s1: "deq t s = Some s1" "inv s1 ?F" using deq_law [OF assms] by blast
  have "t \<notin> queued ?F" by (simp add: queued_remove)
  from enq_law [OF s1(2) this] queued_append [of "qidx t s1" ?F t, OF qidx_bound] s1(1)
  show ?thesis by (auto simp: queued_remove)
qed

end

interpretation rq: run_queue rq_inv "\<lambda>t. enqueue_task (Some t)" "\<lambda>t. dequeue_task (Some t)"
    "\<lambda>t. task_qidx (Some t)"
proof unfold_locales
  show "\<exists>s'. dequeue_task (Some t) s = Some s' \<and> rq_inv s' (\<lambda>q. filter (\<lambda>x. x \<noteq> t) (Q q))"
    if "rq_inv s Q" for s :: "'a sched_state_scheme" and Q t
    using dequeue_task_inv [OF that] by blast
qed (use task_qidx_bound enqueue_task_inv in auto)

section \<open>Properties\<close>

text \<open>A state with three queued tasks, the first of them out of quota.\<close>

definition three_ready :: sched_state where
  "three_ready = \<lparr>tasks = (\<lambda>_. zero_task)(
       0 := zero_task\<lparr>t_in_use := True, t_tier := TIER_USER, t_mlfq_level := 1, t_state := TASK_READY,
              t_cur_queue := 3, t_next := Some 1, t_quota_done := True\<rparr>,
       1 := zero_task\<lparr>t_in_use := True, t_tier := TIER_USER, t_mlfq_level := 1, t_state := TASK_READY,
              t_cur_queue := 3, t_next := Some 2\<rparr>,
       2 := zero_task\<lparr>t_in_use := True, t_tier := TIER_USER, t_mlfq_level := 1, t_state := TASK_READY,
              t_cur_queue := 3\<rparr>),
     pid_counter = 4, current_task = None, rq_head = (\<lambda>_. None)(3 := Some 0),
     rq_tail = (\<lambda>_. None)(3 := Some 2), tss_stack = None, cr3 = 0, kernel_pd = 0x100000\<rparr>"

definition three_queues :: "nat \<Rightarrow> nat list" where
  "three_queues = (\<lambda>_. [])(3 := [0, 1, 2])"

lemma three_ready_inv: "rq_inv three_ready three_queues"
  by (simp add: rq_inv_def numeral_eq_Suc All_less_Suc three_ready_def three_queues_def zero_task_def tail_of_def)

lemma queued_three: "queued three_queues = {0, 1, 2}"
proof -
  have "{..<NR_QUEUES} = {0, 1, 2, 3, 4}" by auto
  then show ?thesis by (auto simp: queued_def three_queues_def)
qed

text \<open>
  C15: \<open>pick_next_task\<close> returns on well-formed queues. It chooses the first task, in the order of the
  queues, that has CPU quota left, which is the task \<open>peek_next_task\<close> announces, and it changes the
  five linked lists as the list specification says: the tasks in front of the chosen one and the
  chosen one go to the back of their queue, a task alone in its queue leaves it.
\<close>

theorem pick_next_task_refines:
  assumes "rq_inv s Q"
  shows "\<exists>s' r Q'. pick_next_task s = Some (r, s') \<and> peek_next_task s = Some r \<and>
    r = find (\<lambda>t. \<not> t_quota_done (tasks s t)) (concat (map Q [0..<NR_QUEUES])) \<and>
    spec_pick_scan (\<lambda>t. t_quota_done (tasks s t)) [0..<NR_QUEUES] Q = (r, Q') \<and> rq_inv s' Q'"
proof -
  obtain s' Q' r where p: "pick_next_task s = Some (r, s')" "rq_inv s' Q'" "peek_next_task s = Some r"
    "spec_pick_scan (\<lambda>t. t_quota_done (tasks s t)) [0..<NR_QUEUES] Q = (r, Q')"
    using assms by (rule pick_next_task_inv)
  moreover have "r = find (\<lambda>t. \<not> t_quota_done (tasks s t)) (concat (map Q [0..<NR_QUEUES]))"
    using p(4) spec_pick_scan_find by (metis fst_conv)
  ultimately show ?thesis by blast
qed

lemma pick_next_task_refines_witness:
  "\<exists>s'. pick_next_task three_ready = Some (Some 1, s') \<and> rq_inv s' ((\<lambda>_. [])(3 := [2, 0, 1]))"
proof -
  have sp: "spec_pick_scan (\<lambda>t. t_quota_done (tasks three_ready t)) [0..<NR_QUEUES] three_queues =
      (Some 1, (\<lambda>_. [])(3 := [2, 0, 1]))"
    by (simp add: upt_conv_Cons numeral_eq_Suc three_queues_def spec_pick_def three_ready_def zero_task_def
        fun_eq_iff)
  show ?thesis using pick_next_task_refines [OF three_ready_inv] unfolding sp by auto
qed

text \<open>
  C16: Enqueueing a task that is in no queue and dequeueing it again leaves the five queues as they were.
\<close>

theorem enqueue_dequeue_roundtrip:
  assumes "rq_inv s Q" "t \<notin> queued Q"
  shows "\<exists>s' Q'. dequeue_task (Some t) (enqueue_task (Some t) s) = Some s' \<and> rq_inv s' Q' \<and>
    (\<forall>q < NR_QUEUES. Q' q = Q q)"
  using assms by (rule rq.enq_deq)

lemma enqueue_dequeue_roundtrip_witness:
  "\<exists>s' Q'. dequeue_task (Some 7) (enqueue_task (Some 7) three_ready) = Some s' \<and> rq_inv s' Q' \<and> Q' 3 = [0, 1, 2]"
proof -
  obtain s' Q' where s': "dequeue_task (Some 7) (enqueue_task (Some 7) three_ready) = Some s'" "rq_inv s' Q'"
      "\<forall>q < NR_QUEUES. Q' q = three_queues q"
    using enqueue_dequeue_roundtrip [OF three_ready_inv, of 7] unfolding queued_three by auto
  then have "Q' 3 = [0, 1, 2]" by (simp add: three_queues_def)
  with s' show ?thesis by blast
qed

text \<open>
  The aging pass returns, keeps the queues well formed and loses no queued task, and it
  promotes exactly the USER tasks that are ready or running, below the top level and within their
  quota, each by one level; the level of every other task is unchanged.
\<close>

theorem task_mlfq_aging_promotes:
  assumes "rq_inv s Q"
  shows "\<exists>s' Q'. task_mlfq_aging s = Some s' \<and> rq_inv s' Q' \<and> queued Q \<subseteq> queued Q' \<and>
    (\<forall>i. t_mlfq_level (tasks s' i) =
       (if i < MAX_TASKS then aged_level (tasks s i) else t_mlfq_level (tasks s i)))"
  using task_mlfq_aging_inv [OF assms] by blast

lemma task_mlfq_aging_promotes_witness:
  "\<exists>s' Q'. task_mlfq_aging three_ready = Some s' \<and> rq_inv s' Q' \<and> {0, 1, 2} \<subseteq> queued Q' \<and>
    t_mlfq_level (tasks s' 0) = 1 \<and> t_mlfq_level (tasks s' 1) = 0 \<and> t_mlfq_level (tasks s' 2) = 0"
proof -
  obtain s' Q' where s': "task_mlfq_aging three_ready = Some s'" "rq_inv s' Q'" "queued three_queues \<subseteq> queued Q'"
    "\<And>i. t_mlfq_level (tasks s' i) =
       (if i < MAX_TASKS then aged_level (tasks three_ready i) else t_mlfq_level (tasks three_ready i))"
    using task_mlfq_aging_promotes [OF three_ready_inv] by blast
  have "aged_level (tasks three_ready 0) = 1" "aged_level (tasks three_ready 1) = 0"
    "aged_level (tasks three_ready 2) = 0"
    by (simp_all add: aged_level_def ages_def three_ready_def zero_task_def clamp2_def)
  then show ?thesis using s' by (auto simp: queued_three)
qed

end
