(* ===== verification/Sched.thy ===== *)
theory Sched
  imports Task_Queues
begin

text \<open>
  The scheduler of \<open>kernel/sched.c\<close> and \<open>yield\<close>. A context switch is its effect on the kernel's
  data: \<open>current_task\<close>, the state and timeslice of the next task, the TSS kernel stack and CR3. The
  register exchange of \<open>switch_to\<close> is not part of the state: the step that \<open>schedule\<close> computes ends
  where \<open>switch_to\<close> resumes the next task.
\<close>

section \<open>Model\<close>

definition tier_timeslice :: "task \<Rightarrow> int" where
  "tier_timeslice t = (case t_tier t of TIER_KERNEL \<Rightarrow> 1 | TIER_SYSTEM \<Rightarrow> 2 | TIER_CRITICAL \<Rightarrow> 2
     | TIER_USER \<Rightarrow> 3 - clamp2 (t_mlfq_level t))"

definition set_task_timeslice :: "nat \<Rightarrow> 'a sched_state_scheme \<Rightarrow> 'a sched_state_scheme" where
  "set_task_timeslice i = upd_task i (\<lambda>x. x\<lparr>t_timeslice := tier_timeslice x\<rparr>)"

definition switch_to_task :: "nat \<Rightarrow> nat \<Rightarrow> 'a sched_state_scheme \<Rightarrow> 'a sched_state_scheme" where
  "switch_to_task prev nxt s =
     (let s = s\<lparr>current_task := Some nxt\<rparr>;
          s = upd_task nxt (\<lambda>x. x\<lparr>t_state := TASK_RUNNING\<rparr>) s;
          s = set_task_timeslice nxt s
      in s\<lparr>tss_stack := Some nxt, cr3 := t_cr3 (tasks s nxt)\<rparr>)"

text \<open>\<open>cand = pick_next_task(); if (!cand) cand = idle_ref();\<close>\<close>

definition pick_or_idle :: "'a sched_state_scheme \<Rightarrow> (nat \<times> 'a sched_state_scheme) option" where
  "pick_or_idle s = do {
     (c, s) \<leftarrow> pick_next_task s;
     Some (case c of None \<Rightarrow> idle_ref | Some c \<Rightarrow> c, s)
   }"

definition schedule :: "'a sched_state_scheme \<Rightarrow> 'a sched_state_scheme option" where
  "schedule s = (case current_task s of None \<Rightarrow> Some s | Some prev \<Rightarrow>
     if prev = idle_ref then do {
       (cand, s) \<leftarrow> pick_next_task s;
       Some (case cand of None \<Rightarrow> s | Some c \<Rightarrow> switch_to_task prev c s)
     }
     else if t_state (tasks s prev) = TASK_EXITED then do {
       (cand, s) \<leftarrow> pick_or_idle s;
       Some (switch_to_task prev cand s)
     }
     else if t_state (tasks s prev) = TASK_WAITING then do {
       s \<leftarrow> dequeue_task (Some prev) s;
       (cand, s) \<leftarrow> pick_or_idle s;
       Some (switch_to_task prev cand s)
     }
     else do {
       s \<leftarrow> dequeue_task (Some prev) s;
       let prev_q = task_qidx (Some prev) s;
       let s = (if t_timeslice (tasks s prev) > 0
                then upd_task prev (\<lambda>x. x\<lparr>t_timeslice := t_timeslice x - 1\<rparr>) s else s);
       cand \<leftarrow> peek_next_task s;
       if (case cand of None \<Rightarrow> False | Some c \<Rightarrow> task_qidx (Some c) s < prev_q) then do {
         let s = enqueue_task (Some prev) (upd_task prev (\<lambda>x. x\<lparr>t_state := TASK_READY\<rparr>) s);
         (cand, s) \<leftarrow> pick_or_idle s;
         Some (switch_to_task prev cand s)
       }
       else if t_timeslice (tasks s prev) \<le> 0 then do {
         let s = enqueue_task (Some prev) (upd_task prev (\<lambda>x. x\<lparr>t_state := TASK_READY\<rparr>) s);
         (cand, s) \<leftarrow> pick_or_idle s;
         if cand = prev then do {
           (lower, s) \<leftarrow> pick_next_lower (prev_q + 1) s;
           case lower of
             Some l \<Rightarrow> Some (switch_to_task prev l (enqueue_task (Some prev) s))
           | None \<Rightarrow> Some (set_task_timeslice prev s)
         }
         else Some (switch_to_task prev cand s)
       }
       else Some s
     })"

definition yield :: "'a sched_state_scheme \<Rightarrow> 'a sched_state_scheme option" where
  "yield s = (case current_task s of None \<Rightarrow> Some s | Some c \<Rightarrow> do {
     s \<leftarrow> (if t_tier (tasks s c) = TIER_USER then
             (let s = upd_task c (\<lambda>x. x\<lparr>t_mlfq_cont_ticks := 0\<rparr>) s in
              if t_mlfq_level (tasks s c) > 0 then task_set_mlfq_level (Some c) 0 s else Some s)
           else Some s);
     schedule (upd_task c (\<lambda>x. x\<lparr>t_state := TASK_READY\<rparr>) s)
   })"

section \<open>Queues under the scheduler\<close>

lemma rq_inv_switch_to_task:
  assumes "rq_inv s Q"
  shows "rq_inv (switch_to_task p c s) Q"
  by (rule rq_inv_cong [OF assms]) (auto simp: switch_to_task_def set_task_timeslice_def Let_def)

lemma switch_to_task_current [simp]: "current_task (switch_to_task p c s) = Some c"
  by (simp add: switch_to_task_def set_task_timeslice_def Let_def)

lemma set_task_timeslice_inv: "rq_inv s Q \<Longrightarrow> rq_inv (set_task_timeslice i s) Q"
  unfolding set_task_timeslice_def by (rule rq_inv_upd_task) simp_all

lemma upt_queues: "set [m..<NR_QUEUES] \<subseteq> {..<NR_QUEUES}"
  by (simp only: set_upt) auto

lemma pick_next_lower_inv:
  assumes "rq_inv s Q"
  obtains s' Q' r where "pick_next_lower m s = Some (r, s')" "only_queues s s'" "rq_inv s' Q'"
    "spec_pick_scan (\<lambda>t. t_quota_done (tasks s t)) [m..<NR_QUEUES] Q = (r, Q')"
  using pick_scan_inv [OF assms upt_queues [of m]] unfolding pick_next_lower_def
  by (metis prod.collapse)

lemma pick_or_idle_inv:
  assumes inv: "rq_inv s Q" and idle: "idle_ref \<notin> queued Q"
  obtains s' Q' c where "pick_or_idle s = Some (c, s')" "only_queues s s'" "rq_inv s' Q'"
    "queued Q' \<subseteq> queued Q" "\<And>t. t \<in> queued Q \<Longrightarrow> t \<noteq> c \<Longrightarrow> t \<in> queued Q'"
    "spec_pick_scan (\<lambda>t. t_quota_done (tasks s t)) [0..<NR_QUEUES] Q =
       (if c = idle_ref then None else Some c, Q')"
proof -
  obtain s' Q' r where p: "pick_next_task s = Some (r, s')" "only_queues s s'" "rq_inv s' Q'"
    "spec_pick_scan (\<lambda>t. t_quota_done (tasks s t)) [0..<NR_QUEUES] Q = (r, Q')"
    using inv by (rule pick_next_task_inv)
  note q = spec_pick_scan_queued [OF p(4) upt_queues]
  show thesis
  proof (cases r)
    case None
    then show ?thesis using p q by (intro that [of idle_ref s' Q']) (auto simp: pick_or_idle_def)
  next
    case (Some c)
    then have "c \<noteq> idle_ref" using q(3) idle by auto
    then show ?thesis using Some p q by (intro that [of c s' Q']) (auto simp: pick_or_idle_def)
  qed
qed

text \<open>
  When the scheduler's own task is the choice and no other task of its queue is out of quota, it was
  alone in its queue, which the pick has emptied.
\<close>

lemma pick_self_alone:
  assumes inv: "rq_inv s Q" and q: "q < NR_QUEUES"
    and Q: "Q q = xs @ [p]" and nd: "\<forall>u \<in> set xs. \<not> dn u"
    and sp: "spec_pick_scan dn [0..<NR_QUEUES] Q = (Some p, Q')"
  shows "p \<notin> queued Q'"
proof -
  obtain q' ys where q': "q' < NR_QUEUES" "spec_pick dn (Q q') = Some (p, ys)" "Q' = Q(q' := ys)"
    using spec_pick_scan_cases [OF sp] by (auto simp del: upt_conv_Cons)
  have pq: "p \<in> set (Q q)" using Q by simp
  have qq: "q' = q" using rq_inv_disjoint [OF inv q'(1) q spec_pick_set(1) [OF q'(2)] pq] .
  have d: "p \<notin> set xs" using rq_invD(4) [OF inv q] Q by simp
  have "xs = []"
  proof (cases xs)
    case (Cons x zs)
    then have "spec_pick dn (Q q) = Some (x, zs @ [p] @ [x])" using Q nd by (simp add: spec_pick_def)
    then show ?thesis using q'(2) qq d Cons by simp
  qed simp
  then have "ys = []" using q'(2) qq Q by (auto simp: spec_pick_def split: if_splits)
  then have "\<forall>k < NR_QUEUES. p \<notin> set (Q' k)"
    using q'(3) qq rq_inv_disjoint [OF inv q _ pq] by (auto split: if_splits)
  then show ?thesis by (blast elim: queuedE)
qed

text \<open>After a scheduling step every task of \<open>keep\<close> runs or waits in a queue.\<close>

definition sched_post :: "nat set \<Rightarrow> 'a sched_state_scheme \<Rightarrow> bool" where
  "sched_post keep s' \<longleftrightarrow> (\<exists>Q' c. rq_inv s' Q' \<and> idle_ref \<notin> queued Q' \<and> current_task s' = Some c \<and>
     keep \<subseteq> insert c (queued Q'))"

lemma sched_postI:
  "rq_inv s' Q' \<Longrightarrow> idle_ref \<notin> queued Q' \<Longrightarrow> current_task s' = Some c \<Longrightarrow> keep \<subseteq> insert c (queued Q') \<Longrightarrow>
     sched_post keep s'"
  unfolding sched_post_def by blast

lemma pick_switch_post:
  assumes "rq_inv s Q" "idle_ref \<notin> queued Q" "keep \<subseteq> queued Q"
  shows "\<exists>s'. Option.bind (pick_or_idle s) (\<lambda>(c, s). Some (switch_to_task p c s)) = Some s' \<and>
    sched_post keep s'"
proof -
  obtain s1 Q1 c where p: "pick_or_idle s = Some (c, s1)" "rq_inv s1 Q1" "queued Q1 \<subseteq> queued Q"
    "\<And>t. t \<in> queued Q \<Longrightarrow> t \<noteq> c \<Longrightarrow> t \<in> queued Q1"
    using pick_or_idle_inv [OF assms(1,2)] by metis
  have "sched_post keep (switch_to_task p c s1)"
    by (rule sched_postI [OF rq_inv_switch_to_task [OF p(2)]]) (use p assms in auto)
  then show ?thesis using p(1) by simp
qed

text \<open>The tasks a scheduling step must not lose: those queued, and the running one unless it blocks or exits.\<close>

definition must_keep :: "'a sched_state_scheme \<Rightarrow> (nat \<Rightarrow> nat list) \<Rightarrow> nat \<Rightarrow> nat set" where
  "must_keep s Q prev =
     (if prev = idle_ref then queued Q
      else if t_state (tasks s prev) \<in> {TASK_EXITED, TASK_WAITING} then queued Q - {prev}
      else insert prev (queued Q))"

definition quota_free :: "'a sched_state_scheme \<Rightarrow> (nat \<Rightarrow> nat list) \<Rightarrow> nat \<Rightarrow> bool" where
  "quota_free s Q prev \<longleftrightarrow> list_all (\<lambda>u. u = prev \<or> \<not> t_quota_done (tasks s u)) (Q (task_qidx (Some prev) s))"

lemma expired_post:
  assumes inv: "rq_inv s Q" and idle: "idle_ref \<notin> queued Q" and pq: "p \<notin> queued Q" "p \<noteq> idle_ref"
    and cur: "current_task s = Some p"
    and nd: "\<forall>u \<in> set (Q (task_qidx (Some p) s)). \<not> t_quota_done (tasks s u)"
  defines "q \<equiv> task_qidx (Some p) s"
  shows "\<exists>s'. Option.bind (pick_or_idle (enqueue_task (Some p) s)) (\<lambda>(cand, s).
       if cand = p then Option.bind (pick_next_lower (q + 1) s) (\<lambda>(lower, s). case lower of
             Some l \<Rightarrow> Some (switch_to_task p l (enqueue_task (Some p) s))
           | None \<Rightarrow> Some (set_task_timeslice p s))
       else Some (switch_to_task p cand s)) = Some s' \<and> sched_post (insert p (queued Q)) s'"
proof -
  let ?s1 = "enqueue_task (Some p) s" and ?Q1 = "Q(q := Q q @ [p])"
  have q: "q < NR_QUEUES" unfolding q_def by (rule task_qidx_bound)
  have i1: "rq_inv ?s1 ?Q1" unfolding q_def by (rule enqueue_task_inv [OF inv pq(1)])
  have Q1: "queued ?Q1 = insert p (queued Q)" by (rule queued_append [OF q])
  have id1: "idle_ref \<notin> queued ?Q1" unfolding Q1 using idle pq(2) by blast
  obtain s2 Q2 c where p2: "pick_or_idle ?s1 = Some (c, s2)" "only_queues ?s1 s2" "rq_inv s2 Q2"
    "queued Q2 \<subseteq> queued ?Q1" "\<And>t. t \<in> queued ?Q1 \<Longrightarrow> t \<noteq> c \<Longrightarrow> t \<in> queued Q2"
    "spec_pick_scan (\<lambda>t. t_quota_done (tasks ?s1 t)) [0..<NR_QUEUES] ?Q1 =
       (if c = idle_ref then None else Some c, Q2)"
    using pick_or_idle_inv [OF i1 id1] by metis
  show ?thesis
  proof (cases "c = p")
    case False
    have "sched_post (insert p (queued Q)) (switch_to_task p c s2)"
      by (rule sched_postI [OF rq_inv_switch_to_task [OF p2(3)]]) (use p2 Q1 id1 in auto)
    then show ?thesis using p2(1) False by simp
  next
    case True
    have pn: "p \<notin> queued Q2"
    proof (rule pick_self_alone [OF i1 q])
      show "(Q(q := Q q @ [p])) q = Q q @ [p]" by simp
      show "\<forall>u \<in> set (Q q). \<not> t_quota_done (tasks ?s1 u)"
        using nd by (simp add: q_def only_queues_task(1) [OF enqueue_task_frame])
      show "spec_pick_scan (\<lambda>t. t_quota_done (tasks ?s1 t)) [0..<NR_QUEUES] ?Q1 = (Some p, Q2)"
        using p2(6) True pq(2) by simp
    qed
    obtain s3 Q3 r where p3: "pick_next_lower (q + 1) s2 = Some (r, s3)" "only_queues s2 s3" "rq_inv s3 Q3"
      "spec_pick_scan (\<lambda>t. t_quota_done (tasks s2 t)) [q + 1..<NR_QUEUES] Q2 = (r, Q3)"
      using p2(3) by (rule pick_next_lower_inv)
    note q3 = spec_pick_scan_queued [OF p3(4) upt_queues]
    have id3: "idle_ref \<notin> queued Q3" using q3(1) p2(4) id1 by blast
    have keep: "insert p (queued Q) \<subseteq> insert p (queued Q2)" using p2(5) True Q1 by blast
    show ?thesis
    proof (cases r)
      case None
      have "Q3 = Q2" using spec_pick_scan_cases [OF p3(4)] None by auto
      moreover have "current_task (set_task_timeslice p s3) = Some p"
        using cur only_queues_state(1) [OF p3(2)] only_queues_state(1) [OF p2(2)]
          only_queues_state(1) [OF enqueue_task_frame [of s "Some p"]]
        by (simp add: set_task_timeslice_def)
      ultimately have "sched_post (insert p (queued Q)) (set_task_timeslice p s3)"
        using sched_postI [OF set_task_timeslice_inv [OF p3(3)] id3] keep by auto
      then show ?thesis using p2(1) p3(1) True None by simp
    next
      case (Some l)
      have p3n: "p \<notin> queued Q3" using q3(1) pn by blast
      let ?Q4 = "Q3(task_qidx (Some p) s3 := Q3 (task_qidx (Some p) s3) @ [p])"
      have i4: "rq_inv (enqueue_task (Some p) s3) ?Q4" by (rule enqueue_task_inv [OF p3(3) p3n])
      have Q4: "queued ?Q4 = insert p (queued Q3)" by (rule queued_append [OF task_qidx_bound])
      have "sched_post (insert p (queued Q)) (switch_to_task p l (enqueue_task (Some p) s3))"
      proof (rule sched_postI [OF rq_inv_switch_to_task [OF i4]])
        show "idle_ref \<notin> queued ?Q4" unfolding Q4 using id3 pq(2) by blast
        show "insert p (queued Q) \<subseteq> insert l (queued ?Q4)" unfolding Q4 using keep q3(2) Some by blast
      qed simp
      then show ?thesis using p2(1) p3(1) True Some by simp
    qed
  qed
qed

definition spend_tick :: "nat \<Rightarrow> 'a sched_state_scheme \<Rightarrow> 'a sched_state_scheme" where
  "spend_tick p s = (if t_timeslice (tasks s p) > 0
     then upd_task p (\<lambda>x. x\<lparr>t_timeslice := t_timeslice x - 1\<rparr>) s else s)"

text \<open>\<open>schedule\<close> for a task that runs on.\<close>

lemma schedule_running:
  assumes "current_task s = Some p" "p \<noteq> idle_ref"
    "t_state (tasks s p) \<noteq> TASK_EXITED" "t_state (tasks s p) \<noteq> TASK_WAITING"
    "dequeue_task (Some p) s = Some s1"
  shows "schedule s =
     (let q = task_qidx (Some p) s1; s2 = spend_tick p s1;
          s3 = enqueue_task (Some p) (upd_task p (\<lambda>x. x\<lparr>t_state := TASK_READY\<rparr>) s2)
      in Option.bind (peek_next_task s2) (\<lambda>cand.
        if (case cand of None \<Rightarrow> False | Some c \<Rightarrow> task_qidx (Some c) s2 < q)
        then Option.bind (pick_or_idle s3) (\<lambda>(c, s). Some (switch_to_task p c s))
        else if t_timeslice (tasks s2 p) \<le> 0 then
          Option.bind (pick_or_idle s3) (\<lambda>(cand, s).
            if cand = p then Option.bind (pick_next_lower (q + 1) s) (\<lambda>(lower, s). case lower of
                 Some l \<Rightarrow> Some (switch_to_task p l (enqueue_task (Some p) s))
               | None \<Rightarrow> Some (set_task_timeslice p s))
            else Some (switch_to_task p cand s))
        else Some s2))"
  using assms unfolding schedule_def spend_tick_def by (simp only: option.case if_False bind.bind_lunit Let_def)

lemma spend_tick_fields [simp]:
  "task_qidx (Some t) (spend_tick p s) = task_qidx (Some t) s"
  "t_quota_done (tasks (spend_tick p s) t) = t_quota_done (tasks s t)"
  "current_task (spend_tick p s) = current_task s"
  by (auto simp: spend_tick_def task_qidx_def)

lemma schedule_post:
  assumes inv: "rq_inv s Q" and idle: "idle_ref \<notin> queued Q" and cur: "current_task s = Some p"
    and nd: "quota_free s Q p"
  shows "\<exists>s'. schedule s = Some s' \<and> sched_post (must_keep s Q p) s'"
proof (cases "p = idle_ref")
  case True
  obtain s1 Q1 r where pk: "pick_next_task s = Some (r, s1)" "only_queues s s1" "rq_inv s1 Q1"
    "spec_pick_scan (\<lambda>t. t_quota_done (tasks s t)) [0..<NR_QUEUES] Q = (r, Q1)"
    using inv by (rule pick_next_task_inv)
  note q = spec_pick_scan_queued [OF pk(4) upt_queues]
  have id1: "idle_ref \<notin> queued Q1" using q(1) idle by blast
  have mk: "must_keep s Q p = queued Q" using True by (simp add: must_keep_def)
  show ?thesis
  proof (cases r)
    case None
    have "sched_post (queued Q) s1"
      using sched_postI [OF pk(3) id1, of p] q(2) None only_queues_state(1) [OF pk(2)] cur by auto
    then show ?thesis using pk(1) True None cur mk by (simp add: schedule_def)
  next
    case (Some c)
    have "sched_post (queued Q) (switch_to_task p c s1)"
      using sched_postI [OF rq_inv_switch_to_task [OF pk(3)] id1, of p c c "queued Q"] q(2) Some by auto
    then show ?thesis using pk(1) True Some cur mk by (simp add: schedule_def)
  qed
next
  case False
  let ?F = "\<lambda>q. filter (\<lambda>x. x \<noteq> p) (Q q)"
  obtain s1 where s1: "dequeue_task (Some p) s = Some s1" "rq_inv s1 ?F" "only_queues s s1"
    using dequeue_task_inv [OF inv] by blast
  have F: "queued ?F = queued Q - {p}" by (rule queued_remove)
  have idF: "idle_ref \<notin> queued ?F" using idle F by simp
  consider "t_state (tasks s p) = TASK_EXITED" | "t_state (tasks s p) = TASK_WAITING"
    | "t_state (tasks s p) \<noteq> TASK_EXITED" "t_state (tasks s p) \<noteq> TASK_WAITING" by blast
  then show ?thesis
  proof cases
    case 1
    then have "schedule s = Option.bind (pick_or_idle s) (\<lambda>(c, s). Some (switch_to_task p c s))"
      using cur False by (simp add: schedule_def)
    then show ?thesis using pick_switch_post [OF inv idle, of "must_keep s Q p" p] 1 False
      by (auto simp: must_keep_def)
  next
    case 2
    then have "schedule s = Option.bind (pick_or_idle s1) (\<lambda>(c, s). Some (switch_to_task p c s))"
      using cur False s1(1) by (simp add: schedule_def)
    then show ?thesis using pick_switch_post [OF s1(2) idF, of "must_keep s Q p" p] 2 False F
      by (auto simp: must_keep_def)
  next
    case 3
    have mk: "must_keep s Q p = insert p (queued ?F)" using 3 False F by (auto simp: must_keep_def)
    let ?s2 = "spend_tick p s1"
    have i2: "rq_inv ?s2 ?F" unfolding spend_tick_def using s1(2) by (auto intro: rq_inv_upd_task)
    let ?u = "upd_task p (\<lambda>x. x\<lparr>t_state := TASK_READY\<rparr>) ?s2"
    have iu: "rq_inv ?u ?F" by (rule rq_inv_upd_task [OF i2]) simp_all
    have pF: "p \<notin> queued ?F" using F by simp
    have c2: "current_task ?s2 = Some p" using cur only_queues_state(1) [OF s1(3)] by simp
    have qu: "task_qidx (Some p) ?u = task_qidx (Some p) s1"
      by (simp add: task_qidx_def spend_tick_def)
    have qs: "task_qidx (Some p) s1 = task_qidx (Some p) s" by (rule only_queues_qidx [OF s1(3)])
    have ndu: "\<forall>u \<in> set (?F (task_qidx (Some p) ?u)). \<not> t_quota_done (tasks ?u u)"
      using nd unfolding qu qs quota_free_def list_all_iff by (auto simp: only_queues_task(1) [OF s1(3)])
    let ?s3 = "enqueue_task (Some p) ?u"
    let ?Q3 = "?F(task_qidx (Some p) ?u := ?F (task_qidx (Some p) ?u) @ [p])"
    have i3: "rq_inv ?s3 ?Q3" by (rule enqueue_task_inv [OF iu pF])
    have Q3: "queued ?Q3 = insert p (queued ?F)" by (rule queued_append [OF task_qidx_bound])
    have id3: "idle_ref \<notin> queued ?Q3" unfolding Q3 using idF False by blast
    obtain cand where pe: "peek_next_task ?s2 = Some cand" using i2 by (rule pick_next_task_inv)
    have ex: "\<exists>s'. Option.bind (pick_or_idle ?s3) (\<lambda>(cand, s).
            if cand = p then Option.bind (pick_next_lower (task_qidx (Some p) s1 + 1) s) (\<lambda>(lower, s). case lower of
                 Some l \<Rightarrow> Some (switch_to_task p l (enqueue_task (Some p) s))
               | None \<Rightarrow> Some (set_task_timeslice p s))
            else Some (switch_to_task p cand s)) = Some s' \<and> sched_post (insert p (queued ?F)) s'"
      using expired_post [OF iu idF pF False _ ndu] c2 unfolding qu by simp
    have pr: "\<exists>s'. Option.bind (pick_or_idle ?s3) (\<lambda>(c, s). Some (switch_to_task p c s)) = Some s' \<and>
        sched_post (insert p (queued ?F)) s'"
      by (rule pick_switch_post [OF i3 id3]) (simp only: Q3 order_refl)
    have run: "sched_post (insert p (queued ?F)) ?s2" by (rule sched_postI [OF i2 idF c2 order_refl])
    show ?thesis
      unfolding schedule_running [OF cur False 3 s1(1)] Let_def pe bind.bind_lunit mk
      using ex pr run by (simp only: split: if_split) blast
  qed
qed


section \<open>What a scheduling step leaves alone\<close>

lemma dequeue_task_frame: "dequeue_task p s = Some s' \<Longrightarrow> only_queues s s'"
  by (auto simp: dequeue_task_def Let_def only_queues_def upd_task_def
      split: option.splits if_splits Option.bind_splits)

lemma rotate_head_frame: "rotate_head q t s = Some s' \<Longrightarrow> only_queues s s'"
  by (auto simp: rotate_head_def Let_def only_queues_def upd_task_def split: option.splits)

lemma skip_done_frame: "skip_done q t s = Some r \<Longrightarrow> only_queues s (snd r)"
proof (rule skip_done.raw_induct [of "\<lambda>q t s r. only_queues s (snd r)", rotated])
  fix f q t s and r :: "nat \<times> 'a sched_state_scheme"
  assume IH: "\<And>q t (s :: 'a sched_state_scheme) r. f q t s = Some r \<Longrightarrow> only_queues s (snd r)"
    and e: "(if t_quota_done (tasks s t) then
        Option.bind (rotate_head q t s) (\<lambda>s. case rq_head s q of None \<Rightarrow> None | Some t' \<Rightarrow> f q t' s)
      else Some (t, s)) = Some r"
  show "only_queues s (snd r)"
  proof (cases "t_quota_done (tasks s t)")
    case True
    then obtain s1 t' where "rotate_head q t s = Some s1" "f q t' s1 = Some r"
      using e by (auto split: Option.bind_splits option.splits)
    then show ?thesis using rotate_head_frame IH only_queues_trans by blast
  qed (use e in auto)
qed

lemma take_head_frame:
  assumes "take_head q t s = Some r"
  shows "only_queues s (snd r)"
proof (cases "t_next (tasks s t) = None")
  case True
  then show ?thesis using assms by (auto simp: take_head_def only_queues_def)
next
  case False
  then show ?thesis using assms rotate_head_frame [of q t s]
    by (auto simp: take_head_def split: Option.bind_splits)
qed

lemma pick_queue_frame:
  assumes "pick_queue q s = Some r"
  shows "only_queues s (snd r)"
proof (cases "rq_head s q")
  case None
  then show ?thesis using assms by (auto simp: pick_queue_def)
next
  case (Some t)
  show ?thesis
  proof (cases "t_quota_done (tasks s t)")
    case False
    then have "take_head q t s = Some r" using assms Some by (simp add: pick_queue_def)
    then show ?thesis by (rule take_head_frame)
  next
    case True
    then obtain found where f: "find_chain (next_of s) (\<lambda>r. \<not> t_quota_done (tasks s r)) (Some t) = Some found"
      using assms Some by (cases "find_chain (next_of s) (\<lambda>r. \<not> t_quota_done (tasks s r)) (Some t)")
        (simp_all add: pick_queue_def)
    show ?thesis
    proof (cases found)
      case None
      then show ?thesis using assms Some True f by (auto simp: pick_queue_def)
    next
      case (Some u)
      then obtain t' s1 where "skip_done q t s = Some (t', s1)" "take_head q t' s1 = Some r"
        using assms \<open>rq_head s q = Some t\<close> True f
        by (cases "skip_done q t s") (auto simp: pick_queue_def)
      then show ?thesis using skip_done_frame [of q t s] take_head_frame [of q t' s1] only_queues_trans [of s s1]
        by simp
    qed
  qed
qed

lemma pick_scan_frame: "pick_scan qs s = Some r \<Longrightarrow> only_queues s (snd r)"
proof (induction qs arbitrary: s)
  case Nil
  then show ?case by auto
next
  case (Cons q qs)
  then obtain c s1 where 1: "pick_queue q s = Some (c, s1)" by (auto split: Option.bind_splits)
  note f = pick_queue_frame [OF 1, unfolded snd_conv]
  show ?case
  proof (cases c)
    case None
    then show ?thesis using Cons 1 f only_queues_trans by auto
  next
    case (Some t)
    then show ?thesis using Cons.prems 1 f by auto
  qed
qed

text \<open>Only the queue links, the state and the timeslice of a task change; of the rest, what a switch sets.\<close>

definition sched_frame :: "'a sched_state_scheme \<Rightarrow> 'a sched_state_scheme \<Rightarrow> bool" where
  "sched_frame s s' \<longleftrightarrow>
     (\<forall>i. tasks s' i = (tasks s i)\<lparr>t_next := t_next (tasks s' i), t_cur_queue := t_cur_queue (tasks s' i),
                          t_state := t_state (tasks s' i), t_timeslice := t_timeslice (tasks s' i)\<rparr>) \<and>
     pid_counter s' = pid_counter s \<and> kernel_pd s' = kernel_pd s \<and>
     sched_state.more s' = sched_state.more s"

lemma sched_frame_refl [simp]: "sched_frame s s"
  by (simp add: sched_frame_def)

lemma sched_frame_trans [trans]:
  assumes a: "sched_frame s s'" and b: "sched_frame s' s''"
  shows "sched_frame s s''"
proof -
  have "tasks s'' i = (tasks s i)\<lparr>t_next := t_next (tasks s'' i), t_cur_queue := t_cur_queue (tasks s'' i),
                          t_state := t_state (tasks s'' i), t_timeslice := t_timeslice (tasks s'' i)\<rparr>" for i
    using a [unfolded sched_frame_def, THEN conjunct1, rule_format, of i]
      b [unfolded sched_frame_def, THEN conjunct1, rule_format, of i]
    by (cases "tasks s i"; cases "tasks s' i"; cases "tasks s'' i") (simp only: task.update_convs task.simps)
  then show ?thesis using a b by (simp add: sched_frame_def)
qed

lemma only_queues_sched_frame:
  assumes "only_queues s s'"
  shows "sched_frame s s'"
proof -
  have "tasks s' i = (tasks s i)\<lparr>t_next := t_next (tasks s' i), t_cur_queue := t_cur_queue (tasks s' i),
                          t_state := t_state (tasks s' i), t_timeslice := t_timeslice (tasks s' i)\<rparr>" for i
    using assms [unfolded only_queues_def, THEN conjunct1, rule_format, of i]
    by (cases "tasks s i"; cases "tasks s' i") (simp only: task.update_convs task.simps)
  then show ?thesis using only_queues_state [OF assms] by (simp add: sched_frame_def)
qed

lemma sched_frame_steps:
  "sched_frame s (upd_task p (\<lambda>x. x\<lparr>t_state := st\<rparr>) s)" "sched_frame s (spend_tick p s)"
  "sched_frame s (set_task_timeslice p s)" "sched_frame s (switch_to_task p c s)"
  by (simp_all add: sched_frame_def spend_tick_def set_task_timeslice_def switch_to_task_def Let_def)

lemma sched_frame_queue_ops:
  "sched_frame s (enqueue_task q s)" "dequeue_task q s = Some s' \<Longrightarrow> sched_frame s s'"
  "pick_next_task s = Some (c, s') \<Longrightarrow> sched_frame s s'"
  "pick_next_lower m s = Some (c, s') \<Longrightarrow> sched_frame s s'"
  "pick_or_idle s = Some (d, s') \<Longrightarrow> sched_frame s s'"
  by (rule only_queues_sched_frame;
      auto simp: pick_next_task_def pick_next_lower_def pick_or_idle_def enqueue_task_frame
        dest: dequeue_task_frame pick_scan_frame split: Option.bind_splits)+

lemma if3_cases: "(if a then x else if b then y else z) = v \<Longrightarrow> x = v \<or> y = v \<or> z = v"
  by (auto split: if_splits)

lemma schedule_frame:
  assumes "schedule s = Some s'"
  shows "sched_frame s s'"
proof (cases "current_task s")
  case None
  then show ?thesis using assms by (simp add: schedule_def)
next
  case (Some p)
  note fr = sched_frame_steps sched_frame_queue_ops
  have sw: "sched_frame t s'" if h: "Option.bind (pick_or_idle t) (\<lambda>(c, s). Some (switch_to_task p c s)) = Some s'" for t
  proof -
    obtain c s1 where c: "pick_or_idle t = Some (c, s1)" "s' = switch_to_task p c s1"
      using h by (cases "pick_or_idle t") auto
    show ?thesis unfolding c(2) by (rule sched_frame_trans [OF fr(9) [OF c(1)] fr(4)])
  qed
  consider "p = idle_ref" | "p \<noteq> idle_ref" "t_state (tasks s p) = TASK_EXITED"
    | "p \<noteq> idle_ref" "t_state (tasks s p) = TASK_WAITING"
    | "p \<noteq> idle_ref" "t_state (tasks s p) \<noteq> TASK_EXITED" "t_state (tasks s p) \<noteq> TASK_WAITING" by blast
  then show ?thesis
  proof cases
    case 1
    then obtain c s1 where c: "pick_next_task s = Some (c, s1)"
        "s' = (case c of None \<Rightarrow> s1 | Some d \<Rightarrow> switch_to_task p d s1)"
      using assms Some by (cases "pick_next_task s") (auto simp: schedule_def)
    then show ?thesis using fr(7) [OF c(1)] sched_frame_trans [OF fr(7) [OF c(1)] fr(4)]
      by (cases c) simp_all
  next
    case 2
    then show ?thesis using assms Some sw [of s] by (simp add: schedule_def)
  next
    case 3
    then obtain s1 where "dequeue_task (Some p) s = Some s1"
        "Option.bind (pick_or_idle s1) (\<lambda>(c, s). Some (switch_to_task p c s)) = Some s'"
      using assms Some by (cases "dequeue_task (Some p) s") (auto simp: schedule_def)
    then show ?thesis using sw fr(6) sched_frame_trans by blast
  next
    case 4
    obtain s1 where s1: "dequeue_task (Some p) s = Some s1"
      using assms Some 4 by (cases "dequeue_task (Some p) s") (auto simp: schedule_def)
    let ?s2 = "spend_tick p s1"
    let ?s3 = "enqueue_task (Some p) (upd_task p (\<lambda>x. x\<lparr>t_state := TASK_READY\<rparr>) ?s2)"
    have f2: "sched_frame s ?s2" using fr(2) fr(6) [OF s1] sched_frame_trans by blast
    have f3: "sched_frame s ?s3" using f2 fr(1) fr(5) sched_frame_trans by blast
    note run = assms [unfolded schedule_running [OF Some 4 s1] Let_def]
    obtain cand where cand: "peek_next_task ?s2 = Some cand"
    proof (cases "peek_next_task ?s2")
      case None
      then show ?thesis using run by (simp only: Option.bind.bind_lzero option.distinct)
    qed
    consider "Option.bind (pick_or_idle ?s3) (\<lambda>(c, s). Some (switch_to_task p c s)) = Some s'"
      | "s' = ?s2"
      | "Option.bind (pick_or_idle ?s3) (\<lambda>(cand, s).
            if cand = p then Option.bind (pick_next_lower (task_qidx (Some p) s1 + 1) s) (\<lambda>(lower, s). case lower of
                 Some l \<Rightarrow> Some (switch_to_task p l (enqueue_task (Some p) s))
               | None \<Rightarrow> Some (set_task_timeslice p s))
            else Some (switch_to_task p cand s)) = Some s'"
      using if3_cases [OF run [unfolded cand bind.bind_lunit]] unfolding option.inject by metis
    then show ?thesis
    proof cases
      case 1
      then show ?thesis using sw f3 sched_frame_trans by blast
    next
      case 2
      then show ?thesis using f2 by simp
    next
      case 3
      then obtain c s4 where c: "pick_or_idle ?s3 = Some (c, s4)" by (auto split: Option.bind_splits)
      have f4: "sched_frame s s4" using f3 fr(9) [OF c] sched_frame_trans by blast
      show ?thesis
      proof (cases "c = p")
        case False
        then have "s' = switch_to_task p c s4" using 3 c by simp
        then show ?thesis using sched_frame_trans [OF f4 fr(4)] by simp
      next
        case True
        then obtain r s5 where r: "pick_next_lower (task_qidx (Some p) s1 + 1) s4 = Some (r, s5)"
            "s' = (case r of None \<Rightarrow> set_task_timeslice p s5
                   | Some l \<Rightarrow> switch_to_task p l (enqueue_task (Some p) s5))"
          using 3 c by (cases "pick_next_lower (task_qidx (Some p) s1 + 1) s4") (auto split: option.splits)
        have f5: "sched_frame s s5" by (rule sched_frame_trans [OF f4 fr(8) [OF r(1)]])
        show ?thesis
          using r(2) sched_frame_trans [OF f5 fr(3)] sched_frame_trans [OF sched_frame_trans [OF f5 fr(5)] fr(4)]
          by (cases r) simp_all
      qed
    qed
  qed
qed

section \<open>Preemption\<close>

lemma upt_queue_split: "q \<le> NR_QUEUES \<Longrightarrow> [0..<NR_QUEUES] = [0..<q] @ [q..<NR_QUEUES]"
  using upt_add_eq_append [of 0 q "NR_QUEUES - q"] by (simp only: le_add_diff_inverse add_0)

lemma find_queue_prefix:
  assumes "find P (concat (map F [0..<NR_QUEUES])) = Some c" "c \<in> set (F k)" "k < q" "q < NR_QUEUES"
    "\<And>j. j < q \<Longrightarrow> G j = F j"
  shows "find P (concat (map G [0..<NR_QUEUES])) = Some c"
proof -
  have Pc: "P c" using assms(1) by (auto dest: find_Some_split)
  have sp: "[0..<NR_QUEUES] = [0..<q] @ [q..<NR_QUEUES]" using assms(4) by (intro upt_queue_split) simp
  have "c \<in> set (concat (map F [0..<q]))" using assms(2,3) by auto
  then have "find P (concat (map F [0..<q])) \<noteq> None" using Pc by (auto simp: find_None_iff)
  then have "find P (concat (map F [0..<q])) = Some c"
    using assms(1) unfolding sp by (auto simp: find_append_case)
  moreover have m: "map G [0..<q] = map F [0..<q]" using assms(5) by simp
  ultimately show ?thesis unfolding sp map_append concat_append find_append_case m by simp
qed

lemma pick_or_idle_find:
  assumes "rq_inv s Q" "idle_ref \<notin> queued Q"
    "find (\<lambda>t. \<not> t_quota_done (tasks s t)) (concat (map Q [0..<NR_QUEUES])) = Some c"
  obtains s' where "pick_or_idle s = Some (c, s')"
proof -
  obtain s' Q' d where p: "pick_or_idle s = Some (d, s')"
    "spec_pick_scan (\<lambda>t. t_quota_done (tasks s t)) [0..<NR_QUEUES] Q =
       (if d = idle_ref then None else Some d, Q')"
    using pick_or_idle_inv [OF assms(1,2)] by metis
  have "(if d = idle_ref then None else Some d) = Some c"
    using assms(3) unfolding spec_pick_scan_find [symmetric] p(2) by simp
  then have "d = c" by (auto split: if_splits)
  with p(1) that show thesis by blast
qed

lemma find_filter: "find P (filter R xs) = find (\<lambda>x. R x \<and> P x) xs"
  by (induction xs) auto

lemma schedule_preempt:
  assumes inv: "rq_inv s Q" and idle: "idle_ref \<notin> queued Q" and pl: "placed s Q"
    and cur: "current_task s = Some p" "p \<noteq> idle_ref"
      "t_state (tasks s p) \<noteq> TASK_EXITED" "t_state (tasks s p) \<noteq> TASK_WAITING"
    and c: "find (\<lambda>t. t \<noteq> p \<and> \<not> t_quota_done (tasks s t)) (concat (map Q [0..<NR_QUEUES])) = Some c"
      "task_qidx (Some c) s < task_qidx (Some p) s"
  shows "\<exists>s'. schedule s = Some s' \<and> current_task s' = Some c"
proof -
  let ?F = "\<lambda>q. filter (\<lambda>x. x \<noteq> p) (Q q)"
  obtain s1 where s1: "dequeue_task (Some p) s = Some s1" "rq_inv s1 ?F" "only_queues s s1"
    using dequeue_task_inv [OF inv] by blast
  have F: "queued ?F = queued Q - {p}" by (rule queued_remove)
  let ?s2 = "spend_tick p s1" and ?q = "task_qidx (Some p) s1"
  let ?u = "upd_task p (\<lambda>x. x\<lparr>t_state := TASK_READY\<rparr>) ?s2"
  let ?Q3 = "?F(?q := ?F ?q @ [p])"
  have i2: "rq_inv ?s2 ?F" unfolding spend_tick_def using s1(2) by (auto intro: rq_inv_upd_task)
  have qu: "task_qidx (Some p) ?u = ?q" by (simp add: task_qidx_def spend_tick_def)
  have i3: "rq_inv (enqueue_task (Some p) ?u) ?Q3"
    using enqueue_task_inv [OF rq_inv_upd_task [OF i2, of "\<lambda>x. x\<lparr>t_state := TASK_READY\<rparr>" p], of p] F
    unfolding qu by simp
  have id3: "idle_ref \<notin> queued ?Q3"
    using queued_append [of ?q ?F p, OF task_qidx_bound] F idle cur(2) by simp
  have ff: "concat (map ?F qs) = filter (\<lambda>x. x \<noteq> p) (concat (map Q qs))" for qs
    by (induction qs) auto
  have fc: "find (\<lambda>t. \<not> t_quota_done (tasks s t)) (concat (map ?F [0..<NR_QUEUES])) = Some c"
    using c(1) unfolding ff find_filter by simp
  have qd: "t_quota_done (tasks (enqueue_task (Some p) ?u) t) = t_quota_done (tasks s t)" for t
    by (simp add: only_queues_task(1) [OF enqueue_task_frame] only_queues_task(1) [OF s1(3)])
  have cq: "c \<in> set (concat (map Q [0..<NR_QUEUES]))" "c \<noteq> p"
    using find_Some_split [OF c(1)] by (metis in_set_conv_decomp)+
  then obtain k where k: "k < NR_QUEUES" "c \<in> set (Q k)" by (auto simp del: upt_conv_Cons)
  have "t_cur_queue (tasks s c) = int (task_qidx (Some c) s)"
    using pl queuedI [of k c Q, OF k] cq(2) cur(1) unfolding placed_def by auto
  then have kq: "k = task_qidx (Some c) s" using rq_invD(3) [OF inv k] by simp
  have qs: "?q = task_qidx (Some p) s" by (rule only_queues_qidx [OF s1(3)])
  have "find (\<lambda>t. \<not> t_quota_done (tasks (enqueue_task (Some p) ?u) t)) (concat (map ?Q3 [0..<NR_QUEUES])) = Some c"
    unfolding qd by (rule find_queue_prefix [OF fc, of k ?q]) (use k kq c(2) qs cq task_qidx_bound in auto)
  then obtain s4 where s4: "pick_or_idle (enqueue_task (Some p) ?u) = Some (c, s4)"
    by (rule pick_or_idle_find [OF i3 id3])
  have "peek_next_task ?s2 = Some (Some c)"
    using peek_scan_eq [OF i2 upt_queues [of 0]] fc
    by (simp only: peek_next_task_def spend_tick_fields only_queues_task(1) [OF s1(3)])
  moreover have "task_qidx (Some c) ?s2 < ?q" using c(2) qs only_queues_qidx [OF s1(3)] by simp
  ultimately have "schedule s = Some (switch_to_task p c s4)"
    unfolding schedule_running [OF cur s1(1)] Let_def by (simp add: s4)
  then show ?thesis by simp
qed

section \<open>Properties\<close>

text \<open>A boot-time scheduler state: no task, empty queues.\<close>

definition sched0 :: sched_state where
  "sched0 = \<lparr>tasks = (\<lambda>_. zero_task), pid_counter = 1, current_task = None, rq_head = (\<lambda>_. None),
     rq_tail = (\<lambda>_. None), tss_stack = None, cr3 = 0, kernel_pd = 0x100000\<rparr>"

text \<open>
  A shell (task 0, running, last tick of its slice), a second SYSTEM task whose quota is spent or
  not (task 1) and a USER task (task 2).
\<close>

definition trio :: "bool \<Rightarrow> sched_state" where
  "trio dn = sched0\<lparr>
     tasks := (\<lambda>_. zero_task)(
       0 := zero_task\<lparr>t_in_use := True, t_tier := TIER_SYSTEM, t_timeslice := 1, t_cur_queue := -1\<rparr>,
       1 := zero_task\<lparr>t_in_use := True, t_tier := TIER_SYSTEM, t_state := TASK_READY, t_cur_queue := 1,
                      t_quota_done := dn\<rparr>,
       2 := zero_task\<lparr>t_in_use := True, t_tier := TIER_USER, t_state := TASK_READY, t_cur_queue := 2\<rparr>),
     current_task := Some 0,
     rq_head := (\<lambda>_. None)(1 := Some 1, 2 := Some 2), rq_tail := (\<lambda>_. None)(1 := Some 1, 2 := Some 2)\<rparr>"

definition trio_queues :: "nat \<Rightarrow> nat list" where
  "trio_queues = (\<lambda>_. [])(1 := [1], 2 := [2])"

lemma trio_inv: "rq_inv (trio dn) trio_queues"
  by (simp add: rq_inv_def numeral_eq_Suc All_less_Suc trio_def trio_queues_def sched0_def zero_task_def tail_of_def)

lemma queued_trio: "queued trio_queues = {1, 2}"
proof -
  have "{..<NR_QUEUES} = {0, 1, 2, 3, 4}" by auto
  then show ?thesis by (auto simp: queued_def trio_queues_def)
qed

lemma trio_fields: "current_task (trio dn) = Some 0" "task_qidx (Some 0) (trio dn) = 1"
  "t_state (tasks (trio dn) 0) = TASK_RUNNING" "t_quota_done (tasks (trio dn) 1) = dn"
  "t_quota_done (tasks (trio dn) (Suc 0)) = dn"
  by (simp_all add: trio_def sched0_def task_qidx_def zero_task_def)

text \<open>
  C1: A scheduling step loses no task. From well-formed queues that do not hold the idle task,
  \<open>schedule\<close> returns, the queues are well formed again, and every task that was queued, as well as
  the running task unless it exited or blocked, is then running or queued. The side condition is
  that no other task of the running task's queue has spent its CPU quota.
\<close>

theorem schedule_loses_no_task:
  assumes "rq_inv s Q" "idle_ref \<notin> queued Q" "current_task s = Some p" "quota_free s Q p"
  shows "\<exists>s' Q' c. schedule s = Some s' \<and> rq_inv s' Q' \<and> idle_ref \<notin> queued Q' \<and>
    current_task s' = Some c \<and> must_keep s Q p \<subseteq> insert c (queued Q')"
  using schedule_post [OF assms] unfolding sched_post_def by blast

lemma schedule_loses_no_task_witness:
  "\<exists>s' Q' c. schedule (trio False) = Some s' \<and> rq_inv s' Q' \<and> idle_ref \<notin> queued Q' \<and>
    current_task s' = Some c \<and> {0, 1, 2} \<subseteq> insert c (queued Q')"
proof -
  have "must_keep (trio False) trio_queues 0 = {0, 1, 2}"
    by (simp add: must_keep_def trio_fields queued_trio)
  moreover have "quota_free (trio False) trio_queues 0"
    by (simp add: quota_free_def trio_fields, simp add: trio_queues_def trio_fields)
  moreover have "idle_ref \<notin> queued trio_queues" by (simp add: queued_trio)
  ultimately show ?thesis
    using schedule_loses_no_task [OF trio_inv _ trio_fields(1), of False] by metis
qed


text \<open>
  C14: A higher-priority task preempts. If the first task with quota left among the queued tasks
  other than the running one belongs to a queue of higher priority than the running task's, then
  \<open>schedule\<close> switches to it at once, whatever is left of the running task's slice.
\<close>

theorem schedule_preempts:
  assumes "rq_inv s Q" "idle_ref \<notin> queued Q" "placed s Q"
    "current_task s = Some p" "p \<noteq> idle_ref"
    "t_state (tasks s p) \<noteq> TASK_EXITED" "t_state (tasks s p) \<noteq> TASK_WAITING"
    "find (\<lambda>t. t \<noteq> p \<and> \<not> t_quota_done (tasks s t)) (concat (map Q [0..<NR_QUEUES])) = Some c"
    "task_qidx (Some c) s < task_qidx (Some p) s"
  shows "\<exists>s'. schedule s = Some s' \<and> current_task s' = Some c"
  using assms by (rule schedule_preempt)

text \<open>The trio with the USER task on the CPU and the two SYSTEM tasks queued.\<close>

definition trio2 :: sched_state where
  "trio2 = (trio False)\<lparr>
     tasks := (tasks (trio False))(
       0 := (tasks (trio False) 0)\<lparr>t_state := TASK_READY, t_cur_queue := 1, t_next := Some 1\<rparr>,
       2 := (tasks (trio False) 2)\<lparr>t_state := TASK_RUNNING, t_timeslice := 3, t_cur_queue := 2\<rparr>),
     current_task := Some 2,
     rq_head := (\<lambda>_. None)(1 := Some 0), rq_tail := (\<lambda>_. None)(1 := Some 1)\<rparr>"

lemma schedule_preempts_witness:
  "\<exists>s'. schedule trio2 = Some s' \<and> current_task s' = Some 0"
proof -
  let ?Q = "(\<lambda>_. [])(1 := [0, 1])"
  have q: "queued ?Q = {0, 1}"
  proof -
    have "{..<NR_QUEUES} = {0, 1, 2, 3, 4}" by auto
    then show ?thesis by (auto simp: queued_def)
  qed
  have i: "rq_inv trio2 ?Q"
    by (simp add: rq_inv_def numeral_eq_Suc All_less_Suc trio2_def trio_def sched0_def zero_task_def tail_of_def)
  have pl: "placed trio2 ?Q"
    unfolding placed_def q by (simp add: trio2_def trio_def sched0_def zero_task_def task_qidx_def)
  show ?thesis
  proof (rule schedule_preempts [OF i _ pl, of 2])
    show "find (\<lambda>t. t \<noteq> 2 \<and> \<not> t_quota_done (tasks trio2 t)) (concat (map ?Q [0..<NR_QUEUES])) = Some 0"
      by (simp add: upt_conv_Cons trio2_def trio_def sched0_def zero_task_def)
  qed (unfold q, simp_all add: trio2_def trio_def sched0_def zero_task_def task_qidx_def clamp2_def)
qed

text \<open>
  Scheduling never touches credentials. Whatever the queues look like, when \<open>schedule\<close> returns,
  the tier, the capabilities, the limits, the sandbox root, the parent and the page directory of
  every task are what they were: of a task only the queue links, the state and the timeslice change.
\<close>

theorem schedule_keeps_credentials:
  assumes "schedule s = Some s'"
  shows "t_tier (tasks s' i) = t_tier (tasks s i) \<and> t_caps (tasks s' i) = t_caps (tasks s i) \<and>
    t_mem_limit (tasks s' i) = t_mem_limit (tasks s i) \<and> t_cpu_quota (tasks s' i) = t_cpu_quota (tasks s i) \<and>
    t_root_path (tasks s' i) = t_root_path (tasks s i) \<and> t_parent (tasks s' i) = t_parent (tasks s i) \<and>
    t_cr3 (tasks s' i) = t_cr3 (tasks s i) \<and> t_pid (tasks s' i) = t_pid (tasks s i)"
proof -
  have e: "tasks s' i = (tasks s i)\<lparr>t_next := t_next (tasks s' i), t_cur_queue := t_cur_queue (tasks s' i),
      t_state := t_state (tasks s' i), t_timeslice := t_timeslice (tasks s' i)\<rparr>"
    using schedule_frame [OF assms] by (simp only: sched_frame_def)
  show ?thesis by (subst e, simp)+
qed

lemma schedule_keeps_credentials_witness:
  "\<exists>s'. schedule (trio False) = Some s' \<and> t_tier (tasks s' 2) = TIER_USER"
proof -
  have "map_option (\<lambda>_. True) (schedule (trio False)) = Some True" by code_simp
  then obtain s' where s': "schedule (trio False) = Some s'" by auto
  have "t_tier (tasks (trio False) 2) = TIER_USER" by (simp add: trio_def sched0_def)
  then show ?thesis using schedule_keeps_credentials [OF s', of 2] s' by simp
qed

end
