(* ===== verification/Locks.thy ===== *)
theory Locks
  imports Sched
begin

text \<open>
  Spin locks and mutexes with priority inheritance, \<open>kernel/locks.c\<close>. The interrupt flag that \<open>cli\<close> and
  \<open>sti\<close> change is passed along with a spin lock; the mutex functions leave it on.

  \<open>mutex_lock\<close> is a loop around \<open>schedule\<close>, which gives the CPU to another task. One round of the loop,
  up to the return of \<open>schedule\<close>, is \<open>mutex_lock\<close> here: the task either gets the lock or is put on the
  wait queue, and then makes another round when it runs again.
\<close>

section \<open>Spin locks\<close>

text \<open>\<open>while (__sync_lock_test_and_set(&l->locked, 1)) pause;\<close> with interrupts off on one processor:
  nobody else writes the lock.\<close>

partial_function (option) spin_wait :: "u32 \<Rightarrow> u32 option" where
  "spin_wait l = (let old = l; l = 1 in if old \<noteq> 0 then spin_wait l else Some l)"

text \<open>A spin lock and the interrupt flag; \<^const>\<open>None\<close> as an argument is the null pointer.\<close>

definition spin_lock :: "u32 option \<Rightarrow> bool \<Rightarrow> (u32 option \<times> bool) option" where
  "spin_lock p intr = (case p of None \<Rightarrow> Some (None, intr)
     | Some l \<Rightarrow> do { l \<leftarrow> spin_wait l; Some (Some l, False) })"

definition spin_unlock :: "u32 option \<Rightarrow> bool \<Rightarrow> u32 option \<times> bool" where
  "spin_unlock p intr = (case p of None \<Rightarrow> (None, intr) | Some l \<Rightarrow> (Some 0, True))"

definition spin_trylock :: "u32 option \<Rightarrow> bool \<Rightarrow> int \<times> u32 option \<times> bool" where
  "spin_trylock p intr = (case p of None \<Rightarrow> (0, None, intr)
     | Some l \<Rightarrow> if l \<noteq> 0 then (0, Some 1, True) else (1, Some 1, False))"

record locks =
  sched_lock :: u32
  task_lock :: u32
  vm_lock :: u32
  vfs_lock :: u32
  driver_lock :: u32

definition locks_init :: "locks \<Rightarrow> locks" where
  "locks_init l = l\<lparr>sched_lock := 0, task_lock := 0, vm_lock := 0, vfs_lock := 0, driver_lock := 0\<rparr>"

section \<open>Mutexes\<close>

record mutex =
  mx_locked :: u32
  mx_holder :: "nat option"
  mx_waitq :: "nat option"
  mx_flags :: u32
  mx_name :: string

abbreviation LOCK_FLAG_INHERIT :: u32 where "LOCK_FLAG_INHERIT \<equiv> 1"

definition mutex_init :: "string \<Rightarrow> u32 \<Rightarrow> mutex" where
  "mutex_init name flags = \<lparr>mx_locked = 0, mx_holder = None, mx_waitq = None, mx_flags = flags, mx_name = name\<rparr>"

text \<open>The inheritance step of a task \<open>me\<close> that finds the mutex taken.\<close>

definition inherit_tier :: "mutex \<Rightarrow> nat \<Rightarrow> 'a sched_state_scheme \<Rightarrow> 'a sched_state_scheme option" where
  "inherit_tier m me s = (case mx_holder m of None \<Rightarrow> Some s | Some h \<Rightarrow>
     if mx_flags m AND LOCK_FLAG_INHERIT \<noteq> 0 \<and> t_tier (tasks s h) > t_tier (tasks s me) then do {
       let s = (if t_flags (tasks s h) AND TASK_INHERITED = 0
                then upd_task h (\<lambda>x. x\<lparr>t_saved_tier := t_tier x\<rparr>) s else s);
       s \<leftarrow> task_set_tier (Some h) (t_tier (tasks s me)) s;
       Some (upd_task h (\<lambda>x. x\<lparr>t_flags := t_flags x OR TASK_INHERITED\<rparr>) s)
     }
     else Some s)"

text \<open>The rest of that round: leave the run queue and join the wait queue.\<close>

definition mutex_block :: "mutex \<Rightarrow> nat \<Rightarrow> 'a sched_state_scheme \<Rightarrow> (mutex \<times> 'a sched_state_scheme) option" where
  "mutex_block m me s = do {
     s \<leftarrow> inherit_tier m me s;
     s \<leftarrow> dequeue_task (Some me) s;
     let s = upd_task me (\<lambda>x. x\<lparr>t_state := TASK_WAITING, t_next := mx_waitq m\<rparr>) s;
     Some (m\<lparr>mx_waitq := Some me\<rparr>, s)
   }"

text \<open>The result says whether the lock was got.\<close>

definition mutex_lock :: "mutex \<Rightarrow> 'a sched_state_scheme \<Rightarrow> (bool \<times> mutex \<times> 'a sched_state_scheme) option" where
  "mutex_lock m s = (case get_current_task s of None \<Rightarrow> Some (False, m, s) | Some me \<Rightarrow>
     if mx_locked m = 0 then Some (True, m\<lparr>mx_locked := 1, mx_holder := Some me\<rparr>, s)
     else do {
       (m, s) \<leftarrow> mutex_block m me s;
       s \<leftarrow> schedule s;
       Some (False, m, s)
     })"

definition mutex_trylock :: "mutex \<Rightarrow> 'a sched_state_scheme \<Rightarrow> int \<times> mutex" where
  "mutex_trylock m s =
     (if mx_locked m \<noteq> 0 then (0, m) else (1, m\<lparr>mx_locked := 1, mx_holder := get_current_task s\<rparr>))"

definition restore_tier :: "mutex \<Rightarrow> 'a sched_state_scheme \<Rightarrow> 'a sched_state_scheme option" where
  "restore_tier m s = (case mx_holder m of None \<Rightarrow> Some s | Some h \<Rightarrow>
     if t_flags (tasks s h) AND TASK_INHERITED \<noteq> 0 then do {
       let s = upd_task h (\<lambda>x. x\<lparr>t_flags := t_flags x AND NOT TASK_INHERITED\<rparr>) s;
       s \<leftarrow> task_set_tier (Some h) (t_saved_tier (tasks s h)) s;
       Some (upd_task h (\<lambda>x. x\<lparr>t_saved_tier := TIER_USER\<rparr>) s)
     }
     else Some s)"

definition mutex_unlock :: "mutex \<Rightarrow> 'a sched_state_scheme \<Rightarrow> (mutex \<times> 'a sched_state_scheme) option" where
  "mutex_unlock m s = do {
     s \<leftarrow> restore_tier m s;
     let m = m\<lparr>mx_locked := 0, mx_holder := None\<rparr>;
     case mx_waitq m of None \<Rightarrow> Some (m, s)
     | Some w \<Rightarrow>
        (let m = m\<lparr>mx_waitq := t_next (tasks s w)\<rparr>;
             s = upd_task w (\<lambda>x. x\<lparr>t_next := None, t_state := TASK_READY\<rparr>) s
         in Some (m, enqueue_task (Some w) s))
   }"

section \<open>Queue links of tasks outside the queues\<close>

lemma enqueue_next_frame:
  assumes inv: "rq_inv s Q" and u: "u \<notin> queued Q" "u \<noteq> t"
  shows "t_next (tasks (enqueue_task (Some t) s) u) = t_next (tasks s u)"
proof -
  let ?q = "task_qidx (Some t) s"
  have q: "?q < NR_QUEUES" by (rule task_qidx_bound)
  have "rq_tail s ?q \<noteq> Some u"
    using rq_invD(2) [OF inv q] not_queued [OF u(1) q] by (auto simp: tail_of_Some)
  then show ?thesis using u by (auto simp: enqueue_task_def Let_def split: option.split)
qed

lemma dequeue_next_frame:
  assumes inv: "rq_inv s Q" and u: "u \<notin> queued Q" "u \<noteq> t" and d: "dequeue_task (Some t) s = Some s'"
  shows "t_next (tasks s' u) = t_next (tasks s u)"
proof -
  let ?qi = "t_cur_queue (tasks s t)" and ?q = "nat (t_cur_queue (tasks s t))"
  consider "?qi < 0 \<or> ?qi \<ge> int NR_QUEUES" | "0 \<le> ?qi" "?qi < int NR_QUEUES" "rq_head s ?q = Some t"
    | "0 \<le> ?qi" "?qi < int NR_QUEUES" "rq_head s ?q \<noteq> Some t" by linarith
  then show ?thesis
  proof cases
    case 1
    then show ?thesis using d by (auto simp: dequeue_task_def Let_def)
  next
    case 2
    then show ?thesis using d u by (auto simp: dequeue_task_def Let_def split: if_splits)
  next
    case 3
    have q: "?q < NR_QUEUES" using 3 by (simp add: nat_less_iff)
    have f: "find_chain (next_of s) (\<lambda>r. t_next (tasks s r) = Some t) (rq_head s ?q) =
        Some (find (\<lambda>r. t_next (tasks s r) = Some t) (Q ?q))"
      by (rule find_chain_eq [OF rq_invD(1) [OF inv q]])
    have "r \<noteq> u" if "find (\<lambda>r. t_next (tasks s r) = Some t) (Q ?q) = Some r" for r
      using that not_queued [OF u(1) q] by (auto simp: find_Some_iff)
    then show ?thesis using d u 3 f
      by (cases "find (\<lambda>r. t_next (tasks s r) = Some t) (Q ?q)")
        (auto simp: dequeue_task_def Let_def split: if_splits)
  qed
qed

lemma only_queues_lock:
  assumes "only_queues s s'"
  shows "t_flags (tasks s' i) = t_flags (tasks s i)" "t_saved_tier (tasks s' i) = t_saved_tier (tasks s i)"
proof -
  have e: "tasks s' i = (tasks s i)\<lparr>t_next := t_next (tasks s' i), t_cur_queue := t_cur_queue (tasks s' i)\<rparr>"
    using assms by (simp add: only_queues_def)
  show "t_flags (tasks s' i) = t_flags (tasks s i)" "t_saved_tier (tasks s' i) = t_saved_tier (tasks s i)"
    by (subst e, simp)+
qed

text \<open>What a change of tier leaves as it was: the fields a mutex reads, the current task, and the links of
  tasks in no run queue.\<close>

definition tier_frame :: "nat \<Rightarrow> nat set \<Rightarrow> 'a sched_state_scheme \<Rightarrow> 'a sched_state_scheme \<Rightarrow> bool" where
  "tier_frame t X s s' \<longleftrightarrow> current_task s' = current_task s \<and>
     (\<forall>u. t_state (tasks s' u) = t_state (tasks s u) \<and> t_flags (tasks s' u) = t_flags (tasks s u) \<and>
          t_saved_tier (tasks s' u) = t_saved_tier (tasks s u) \<and>
          (u \<noteq> t \<longrightarrow> t_tier (tasks s' u) = t_tier (tasks s u)) \<and>
          (u \<noteq> t \<longrightarrow> u \<notin> X \<longrightarrow> t_next (tasks s' u) = t_next (tasks s u)))"

lemma task_set_tier_frame:
  assumes inv: "rq_inv s Q"
  obtains s' Q' where "task_set_tier (Some t) tr s = Some s'" "rq_inv s' Q'" "t_tier (tasks s' t) = tr"
    "queued Q \<subseteq> queued Q'" "queued Q' \<subseteq> insert t (queued Q)" "tier_frame t (queued Q) s s'"
proof -
  let ?f = "\<lambda>x. x\<lparr>t_tier := tr\<rparr>"
  obtain s' Q' where a: "task_set_tier (Some t) tr s = Some s'" "rq_inv s' Q'" "t_tier (tasks s' t) = tr"
    "queued Q \<subseteq> queued Q'" "queued Q' \<subseteq> insert t (queued Q)"
    using task_set_tier_inv [OF inv] by blast
  have "tier_frame t (queued Q) s s'"
  proof (cases "s' = upd_task t ?f s")
    case True
    then show ?thesis by (simp add: tier_frame_def)
  next
    case False
    then obtain s1 where s1: "dequeue_task (Some t) s = Some s1" "s' = enqueue_task (Some t) (upd_task t ?f s1)"
      using a(1) unfolding task_set_tier_alt by (auto split: if_splits bind_splits)
    let ?F = "\<lambda>q. filter (\<lambda>x. x \<noteq> t) (Q q)"
    have d: "rq_inv s1 ?F" "only_queues s s1" using dequeue_task_inv [OF inv, of t] s1(1) by auto
    have tn: "t \<notin> queued ?F" by (simp add: queued_remove)
    have i2: "rq_inv (upd_task t ?f s1) ?F" by (rule rq_inv_upd_task_notin [OF d(1) tn])
    have "t_next (tasks s' u) = t_next (tasks s u)" if u: "u \<noteq> t" "u \<notin> queued Q" for u
    proof -
      have "u \<notin> queued ?F" using u by (simp add: queued_remove)
      then show ?thesis using enqueue_next_frame [OF i2] dequeue_next_frame [OF inv u(2,1) s1(1)] u s1(2) by simp
    qed
    then show ?thesis unfolding tier_frame_def s1(2)
      by (simp add: only_queues_fields [OF enqueue_task_frame] only_queues_fields [OF d(2)]
          only_queues_lock [OF enqueue_task_frame] only_queues_lock [OF d(2)])
  qed
  then show thesis using a that by blast
qed

section \<open>The wait queue\<close>

text \<open>\<open>W\<close> is the wait queue of \<open>m\<close>: a chain through \<open>next\<close> of waiting tasks, none of them in a run queue.\<close>

definition waiters :: "mutex \<Rightarrow> 'a sched_state_scheme \<Rightarrow> (nat \<Rightarrow> nat list) \<Rightarrow> nat list \<Rightarrow> bool" where
  "waiters m s Q W \<longleftrightarrow> chain (next_of s) (mx_waitq m) W \<and> set W \<inter> queued Q = {} \<and>
     (\<forall>w \<in> set W. t_state (tasks s w) = TASK_WAITING)"

lemma waiters_cong:
  assumes "waiters m s Q W" "\<And>w. w \<in> set W \<Longrightarrow> t_next (tasks s' w) = t_next (tasks s w)"
    "\<And>w. w \<in> set W \<Longrightarrow> t_state (tasks s' w) = t_state (tasks s w)" "set W \<inter> queued Q' = {}"
    "mx_waitq m' = mx_waitq m"
  shows "waiters m' s' Q' W"
  using assms chain_cong [of W "next_of s'" "next_of s" "mx_waitq m"] by (simp add: waiters_def)

lemma inherited_or: "(x OR TASK_INHERITED) AND TASK_INHERITED \<noteq> 0"
proof
  assume "(x OR TASK_INHERITED) AND TASK_INHERITED = 0"
  then have "\<not> bit ((x OR 1) AND (1 :: u32)) 0" by simp
  then show False by (simp only: bit_and_iff bit_or_iff) simp
qed

lemma inherit_tier_inv:
  assumes inv: "rq_inv s Q" and W: "waiters m s Q W" and h: "mx_holder m = Some h" "h \<notin> set W" "h \<noteq> me"
  obtains s' Q' where "inherit_tier m me s = Some s'" "rq_inv s' Q'" "waiters m s' Q' W"
    "queued Q' \<subseteq> insert h (queued Q)" "t_tier (tasks s' me) = t_tier (tasks s me)"
    "mx_flags m AND LOCK_FLAG_INHERIT \<noteq> 0 \<longrightarrow> t_tier (tasks s' h) \<le> t_tier (tasks s me)"
    "queued Q \<subseteq> queued Q'"
    "mx_flags m AND LOCK_FLAG_INHERIT \<noteq> 0 \<and> t_tier (tasks s h) > t_tier (tasks s me) \<and>
       t_flags (tasks s h) AND TASK_INHERITED = 0 \<longrightarrow>
     t_flags (tasks s' h) AND TASK_INHERITED \<noteq> 0 \<and> t_saved_tier (tasks s' h) = t_tier (tasks s h) \<and>
     t_tier (tasks s' h) = t_tier (tasks s me)"
proof (cases "mx_flags m AND LOCK_FLAG_INHERIT \<noteq> 0 \<and> t_tier (tasks s h) > t_tier (tasks s me)")
  case False
  then show ?thesis using assms by (intro that [of s Q]) (auto simp: inherit_tier_def not_less)
next
  case True
  define s0 where "s0 = (if t_flags (tasks s h) AND TASK_INHERITED = 0
     then upd_task h (\<lambda>x. x\<lparr>t_saved_tier := t_tier x\<rparr>) s else s)"
  have inv0: "rq_inv s0 Q" unfolding s0_def using inv by (auto intro!: rq_inv_upd_task)
  have t0: "t_tier (tasks s0 me) = t_tier (tasks s me)" using h(3) by (simp add: s0_def)
  obtain s1 Q1 where s1: "task_set_tier (Some h) (t_tier (tasks s0 me)) s0 = Some s1" "rq_inv s1 Q1"
    "t_tier (tasks s1 h) = t_tier (tasks s0 me)" "queued Q \<subseteq> queued Q1" "queued Q1 \<subseteq> insert h (queued Q)"
    "tier_frame h (queued Q) s0 s1"
    using inv0 by (rule task_set_tier_frame)
  let ?s = "upd_task h (\<lambda>x. x\<lparr>t_flags := t_flags x OR TASK_INHERITED\<rparr>) s1"
  have r: "inherit_tier m me s = Some ?s" using True h(1) s1(1) by (simp add: inherit_tier_def s0_def Let_def)
  have wn: "w \<noteq> h" "w \<notin> queued Q" if "w \<in> set W" for w using that h(2) W by (auto simp: waiters_def)
  have "waiters m ?s Q1 W"
  proof (rule waiters_cong [OF W])
    show "set W \<inter> queued Q1 = {}" using s1(5) wn by auto
    show "t_next (tasks ?s w) = t_next (tasks s w)" if "w \<in> set W" for w
      using wn [OF that] s1(6) by (simp add: tier_frame_def s0_def)
    show "t_state (tasks ?s w) = t_state (tasks s w)" if "w \<in> set W" for w
      using wn [OF that] s1(6) by (simp add: tier_frame_def s0_def)
  qed simp
  moreover have "rq_inv ?s Q1" using s1(2) by (rule rq_inv_upd_task) simp_all
  moreover have "t_tier (tasks ?s me) = t_tier (tasks s me)" using h(3) s1(6) t0 by (auto simp: tier_frame_def)
  moreover have "t_flags (tasks ?s h) AND TASK_INHERITED \<noteq> 0" using inherited_or [of "t_flags (tasks s1 h)"] by simp
  moreover have "t_flags (tasks s h) AND TASK_INHERITED = 0 \<longrightarrow> t_saved_tier (tasks ?s h) = t_tier (tasks s h)"
    using s1(6) by (simp add: tier_frame_def s0_def)
  ultimately show ?thesis using r s1 t0 by (intro that [of ?s Q1]) auto
qed

lemma mutex_block_inv:
  assumes inv: "rq_inv s Q" and W: "waiters m s Q W" and h: "mx_holder m = Some h" "h \<notin> set W" "h \<noteq> me"
    and me: "me \<notin> set W"
  obtains s' Q' where "mutex_block m me s = Some (m\<lparr>mx_waitq := Some me\<rparr>, s')" "rq_inv s' Q'"
    "waiters (m\<lparr>mx_waitq := Some me\<rparr>) s' Q' (me # W)" "me \<notin> queued Q'"
    "queued Q - {me} \<subseteq> queued Q'"
    "mx_flags m AND LOCK_FLAG_INHERIT \<noteq> 0 \<longrightarrow> t_tier (tasks s' h) \<le> t_tier (tasks s me)"
    "mx_flags m AND LOCK_FLAG_INHERIT \<noteq> 0 \<and> t_tier (tasks s h) > t_tier (tasks s me) \<and>
       t_flags (tasks s h) AND TASK_INHERITED = 0 \<longrightarrow>
     t_flags (tasks s' h) AND TASK_INHERITED \<noteq> 0 \<and> t_saved_tier (tasks s' h) = t_tier (tasks s h) \<and>
     t_tier (tasks s' h) = t_tier (tasks s me)"
proof -
  obtain s1 Q1 where s1: "inherit_tier m me s = Some s1" "rq_inv s1 Q1" "waiters m s1 Q1 W"
    "queued Q1 \<subseteq> insert h (queued Q)" "t_tier (tasks s1 me) = t_tier (tasks s me)"
    "mx_flags m AND LOCK_FLAG_INHERIT \<noteq> 0 \<longrightarrow> t_tier (tasks s1 h) \<le> t_tier (tasks s me)"
    "queued Q \<subseteq> queued Q1"
    "mx_flags m AND LOCK_FLAG_INHERIT \<noteq> 0 \<and> t_tier (tasks s h) > t_tier (tasks s me) \<and>
       t_flags (tasks s h) AND TASK_INHERITED = 0 \<longrightarrow>
     t_flags (tasks s1 h) AND TASK_INHERITED \<noteq> 0 \<and> t_saved_tier (tasks s1 h) = t_tier (tasks s h) \<and>
     t_tier (tasks s1 h) = t_tier (tasks s me)"
    using inv W h by (rule inherit_tier_inv)
  let ?F = "\<lambda>q. filter (\<lambda>x. x \<noteq> me) (Q1 q)"
  obtain s2 where s2: "dequeue_task (Some me) s1 = Some s2" "rq_inv s2 ?F" "only_queues s1 s2"
    using dequeue_task_inv [OF s1(2)] by blast
  let ?s = "upd_task me (\<lambda>x. x\<lparr>t_state := TASK_WAITING, t_next := mx_waitq m\<rparr>) s2"
  have mq: "me \<notin> queued ?F" by (simp add: queued_remove)
  have wn: "w \<noteq> me" "w \<notin> queued Q1" if "w \<in> set W" for w using that me s1(3) by (auto simp: waiters_def)
  have "chain (next_of ?s) (mx_waitq m) W = chain (next_of s1) (mx_waitq m) W"
    using dequeue_next_frame [OF s1(2) _ _ s2(1)] wn by (intro chain_cong) auto
  then have "waiters (m\<lparr>mx_waitq := Some me\<rparr>) ?s ?F (me # W)"
    using s1(3) me wn only_queues_task(4) [OF s2(3)] by (auto simp: waiters_def queued_remove)
  moreover have "rq_inv ?s ?F" by (rule rq_inv_upd_task_notin [OF s2(2) mq])
  moreover have "mutex_block m me s = Some (m\<lparr>mx_waitq := Some me\<rparr>, ?s)"
    using s1(1) s2(1) by (simp add: mutex_block_def)
  moreover have "t_tier (tasks ?s h) = t_tier (tasks s1 h)" "t_flags (tasks ?s h) = t_flags (tasks s1 h)"
    "t_saved_tier (tasks ?s h) = t_saved_tier (tasks s1 h)"
    using h(3) only_queues_fields [OF s2(3)] only_queues_lock [OF s2(3)] by simp_all
  ultimately show thesis using mq s1 by (intro that [of ?s ?F]) (auto simp: queued_remove)
qed

lemma restore_tier_inv:
  assumes inv: "rq_inv s Q" and W: "waiters m s Q W" and h: "mx_holder m = Some h" "h \<notin> set W"
  obtains s' Q' where "restore_tier m s = Some s'" "rq_inv s' Q'" "waiters m s' Q' W" "queued Q \<subseteq> queued Q'"
    "t_flags (tasks s h) AND TASK_INHERITED \<noteq> 0 \<longrightarrow> t_tier (tasks s' h) = t_saved_tier (tasks s h)"
proof (cases "t_flags (tasks s h) AND TASK_INHERITED \<noteq> 0")
  case False
  then show ?thesis using assms by (intro that [of s Q]) (auto simp: restore_tier_def)
next
  case True
  let ?s0 = "upd_task h (\<lambda>x. x\<lparr>t_flags := t_flags x AND NOT TASK_INHERITED\<rparr>) s"
  have inv0: "rq_inv ?s0 Q" using inv by (rule rq_inv_upd_task) simp_all
  obtain s1 Q1 where s1: "task_set_tier (Some h) (t_saved_tier (tasks ?s0 h)) ?s0 = Some s1" "rq_inv s1 Q1"
    "t_tier (tasks s1 h) = t_saved_tier (tasks ?s0 h)" "queued Q \<subseteq> queued Q1" "queued Q1 \<subseteq> insert h (queued Q)"
    "tier_frame h (queued Q) ?s0 s1"
    using inv0 by (rule task_set_tier_frame)
  let ?s = "upd_task h (\<lambda>x. x\<lparr>t_saved_tier := TIER_USER\<rparr>) s1"
  have wn: "w \<noteq> h" "w \<notin> queued Q" if "w \<in> set W" for w using that h(2) W by (auto simp: waiters_def)
  have "waiters m ?s Q1 W"
  proof (rule waiters_cong [OF W])
    show "set W \<inter> queued Q1 = {}" using s1(5) wn by auto
    show "t_next (tasks ?s w) = t_next (tasks s w)" if "w \<in> set W" for w
      using wn [OF that] s1(6) by (simp add: tier_frame_def)
    show "t_state (tasks ?s w) = t_state (tasks s w)" if "w \<in> set W" for w
      using wn [OF that] s1(6) by (simp add: tier_frame_def)
  qed simp
  moreover have "rq_inv ?s Q1" using s1(2) by (rule rq_inv_upd_task) simp_all
  moreover have "restore_tier m s = Some ?s" using True h(1) s1(1) by (simp add: restore_tier_def Let_def)
  ultimately show ?thesis using s1 by (intro that [of ?s Q1]) auto
qed

lemma mutex_unlock_inv:
  assumes inv: "rq_inv s Q" and W: "waiters m s Q (w # W)" and h: "mx_holder m = Some h" "h \<notin> set (w # W)"
  obtains m' s' Q' where "mutex_unlock m s = Some (m', s')" "rq_inv s' Q'" "waiters m' s' Q' W"
    "insert w (queued Q) \<subseteq> queued Q'" "t_state (tasks s' w) = TASK_READY" "mx_locked m' = 0" "mx_holder m' = None"
    "t_flags (tasks s h) AND TASK_INHERITED \<noteq> 0 \<longrightarrow> t_tier (tasks s' h) = t_saved_tier (tasks s h)"
proof -
  obtain s1 Q1 where s1: "restore_tier m s = Some s1" "rq_inv s1 Q1" "waiters m s1 Q1 (w # W)" "queued Q \<subseteq> queued Q1"
    "t_flags (tasks s h) AND TASK_INHERITED \<noteq> 0 \<longrightarrow> t_tier (tasks s1 h) = t_saved_tier (tasks s h)"
    using inv W h by (rule restore_tier_inv)
  have wq: "w \<notin> queued Q1" "mx_waitq m = Some w" "w \<notin> set W"
    using s1(3) chain_distinct [of "next_of s1" "mx_waitq m" "w # W"] by (auto simp: waiters_def)
  let ?u = "upd_task w (\<lambda>x. x\<lparr>t_next := None, t_state := TASK_READY\<rparr>) s1"
  let ?m = "m\<lparr>mx_locked := 0, mx_holder := None, mx_waitq := t_next (tasks s1 w)\<rparr>"
  let ?s = "enqueue_task (Some w) ?u"
  let ?q = "task_qidx (Some w) ?u"
  have iu: "rq_inv ?u Q1" by (rule rq_inv_upd_task_notin [OF s1(2) wq(1)])
  have i: "rq_inv ?s (Q1(?q := Q1 ?q @ [w]))" by (rule enqueue_task_inv [OF iu wq(1)])
  have qs: "queued (Q1(?q := Q1 ?q @ [w])) = insert w (queued Q1)"
    using queued_append [of ?q Q1 w, OF task_qidx_bound] by simp
  have n: "t_next (tasks ?s v) = t_next (tasks s1 v)" if "v \<in> set W" for v
  proof -
    have "v \<notin> queued Q1" "v \<noteq> w" using that s1(3) wq(3) by (auto simp: waiters_def)
    then show ?thesis using enqueue_next_frame [OF iu, of v w] by simp
  qed
  have "chain (next_of ?s) (t_next (tasks s1 w)) W = chain (next_of s1) (t_next (tasks s1 w)) W"
    using n by (intro chain_cong) auto
  moreover have "t_state (tasks ?s v) = TASK_WAITING" if "v \<in> set W" for v
    using that s1(3) wq(3) only_queues_task(4) [OF enqueue_task_frame, of "Some w" ?u v] by (auto simp: waiters_def)
  ultimately have "waiters ?m ?s (Q1(?q := Q1 ?q @ [w])) W"
    using s1(3) wq qs by (simp add: waiters_def)
  moreover have "mutex_unlock m s = Some (?m, ?s)" using s1(1) wq(2) by (simp add: mutex_unlock_def Let_def)
  moreover have "t_state (tasks ?s w) = TASK_READY"
    by (simp add: only_queues_task(4) [OF enqueue_task_frame])
  moreover have "t_tier (tasks ?s h) = t_tier (tasks s1 h)"
    using h(2) by (simp add: only_queues_task(2) [OF enqueue_task_frame])
  ultimately show thesis using i qs s1(4,5) by (intro that [of ?m ?s "Q1(?q := Q1 ?q @ [w])"]) auto
qed

section \<open>Properties\<close>

text \<open>A task 1 of a high tier that asks for a mutex held by a task 0 of user tier.\<close>

definition contended :: mutex where
  "contended = \<lparr>mx_locked = 1, mx_holder = Some 0, mx_waitq = None, mx_flags = 1, mx_name = ''m''\<rparr>"

definition duo :: "tier \<Rightarrow> tier \<Rightarrow> sched_state" where
  "duo th tm = sched0\<lparr>tasks := (\<lambda>_. zero_task)(0 := zero_task\<lparr>t_state := TASK_WAITING, t_tier := th\<rparr>,
      1 := zero_task\<lparr>t_state := TASK_RUNNING, t_tier := tm, t_cur_queue := -1\<rparr>),
     current_task := Some 1\<rparr>"

lemma duo_inv: "rq_inv (duo th tm) (\<lambda>_. [])" "queued (\<lambda>_. []) = {}"
  by (auto simp: rq_inv_def queued_def duo_def sched0_def)

text \<open>C23: A task that finds a mutex taken is put at the head of its wait queue and taken out of the run
  queues, which stay well formed and lose no other task; the task then calls the scheduler. With priority
  inheritance the holder's tier is afterwards at most the waiter's.\<close>

theorem mutex_lock_blocks:
  assumes "rq_inv s Q" "waiters m s Q W" "mx_holder m = Some h" "h \<notin> set W" "h \<noteq> me" "me \<notin> set W"
    "current_task s = Some me" "mx_locked m \<noteq> 0"
  shows "\<exists>m' s' Q'. mutex_lock m s = map_option (\<lambda>t. (False, m', t)) (schedule s') \<and>
    mx_holder m' = Some h \<and> mx_locked m' = mx_locked m \<and> rq_inv s' Q' \<and> waiters m' s' Q' (me # W) \<and>
    me \<notin> queued Q' \<and> queued Q - {me} \<subseteq> queued Q' \<and>
    (mx_flags m AND LOCK_FLAG_INHERIT \<noteq> 0 \<longrightarrow> t_tier (tasks s' h) \<le> t_tier (tasks s me))"
proof -
  obtain s' Q' where b: "mutex_block m me s = Some (m\<lparr>mx_waitq := Some me\<rparr>, s')" "rq_inv s' Q'"
    "waiters (m\<lparr>mx_waitq := Some me\<rparr>) s' Q' (me # W)" "me \<notin> queued Q'" "queued Q - {me} \<subseteq> queued Q'"
    "mx_flags m AND LOCK_FLAG_INHERIT \<noteq> 0 \<longrightarrow> t_tier (tasks s' h) \<le> t_tier (tasks s me)"
    using assms(1-6) by (rule mutex_block_inv)
  have "mutex_lock m s = map_option (\<lambda>t. (False, m\<lparr>mx_waitq := Some me\<rparr>, t)) (schedule s')"
    using b(1) assms(7,8) by (cases "schedule s'") (simp_all add: mutex_lock_def get_current_task_def)
  then show ?thesis using b assms(3) by (intro exI conjI) (assumption | simp)+
qed

theorem mutex_lock_blocks_witness:
  "\<exists>m' s' Q'. mutex_lock contended (duo TIER_USER TIER_SYSTEM) = map_option (\<lambda>t. (False, m', t)) (schedule s') \<and>
     waiters m' s' Q' [1] \<and> t_tier (tasks s' 0) \<le> TIER_SYSTEM"
proof -
  have "waiters contended (duo TIER_USER TIER_SYSTEM) (\<lambda>_. []) []" by (simp add: waiters_def contended_def)
  from mutex_lock_blocks [OF duo_inv(1) this, of 0 1] show ?thesis
    by (simp add: contended_def duo_def sched0_def) blast
qed

text \<open>C24: Unlocking a mutex with waiters frees it, moves the first waiter to the run queues as a ready task,
  keeps the other waiters and loses no queued task. A holder whose tier was raised gets its saved tier back.\<close>

theorem mutex_unlock_wakes:
  assumes "rq_inv s Q" "waiters m s Q (w # W)" "mx_holder m = Some h" "h \<notin> set (w # W)"
  shows "\<exists>m' s' Q'. mutex_unlock m s = Some (m', s') \<and> mx_locked m' = 0 \<and> mx_holder m' = None \<and>
    rq_inv s' Q' \<and> waiters m' s' Q' W \<and> insert w (queued Q) \<subseteq> queued Q' \<and> t_state (tasks s' w) = TASK_READY \<and>
    (t_flags (tasks s h) AND TASK_INHERITED \<noteq> 0 \<longrightarrow> t_tier (tasks s' h) = t_saved_tier (tasks s h))"
proof -
  obtain m' s' Q' where "mutex_unlock m s = Some (m', s')" "rq_inv s' Q'" "waiters m' s' Q' W"
    "insert w (queued Q) \<subseteq> queued Q'" "t_state (tasks s' w) = TASK_READY" "mx_locked m' = 0" "mx_holder m' = None"
    "t_flags (tasks s h) AND TASK_INHERITED \<noteq> 0 \<longrightarrow> t_tier (tasks s' h) = t_saved_tier (tasks s h)"
    using assms by (rule mutex_unlock_inv)
  then show ?thesis by blast
qed

definition one_waiting :: sched_state where
  "one_waiting = sched0\<lparr>tasks := (\<lambda>_. zero_task)(0 := zero_task\<lparr>t_tier := TIER_SYSTEM, t_flags := 1, t_saved_tier := TIER_USER\<rparr>,
     1 := zero_task\<lparr>t_state := TASK_WAITING\<rparr>), current_task := Some 0\<rparr>"

theorem mutex_unlock_wakes_witness:
  "\<exists>m' s' Q'. mutex_unlock (contended\<lparr>mx_waitq := Some 1\<rparr>) one_waiting = Some (m', s') \<and> mx_locked m' = 0 \<and>
     rq_inv s' Q' \<and> 1 \<in> queued Q' \<and> t_tier (tasks s' 0) = TIER_USER"
proof -
  have "rq_inv one_waiting (\<lambda>_. [])" by (simp add: rq_inv_def one_waiting_def sched0_def)
  moreover have "waiters (contended\<lparr>mx_waitq := Some 1\<rparr>) one_waiting (\<lambda>_. []) [1]"
    by (simp add: waiters_def contended_def one_waiting_def zero_task_def queued_def)
  moreover have "mx_holder (contended\<lparr>mx_waitq := Some 1\<rparr>) = Some 0" "0 \<notin> set [1 :: nat]"
    by (simp_all add: contended_def)
  moreover have "t_flags (tasks one_waiting 0) AND TASK_INHERITED \<noteq> 0" "t_saved_tier (tasks one_waiting 0) = TIER_USER"
    by (simp_all add: one_waiting_def)
  ultimately show ?thesis using mutex_unlock_wakes [of one_waiting "\<lambda>_. []" "contended\<lparr>mx_waitq := Some 1\<rparr>" 1 "[]" 0]
    by auto
qed

text \<open>C25: When a task blocks on an inheriting mutex whose holder has a numerically larger tier, the holder gets
  the waiter's tier, and unlocking gives it back the tier it had.\<close>

theorem inherit_roundtrip:
  assumes "rq_inv s Q" "waiters m s Q W" "mx_holder m = Some h" "h \<notin> set W" "h \<noteq> me" "me \<notin> set W"
    "mx_flags m AND LOCK_FLAG_INHERIT \<noteq> 0" "t_tier (tasks s h) > t_tier (tasks s me)"
    "t_flags (tasks s h) AND TASK_INHERITED = 0"
  shows "\<exists>m1 s1 m2 s2. mutex_block m me s = Some (m1, s1) \<and> t_tier (tasks s1 h) = t_tier (tasks s me) \<and>
    mutex_unlock m1 s1 = Some (m2, s2) \<and> t_tier (tasks s2 h) = t_tier (tasks s h)"
proof -
  let ?m = "m\<lparr>mx_waitq := Some me\<rparr>"
  obtain s1 Q1 where b: "mutex_block m me s = Some (?m, s1)" "rq_inv s1 Q1" "waiters ?m s1 Q1 (me # W)"
    "mx_flags m AND LOCK_FLAG_INHERIT \<noteq> 0 \<and> t_tier (tasks s h) > t_tier (tasks s me) \<and>
       t_flags (tasks s h) AND TASK_INHERITED = 0 \<longrightarrow>
     t_flags (tasks s1 h) AND TASK_INHERITED \<noteq> 0 \<and> t_saved_tier (tasks s1 h) = t_tier (tasks s h) \<and>
     t_tier (tasks s1 h) = t_tier (tasks s me)"
    using assms(1-6) by (rule mutex_block_inv)
  have "mx_holder ?m = Some h" "h \<notin> set (me # W)" using assms by auto
  from mutex_unlock_inv [OF b(2,3) this] obtain m2 s2 where "mutex_unlock ?m s1 = Some (m2, s2)"
    "t_flags (tasks s1 h) AND TASK_INHERITED \<noteq> 0 \<longrightarrow> t_tier (tasks s2 h) = t_saved_tier (tasks s1 h)" by metis
  then show ?thesis using b(1,4) assms(7-9) by (intro exI conjI) (assumption | simp)+
qed

text \<open>The witness also shows what the numeric order of the tiers does to a holder of the critical tier: it is
  lowered to the user tier of the waiter.\<close>

theorem inherit_roundtrip_witness:
  "\<exists>m1 s1 m2 s2. mutex_block contended 1 (duo TIER_CRITICAL TIER_USER) = Some (m1, s1) \<and>
     t_tier (tasks s1 0) = TIER_USER \<and> mutex_unlock m1 s1 = Some (m2, s2) \<and> t_tier (tasks s2 0) = TIER_CRITICAL"
proof -
  have "waiters contended (duo TIER_CRITICAL TIER_USER) (\<lambda>_. []) []" by (simp add: waiters_def contended_def)
  from inherit_roundtrip [OF duo_inv(1) this, of 0 1] show ?thesis
    by (simp add: contended_def duo_def zero_task_def less_tier_def)
qed

end
