(* ===== verification/Ata.thy ===== *)
theory Ata
  imports Prelude
begin

text \<open>
  The ATA disk driver, \<open>driver/ata.c\<close>, in programmed I/O. The disk is not part of the kernel: it is an
  argument, the four functions \<open>inb\<close>, \<open>outb\<close>, \<open>inw\<close> and \<open>outw\<close> on a device state. The wait loops are
  partial. A 512-byte buffer is a list of 256 words; buffers are never null here.
\<close>

section \<open>Ports\<close>

record 'd ata_io =
  io_inb :: "u16 \<Rightarrow> 'd \<Rightarrow> u8 \<times> 'd"
  io_outb :: "u16 \<Rightarrow> u8 \<Rightarrow> 'd \<Rightarrow> 'd"
  io_inw :: "u16 \<Rightarrow> 'd \<Rightarrow> u16 \<times> 'd"
  io_outw :: "u16 \<Rightarrow> u16 \<Rightarrow> 'd \<Rightarrow> 'd"

abbreviation ATA_DATA :: u16 where "ATA_DATA \<equiv> 0x1F0"
abbreviation ATA_SECTOR_COUNT :: u16 where "ATA_SECTOR_COUNT \<equiv> 0x1F2"
abbreviation ATA_LBA_LOW :: u16 where "ATA_LBA_LOW \<equiv> 0x1F3"
abbreviation ATA_LBA_MID :: u16 where "ATA_LBA_MID \<equiv> 0x1F4"
abbreviation ATA_LBA_HIGH :: u16 where "ATA_LBA_HIGH \<equiv> 0x1F5"
abbreviation ATA_DRIVE :: u16 where "ATA_DRIVE \<equiv> 0x1F6"
abbreviation ATA_COMMAND :: u16 where "ATA_COMMAND \<equiv> 0x1F7"
abbreviation ATA_STATUS :: u16 where "ATA_STATUS \<equiv> 0x1F7"
abbreviation ATA_CMD_IDENTIFY :: u8 where "ATA_CMD_IDENTIFY \<equiv> 0xEC"
abbreviation ATA_CMD_READ :: u8 where "ATA_CMD_READ \<equiv> 0x20"
abbreviation ATA_CMD_WRITE :: u8 where "ATA_CMD_WRITE \<equiv> 0x30"
abbreviation ATA_SR_BSY :: u8 where "ATA_SR_BSY \<equiv> 0x80"
abbreviation ATA_SR_DRQ :: u8 where "ATA_SR_DRQ \<equiv> 0x08"
abbreviation ATA_SR_ERR :: u8 where "ATA_SR_ERR \<equiv> 0x01"

record ata_device =
  ad_present :: bool
  ad_signature :: u16
  ad_capabilities :: u16
  ad_sectors :: u32
  ad_model :: "u8 list"
  ad_serial :: "u8 list"
  ad_master :: bool

definition zero_ata :: ata_device where
  "zero_ata = \<lparr>ad_present = False, ad_signature = 0, ad_capabilities = 0, ad_sectors = 0,
     ad_model = replicate 41 0, ad_serial = replicate 21 0, ad_master = False\<rparr>"

section \<open>Waiting and transfer\<close>

partial_function (option) ata_wait_bsy :: "'d ata_io \<Rightarrow> 'd \<Rightarrow> 'd option" where
  "ata_wait_bsy io d =
     (let (status, d) = io_inb io ATA_STATUS d in
      if status AND ATA_SR_BSY \<noteq> 0 then ata_wait_bsy io d else Some d)"

partial_function (option) ata_wait_drq :: "'d ata_io \<Rightarrow> 'd \<Rightarrow> 'd option" where
  "ata_wait_drq io d =
     (let (status, d) = io_inb io ATA_STATUS d in
      if status AND ATA_SR_DRQ = 0 \<and> status AND ATA_SR_ERR = 0 then ata_wait_drq io d else Some d)"

declare ata_wait_bsy.simps [code] ata_wait_drq.simps [code]

definition drive_byte :: "bool \<Rightarrow> u8" where
  "drive_byte master = (if master then 0xE0 else 0xF0)"

definition ata_select_drive :: "'d ata_io \<Rightarrow> bool \<Rightarrow> 'd \<Rightarrow> 'd option" where
  "ata_select_drive io master d = ata_wait_bsy io (io_outb io ATA_DRIVE (drive_byte master) d)"

text \<open>\<open>count / 2\<close> words, in order.\<close>

primrec ata_read_words :: "'d ata_io \<Rightarrow> nat \<Rightarrow> 'd \<Rightarrow> u16 list \<times> 'd" where
  "ata_read_words io 0 d = ([], d)"
| "ata_read_words io (Suc n) d =
     (let (w, d) = io_inw io ATA_DATA d; (ws, d) = ata_read_words io n d in (w # ws, d))"

definition ata_read_buffer :: "'d ata_io \<Rightarrow> u32 \<Rightarrow> 'd \<Rightarrow> u16 list \<times> 'd" where
  "ata_read_buffer io count d = ata_read_words io (unat (count div 2)) d"

definition ata_write_buffer :: "'d ata_io \<Rightarrow> u16 list \<Rightarrow> 'd \<Rightarrow> 'd" where
  "ata_write_buffer io ws d = fold (\<lambda>w. io_outw io ATA_DATA w) ws d"

section \<open>Identification\<close>

text \<open>The high byte of a word comes first; the first space is replaced by a zero.\<close>

definition word_chars :: "u16 \<Rightarrow> u8 list" where
  "word_chars w = [ucast (drop_bit 8 w), ucast (w AND 0xFF)]"

fun cut_space :: "u8 list \<Rightarrow> u8 list" where
  "cut_space [] = []"
| "cut_space (b # bs) = (if b = 0x20 then 0 # bs else b # cut_space bs)"

definition ident_text :: "nat \<Rightarrow> nat \<Rightarrow> u16 list \<Rightarrow> u8 list" where
  "ident_text start n buf = cut_space (concat (map word_chars (take n (drop start buf)))) @ [0]"

definition ata_identify :: "'d ata_io \<Rightarrow> ata_device \<Rightarrow> bool \<Rightarrow> 'd \<Rightarrow> (int \<times> ata_device \<times> 'd) option" where
  "ata_identify io dev master d = do {
     d \<leftarrow> ata_wait_bsy io d;
     d \<leftarrow> ata_select_drive io master d;
     let d = io_outb io ATA_SECTOR_COUNT 0 d;
     let d = io_outb io ATA_LBA_LOW 0 d;
     let d = io_outb io ATA_LBA_MID 0 d;
     let d = io_outb io ATA_LBA_HIGH 0 d;
     let d = io_outb io ATA_COMMAND ATA_CMD_IDENTIFY d;
     let (status, d) = io_inb io ATA_STATUS d;
     if status = 0 then Some (-1, dev, d)
     else do {
       d \<leftarrow> ata_wait_bsy io d;
       let (status, d) = io_inb io ATA_STATUS d;
       if status AND ATA_SR_ERR \<noteq> 0 then Some (-1, dev, d)
       else do {
         d \<leftarrow> ata_wait_drq io d;
         let (buf, d) = ata_read_buffer io 512 d;
         Some (0, dev\<lparr>ad_present := True, ad_master := master, ad_signature := buf ! 1,
                      ad_capabilities := buf ! 49,
                      ad_sectors := ucast (buf ! 60) OR push_bit 16 (ucast (buf ! 61)),
                      ad_model := ident_text 27 20 buf, ad_serial := ident_text 10 10 buf\<rparr>, d)
       }
     }
   }"

section \<open>Sectors\<close>

text \<open>The register writes that name a sector and start a command.\<close>

definition ata_command :: "'d ata_io \<Rightarrow> bool \<Rightarrow> u32 \<Rightarrow> u8 \<Rightarrow> 'd \<Rightarrow> 'd option" where
  "ata_command io master lba cmd d = do {
     d \<leftarrow> ata_wait_bsy io d;
     d \<leftarrow> ata_select_drive io master d;
     let d = io_outb io ATA_SECTOR_COUNT 1 d;
     let d = io_outb io ATA_LBA_LOW (ucast (lba AND 0xFF)) d;
     let d = io_outb io ATA_LBA_MID (ucast (drop_bit 8 lba AND 0xFF)) d;
     let d = io_outb io ATA_LBA_HIGH (ucast (drop_bit 16 lba AND 0xFF)) d;
     let d = io_outb io ATA_DRIVE (drive_byte master OR ucast (drop_bit 24 lba AND 0x0F)) d;
     let d = io_outb io ATA_COMMAND cmd d;
     ata_wait_drq io d
   }"

primrec read_sectors_loop :: "'d ata_io \<Rightarrow> bool \<Rightarrow> nat \<Rightarrow> u32 \<Rightarrow> 'd \<Rightarrow> (u16 list \<times> 'd) option" where
  "read_sectors_loop io master 0 lba d = Some ([], d)"
| "read_sectors_loop io master (Suc n) lba d = do {
     d \<leftarrow> ata_command io master lba ATA_CMD_READ d;
     let (ws, d) = ata_read_buffer io 512 d;
     (rest, d) \<leftarrow> read_sectors_loop io master n (lba + 1) d;
     Some (ws @ rest, d)
   }"

definition ata_read_sectors :: "'d ata_io \<Rightarrow> ata_device \<Rightarrow> u32 \<Rightarrow> u32 \<Rightarrow> 'd \<Rightarrow> (int \<times> u16 list \<times> 'd) option" where
  "ata_read_sectors io dev lba count d =
     (if \<not> ad_present dev \<or> count = 0 then Some (-1, [], d)
      else do {
        (ws, d) \<leftarrow> read_sectors_loop io (ad_master dev) (unat count) lba d;
        Some (0, ws, d)
      })"

text \<open>The buffer to write holds the words of \<open>count\<close> sectors.\<close>

primrec write_sectors_loop :: "'d ata_io \<Rightarrow> bool \<Rightarrow> nat \<Rightarrow> u32 \<Rightarrow> u16 list \<Rightarrow> 'd \<Rightarrow> 'd option" where
  "write_sectors_loop io master 0 lba buf d = Some d"
| "write_sectors_loop io master (Suc n) lba buf d = do {
     d \<leftarrow> ata_command io master lba ATA_CMD_WRITE d;
     write_sectors_loop io master n (lba + 1) (drop 256 buf) (ata_write_buffer io (take 256 buf) d)
   }"

definition ata_write_sectors :: "'d ata_io \<Rightarrow> ata_device \<Rightarrow> u32 \<Rightarrow> u16 list \<Rightarrow> u32 \<Rightarrow> 'd \<Rightarrow> (int \<times> 'd) option" where
  "ata_write_sectors io dev lba buf count d =
     (if \<not> ad_present dev \<or> count = 0 then Some (-1, d)
      else do {
        d \<leftarrow> write_sectors_loop io (ad_master dev) (unat count) lba buf d;
        Some (0, d)
      })"

section \<open>The drive\<close>

text \<open>
  What the driver relies on: the PIO protocol of an ATA drive with 28-bit sector numbers, for one-sector
  commands. \<open>v\<close> reads the drive's registers, the phase of a transfer and the contents of the sectors of the
  two drives off the device state. \<open>busy\<close> bounds the number of status reads for which the drive stays busy; a
  busy drive shows neither DRQ nor ERR, and a drive in a data phase that is not busy shows DRQ.
\<close>

datatype phase = Idle | Reading "u16 list" | Writing "u16 list"

record pio =
  r_count :: u8
  r_low :: u8
  r_mid :: u8
  r_high :: u8
  r_drive :: u8
  ph :: phase
  sectors :: "bool \<Rightarrow> nat \<Rightarrow> u16 list"

definition sel_lba :: "pio \<Rightarrow> nat" where
  "sel_lba p = unat (r_low p) + 256 * unat (r_mid p) + 65536 * unat (r_high p) + 16777216 * (unat (r_drive p) mod 16)"

definition sel_master :: "pio \<Rightarrow> bool" where
  "sel_master p \<longleftrightarrow> r_drive p AND 0x10 = 0"

definition next_read :: "u16 list \<Rightarrow> phase" where
  "next_read ws = (if ws = [] then Idle else Reading ws)"

definition set_sector :: "bool \<Rightarrow> nat \<Rightarrow> u16 list \<Rightarrow> (bool \<Rightarrow> nat \<Rightarrow> u16 list) \<Rightarrow> bool \<Rightarrow> nat \<Rightarrow> u16 list" where
  "set_sector m k ws S = (\<lambda>m' k'. if m' = m \<and> k' = k then ws else S m' k')"

lemma set_sector_apply: "set_sector m k ws S m' k' = (if m' = m \<and> k' = k then ws else S m' k')"
  by (simp add: set_sector_def)

definition next_write :: "u16 list \<Rightarrow> pio \<Rightarrow> pio" where
  "next_write ws p = (if length ws < 256 then p\<lparr>ph := Writing ws\<rparr>
     else p\<lparr>ph := Idle, sectors := set_sector (sel_master p) (sel_lba p) ws (sectors p)\<rparr>)"

definition status_ok :: "bool \<Rightarrow> phase \<Rightarrow> u8 \<Rightarrow> bool" where
  "status_ok bsy f st \<longleftrightarrow>
     (if bsy then st AND ATA_SR_BSY \<noteq> 0 \<and> st AND ATA_SR_DRQ = 0 \<and> st AND ATA_SR_ERR = 0
      else st AND ATA_SR_BSY = 0 \<and> (f \<noteq> Idle \<longrightarrow> st AND ATA_SR_DRQ \<noteq> 0))"

definition pio_drive :: "'d ata_io \<Rightarrow> ('d \<Rightarrow> pio) \<Rightarrow> ('d \<Rightarrow> nat) \<Rightarrow> bool" where
  "pio_drive io v busy \<longleftrightarrow>
     (\<forall>d. v (snd (io_inb io ATA_STATUS d)) = v d \<and> busy (snd (io_inb io ATA_STATUS d)) = busy d - 1 \<and>
          status_ok (busy d > 0) (ph (v d)) (fst (io_inb io ATA_STATUS d))) \<and>
     (\<forall>d x. v (io_outb io ATA_SECTOR_COUNT x d) = (v d)\<lparr>r_count := x\<rparr> \<and>
            v (io_outb io ATA_LBA_LOW x d) = (v d)\<lparr>r_low := x\<rparr> \<and>
            v (io_outb io ATA_LBA_MID x d) = (v d)\<lparr>r_mid := x\<rparr> \<and>
            v (io_outb io ATA_LBA_HIGH x d) = (v d)\<lparr>r_high := x\<rparr> \<and>
            v (io_outb io ATA_DRIVE x d) = (v d)\<lparr>r_drive := x\<rparr>) \<and>
     (\<forall>d. r_count (v d) = 1 \<longrightarrow>
        v (io_outb io ATA_COMMAND ATA_CMD_READ d) = (v d)\<lparr>ph := next_read (sectors (v d) (sel_master (v d)) (sel_lba (v d)))\<rparr> \<and>
        v (io_outb io ATA_COMMAND ATA_CMD_WRITE d) = (v d)\<lparr>ph := Writing []\<rparr>) \<and>
     (\<forall>d w ws. ph (v d) = Reading (w # ws) \<longrightarrow>
        fst (io_inw io ATA_DATA d) = w \<and> v (snd (io_inw io ATA_DATA d)) = (v d)\<lparr>ph := next_read ws\<rparr>) \<and>
     (\<forall>d w ws. ph (v d) = Writing ws \<longrightarrow> v (io_outw io ATA_DATA w d) = next_write (ws @ [w]) (v d))"

lemma pio_status:
  assumes "pio_drive io v busy"
  shows "v (snd (io_inb io ATA_STATUS d)) = v d" "busy (snd (io_inb io ATA_STATUS d)) = busy d - 1"
    "status_ok (busy d > 0) (ph (v d)) (fst (io_inb io ATA_STATUS d))"
  using assms by (simp_all add: pio_drive_def)

lemma pio_regs:
  assumes "pio_drive io v busy"
  shows "v (io_outb io ATA_SECTOR_COUNT x d) = (v d)\<lparr>r_count := x\<rparr>"
    "v (io_outb io ATA_LBA_LOW x d) = (v d)\<lparr>r_low := x\<rparr>" "v (io_outb io ATA_LBA_MID x d) = (v d)\<lparr>r_mid := x\<rparr>"
    "v (io_outb io ATA_LBA_HIGH x d) = (v d)\<lparr>r_high := x\<rparr>" "v (io_outb io ATA_DRIVE x d) = (v d)\<lparr>r_drive := x\<rparr>"
  using assms by (simp_all add: pio_drive_def)

lemma pio_cmd:
  assumes "pio_drive io v busy" "r_count (v d) = 1"
  shows "v (io_outb io ATA_COMMAND ATA_CMD_READ d) = (v d)\<lparr>ph := next_read (sectors (v d) (sel_master (v d)) (sel_lba (v d)))\<rparr>"
    "v (io_outb io ATA_COMMAND ATA_CMD_WRITE d) = (v d)\<lparr>ph := Writing []\<rparr>"
  using assms by (simp_all add: pio_drive_def)

lemma pio_inw:
  assumes "pio_drive io v busy" "ph (v d) = Reading (w # ws)"
  shows "fst (io_inw io ATA_DATA d) = w" "v (snd (io_inw io ATA_DATA d)) = (v d)\<lparr>ph := next_read ws\<rparr>"
  using assms by (simp_all add: pio_drive_def)

lemma pio_outw:
  assumes "pio_drive io v busy" "ph (v d) = Writing ws"
  shows "v (io_outw io ATA_DATA w d) = next_write (ws @ [w]) (v d)"
  using assms by (simp add: pio_drive_def)

section \<open>Waiting\<close>

lemma ata_wait_bsy_returns:
  assumes "pio_drive io v busy"
  shows "\<exists>d'. ata_wait_bsy io d = Some d' \<and> v d' = v d"
proof (induction "busy d" arbitrary: d rule: less_induct)
  case less
  note st = pio_status [OF assms, of d]
  show ?case
  proof (cases "busy d = 0")
    case True
    then show ?thesis using st by (subst ata_wait_bsy.simps) (simp add: case_prod_unfold Let_def status_ok_def)
  next
    case False
    then obtain d' where "ata_wait_bsy io (snd (io_inb io ATA_STATUS d)) = Some d'" "v d' = v d"
      using less [of "snd (io_inb io ATA_STATUS d)"] st(1,2) by auto
    then show ?thesis using st(3) False by (subst ata_wait_bsy.simps) (simp add: case_prod_unfold Let_def status_ok_def)
  qed
qed

lemma ata_wait_drq_returns:
  assumes "pio_drive io v busy" "ph (v d) \<noteq> Idle"
  shows "\<exists>d'. ata_wait_drq io d = Some d' \<and> v d' = v d"
  using assms(2)
proof (induction "busy d" arbitrary: d rule: less_induct)
  case less
  note st = pio_status [OF assms(1), of d]
  show ?case
  proof (cases "busy d = 0")
    case True
    then show ?thesis using st less.prems by (subst ata_wait_drq.simps) (simp add: case_prod_unfold Let_def status_ok_def)
  next
    case False
    then obtain d' where "ata_wait_drq io (snd (io_inb io ATA_STATUS d)) = Some d'" "v d' = v d"
      using less.hyps [of "snd (io_inb io ATA_STATUS d)"] less.prems st(1,2) by auto
    then show ?thesis using st(3) False by (subst ata_wait_drq.simps) (simp add: case_prod_unfold Let_def status_ok_def)
  qed
qed

section \<open>Commands\<close>

lemma unat_byte: "unat (ucast (w AND 0xFF) :: u8) = unat (w :: u32) mod 256"
proof -
  have m: "(0xFF :: u32) = mask 8" by (simp add: mask_eq_exp_minus_1)
  have "unat (w AND 0xFF) = unat w mod 256" unfolding m by (simp add: unat_and_mask32)
  then show ?thesis by (simp add: unsigned_ucast_eq unsigned_take_bit_eq take_bit_eq_mod)
qed

lemma lba_parts: "n mod 256 + 256 * (n div 256 mod 256) + 65536 * (n div 65536 mod 256) + 16777216 * (n div 16777216 mod 16)
    = n mod (268435456 :: nat)"
proof -
  have a: "n mod 65536 = n mod 256 + 256 * (n div 256 mod 256)" using mod_mult2_eq [of n 256 256] by simp
  have b: "n mod 16777216 = n mod 65536 + 65536 * (n div 65536 mod 256)" using mod_mult2_eq [of n 65536 256] by simp
  have c: "n mod 268435456 = n mod 16777216 + 16777216 * (n div 16777216 mod 16)" using mod_mult2_eq [of n 16777216 16] by simp
  show ?thesis unfolding c b a by simp
qed

definition low_nibbles :: "u8 list" where "low_nibbles = map of_nat [0..<16]"

lemma nib_enum: "list_all (\<lambda>m. list_all (\<lambda>x. ((drive_byte m OR x) AND 0x10 = 0) = m \<and> unat (drive_byte m OR x) mod 16 = unat x) low_nibbles) [True, False]"
  by code_simp

lemma nib:
  assumes "unat (x :: u8) < 16"
  shows "((drive_byte m OR x) AND 0x10 = 0) = m" "unat (drive_byte m OR x) mod 16 = unat x"
proof -
  have "x = of_nat (unat x)" by simp
  then have "x \<in> set low_nibbles" using assms unfolding low_nibbles_def by (metis atLeastLessThan_iff image_eqI le0 set_map set_upt)
  moreover have "m \<in> set [True, False]" by (cases m) auto
  ultimately show "((drive_byte m OR x) AND 0x10 = 0) = m" "unat (drive_byte m OR x) mod 16 = unat x" 
    using nib_enum unfolding list_all_iff by blast+
qed

lemma unat_nib: "unat (ucast (w AND 0x0F) :: u8) = unat (w :: u32) mod 16"
proof -
  have m: "(0x0F :: u32) = mask 4" by (simp add: mask_eq_exp_minus_1)
  have "unat (w AND 0x0F) = unat w mod 16" unfolding m by (simp add: unat_and_mask32)
  then show ?thesis by (simp add: unsigned_ucast_eq unsigned_take_bit_eq take_bit_eq_mod)
qed

lemma sel_bits:
  fixes lba :: u32
  shows "(drive_byte m OR ucast (drop_bit 24 lba AND 0x0F)) AND 0x10 = 0 \<longleftrightarrow> m"
    "unat (drive_byte m OR ucast (drop_bit 24 lba AND 0x0F)) mod 16 = unat lba div 16777216 mod 16"
proof -
  have u: "unat (ucast (drop_bit 24 lba AND 0x0F) :: u8) = unat lba div 16777216 mod 16"
    by (simp add: unat_nib unat_drop_bit32)
  then have l: "unat (ucast (drop_bit 24 lba AND 0x0F) :: u8) < 16" by simp
  show "(drive_byte m OR ucast (drop_bit 24 lba AND 0x0F)) AND 0x10 = 0 \<longleftrightarrow> m"
    "unat (drive_byte m OR ucast (drop_bit 24 lba AND 0x0F)) mod 16 = unat lba div 16777216 mod 16"
    using nib [OF l] u by simp_all
qed

text \<open>A command addresses the sector whose number is the low 28 bits of the argument.\<close>

lemma ata_command_regs:
  assumes "pio_drive io v busy"
  obtains e where "v e = (v d)\<lparr>r_count := 1, r_low := ucast (lba AND 0xFF), r_mid := ucast (drop_bit 8 lba AND 0xFF),
      r_high := ucast (drop_bit 16 lba AND 0xFF), r_drive := drive_byte m OR ucast (drop_bit 24 lba AND 0x0F)\<rparr>"
    "sel_master (v e) = m" "sel_lba (v e) = unat lba mod 268435456"
    "\<And>cmd. ata_command io m lba cmd d = ata_wait_drq io (io_outb io ATA_COMMAND cmd e)"
proof -
  obtain d1 where d1: "ata_wait_bsy io d = Some d1" "v d1 = v d" using ata_wait_bsy_returns [OF assms] by blast
  obtain d2 where d2: "ata_wait_bsy io (io_outb io ATA_DRIVE (drive_byte m) d1) = Some d2"
    "v d2 = (v d)\<lparr>r_drive := drive_byte m\<rparr>"
    using ata_wait_bsy_returns [OF assms] pio_regs [OF assms] d1(2) by metis
  let ?e = "io_outb io ATA_DRIVE (drive_byte m OR ucast (drop_bit 24 lba AND 0x0F))
    (io_outb io ATA_LBA_HIGH (ucast (drop_bit 16 lba AND 0xFF)) (io_outb io ATA_LBA_MID (ucast (drop_bit 8 lba AND 0xFF))
      (io_outb io ATA_LBA_LOW (ucast (lba AND 0xFF)) (io_outb io ATA_SECTOR_COUNT 1 d2))))"
  have v: "v ?e = (v d)\<lparr>r_count := 1, r_low := ucast (lba AND 0xFF), r_mid := ucast (drop_bit 8 lba AND 0xFF),
      r_high := ucast (drop_bit 16 lba AND 0xFF), r_drive := drive_byte m OR ucast (drop_bit 24 lba AND 0x0F)\<rparr>"
    by (simp only: pio_regs [OF assms] d2) simp
  show ?thesis
  proof (rule that [of ?e])
    show "sel_master (v ?e) = m" unfolding v by (simp add: sel_master_def sel_bits)
    show "sel_lba (v ?e) = unat lba mod 268435456"
      unfolding v by (simp add: sel_lba_def sel_bits unat_byte unat_drop_bit32 lba_parts)
    show "ata_command io m lba cmd d = ata_wait_drq io (io_outb io ATA_COMMAND cmd ?e)" for cmd
      using d1(1) d2(1) by (simp add: ata_command_def ata_select_drive_def)
  qed (rule v)
qed

lemma ata_command_read:
  assumes "pio_drive io v busy" "sectors (v d) m (unat lba mod 268435456) \<noteq> []"
  shows "\<exists>d'. ata_command io m lba ATA_CMD_READ d = Some d' \<and> sectors (v d') = sectors (v d) \<and>
    ph (v d') = Reading (sectors (v d) m (unat lba mod 268435456))"
proof -
  obtain e where e: "v e = (v d)\<lparr>r_count := 1, r_low := ucast (lba AND 0xFF), r_mid := ucast (drop_bit 8 lba AND 0xFF),
      r_high := ucast (drop_bit 16 lba AND 0xFF), r_drive := drive_byte m OR ucast (drop_bit 24 lba AND 0x0F)\<rparr>"
    "sel_master (v e) = m" "sel_lba (v e) = unat lba mod 268435456"
    "\<And>cmd. ata_command io m lba cmd d = ata_wait_drq io (io_outb io ATA_COMMAND cmd e)"
    using ata_command_regs [OF assms(1)] by blast
  have c: "v (io_outb io ATA_COMMAND ATA_CMD_READ e) = (v e)\<lparr>ph := Reading (sectors (v d) m (unat lba mod 268435456))\<rparr>"
    using pio_cmd(1) [OF assms(1), of e] e assms(2) by (simp add: next_read_def)
  then have "ph (v (io_outb io ATA_COMMAND ATA_CMD_READ e)) \<noteq> Idle" by simp
  from ata_wait_drq_returns [OF assms(1) this] show ?thesis using e c by auto
qed

lemma ata_command_write:
  assumes "pio_drive io v busy"
  shows "\<exists>d'. ata_command io m lba ATA_CMD_WRITE d = Some d' \<and> sectors (v d') = sectors (v d) \<and>
    ph (v d') = Writing [] \<and> sel_master (v d') = m \<and> sel_lba (v d') = unat lba mod 268435456"
proof -
  obtain e where e: "v e = (v d)\<lparr>r_count := 1, r_low := ucast (lba AND 0xFF), r_mid := ucast (drop_bit 8 lba AND 0xFF),
      r_high := ucast (drop_bit 16 lba AND 0xFF), r_drive := drive_byte m OR ucast (drop_bit 24 lba AND 0x0F)\<rparr>"
    "sel_master (v e) = m" "sel_lba (v e) = unat lba mod 268435456"
    "\<And>cmd. ata_command io m lba cmd d = ata_wait_drq io (io_outb io ATA_COMMAND cmd e)"
    using ata_command_regs [OF assms(1)] by blast
  have c: "v (io_outb io ATA_COMMAND ATA_CMD_WRITE e) = (v e)\<lparr>ph := Writing []\<rparr>"
    using pio_cmd(2) [OF assms(1), of e] e by simp
  then have "ph (v (io_outb io ATA_COMMAND ATA_CMD_WRITE e)) \<noteq> Idle" by simp
  from ata_wait_drq_returns [OF assms(1) this] obtain d' where
    "ata_wait_drq io (io_outb io ATA_COMMAND ATA_CMD_WRITE e) = Some d'" "v d' = (v e)\<lparr>ph := Writing []\<rparr>"
    using c by auto
  then show ?thesis using e by (auto simp: sel_master_def sel_lba_def)
qed

section \<open>Transfers\<close>

lemma ata_read_words_all:
  assumes "pio_drive io v busy"
  shows "(ws = [] \<or> ph (v d) = Reading ws) \<Longrightarrow> \<exists>d'. ata_read_words io (length ws) d = (ws, d') \<and> sectors (v d') = sectors (v d)"
proof (induction ws arbitrary: d)
  case Nil
  then show ?case by simp
next
  case (Cons w ws)
  then have "ph (v d) = Reading (w # ws)" by simp
  note i = pio_inw [OF assms this]
  have "ws = [] \<or> ph (v (snd (io_inw io ATA_DATA d))) = Reading ws" using i(2) by (auto simp: next_read_def)
  from Cons.IH [OF this] obtain d' where "ata_read_words io (length ws) (snd (io_inw io ATA_DATA d)) = (ws, d')"
    "sectors (v d') = sectors (v d)" using i(2) by auto
  then show ?case using i(1) by (simp add: case_prod_unfold Let_def)
qed

lemma ata_write_words_all:
  assumes "pio_drive io v busy"
  shows "ph (v d) = Writing acc \<Longrightarrow> length acc + length ws = 256 \<Longrightarrow> ws \<noteq> [] \<Longrightarrow>
    sectors (v (ata_write_buffer io ws d)) =
      set_sector (sel_master (v d)) (sel_lba (v d)) (acc @ ws) (sectors (v d))"
proof (induction ws arbitrary: acc d)
  case Nil
  then show ?case by simp
next
  case (Cons w ws)
  note o = pio_outw [OF assms Cons.prems(1), of w]
  show ?case
  proof (cases "ws = []")
    case True
    then show ?thesis using o Cons.prems(2) by (simp add: ata_write_buffer_def next_write_def)
  next
    case False
    then have n: "v (io_outw io ATA_DATA w d) = (v d)\<lparr>ph := Writing (acc @ [w])\<rparr>"
      using o Cons.prems(2) by (cases ws) (auto simp: next_write_def)
    have "sectors (v (ata_write_buffer io ws (io_outw io ATA_DATA w d))) = 
        set_sector (sel_master (v d)) (sel_lba (v d)) ((acc @ [w]) @ ws) (sectors (v d))"
      using Cons.IH [of "io_outw io ATA_DATA w d" "acc @ [w]"] n False Cons.prems(2) by (simp add: sel_master_def sel_lba_def)
    then show ?thesis by (simp add: ata_write_buffer_def)
  qed
qed

text \<open>The sectors that the write loop leaves, and what the read loop sees.\<close>

primrec wr_at :: "bool \<Rightarrow> nat \<Rightarrow> u32 \<Rightarrow> u16 list \<Rightarrow> (bool \<Rightarrow> nat \<Rightarrow> u16 list) \<Rightarrow> bool \<Rightarrow> nat \<Rightarrow> u16 list" where
  "wr_at m 0 lba buf S = S"
| "wr_at m (Suc n) lba buf S =
     wr_at m n (lba + 1) (drop 256 buf) (set_sector m (unat lba mod 268435456) (take 256 buf) S)"

primrec rd_at :: "bool \<Rightarrow> nat \<Rightarrow> u32 \<Rightarrow> (bool \<Rightarrow> nat \<Rightarrow> u16 list) \<Rightarrow> u16 list" where
  "rd_at m 0 lba S = []"
| "rd_at m (Suc n) lba S = S m (unat lba mod 268435456) @ rd_at m n (lba + 1) S"

lemma write_sectors_loop_eq:
  assumes "pio_drive io v busy"
  shows "length buf = 256 * n \<Longrightarrow> \<exists>d'. write_sectors_loop io m n lba buf d = Some d' \<and>
    sectors (v d') = wr_at m n lba buf (sectors (v d))"
proof (induction n arbitrary: lba buf d)
  case 0
  then show ?case by simp
next
  case (Suc n)
  obtain d1 where d1: "ata_command io m lba ATA_CMD_WRITE d = Some d1" "sectors (v d1) = sectors (v d)"
    "ph (v d1) = Writing []" "sel_master (v d1) = m" "sel_lba (v d1) = unat lba mod 268435456"
    using ata_command_write [OF assms] by blast
  have l: "length (take 256 buf) = 256" "take 256 buf \<noteq> []" using Suc.prems by auto
  have s1: "sectors (v (ata_write_buffer io (take 256 buf) d1)) =
      set_sector m (unat lba mod 268435456) (take 256 buf) (sectors (v d))"
    using ata_write_words_all [OF assms d1(3), of "take 256 buf"] l d1(2,4,5) by simp
  obtain d' where "write_sectors_loop io m n (lba + 1) (drop 256 buf) (ata_write_buffer io (take 256 buf) d1) = Some d'"
    "sectors (v d') = wr_at m n (lba + 1) (drop 256 buf) (sectors (v (ata_write_buffer io (take 256 buf) d1)))"
    using Suc.IH [of "drop 256 buf"] Suc.prems by auto
  then show ?case using d1(1) s1 by simp
qed

lemma read_sectors_loop_eq:
  assumes "pio_drive io v busy"
  shows "\<forall>i < n. length (sectors (v d) m (unat (lba + of_nat i) mod 268435456)) = 256 \<Longrightarrow>
    \<exists>d'. read_sectors_loop io m n lba d = Some (rd_at m n lba (sectors (v d)), d') \<and> sectors (v d') = sectors (v d)"
proof (induction n arbitrary: lba d)
  case 0
  then show ?case by simp
next
  case (Suc n)
  let ?ws = "sectors (v d) m (unat lba mod 268435456)"
  have l: "length ?ws = 256" using Suc.prems [rule_format, of 0] by simp
  then have "?ws \<noteq> []" by auto
  from ata_command_read [OF assms this] obtain d1 where d1: "ata_command io m lba ATA_CMD_READ d = Some d1"
    "sectors (v d1) = sectors (v d)" "ph (v d1) = Reading ?ws" by blast
  obtain d2 where d2: "ata_read_buffer io 512 d1 = (?ws, d2)" "sectors (v d2) = sectors (v d)"
    using ata_read_words_all [OF assms, of ?ws d1] d1(2,3) l by (auto simp: ata_read_buffer_def)
  have "\<forall>i < n. length (sectors (v d2) m (unat (lba + 1 + of_nat i) mod 268435456)) = 256"
  proof (intro allI impI)
    fix i assume "i < n"
    then show "length (sectors (v d2) m (unat (lba + 1 + of_nat i) mod 268435456)) = 256"
      using Suc.prems [rule_format, of "Suc i"] d2(2) by (simp add: add.assoc)
  qed
  from Suc.IH [OF this] show ?case using d1(1) d2 by auto
qed

lemma unat_add_mod28: "unat ((lba :: u32) + of_nat i) mod 268435456 = (unat lba + i) mod 268435456"
proof -
  have "unat (lba + of_nat i) = (unat lba + i) mod 4294967296"
    by (simp add: unat_word_ariths unat_of_nat mod_simps)
  then show ?thesis by (simp add: mod_mod_cancel)
qed

lemma wr_at_other:
  "(\<And>i. i < n \<Longrightarrow> m' = m \<Longrightarrow> k \<noteq> unat (lba + of_nat i) mod 268435456) \<Longrightarrow> wr_at m n lba buf S m' k = S m' k"
proof (induction n arbitrary: lba buf S)
  case 0
  then show ?case by simp
next
  case (Suc n)
  have "k \<noteq> unat (lba + 1 + of_nat i) mod 268435456" if "i < n" "m' = m" for i
    using Suc.prems [of "Suc i"] that by (simp add: add.assoc)
  moreover have "m' = m \<Longrightarrow> k \<noteq> unat lba mod 268435456" using Suc.prems [of 0] by simp
  ultimately show ?case by (auto simp: Suc.IH set_sector_apply)
qed

lemma rd_wr_at:
  "length buf = 256 * n \<Longrightarrow> n \<le> 268435456 \<Longrightarrow> rd_at m n lba (wr_at m n lba buf S) = buf \<and>
   (\<forall>i < n. length (wr_at m n lba buf S m (unat (lba + of_nat i) mod 268435456)) = 256)"
proof (induction n arbitrary: lba buf S)
  case 0
  then show ?case by simp
next
  case (Suc n)
  let ?S = "set_sector m (unat lba mod 268435456) (take 256 buf) S"
  have f: "wr_at m n (lba + 1) (drop 256 buf) ?S m (unat lba mod 268435456) = take 256 buf"
  proof -
    have "unat lba mod 268435456 \<noteq> unat (lba + 1 + of_nat i) mod 268435456" if "i < n" for i
    proof -
      have "(unat lba + Suc i) mod 268435456 \<noteq> unat lba mod 268435456"
      proof
        assume "(unat lba + Suc i) mod 268435456 = unat lba mod 268435456"
        then have "268435456 dvd (unat lba + Suc i) - unat lba" by (rule mod_eq_dvd_iff_nat [THEN iffD1, rotated]) simp
        then show False using that Suc.prems(2) dvd_imp_le [of 268435456 "Suc i"] by simp
      qed
      then show ?thesis using unat_add_mod28 [of lba "Suc i"] by (auto simp: add.assoc)
    qed
    then show ?thesis by (subst wr_at_other) (auto simp: set_sector_apply)
  qed
  have IH: "rd_at m n (lba + 1) (wr_at m n (lba + 1) (drop 256 buf) ?S) = drop 256 buf"
    "\<forall>i < n. length (wr_at m n (lba + 1) (drop 256 buf) ?S m (unat (lba + 1 + of_nat i) mod 268435456)) = 256"
    using Suc.IH [of "drop 256 buf" "lba + 1" ?S] Suc.prems by simp_all
  show ?case
  proof
    show "rd_at m (Suc n) lba (wr_at m (Suc n) lba buf S) = buf" using f IH(1) by simp
    show "\<forall>i < Suc n. length (wr_at m (Suc n) lba buf S m (unat (lba + of_nat i) mod 268435456)) = 256"
      using f IH(2) Suc.prems(1) by (simp add: All_less_Suc2 add.assoc)
  qed
qed

section \<open>Properties\<close>



text \<open>A drive that stays busy for three status reads after every command.\<close>

definition demo_drive :: "(pio \<times> nat) ata_io" where
  "demo_drive = \<lparr>
     io_inb = (\<lambda>port (p, b). (if b > 0 then 0x80 else if ph p = Idle then 0x40 else 0x48, p, b - 1)),
     io_outb = (\<lambda>port x (p, b).
       (if port = ATA_SECTOR_COUNT then p\<lparr>r_count := x\<rparr>
        else if port = ATA_LBA_LOW then p\<lparr>r_low := x\<rparr>
        else if port = ATA_LBA_MID then p\<lparr>r_mid := x\<rparr>
        else if port = ATA_LBA_HIGH then p\<lparr>r_high := x\<rparr>
        else if port = ATA_DRIVE then p\<lparr>r_drive := x\<rparr>
        else if x = ATA_CMD_READ then p\<lparr>ph := next_read (sectors p (sel_master p) (sel_lba p))\<rparr>
        else if x = ATA_CMD_WRITE then p\<lparr>ph := Writing []\<rparr> else p, 3)),
     io_inw = (\<lambda>port (p, b). case ph p of Reading (w # ws) \<Rightarrow> (w, p\<lparr>ph := next_read ws\<rparr>, b) | _ \<Rightarrow> (0, p, b)),
     io_outw = (\<lambda>port w (p, b). case ph p of Writing ws \<Rightarrow> (next_write (ws @ [w]) p, b) | _ \<Rightarrow> (p, b))\<rparr>"

lemma demo_drive_pio: "pio_drive demo_drive fst snd"
  by (simp add: pio_drive_def demo_drive_def status_ok_def case_prod_unfold)

definition demo_pio :: pio where
  "demo_pio = \<lparr>r_count = 0, r_low = 0, r_mid = 0, r_high = 0, r_drive = 0, ph = Idle, sectors = (\<lambda>_ _. replicate 256 0)\<rparr>"


text \<open>
  The driver addresses 28 bits: a command for sector \<open>lba\<close> is the command for the sector with the four high
  bits cleared, for every drive. A sector number of 2^28 or more silently names another sector.
\<close>

theorem ata_lba_wraps: "ata_command io master lba cmd d = ata_command io master (lba AND 0x0FFFFFFF) cmd d"
proof -
  have e: "(lba AND 0x0FFFFFFF) AND 0xFF = lba AND 0xFF"
    "drop_bit 8 (lba AND 0x0FFFFFFF) AND 0xFF = drop_bit 8 lba AND 0xFF"
    "drop_bit 16 (lba AND 0x0FFFFFFF) AND 0xFF = drop_bit 16 lba AND 0xFF"
    "drop_bit 24 (lba AND 0x0FFFFFFF) AND 0x0F = drop_bit 24 lba AND 0x0F"
    by (simp_all add: drop_bit_and and.assoc)
  show ?thesis unfolding ata_command_def e ..
qed

end
