(* ===== verification/Tailq.thy ===== *)
theory Tailq
  imports Prelude
begin

text \<open>
  The doubly linked tail queues of \<open>include/sys/queue.h\<close>. A queue head holds the first element and
  the address of the last \<open>next\<close> cell; an element holds its successor and the address of the cell
  that points to it. Such addresses (\<open>struct type **\<close>) are the values of \<open>cell\<close>: the \<open>tqh_first\<close>
  field of a head, or the \<open>tqe_next\<close> field of an element. One \<open>tailq\<close> record holds all the heads and
  all the elements that share one \<open>TAILQ_ENTRY\<close> field, so that the aliasing of the C code is kept:
  inserting an element twice damages the links here as it does there.

  The macros are proved to implement operations on lists (\<open>tq_list\<close>), for the queue they act on and
  for every other queue threaded through the same field.
\<close>

section \<open>The macros\<close>

datatype 'h cell = HeadCell 'h | NextCell nat

record 'h tailq =
  tqh_first :: "'h \<Rightarrow> nat option"
  tqh_last :: "'h \<Rightarrow> 'h cell"
  tqe_next :: "nat \<Rightarrow> nat option"
  tqe_prev :: "nat \<Rightarrow> 'h cell"

text \<open>The assignment \<open>*cell = v\<close>.\<close>

definition store_cell :: "'h cell \<Rightarrow> nat option \<Rightarrow> 'h tailq \<Rightarrow> 'h tailq" where
  "store_cell c v q = (case c of
       HeadCell h \<Rightarrow> q\<lparr>tqh_first := (tqh_first q)(h := v)\<rparr>
     | NextCell e \<Rightarrow> q\<lparr>tqe_next := (tqe_next q)(e := v)\<rparr>)"

definition TAILQ_INIT :: "'h \<Rightarrow> 'h tailq \<Rightarrow> 'h tailq" where
  "TAILQ_INIT h q = q\<lparr>tqh_first := (tqh_first q)(h := None),
                      tqh_last := (tqh_last q)(h := HeadCell h)\<rparr>"

definition TAILQ_EMPTY :: "'h \<Rightarrow> 'h tailq \<Rightarrow> bool" where
  "TAILQ_EMPTY h q \<longleftrightarrow> tqh_first q h = None"

definition TAILQ_FIRST :: "'h \<Rightarrow> 'h tailq \<Rightarrow> nat option" where
  "TAILQ_FIRST h q = tqh_first q h"

definition TAILQ_NEXT :: "nat \<Rightarrow> 'h tailq \<Rightarrow> nat option" where
  "TAILQ_NEXT e q = tqe_next q e"

definition TAILQ_INSERT_HEAD :: "'h \<Rightarrow> nat \<Rightarrow> 'h tailq \<Rightarrow> 'h tailq" where
  "TAILQ_INSERT_HEAD h e q =
     (let f = TAILQ_FIRST h q;
          q = q\<lparr>tqe_next := (tqe_next q)(e := f)\<rparr>;
          q = (case f of
                 Some x \<Rightarrow> q\<lparr>tqe_prev := (tqe_prev q)(x := NextCell e)\<rparr>
               | None \<Rightarrow> q\<lparr>tqh_last := (tqh_last q)(h := NextCell e)\<rparr>);
          q = q\<lparr>tqh_first := (tqh_first q)(h := Some e)\<rparr>
      in q\<lparr>tqe_prev := (tqe_prev q)(e := HeadCell h)\<rparr>)"

definition TAILQ_INSERT_TAIL :: "'h \<Rightarrow> nat \<Rightarrow> 'h tailq \<Rightarrow> 'h tailq" where
  "TAILQ_INSERT_TAIL h e q =
     (let q = q\<lparr>tqe_next := (tqe_next q)(e := None)\<rparr>;
          q = q\<lparr>tqe_prev := (tqe_prev q)(e := tqh_last q h)\<rparr>;
          q = store_cell (tqh_last q h) (Some e) q
      in q\<lparr>tqh_last := (tqh_last q)(h := NextCell e)\<rparr>)"

definition TAILQ_INSERT_AFTER :: "'h \<Rightarrow> nat \<Rightarrow> nat \<Rightarrow> 'h tailq \<Rightarrow> 'h tailq" where
  "TAILQ_INSERT_AFTER h l e q =
     (let n = TAILQ_NEXT l q;
          q = q\<lparr>tqe_next := (tqe_next q)(e := n)\<rparr>;
          q = (case n of
                 Some x \<Rightarrow> q\<lparr>tqe_prev := (tqe_prev q)(x := NextCell e)\<rparr>
               | None \<Rightarrow> q\<lparr>tqh_last := (tqh_last q)(h := NextCell e)\<rparr>);
          q = q\<lparr>tqe_next := (tqe_next q)(l := Some e)\<rparr>
      in q\<lparr>tqe_prev := (tqe_prev q)(e := NextCell l)\<rparr>)"

definition TAILQ_INSERT_BEFORE :: "nat \<Rightarrow> nat \<Rightarrow> 'h tailq \<Rightarrow> 'h tailq" where
  "TAILQ_INSERT_BEFORE l e q =
     (let q = q\<lparr>tqe_prev := (tqe_prev q)(e := tqe_prev q l)\<rparr>;
          q = q\<lparr>tqe_next := (tqe_next q)(e := Some l)\<rparr>;
          q = store_cell (tqe_prev q l) (Some e) q
      in q\<lparr>tqe_prev := (tqe_prev q)(l := NextCell e)\<rparr>)"

definition TAILQ_REMOVE :: "'h \<Rightarrow> nat \<Rightarrow> 'h tailq \<Rightarrow> 'h tailq" where
  "TAILQ_REMOVE h e q =
     (let q = (case TAILQ_NEXT e q of
                 Some x \<Rightarrow> q\<lparr>tqe_prev := (tqe_prev q)(x := tqe_prev q e)\<rparr>
               | None \<Rightarrow> q\<lparr>tqh_last := (tqh_last q)(h := tqe_prev q e)\<rparr>)
      in store_cell (tqe_prev q e) (TAILQ_NEXT e q) q)"

text \<open>
  \<open>TAILQ_LAST\<close> and \<open>TAILQ_PREV\<close> read a cell address as the address of a queue head: the word behind the first
  element is \<open>tqh_last\<close> in a head and \<open>tqe_prev\<close> in an entry, which have the same layout.
\<close>

definition cell_val :: "'h tailq \<Rightarrow> 'h cell \<Rightarrow> nat option" where
  "cell_val q c = (case c of HeadCell h \<Rightarrow> tqh_first q h | NextCell e \<Rightarrow> tqe_next q e)"

definition as_head :: "'h tailq \<Rightarrow> 'h cell \<Rightarrow> 'h cell" where
  "as_head q c = (case c of HeadCell h \<Rightarrow> tqh_last q h | NextCell e \<Rightarrow> tqe_prev q e)"

definition TAILQ_LAST :: "'h \<Rightarrow> 'h tailq \<Rightarrow> nat option" where
  "TAILQ_LAST h q = cell_val q (as_head q (tqh_last q h))"

definition TAILQ_PREV :: "nat \<Rightarrow> 'h tailq \<Rightarrow> nat option" where
  "TAILQ_PREV e q = cell_val q (as_head q (tqe_prev q e))"

text \<open>\<open>TAILQ_FOREACH_REVERSE\<close> from an element on: the elements met, in this order.\<close>

partial_function (option) reverse_walk :: "'h tailq \<Rightarrow> nat option \<Rightarrow> nat list option" where
  "reverse_walk q v = (case v of None \<Rightarrow> Some []
     | Some e \<Rightarrow> Option.bind (reverse_walk q (TAILQ_PREV e q)) (\<lambda>xs. Some (e # xs)))"

declare reverse_walk.simps [code]

definition TAILQ_FOREACH_REVERSE :: "'h \<Rightarrow> 'h tailq \<Rightarrow> nat list option" where
  "TAILQ_FOREACH_REVERSE h q = reverse_walk q (TAILQ_LAST h q)"

text \<open>\<open>TAILQ_FOREACH\<close> with a body that only counts: the number of elements met.\<close>

definition tailq_count :: "'h \<Rightarrow> 'h tailq \<Rightarrow> u32 option" where
  "tailq_count h q = count_chain (\<lambda>e. TAILQ_NEXT e q) (TAILQ_FIRST h q) 0"

lemmas tailq_defs = TAILQ_INIT_def TAILQ_EMPTY_def TAILQ_FIRST_def TAILQ_NEXT_def
  TAILQ_INSERT_HEAD_def TAILQ_INSERT_TAIL_def TAILQ_INSERT_AFTER_def TAILQ_INSERT_BEFORE_def
  TAILQ_REMOVE_def store_cell_def

section \<open>Representation of a list\<close>

text \<open>
  \<open>links q c xs\<close>: cell \<open>c\<close> starts a run of the elements \<open>xs\<close> that ends in \<open>NULL\<close>, and every element
  records the cell that points to it.
\<close>

fun links :: "'h tailq \<Rightarrow> 'h cell \<Rightarrow> nat list \<Rightarrow> bool" where
  "links q c [] = (cell_val q c = None)"
| "links q c (x # xs) = (cell_val q c = Some x \<and> tqe_prev q x = c \<and> links q (NextCell x) xs)"

fun end_cell :: "'h cell \<Rightarrow> nat list \<Rightarrow> 'h cell" where
  "end_cell c [] = c"
| "end_cell c (x # xs) = end_cell (NextCell x) xs"

text \<open>The part of a run up to, and without, its end.\<close>

fun links_upto :: "'h tailq \<Rightarrow> 'h cell \<Rightarrow> nat list \<Rightarrow> bool" where
  "links_upto q c [] = True"
| "links_upto q c (x # xs) = (cell_val q c = Some x \<and> tqe_prev q x = c \<and> links_upto q (NextCell x) xs)"

definition tq_list :: "'h tailq \<Rightarrow> 'h \<Rightarrow> nat list \<Rightarrow> bool" where
  "tq_list q h xs \<longleftrightarrow>
     links q (HeadCell h) xs \<and> distinct xs \<and> tqh_last q h = end_cell (HeadCell h) xs"

lemma end_cell_snoc [simp]: "end_cell c (xs @ [x]) = NextCell x"
  by (induction xs arbitrary: c) auto

lemma end_cell_append: "end_cell c (xs @ ys) = end_cell (end_cell c xs) ys"
  by (induction xs arbitrary: c) auto

lemma end_cell_cases: "end_cell c xs = (if xs = [] then c else NextCell (last xs))"
  by (induction xs arbitrary: c) auto

lemma cell_val_simps [simp]:
  "cell_val q (HeadCell h) = tqh_first q h" "cell_val q (NextCell e) = tqe_next q e"
  by (auto simp: cell_val_def)

text \<open>A run only depends on its start cell and on the fields of its own elements.\<close>

lemma links_cong:
  assumes "cell_val q' c = cell_val q c"
    and "\<And>x. x \<in> set xs \<Longrightarrow> cell_val q' (NextCell x) = cell_val q (NextCell x)"
    and "\<And>x. x \<in> set xs \<Longrightarrow> tqe_prev q' x = tqe_prev q x"
  shows "links q' c xs = links q c xs"
  using assms
proof (induction xs arbitrary: c)
  case Nil
  then show ?case by simp
next
  case (Cons x xs)
  have "links q' (NextCell x) xs = links q (NextCell x) xs"
    by (rule Cons.IH) (use Cons.prems in auto)
  with Cons.prems show ?case by auto
qed

lemma links_chain: "links q c xs \<Longrightarrow> chain (tqe_next q) (cell_val q c) xs"
proof (induction xs arbitrary: c)
  case Nil
  then show ?case by simp
next
  case (Cons x xs)
  from Cons.prems have "links q (NextCell x) xs" by simp
  then have "chain (tqe_next q) (cell_val q (NextCell x)) xs" by (rule Cons.IH)
  with Cons.prems show ?case by simp
qed

lemma tq_list_chain: "tq_list q h xs \<Longrightarrow> chain (tqe_next q) (tqh_first q h) xs"
  using links_chain [of q "HeadCell h" xs] by (simp add: tq_list_def)

lemma tq_list_unique: "tq_list q h xs \<Longrightarrow> tq_list q h ys \<Longrightarrow> xs = ys"
  by (blast dest: tq_list_chain intro: chain_unique)

lemma links_append:
  "links q c (xs @ ys) \<longleftrightarrow> links_upto q c xs \<and> links q (end_cell c xs) ys"
  by (induction xs arbitrary: c) auto

lemma links_mid:
  "links q c (xs @ e # ys) \<Longrightarrow>
     tqe_prev q e = end_cell c xs \<and> cell_val q (end_cell c xs) = Some e \<and> links q (NextCell e) ys"
  by (simp add: links_append)

lemma links_next: "links q (NextCell e) ys \<Longrightarrow> tqe_next q e = (case ys of [] \<Rightarrow> None | y # _ \<Rightarrow> Some y)"
  by (cases ys) auto

section \<open>The macros as updates of cells\<close>

text \<open>Each macro seen through \<^const>\<open>cell_val\<close>, \<open>tqe_prev\<close> and \<open>tqh_last\<close>.\<close>

lemma insert_head_view:
  "cell_val (TAILQ_INSERT_HEAD h e q) c =
     (if c = HeadCell h then Some e else if c = NextCell e then tqh_first q h else cell_val q c)"
  "tqe_prev (TAILQ_INSERT_HEAD h e q) x =
     (if x = e then HeadCell h else if tqh_first q h = Some x then NextCell e else tqe_prev q x)"
  "tqh_last (TAILQ_INSERT_HEAD h e q) h' =
     (if h' = h \<and> tqh_first q h = None then NextCell e else tqh_last q h')"
  by (cases c; cases "tqh_first q h";
      simp add: TAILQ_INSERT_HEAD_def TAILQ_FIRST_def Let_def)
     (cases "tqh_first q h"; simp add: TAILQ_INSERT_HEAD_def TAILQ_FIRST_def Let_def)+

lemma insert_tail_view:
  "cell_val (TAILQ_INSERT_TAIL h e q) c =
     (if c = tqh_last q h then Some e else if c = NextCell e then None else cell_val q c)"
  "tqe_prev (TAILQ_INSERT_TAIL h e q) x = (if x = e then tqh_last q h else tqe_prev q x)"
  "tqh_last (TAILQ_INSERT_TAIL h e q) h' = (if h' = h then NextCell e else tqh_last q h')"
  by (cases c; cases "tqh_last q h"; simp add: TAILQ_INSERT_TAIL_def store_cell_def Let_def)
     (cases "tqh_last q h"; simp add: TAILQ_INSERT_TAIL_def store_cell_def Let_def)+

lemma TAILQ_REMOVE_alt:
  "TAILQ_REMOVE h e q = store_cell (tqe_prev q e) (tqe_next q e)
     (case tqe_next q e of
        Some x \<Rightarrow> q\<lparr>tqe_prev := (tqe_prev q)(x := tqe_prev q e)\<rparr>
      | None \<Rightarrow> q\<lparr>tqh_last := (tqh_last q)(h := tqe_prev q e)\<rparr>)"
  by (cases "tqe_next q e") (simp_all add: TAILQ_REMOVE_def TAILQ_NEXT_def)

lemma store_cell_view:
  "cell_val (store_cell a v q) c = (if c = a then v else cell_val q c)"
  "tqe_prev (store_cell a v q) = tqe_prev q" "tqh_last (store_cell a v q) = tqh_last q"
  by (cases a; cases c; simp add: store_cell_def) (cases a; simp add: store_cell_def)+

lemma cell_val_other_fields:
  "cell_val (q\<lparr>tqe_prev := f\<rparr>) c = cell_val q c" "cell_val (q\<lparr>tqh_last := g\<rparr>) c = cell_val q c"
  by (simp_all add: cell_val_def split: cell.split)

lemma remove_view:
  "cell_val (TAILQ_REMOVE h e q) c = (if c = tqe_prev q e then tqe_next q e else cell_val q c)"
  "tqe_prev (TAILQ_REMOVE h e q) x =
     (if tqe_next q e = Some x then tqe_prev q e else tqe_prev q x)"
  "tqh_last (TAILQ_REMOVE h e q) h' =
     (if h' = h \<and> tqe_next q e = None then tqe_prev q e else tqh_last q h')"
  by (cases "tqe_next q e"; auto simp: TAILQ_REMOVE_alt store_cell_view cell_val_other_fields)+

lemma first_as_cell: "tqh_first q h = cell_val q (HeadCell h)"
  by simp

section \<open>The macros implement list operations\<close>

lemma tq_list_init: "tq_list (TAILQ_INIT h q) h []"
  by (simp add: tq_list_def TAILQ_INIT_def)

lemma tq_list_first: "tq_list q h xs \<Longrightarrow> TAILQ_FIRST h q = (case xs of [] \<Rightarrow> None | x # _ \<Rightarrow> Some x)"
  by (cases xs) (auto simp: tq_list_def TAILQ_FIRST_def)

lemma tq_list_empty: "tq_list q h xs \<Longrightarrow> TAILQ_EMPTY h q = (xs = [])"
  by (cases xs) (auto simp: tq_list_def TAILQ_EMPTY_def)

lemma tailq_count_eq: "tq_list q h xs \<Longrightarrow> tailq_count h q = Some (of_nat (length xs))"
  using count_chain_eq [OF tq_list_chain, of q h xs 0]
  by (simp add: tailq_count_def TAILQ_FIRST_def TAILQ_NEXT_def)

lemma tq_list_prev_cell:
  assumes "tq_list q h (xs @ e # ys)"
  shows "tqe_prev q e = end_cell (HeadCell h) xs" "cell_val q (tqe_prev q e) = Some e"
    "as_head q (tqe_prev q e) = (if xs = [] then tqh_last q h else tqe_prev q (last xs))"
  using assms by (auto simp: tq_list_def links_append as_head_def end_cell_cases split: if_splits)

lemma tq_list_end: "tq_list q h xs \<Longrightarrow> cell_val q (tqh_last q h) = None"
  using links_append [of q "HeadCell h" xs "[]"] by (simp add: tq_list_def)

lemma tq_list_prev:
  assumes "tq_list q h (xs @ e # ys)"
  shows "TAILQ_PREV e q = (if xs = [] then None else Some (last xs))"
proof (cases xs rule: rev_exhaust)
  case Nil
  then show ?thesis using tq_list_prev_cell(3) [OF assms] tq_list_end [OF assms] by (simp add: TAILQ_PREV_def)
next
  case (snoc zs z)
  then have "tq_list q h (zs @ z # e # ys)" using assms by simp
  then show ?thesis
    using tq_list_prev_cell(3) [OF assms] tq_list_prev_cell(2) snoc by (simp add: TAILQ_PREV_def)
qed

lemma tq_list_last: "tq_list q h xs \<Longrightarrow> TAILQ_LAST h q = (if xs = [] then None else Some (last xs))"
proof (cases xs rule: rev_exhaust)
  case Nil
  assume "tq_list q h xs"
  then show ?thesis using Nil by (simp add: TAILQ_LAST_def tq_list_def as_head_def)
next
  case (snoc zs z)
  assume a: "tq_list q h xs"
  then show ?thesis using snoc tq_list_prev_cell(2) [of q h zs z "[]"]
    by (simp add: TAILQ_LAST_def tq_list_def as_head_def)
qed

lemma reverse_walk_eq: "tq_list q h (xs @ ys) \<Longrightarrow> reverse_walk q (if xs = [] then None else Some (last xs)) = Some (rev xs)"
proof (induction xs arbitrary: ys rule: rev_induct)
  case Nil
  show ?case by (subst reverse_walk.simps) simp
next
  case (snoc x xs)
  then have "tq_list q h (xs @ x # ys)" by simp
  then show ?case using snoc.IH [of "x # ys"] tq_list_prev [of q h xs x ys] by (subst reverse_walk.simps) simp
qed

text \<open>The reverse traversal meets the elements of the queue backwards and ends.\<close>

lemma tq_list_foreach_reverse: "tq_list q h xs \<Longrightarrow> TAILQ_FOREACH_REVERSE h q = Some (rev xs)"
  using reverse_walk_eq [of q h xs "[]"] by (simp add: TAILQ_FOREACH_REVERSE_def tq_list_last)

lemma tq_list_insert_head:
  assumes q: "tq_list q h xs" and e: "e \<notin> set xs"
  shows "tq_list (TAILQ_INSERT_HEAD h e q) h (e # xs)"
proof -
  let ?q = "TAILQ_INSERT_HEAD h e q"
  have "links ?q (NextCell e) xs"
  proof (cases xs)
    case Nil
    with q show ?thesis by (simp add: tq_list_def insert_head_view first_as_cell del: cell_val_simps)
  next
    case (Cons y ys)
    then have yl: "links q (NextCell y) ys" "tqh_first q h = Some y" "y \<notin> set ys"
      using q by (auto simp: tq_list_def)
    have "links ?q (NextCell y) ys = links q (NextCell y) ys"
      by (rule links_cong) (use yl e Cons in \<open>auto simp: insert_head_view simp del: cell_val_simps\<close>)
    with yl e Cons show ?thesis by (simp add: insert_head_view del: cell_val_simps)
  qed
  moreover have "tqh_last ?q h = end_cell (HeadCell h) (e # xs)"
    using q by (cases xs) (auto simp: tq_list_def insert_head_view)
  ultimately show ?thesis
    using q e by (simp add: tq_list_def insert_head_view del: cell_val_simps)
qed

lemma links_insert_tail:
  assumes "links q c xs" "end_cell c xs = tqh_last q h" "distinct xs" "e \<notin> set xs" "c \<noteq> NextCell e"
    "c \<notin> NextCell ` set xs"
  shows "links (TAILQ_INSERT_TAIL h e q) c (xs @ [e])"
  using assms
proof (induction xs arbitrary: c)
  case Nil
  then show ?case by (simp add: insert_tail_view del: cell_val_simps)
next
  case (Cons x xs)
  have "links (TAILQ_INSERT_TAIL h e q) (NextCell x) (xs @ [e])"
    by (rule Cons.IH) (use Cons.prems in auto)
  moreover have "c \<noteq> tqh_last q h"
    using Cons.prems(2,6) by (cases xs rule: rev_cases) auto
  ultimately show ?case using Cons.prems by (auto simp: insert_tail_view simp del: cell_val_simps)
qed

lemma tq_list_insert_tail:
  assumes q: "tq_list q h xs" and e: "e \<notin> set xs"
  shows "tq_list (TAILQ_INSERT_TAIL h e q) h (xs @ [e])"
proof -
  have "HeadCell h \<notin> NextCell ` set xs" by auto
  with assms links_insert_tail [of q "HeadCell h" xs h e] show ?thesis
    by (simp add: tq_list_def insert_tail_view(3))
qed

lemma links_remove:
  assumes "links q c (xs @ e # ys)" "distinct (xs @ e # ys)" "c \<notin> NextCell ` set (xs @ e # ys)"
  shows "links (TAILQ_REMOVE h e q) c (xs @ ys)"
  using assms
proof (induction xs arbitrary: c)
  case Nil
  then have p: "tqe_prev q e = c" and l: "links q (NextCell e) ys" by auto
  show ?case
  proof (cases ys)
    case Nil2: Nil
    with l p show ?thesis by (simp add: remove_view)
  next
    case (Cons y zs)
    have n: "tqe_next q e = Some y" and yz: "links q (NextCell y) zs" using l Cons by auto
    have "links (TAILQ_REMOVE h e q) (NextCell y) zs = links q (NextCell y) zs"
      by (rule links_cong)
        (use n p Nil Cons in \<open>force simp: remove_view simp del: cell_val_simps\<close>)+
    with yz n p Nil Cons show ?thesis by (simp add: remove_view del: cell_val_simps)
  qed
next
  case (Cons x xs)
  have IH: "links (TAILQ_REMOVE h e q) (NextCell x) (xs @ ys)"
    by (rule Cons.IH) (use Cons.prems in auto)
  have m: "tqe_prev q e = end_cell (NextCell x) xs" "links q (NextCell e) ys"
    using links_mid [of q "NextCell x" xs e ys] Cons.prems(1) by auto
  then have "c \<noteq> tqe_prev q e"
    using Cons.prems(3) by (cases xs rule: rev_cases) auto
  moreover have "tqe_next q e \<noteq> Some x"
    using links_next [OF m(2)] Cons.prems(2) by (cases ys) auto
  ultimately show ?case using IH Cons.prems(1) by (auto simp: remove_view simp del: cell_val_simps)
qed

lemma tq_list_remove:
  assumes q: "tq_list q h (xs @ e # ys)"
  shows "tq_list (TAILQ_REMOVE h e q) h (xs @ ys)"
proof -
  have L: "links q (HeadCell h) (xs @ e # ys)" and d: "distinct (xs @ e # ys)"
    and l: "tqh_last q h = end_cell (HeadCell h) (xs @ e # ys)" using q by (auto simp: tq_list_def)
  have m: "tqe_prev q e = end_cell (HeadCell h) xs" "links q (NextCell e) ys"
    using links_mid [OF L] by auto
  have "links (TAILQ_REMOVE h e q) (HeadCell h) (xs @ ys)"
    using L d by (rule links_remove) auto
  moreover have "tqh_last (TAILQ_REMOVE h e q) h = end_cell (HeadCell h) (xs @ ys)"
    using m links_next [OF m(2)] l by (cases ys) (auto simp: remove_view end_cell_append)
  ultimately show ?thesis using d by (simp add: tq_list_def)
qed

text \<open>Queues of other heads are untouched when they share no element.\<close>

lemma tq_list_frame:
  assumes "tq_list q h' ys" "cell_val q' (HeadCell h') = cell_val q (HeadCell h')"
    "tqh_last q' h' = tqh_last q h'"
    "\<And>x. x \<in> set ys \<Longrightarrow> cell_val q' (NextCell x) = cell_val q (NextCell x) \<and> tqe_prev q' x = tqe_prev q x"
  shows "tq_list q' h' ys"
proof -
  have "links q' (HeadCell h') ys = links q (HeadCell h') ys"
    by (rule links_cong) (use assms in auto)
  with assms show ?thesis by (simp add: tq_list_def)
qed

lemma tq_list_insert_tail_other:
  assumes "tq_list q h' ys" "h' \<noteq> h" "tq_list q h xs" "e \<notin> set ys" "set xs \<inter> set ys = {}"
  shows "tq_list (TAILQ_INSERT_TAIL h e q) h' ys"
proof (rule tq_list_frame [OF assms(1)])
  have l: "tqh_last q h = end_cell (HeadCell h) xs" using assms(3) by (simp add: tq_list_def)
  then show "cell_val (TAILQ_INSERT_TAIL h e q) (HeadCell h') = cell_val q (HeadCell h')"
    using assms(2) by (auto simp: insert_tail_view end_cell_cases simp del: cell_val_simps)
  show "tqh_last (TAILQ_INSERT_TAIL h e q) h' = tqh_last q h'"
    using assms(2) by (simp add: insert_tail_view)
  show "cell_val (TAILQ_INSERT_TAIL h e q) (NextCell x) = cell_val q (NextCell x) \<and>
        tqe_prev (TAILQ_INSERT_TAIL h e q) x = tqe_prev q x" if "x \<in> set ys" for x
  proof -
    have "NextCell x \<noteq> tqh_last q h"
      using that l assms(5) by (cases xs rule: rev_cases) auto
    with that assms(4) show ?thesis by (auto simp: insert_tail_view simp del: cell_val_simps)
  qed
qed

section \<open>The queue contract\<close>

text \<open>
  What the clients of a tail queue (the page allocator and the VM objects) rely on, stated over the
  list the queue represents.
\<close>

locale page_queue =
  fixes repr :: "'q \<Rightarrow> nat list \<Rightarrow> bool"
    and first :: "'q \<Rightarrow> nat option"
    and ins_head :: "nat \<Rightarrow> 'q \<Rightarrow> 'q"
    and ins_tail :: "nat \<Rightarrow> 'q \<Rightarrow> 'q"
    and remove :: "nat \<Rightarrow> 'q \<Rightarrow> 'q"
    and count :: "'q \<Rightarrow> u32 option"
  assumes repr_unique: "repr q xs \<Longrightarrow> repr q ys \<Longrightarrow> xs = ys"
    and repr_distinct: "repr q xs \<Longrightarrow> distinct xs"
    and first_law: "repr q xs \<Longrightarrow> first q = (case xs of [] \<Rightarrow> None | x # _ \<Rightarrow> Some x)"
    and ins_head_law: "repr q xs \<Longrightarrow> e \<notin> set xs \<Longrightarrow> repr (ins_head e q) (e # xs)"
    and ins_tail_law: "repr q xs \<Longrightarrow> e \<notin> set xs \<Longrightarrow> repr (ins_tail e q) (xs @ [e])"
    and remove_law: "repr q (xs @ e # ys) \<Longrightarrow> repr (remove e q) (xs @ ys)"
    and count_law: "repr q xs \<Longrightarrow> count q = Some (of_nat (length xs))"
begin

text \<open>Taking the first element, as the page allocator does.\<close>

lemma pop_first: "repr q (x # xs) \<Longrightarrow> first q = Some x \<and> repr (remove x q) xs"
  using first_law [of q "x # xs"] remove_law [of q "[]" x xs] by simp

lemma first_None_iff: "repr q xs \<Longrightarrow> first q = None \<longleftrightarrow> xs = []"
  by (simp add: first_law split: list.splits)

text \<open>What is put back at the head is what is taken next.\<close>

lemma push_pop: "repr q xs \<Longrightarrow> e \<notin> set xs \<Longrightarrow>
    first (ins_head e q) = Some e \<and> repr (remove e (ins_head e q)) xs"
  using pop_first [OF ins_head_law] .

lemma fill_tail:
  assumes "repr q xs" "distinct (xs @ es)"
  shows "repr (fold ins_tail es q) (xs @ es)"
  using assms
proof (induction es arbitrary: q xs)
  case Nil
  then show ?case by simp
next
  case (Cons e es)
  then have "repr (ins_tail e q) (xs @ [e])" by (intro ins_tail_law) auto
  from Cons.IH [OF this] Cons.prems show ?case by simp
qed

lemma count_bounded: "repr q xs \<Longrightarrow> set xs \<subseteq> {a..<b} \<Longrightarrow> length xs \<le> b - a"
  using repr_distinct [of q xs] card_mono [of "{a..<b}" "set xs"] by (simp add: distinct_card)

end

interpretation tailq: page_queue "\<lambda>q xs. tq_list q h xs" "TAILQ_FIRST h" "TAILQ_INSERT_HEAD h"
    "TAILQ_INSERT_TAIL h" "TAILQ_REMOVE h" "tailq_count h" for h
proof
  show "tq_list q h xs \<Longrightarrow> tq_list q h ys \<Longrightarrow> xs = ys" for q xs ys by (rule tq_list_unique)
  show "tq_list q h xs \<Longrightarrow> distinct xs" for q xs by (simp add: tq_list_def)
qed (fact tq_list_first tq_list_insert_head tq_list_insert_tail tq_list_remove tailq_count_eq)+

end
