(* ===== verification/Paging.thy ===== *)
theory Paging
  imports Task Tailq
begin

text \<open>
  Physical page frames and page tables: \<open>kernel/paging.c\<close>, with \<open>vm_handle_pressure\<close> and
  \<open>vm_release_pressure\<close> of \<open>vm/vm.c\<close>, which the frame allocator calls.

  Physical memory is a map from frame number and word index to 32-bit words. The C code reaches page
  directories and page tables through virtual addresses (the recursive entry 1023 of the directory),
  so the model does as well: every such access is an address computation followed by the two-level
  walk of the MMU from CR3 (\<open>walk\<close>), and \<^const>\<open>None\<close> is a page fault. Translations are not cached:
  the \<open>invlpg\<close> instructions of the code have no counterpart.
\<close>

section \<open>State\<close>

record paging_state = sched_state +
  pg_phys_addr :: "nat \<Rightarrow> u32"
  pg_ref_count :: "nat \<Rightarrow> u32"
  pg_flags :: "nat \<Rightarrow> u32"
  pg_object :: "nat \<Rightarrow> u32"
  freeq :: "unit tailq"
  pmem :: "nat \<Rightarrow> nat \<Rightarrow> u32"
  pressure_triggered :: bool
  pt0_addr :: u32
  physmap_addr :: u32
  cr0 :: u32

abbreviation NUM_PAGES :: nat where "NUM_PAGES \<equiv> 16384"
abbreviation PAGE_START_INDEX :: nat where "PAGE_START_INDEX \<equiv> 1024"
abbreviation PTE_PRESENT :: u32 where "PTE_PRESENT \<equiv> 1"
abbreviation PTE_RW :: u32 where "PTE_RW \<equiv> 2"
abbreviation PTE_USER :: u32 where "PTE_USER \<equiv> 4"
abbreviation PG_BUSY :: u32 where "PG_BUSY \<equiv> 1"
abbreviation PG_FREE :: u32 where "PG_FREE \<equiv> 2"

section \<open>The MMU\<close>

definition frame_of :: "u32 \<Rightarrow> nat" where
  "frame_of a = unat (drop_bit 12 a)"

definition pd_index :: "u32 \<Rightarrow> nat" where
  "pd_index va = unat (drop_bit 22 va)"

definition pt_index :: "u32 \<Rightarrow> nat" where
  "pt_index va = unat (drop_bit 12 va AND 0x3FF)"

definition word_index :: "u32 \<Rightarrow> nat" where
  "word_index va = unat (drop_bit 2 va AND 0x3FF)"

definition present :: "u32 \<Rightarrow> bool" where
  "present e \<longleftrightarrow> e AND PTE_PRESENT \<noteq> 0"

text \<open>The page-table entry that maps \<open>va\<close>, and the frame and word that \<open>va\<close> denotes.\<close>

definition walk_pte :: "'a paging_state_scheme \<Rightarrow> u32 \<Rightarrow> u32 option" where
  "walk_pte s va =
     (let pde = pmem s (frame_of (cr3 s)) (pd_index va) in
      if \<not> present pde then None
      else let pte = pmem s (frame_of pde) (pt_index va) in
           if \<not> present pte then None else Some pte)"

definition walk :: "'a paging_state_scheme \<Rightarrow> u32 \<Rightarrow> (nat \<times> nat) option" where
  "walk s va = map_option (\<lambda>pte. (frame_of pte, word_index va)) (walk_pte s va)"

definition vread32 :: "'a paging_state_scheme \<Rightarrow> u32 \<Rightarrow> u32 option" where
  "vread32 s va = map_option (\<lambda>(f, w). pmem s f w) (walk s va)"

definition store_word :: "nat \<Rightarrow> nat \<Rightarrow> u32 \<Rightarrow> 'a paging_state_scheme \<Rightarrow> 'a paging_state_scheme" where
  "store_word f w v s = s\<lparr>pmem := (pmem s)(f := (pmem s f)(w := v))\<rparr>"

definition vwrite32 :: "u32 \<Rightarrow> u32 \<Rightarrow> 'a paging_state_scheme \<Rightarrow> 'a paging_state_scheme option" where
  "vwrite32 va v s = map_option (\<lambda>(f, w). store_word f w v s) (walk s va)"

text \<open>Byte accesses, little endian.\<close>

definition vread8 :: "'a paging_state_scheme \<Rightarrow> u32 \<Rightarrow> u8 option" where
  "vread8 s va = map_option (\<lambda>x. ucast (drop_bit (8 * unat (va AND 3)) x)) (vread32 s va)"

definition set_byte :: "nat \<Rightarrow> u8 \<Rightarrow> u32 \<Rightarrow> u32" where
  "set_byte k b w = (w AND NOT (push_bit (8 * k) 0xFF)) OR push_bit (8 * k) (ucast b)"

definition vwrite8 :: "u32 \<Rightarrow> u8 \<Rightarrow> 'a paging_state_scheme \<Rightarrow> 'a paging_state_scheme option" where
  "vwrite8 va b s = do { w \<leftarrow> vread32 s va; vwrite32 va (set_byte (unat (va AND 3)) b w) s }"

definition load_cr3 :: "u32 \<Rightarrow> 'a paging_state_scheme \<Rightarrow> 'a paging_state_scheme" where
  "load_cr3 pd s = s\<lparr>cr3 := pd\<rparr>"

section \<open>Frames\<close>

definition alloc_phys_page :: "'a paging_state_scheme \<Rightarrow> u32 \<times> 'a paging_state_scheme" where
  "alloc_phys_page s = (case TAILQ_FIRST () (freeq s) of
      None \<Rightarrow> (0, s)
    | Some pg \<Rightarrow> (pg_phys_addr s pg,
         s\<lparr>freeq := TAILQ_REMOVE () pg (freeq s),
           pg_flags := (pg_flags s)(pg := pg_flags s pg AND NOT PG_FREE)\<rparr>))"

definition free_phys_page :: "u32 \<Rightarrow> 'a paging_state_scheme \<Rightarrow> 'a paging_state_scheme" where
  "free_phys_page phys s =
     (let idx = frame_of phys in
      if idx \<ge> PAGE_START_INDEX \<and> idx < NUM_PAGES then
        s\<lparr>pg_flags := (pg_flags s)(idx := pg_flags s idx OR PG_FREE),
          freeq := TAILQ_INSERT_HEAD () idx (freeq s)\<rparr>
      else s)"

definition free_pages_count :: "'a paging_state_scheme \<Rightarrow> u32 option" where
  "free_pages_count s = tailq_count () (freeq s)"

definition vm_handle_pressure :: "'a paging_state_scheme \<Rightarrow> 'a paging_state_scheme option" where
  "vm_handle_pressure s = (case get_current_task s of None \<Rightarrow> Some s | Some c \<Rightarrow> do {
     free \<leftarrow> free_pages_count s;
     Some (if free < FREE_PAGES_CRITICAL \<and> t_tier (tasks s c) = TIER_USER
           then (upd_task c (\<lambda>x. x\<lparr>t_tier := TIER_CRITICAL\<rparr>) s)\<lparr>pressure_triggered := True\<rparr>
           else s)
   })"

definition vm_release_pressure :: "'a paging_state_scheme \<Rightarrow> 'a paging_state_scheme option" where
  "vm_release_pressure s = (case get_current_task s of None \<Rightarrow> Some s | Some c \<Rightarrow> do {
     free \<leftarrow> free_pages_count s;
     Some (if pressure_triggered s \<and> t_tier (tasks s c) = TIER_CRITICAL \<and> free \<ge> FREE_PAGES_WARN
           then (upd_task c (\<lambda>x. x\<lparr>t_tier := TIER_USER\<rparr>) s)\<lparr>pressure_triggered := False\<rparr>
           else s)
   })"

definition set_ref1 :: "u32 \<Rightarrow> 'a paging_state_scheme \<Rightarrow> 'a paging_state_scheme" where
  "set_ref1 phys s = (if frame_of phys < NUM_PAGES
     then s\<lparr>pg_ref_count := (pg_ref_count s)(frame_of phys := 1)\<rparr> else s)"

definition alloc_page_frame :: "'a paging_state_scheme \<Rightarrow> (u32 \<times> 'a paging_state_scheme) option" where
  "alloc_page_frame s =
     (let (phys, s) = alloc_phys_page s in
      if phys \<noteq> 0 then Some (phys, set_ref1 phys s)
      else do {
        s \<leftarrow> vm_handle_pressure s;
        let (phys, s) = alloc_phys_page s;
        Some (if phys \<noteq> 0 then (phys, set_ref1 phys s) else (0, s))
      })"

definition free_page_frame :: "u32 \<Rightarrow> 'a paging_state_scheme \<Rightarrow> 'a paging_state_scheme" where
  "free_page_frame phys s =
     (let idx = frame_of phys in
      if idx < NUM_PAGES then
        (let s = (if pg_ref_count s idx > 0
                  then s\<lparr>pg_ref_count := (pg_ref_count s)(idx := pg_ref_count s idx - 1)\<rparr> else s)
         in if pg_ref_count s idx > 0 then s else free_phys_page phys s)
      else free_phys_page phys s)"

section \<open>Mappings\<close>

text \<open>The addresses \<open>&pd[i]\<close> and \<open>&pt[j]\<close> of the recursive mapping.\<close>

definition pd_addr :: "u32 \<Rightarrow> u32" where
  "pd_addr i = 0xFFFFF000 + 4 * i"

definition pt_addr :: "u32 \<Rightarrow> u32 \<Rightarrow> u32" where
  "pt_addr i j = 0xFFC00000 + push_bit 12 i + 4 * j"

text \<open>The indices of the 1024 entries of a table, in loop order.\<close>

definition entries :: "nat list" where
  "entries = [0..<1024]"

definition map_page :: "u32 \<Rightarrow> u32 \<Rightarrow> u32 \<Rightarrow> 'a paging_state_scheme \<Rightarrow> 'a paging_state_scheme option" where
  "map_page vaddr paddr flags s = do {
     let pd_idx = drop_bit 22 vaddr;
     let pt_idx = drop_bit 12 vaddr AND 0x3FF;
     let set_pte = vwrite32 (pt_addr pd_idx pt_idx) (paddr OR (flags AND 0xFFF));
     pde \<leftarrow> vread32 s (pd_addr pd_idx);
     if \<not> present pde then
       (let (pt_phys, s) = alloc_phys_page s in
        if pt_phys = 0 then Some s
        else do {
          s \<leftarrow> vwrite32 (pd_addr pd_idx) (pt_phys OR PTE_PRESENT OR PTE_RW OR PTE_USER) s;
          s \<leftarrow> fold_opt (\<lambda>i. vwrite32 (pt_addr pd_idx (of_nat i)) 0) entries s;
          set_pte s
        })
     else set_pte s
   }"

definition page_present :: "u32 \<Rightarrow> 'a paging_state_scheme \<Rightarrow> int option" where
  "page_present vaddr s = do {
     let pd_idx = drop_bit 22 vaddr;
     let pt_idx = drop_bit 12 vaddr AND 0x3FF;
     pde \<leftarrow> vread32 s (pd_addr pd_idx);
     if \<not> present pde then Some 0
     else do {
       pte \<leftarrow> vread32 s (pt_addr pd_idx pt_idx);
       Some (if present pte then 1 else 0)
     }
   }"

definition unmap_page :: "u32 \<Rightarrow> 'a paging_state_scheme \<Rightarrow> 'a paging_state_scheme option" where
  "unmap_page vaddr s = do {
     let pd_idx = drop_bit 22 vaddr;
     let pt_idx = drop_bit 12 vaddr AND 0x3FF;
     pde \<leftarrow> vread32 s (pd_addr pd_idx);
     if \<not> present pde then Some s else vwrite32 (pt_addr pd_idx pt_idx) 0 s
   }"

definition paging_create_task_pd :: "'a paging_state_scheme \<Rightarrow> (u32 \<times> 'a paging_state_scheme) option" where
  "paging_create_task_pd s = do {
     (pd_phys, s) \<leftarrow> alloc_page_frame s;
     if pd_phys = 0 then Some (0, s)
     else do {
       s \<leftarrow> map_page 0xE0002000 pd_phys (PTE_PRESENT OR PTE_RW) s;
       s \<leftarrow> fold_opt (\<lambda>i s.
              if i = 0 \<or> i \<ge> 768 then do {
                e \<leftarrow> vread32 s (pd_addr (of_nat i));
                vwrite32 (0xE0002000 + 4 * of_nat i) e s
              }
              else vwrite32 (0xE0002000 + 4 * of_nat i) 0 s) entries s;
       s \<leftarrow> vwrite32 (0xE0002000 + 4 * 1023) (pd_phys OR PTE_PRESENT OR PTE_RW) s;
       s \<leftarrow> unmap_page 0xE0002000 s;
       Some (pd_phys, s)
     }
   }"

text \<open>
  \<open>paging_init\<close> runs before paging is on: the arrays are written at their physical addresses.
\<close>

definition init_page :: "nat \<Rightarrow> 'a paging_state_scheme \<Rightarrow> 'a paging_state_scheme" where
  "init_page i s =
     (let s = s\<lparr>pg_phys_addr := (pg_phys_addr s)(i := of_nat i * of_nat PAGE_SIZE),
                pg_ref_count := (pg_ref_count s)(i := 0), pg_flags := (pg_flags s)(i := PG_FREE),
                pg_object := (pg_object s)(i := 0)\<rparr>
      in if i \<ge> PAGE_START_INDEX then s\<lparr>freeq := TAILQ_INSERT_TAIL () i (freeq s)\<rparr> else s)"

definition init_physmap :: "nat \<Rightarrow> nat \<Rightarrow> nat \<Rightarrow> 'a paging_state_scheme \<Rightarrow> 'a paging_state_scheme" where
  "init_physmap pd pmf i s =
     (let s = store_word pd (768 + i) ((physmap_addr s + of_nat (i * PAGE_SIZE)) OR PTE_PRESENT OR PTE_RW) s
      in fold (\<lambda>j. store_word (pmf + i) j (of_nat ((i * 1024 + j) * PAGE_SIZE) OR PTE_PRESENT OR PTE_RW))
           entries s)"

definition paging_init :: "u32 \<Rightarrow> u32 \<Rightarrow> 'a paging_state_scheme \<Rightarrow> u32 \<times> 'a paging_state_scheme" where
  "paging_init mem_start mem_end s =
     (let pd = frame_of (kernel_pd s); pt0 = frame_of (pt0_addr s); pmf = frame_of (physmap_addr s);
          s = fold (\<lambda>i s. store_word pt0 i 0 (store_word pd i 0 s)) entries s;
          s = fold (\<lambda>i. store_word pt0 i (of_nat (i * PAGE_SIZE) OR PTE_PRESENT OR PTE_RW)) entries s;
          s = s\<lparr>freeq := TAILQ_INIT () (freeq s)\<rparr>;
          s = fold init_page [0..<NUM_PAGES] s;
          s = store_word pd 0 (pt0_addr s OR PTE_PRESENT OR PTE_RW) s;
          s = store_word pd 1023 (kernel_pd s OR PTE_PRESENT OR PTE_RW) s;
          s = fold (init_physmap pd pmf) [0..<16] s;
          s = s\<lparr>cr3 := kernel_pd s, cr0 := cr0 s OR 0x80000000\<rparr>
      in (of_nat PAGE_SIZE * ((mem_start + of_nat PAGE_SIZE - 1) div of_nat PAGE_SIZE), s))"

section \<open>The recursive mapping\<close>

lemma mask10: "(0x3FF :: u32) = mask 10"
  by (simp add: mask_eq_exp_minus_1)

lemma unat_and_3FF: "unat (w AND (0x3FF :: u32)) = unat w mod 1024"
  unfolding mask10 by (simp add: unat_and_mask32)

lemma index_bounds [simp]: "pd_index va < 1024" "pt_index va < 1024" "word_index va < 1024"
  using unat_lt32 [of va] by (simp_all add: pd_index_def pt_index_def word_index_def unat_and_3FF unat_drop_bit32)

lemma frame_of_bound: "frame_of a < 2 ^ 20"
  using unat_lt32 [of a] by (simp add: frame_of_def unat_drop_bit32)

lemma unat_pd_addr: "unat i < 1024 \<Longrightarrow> unat (pd_addr i) = 0xFFFFF000 + 4 * unat i"
  unfolding pd_addr_def by (simp add: unat_add32 unat_mult_lem [THEN iffD1])

lemma unat_pt_addr:
  assumes "unat i < 1024" "unat j < 1024"
  shows "unat (pt_addr i j) = 0xFFC00000 + 4096 * unat i + 4 * unat j"
proof -
  have a: "unat (push_bit 12 i) = 4096 * unat i"
    using assms by (simp add: push_bit_eq_mult unat_mult_lem [THEN iffD1] mult.commute)
  have b: "unat (4 * j) = 4 * unat j" using assms by (simp add: unat_mult_lem [THEN iffD1])
  have c: "unat (0xFFC00000 + push_bit 12 i) = 0xFFC00000 + 4096 * unat i"
    using assms by (simp add: unat_add32 a)
  show ?thesis unfolding pt_addr_def using assms by (simp add: unat_add32 b c)
qed

lemma split_div_mod: "y < n \<Longrightarrow> (n * x + y) div n = x \<and> (n * x + y) mod n = (y :: nat)"
  by simp

lemma recursive_div:
  assumes "x < 1024" "y < 1024"
  shows "(0xFFC00000 + 4096 * x + 4 * y) div 4194304 = (1023 :: nat)"
    "(0xFFC00000 + 4096 * x + 4 * y) div 4096 mod 1024 = (x :: nat)"
    "(0xFFC00000 + 4096 * x + 4 * y) div 4 mod 1024 = (y :: nat)"
proof -
  have e: "0xFFC00000 + 4096 * x + 4 * y = 4194304 * 1023 + (4096 * x + 4 * y)"
    "0xFFC00000 + 4096 * x + 4 * y = 4096 * (1024 * 1023 + x) + 4 * y"
    "0xFFC00000 + 4096 * x + 4 * y = 4 * (1024 * (1047552 + x) + y)" by simp_all
  show "(0xFFC00000 + 4096 * x + 4 * y) div 4194304 = 1023"
    unfolding e(1) using split_div_mod [of "4096 * x + 4 * y" 4194304 1023] assms by simp
  show "(0xFFC00000 + 4096 * x + 4 * y) div 4096 mod 1024 = x"
    unfolding e(2) using split_div_mod [of "4 * y" 4096 "1024 * 1023 + x"] split_div_mod [of x 1024 1023] assms
    by simp
  show "(0xFFC00000 + 4096 * x + 4 * y) div 4 mod 1024 = y"
    unfolding e(3) using split_div_mod [of y 1024 "1047552 + x"] assms by simp
qed

lemma pt_addr_index:
  assumes "unat i < 1024" "unat j < 1024"
  shows "pd_index (pt_addr i j) = 1023" "pt_index (pt_addr i j) = unat i" "word_index (pt_addr i j) = unat j"
  unfolding pd_index_def pt_index_def word_index_def unat_and_3FF unat_drop_bit32 unat_pt_addr [OF assms]
  using recursive_div [OF assms] by simp_all

lemma pd_addr_pt_addr: "pd_addr i = pt_addr 1023 i"
  by (simp add: pd_addr_def pt_addr_def push_bit_eq_mult)

lemma pd_addr_index:
  assumes "unat i < 1024"
  shows "pd_index (pd_addr i) = 1023" "pt_index (pd_addr i) = 1023" "word_index (pd_addr i) = unat i"
  using pt_addr_index [of 1023 i] assms by (simp_all add: pd_addr_pt_addr)

text \<open>The directory entries, and the condition that entry 1023 maps the directory itself.\<close>

definition pde :: "'a paging_state_scheme \<Rightarrow> nat \<Rightarrow> u32" where
  "pde s i = pmem s (frame_of (cr3 s)) i"

definition rec_ok :: "'a paging_state_scheme \<Rightarrow> bool" where
  "rec_ok s \<longleftrightarrow> present (pde s 1023) \<and> frame_of (pde s 1023) = frame_of (cr3 s)"

lemma walk_pt:
  assumes "rec_ok s" "unat i < 1024" "unat j < 1024"
  shows "walk s (pt_addr i j) = (if present (pde s (unat i)) then Some (frame_of (pde s (unat i)), unat j) else None)"
  using assms pt_addr_index [OF assms(2,3)] by (simp add: walk_def walk_pte_def Let_def rec_ok_def pde_def)

lemma vread_pt:
  assumes "rec_ok s" "unat i < 1024" "unat j < 1024"
  shows "vread32 s (pt_addr i j) =
    (if present (pde s (unat i)) then Some (pmem s (frame_of (pde s (unat i))) (unat j)) else None)"
  by (simp add: vread32_def walk_pt [OF assms])

lemma vwrite_pt:
  assumes "rec_ok s" "unat i < 1024" "unat j < 1024"
  shows "vwrite32 (pt_addr i j) v s =
    (if present (pde s (unat i)) then Some (store_word (frame_of (pde s (unat i))) (unat j) v s) else None)"
  by (simp add: vwrite32_def walk_pt [OF assms])

lemma vread_pd: "rec_ok s \<Longrightarrow> unat i < 1024 \<Longrightarrow> vread32 s (pd_addr i) = Some (pde s (unat i))"
  unfolding pd_addr_pt_addr by (subst vread_pt) (auto simp: rec_ok_def pde_def)

lemma vwrite_pd:
  "rec_ok s \<Longrightarrow> unat i < 1024 \<Longrightarrow> vwrite32 (pd_addr i) v s = Some (store_word (frame_of (cr3 s)) (unat i) v s)"
  unfolding pd_addr_pt_addr by (subst vwrite_pt) (auto simp: rec_ok_def)

lemma pmem_store_word: "pmem (store_word f w v s) f' w' = (if f' = f \<and> w' = w then v else pmem s f' w')"
  by (simp add: store_word_def)

lemma store_word_other [simp]:
  "cr3 (store_word f w v s) = cr3 s" "freeq (store_word f w v s) = freeq s"
  "pg_phys_addr (store_word f w v s) = pg_phys_addr s" "tasks (store_word f w v s) = tasks s"
  "pg_ref_count (store_word f w v s) = pg_ref_count s" "kernel_pd (store_word f w v s) = kernel_pd s"
  "pt0_addr (store_word f w v s) = pt0_addr s" "physmap_addr (store_word f w v s) = physmap_addr s"
  "pg_flags (store_word f w v s) = pg_flags s" "paging_state.more (store_word f w v s) = paging_state.more s"
  by (simp_all add: store_word_def)

lemma pde_store_word: "pde (store_word f w v s) i = (if f = frame_of (cr3 s) \<and> i = w then v else pde s i)"
  by (auto simp: pde_def pmem_store_word)

section \<open>Well-formed page tables\<close>

text \<open>
  \<open>pt_wf s F\<close>: the recursive entry is in place; the page tables of the current directory are pairwise
  distinct frames other than the directory; the free list is \<open>F\<close>, its frames are allocatable ones,
  and none of them is the directory or one of its tables.
\<close>

definition pt_frame :: "'a paging_state_scheme \<Rightarrow> nat \<Rightarrow> nat" where
  "pt_frame s i = frame_of (pde s i)"

definition has_pt :: "'a paging_state_scheme \<Rightarrow> nat \<Rightarrow> bool" where
  "has_pt s i \<longleftrightarrow> i < 1023 \<and> present (pde s i)"

definition free_ok :: "'a paging_state_scheme \<Rightarrow> nat list \<Rightarrow> bool" where
  "free_ok s F \<longleftrightarrow> tq_list (freeq s) () F \<and> set F \<subseteq> {PAGE_START_INDEX..<NUM_PAGES} \<and>
     (\<forall>f \<in> set F. pg_phys_addr s f = of_nat (f * PAGE_SIZE))"

definition pt_wf :: "'a paging_state_scheme \<Rightarrow> nat list \<Rightarrow> bool" where
  "pt_wf s F \<longleftrightarrow> rec_ok s \<and> free_ok s F \<and> frame_of (cr3 s) \<notin> set F \<and>
     (\<forall>i. has_pt s i \<longrightarrow> pt_frame s i \<noteq> frame_of (cr3 s) \<and> pt_frame s i \<notin> set F) \<and>
     (\<forall>i j. has_pt s i \<longrightarrow> has_pt s j \<longrightarrow> pt_frame s i = pt_frame s j \<longrightarrow> i = j)"

lemma frame_of_nat:
  assumes "f < 2 ^ 20"
  shows "frame_of (of_nat (f * 4096)) = f"
proof -
  have "unat (of_nat (f * 4096) :: u32) = f * 4096" using assms by (intro unat_of_nat32) simp
  then show ?thesis unfolding frame_of_def unat_drop_bit32 by simp
qed

lemma or_low_drop: "unat x < 2 ^ n \<Longrightarrow> drop_bit n ((a :: u32) OR x) = drop_bit n a"
proof -
  assume "unat x < 2 ^ n"
  then have "unat (drop_bit n x) = 0" by (simp add: unat_drop_bit32)
  then have "drop_bit n x = 0" by (simp only: unat_eq_zero)
  then show ?thesis by (simp add: drop_bit_or)
qed

lemma frame_of_or: "unat x < 4096 \<Longrightarrow> frame_of (a OR x) = frame_of a"
  unfolding frame_of_def using or_low_drop [of x 12 a] by simp

lemma alloc_phys_page_Nil: "free_ok s [] \<Longrightarrow> alloc_phys_page s = (0, s)"
  using tq_list_first [of "freeq s" "()" "[]"] by (auto simp: alloc_phys_page_def free_ok_def)

lemma alloc_phys_page_Cons:
  assumes "free_ok s (f # F)"
  shows "\<exists>s'. alloc_phys_page s = (of_nat (f * PAGE_SIZE), s') \<and> free_ok s' F \<and>
    s' = s\<lparr>freeq := freeq s', pg_flags := pg_flags s'\<rparr>"
proof -
  have t: "tq_list (freeq s) () (f # F)" using assms by (simp add: free_ok_def)
  have "TAILQ_FIRST () (freeq s) = Some f" "tq_list (TAILQ_REMOVE () f (freeq s)) () F"
    using tailq.pop_first [OF t] by auto
  then show ?thesis using assms by (simp add: alloc_phys_page_def free_ok_def)
qed

section \<open>Mapping a page\<close>

definition zero_words :: "nat \<Rightarrow> nat \<Rightarrow> 'a paging_state_scheme \<Rightarrow> 'a paging_state_scheme" where
  "zero_words f n s = s\<lparr>pmem := (pmem s)(f := (\<lambda>w. if w < n then 0 else pmem s f w))\<rparr>"

lemma pmem_zero_words: "pmem (zero_words f n s) f' w = (if f' = f \<and> w < n then 0 else pmem s f' w)"
  by (simp add: zero_words_def)

lemma zero_words_cr3 [simp]: "cr3 (zero_words f n s) = cr3 s"
  by (simp add: zero_words_def)

lemma pde_other_frame:
  "f \<noteq> frame_of (cr3 s) \<Longrightarrow> pde (zero_words f n s) i = pde s i"
  by (simp add: pde_def zero_words_def)

lemma store_zero_words: "store_word f n 0 (zero_words f n s) = zero_words f (Suc n) s"
  by (simp add: store_word_def zero_words_def fun_eq_iff less_Suc_eq)

lemma zero_pt_loop:
  assumes "rec_ok s" "unat i < 1024" "present (pde s (unat i))" "frame_of (pde s (unat i)) = f"
    "f \<noteq> frame_of (cr3 s)" "n \<le> 1024"
  shows "fold_opt (\<lambda>k. vwrite32 (pt_addr i (of_nat k)) 0) [0..<n] s = Some (zero_words f n s)"
  using assms(6)
proof (induction n)
  case 0
  then show ?case by (simp add: zero_words_def)
next
  case (Suc n)
  have r: "rec_ok (zero_words f n s)" using assms(1,5) by (simp add: rec_ok_def pde_other_frame)
  have n: "unat (of_nat n :: u32) = n" using Suc.prems by (intro unat_of_nat32) simp
  have "vwrite32 (pt_addr i (of_nat n)) 0 (zero_words f n s) = Some (zero_words f (Suc n) s)"
    using vwrite_pt [OF r assms(2), of "of_nat n" 0] Suc.prems assms(3-5)
    by (simp add: n pde_other_frame store_zero_words)
  then show ?case using Suc by simp
qed

lemma drop22: "unat (drop_bit 22 va) = pd_index va"
  by (simp add: pd_index_def)

lemma drop12: "unat (drop_bit 12 va AND 0x3FF) = pt_index va"
  by (simp add: pt_index_def)

lemma pt_wfD:
  assumes "pt_wf s F"
  shows "rec_ok s" "free_ok s F" "frame_of (cr3 s) \<notin> set F"
    "\<And>i. has_pt s i \<Longrightarrow> pt_frame s i \<noteq> frame_of (cr3 s)" "\<And>i. has_pt s i \<Longrightarrow> pt_frame s i \<notin> set F"
    "\<And>i j. has_pt s i \<Longrightarrow> has_pt s j \<Longrightarrow> pt_frame s i = pt_frame s j \<Longrightarrow> i = j"
  using assms by (simp_all add: pt_wf_def)

lemma map_page_present:
  assumes "pt_wf s F" "pd_index va < 1023" "present (pde s (pd_index va))"
  shows "map_page va pa fl s =
    Some (store_word (pt_frame s (pd_index va)) (pt_index va) (pa OR (fl AND 0xFFF)) s)"
  using assms(2,3) vread_pd [OF pt_wfD(1) [OF assms(1)], of "drop_bit 22 va"]
    vwrite_pt [OF pt_wfD(1) [OF assms(1)], of "drop_bit 22 va" "drop_bit 12 va AND 0x3FF"]
  by (simp add: map_page_def Let_def drop22 drop12 pt_frame_def)

lemma map_page_full:
  assumes "pt_wf s []" "pd_index va < 1023" "\<not> present (pde s (pd_index va))"
  shows "map_page va pa fl s = Some s"
  using assms(2,3) vread_pd [OF pt_wfD(1) [OF assms(1)], of "drop_bit 22 va"]
    alloc_phys_page_Nil [OF pt_wfD(2) [OF assms(1)]]
  by (simp add: map_page_def Let_def drop22)

lemma present_odd: "present e \<longleftrightarrow> odd e"
  by (simp add: present_def and_one_eq odd_iff_mod_2_eq_one even_iff_mod_2_eq_zero)

definition new_pde :: "nat \<Rightarrow> u32" where
  "new_pde f = of_nat (f * PAGE_SIZE) OR PTE_PRESENT OR PTE_RW OR PTE_USER"

lemma new_pde_simps:
  assumes "f < NUM_PAGES"
  shows "present (new_pde f)" "frame_of (new_pde f) = f"
proof -
  have "odd (new_pde f)" by (simp add: new_pde_def bit_0 [symmetric] bit_or_iff)
  then show "present (new_pde f)" by (simp add: present_odd)
  have "frame_of (new_pde f) = frame_of (of_nat (f * 4096))"
    unfolding new_pde_def by (rule frame_of_or) simp
  then show "frame_of (new_pde f) = f" using assms frame_of_nat [of f] by simp
qed

lemma free_ok_head: "free_ok s (f # F) \<Longrightarrow> f < NUM_PAGES \<and> PAGE_START_INDEX \<le> f \<and> f \<notin> set F"
  by (auto simp: free_ok_def tq_list_def)

lemma of_nat_frame_nonzero:
  assumes "0 < f" "f < NUM_PAGES"
  shows "(of_nat (f * PAGE_SIZE) :: u32) \<noteq> 0"
proof
  assume "(of_nat (f * PAGE_SIZE) :: u32) = 0"
  then have "unat (of_nat (f * PAGE_SIZE) :: u32) = 0" by simp
  moreover have "unat (of_nat (f * PAGE_SIZE) :: u32) = f * PAGE_SIZE"
    using assms by (intro unat_of_nat32) simp
  ultimately show False using assms(1) by simp
qed

text \<open>When the page table is missing, a zeroed frame from the free list becomes it.\<close>

lemma map_page_new:
  assumes wf: "pt_wf s (f # F)" and i: "pd_index va < 1023" and np: "\<not> present (pde s (pd_index va))"
  shows "\<exists>s1. map_page va pa fl s = Some (store_word f (pt_index va) (pa OR (fl AND 0xFFF))
      (zero_words f 1024 (store_word (frame_of (cr3 s)) (pd_index va) (new_pde f) s1))) \<and>
    free_ok s1 F \<and> s1 = s\<lparr>freeq := freeq s1, pg_flags := pg_flags s1\<rparr>"
proof -
  obtain s1 where s1: "alloc_phys_page s = (of_nat (f * PAGE_SIZE), s1)" "free_ok s1 F"
      "s1 = s\<lparr>freeq := freeq s1, pg_flags := pg_flags s1\<rparr>"
    using alloc_phys_page_Cons [OF pt_wfD(2) [OF wf]] by blast
  have same: "pmem s1 = pmem s" "cr3 s1 = cr3 s" by (subst s1(3), simp)+
  have fb: "f < NUM_PAGES" "0 < f" using free_ok_head [OF pt_wfD(2) [OF wf]] by auto
  have fc: "f \<noteq> frame_of (cr3 s)" using pt_wfD(3) [OF wf] by auto
  have r1: "rec_ok s1" using pt_wfD(1) [OF wf] by (simp add: rec_ok_def pde_def same)
  let ?s2 = "store_word (frame_of (cr3 s)) (pd_index va) (new_pde f) s1"
  have w2: "vwrite32 (pd_addr (drop_bit 22 va)) (new_pde f) s1 = Some ?s2"
    using vwrite_pd [OF r1, of "drop_bit 22 va"] i by (simp add: drop22 same)
  have p2: "pde ?s2 (pd_index va) = new_pde f" by (simp add: pde_store_word same)
  have r2: "rec_ok ?s2" using r1 i by (simp add: rec_ok_def pde_store_word same)
  have z: "fold_opt (\<lambda>k. vwrite32 (pt_addr (drop_bit 22 va) (of_nat k)) 0) entries ?s2 =
      Some (zero_words f 1024 ?s2)"
    unfolding entries_def using i fc by (intro zero_pt_loop [OF r2]) (simp_all add: drop22 p2 new_pde_simps [OF fb(1)] same)
  have r3: "rec_ok (zero_words f 1024 ?s2)" using r2 fc by (simp add: rec_ok_def pde_other_frame same)
  have w3: "vwrite32 (pt_addr (drop_bit 22 va) (drop_bit 12 va AND 0x3FF)) (pa OR (fl AND 0xFFF)) (zero_words f 1024 ?s2) =
      Some (store_word f (pt_index va) (pa OR (fl AND 0xFFF)) (zero_words f 1024 ?s2))"
    using vwrite_pt [OF r3, of "drop_bit 22 va" "drop_bit 12 va AND 0x3FF"] i fc
    by (simp add: drop22 drop12 pde_other_frame same p2 new_pde_simps [OF fb(1)])
  have "vread32 s (pd_addr (drop_bit 22 va)) = Some (pde s (pd_index va))"
    using vread_pd [OF pt_wfD(1) [OF wf], of "drop_bit 22 va"] i by (simp add: drop22)
  then have "map_page va pa fl s = Some (store_word f (pt_index va) (pa OR (fl AND 0xFFF)) (zero_words f 1024 ?s2))"
    using np of_nat_frame_nonzero [OF fb(2,1)] w2 z w3 s1(1)
    by (simp add: map_page_def Let_def new_pde_def)
  then show ?thesis using s1 by blast
qed

lemma walk_pte_alt:
  "walk_pte s va = (if present (pde s (pd_index va)) \<and> present (pmem s (pt_frame s (pd_index va)) (pt_index va))
     then Some (pmem s (pt_frame s (pd_index va)) (pt_index va)) else None)"
  by (simp add: walk_pte_def Let_def pde_def pt_frame_def)

lemma free_ok_cong:
  "free_ok s F \<Longrightarrow> freeq s' = freeq s \<Longrightarrow> pg_phys_addr s' = pg_phys_addr s \<Longrightarrow> free_ok s' F"
  by (simp add: free_ok_def)

text \<open>A store into a page table, or into a frame that is no table, keeps the tables well formed.\<close>

lemma pt_wf_store:
  assumes "pt_wf s F" "f \<noteq> frame_of (cr3 s)"
  shows "pt_wf (store_word f w v s) F"
proof -
  have p: "pde (store_word f w v s) i = pde s i" for i using assms(2) by (simp add: pde_store_word)
  show ?thesis using assms(1) free_ok_cong [of s F "store_word f w v s"]
    unfolding pt_wf_def rec_ok_def has_pt_def pt_frame_def p by auto
qed

lemma walk_store_pt:
  assumes wf: "pt_wf s F" and i: "has_pt s i" and va: "pd_index va < 1023"
  shows "walk_pte (store_word (pt_frame s i) j v s) va =
    (if pd_index va = i \<and> pt_index va = j then (if present v then Some v else None) else walk_pte s va)"
proof -
  have n: "pt_frame s i \<noteq> frame_of (cr3 s)" using pt_wfD(4) [OF wf i] .
  have p: "pde (store_word (pt_frame s i) j v s) k = pde s k" for k using n by (simp add: pde_store_word)
  have d: "pt_frame s (pd_index va) = pt_frame s i \<longleftrightarrow> pd_index va = i" if "present (pde s (pd_index va))"
    using pt_wfD(6) [OF wf, of "pd_index va" i] that i va by (auto simp: has_pt_def)
  have pi: "present (pde s i)" using i by (simp add: has_pt_def)
  show ?thesis
    unfolding walk_pte_alt p pt_frame_def [of "store_word _ _ _ _"] pmem_store_word
    using d pi by (auto simp: pt_frame_def [symmetric])
qed

lemma map_page_new_wf:
  assumes wf: "pt_wf s (f # F)" and i: "i < 1023" and np: "\<not> present (pde s i)"
    and s1: "free_ok s1 F" "s1 = s\<lparr>freeq := freeq s1, pg_flags := pg_flags s1\<rparr>"
  defines "s2 \<equiv> zero_words f 1024 (store_word (frame_of (cr3 s)) i (new_pde f) s1)"
  shows "pt_wf s2 F" "has_pt s2 i" "pt_frame s2 i = f"
    "pd_index va < 1023 \<Longrightarrow> walk_pte s2 va = walk_pte s va"
proof -
  have same: "pmem s1 = pmem s" "cr3 s1 = cr3 s" by (subst s1(2), simp)+
  have fb: "f < NUM_PAGES" "f \<notin> set F" using free_ok_head [OF pt_wfD(2) [OF wf]] by auto
  have fc: "f \<noteq> frame_of (cr3 s)" using pt_wfD(3) [OF wf] by auto
  have c2: "cr3 s2 = cr3 s" by (simp add: s2_def same)
  have p2: "pde s2 k = (if k = i then new_pde f else pde s k)" for k
    using fc unfolding s2_def by (simp add: pde_other_frame same pde_store_word) (simp add: pde_def same)
  have m2: "pmem s2 g w = pmem s g w" if "g \<noteq> f" "g \<noteq> frame_of (cr3 s)" for g w
    using that unfolding s2_def by (simp add: pmem_zero_words pmem_store_word same)
  have z2: "pmem s2 f w = 0" if "w < 1024" for w
    using that unfolding s2_def by (simp add: pmem_zero_words)
  have fr: "free_ok s2 F" unfolding s2_def
    by (rule free_ok_cong [OF s1(1)]) (simp_all add: zero_words_def)
  note np2 = new_pde_simps [OF fb(1)]
  show h: "has_pt s2 i" "pt_frame s2 i = f" using i np2 by (simp_all add: has_pt_def pt_frame_def p2)
  have ho: "has_pt s2 k \<longleftrightarrow> k = i \<or> has_pt s k" for k using i np np2 by (auto simp: has_pt_def p2)
  have fo: "pt_frame s2 k = (if k = i then f else pt_frame s k)" for k using np2 by (simp add: pt_frame_def p2)
  have nf: "pt_frame s k \<noteq> f" if "has_pt s k" for k using pt_wfD(5) [OF wf that] by simp
  have ni: "\<not> has_pt s i" using np by (simp add: has_pt_def)
  show "pt_wf s2 F"
    unfolding pt_wf_def
  proof (intro conjI allI impI)
    show "rec_ok s2" using pt_wfD(1) [OF wf] i by (simp add: rec_ok_def p2 c2)
    show "free_ok s2 F" by (rule fr)
    show "frame_of (cr3 s2) \<notin> set F" using pt_wfD(3) [OF wf] by (simp add: c2)
    fix a assume a: "has_pt s2 a"
    show "pt_frame s2 a \<noteq> frame_of (cr3 s2)" using a fc pt_wfD(4) [OF wf, of a] by (auto simp: ho fo c2)
    show "pt_frame s2 a \<notin> set F" using a fb pt_wfD(5) [OF wf, of a] by (auto simp: ho fo)
    fix b assume "has_pt s2 b" "pt_frame s2 a = pt_frame s2 b"
    then show "a = b" using a pt_wfD(6) [OF wf, of a b] nf by (auto simp: ho fo split: if_splits)
  qed
  assume va: "pd_index va < 1023"
  show "walk_pte s2 va = walk_pte s va"
  proof (cases "pd_index va = i")
    case True
    then show ?thesis using np z2 [of "pt_index va"] by (simp add: walk_pte_alt h p2 present_odd)
  next
    case False
    have "pmem s2 (pt_frame s (pd_index va)) (pt_index va) = pmem s (pt_frame s (pd_index va)) (pt_index va)"
      if "present (pde s (pd_index va))"
      using that va nf [of "pd_index va"] pt_wfD(4) [OF wf, of "pd_index va"] by (intro m2) (auto simp: has_pt_def)
    then show ?thesis using False unfolding walk_pte_alt p2 fo by auto
  qed
qed

lemma map_page_correct:
  assumes wf: "pt_wf s F" and i: "pd_index va < 1023" and room: "has_pt s (pd_index va) \<or> F \<noteq> []"
    and pr: "present (pa OR (fl AND 0xFFF))"
  shows "\<exists>s' F'. map_page va pa fl s = Some s' \<and> pt_wf s' F' \<and> (F' = F \<or> F' = tl F) \<and>
    walk_pte s' va = Some (pa OR (fl AND 0xFFF)) \<and>
    (\<forall>vb. pd_index vb < 1023 \<longrightarrow> (pd_index vb, pt_index vb) \<noteq> (pd_index va, pt_index va) \<longrightarrow>
       walk_pte s' vb = walk_pte s vb)"
proof (cases "present (pde s (pd_index va))")
  case True
  then have h: "has_pt s (pd_index va)" using i by (simp add: has_pt_def)
  show ?thesis
    using map_page_present [OF wf i True, of pa fl] pt_wf_store [OF wf pt_wfD(4) [OF wf h]]
      walk_store_pt [OF wf h] pr i by auto
next
  case False
  then obtain f G where F: "F = f # G" using room by (cases F) (auto simp: has_pt_def)
  obtain s1 where s1: "map_page va pa fl s = Some (store_word f (pt_index va) (pa OR (fl AND 0xFFF))
      (zero_words f 1024 (store_word (frame_of (cr3 s)) (pd_index va) (new_pde f) s1)))"
    "free_ok s1 G" "s1 = s\<lparr>freeq := freeq s1, pg_flags := pg_flags s1\<rparr>"
    using map_page_new [OF wf [unfolded F] i False] by blast
  note w = map_page_new_wf [OF wf [unfolded F] i False s1(2,3)]
  let ?s2 = "zero_words f 1024 (store_word (frame_of (cr3 s)) (pd_index va) (new_pde f) s1)"
  have "pt_wf (store_word f (pt_index va) (pa OR (fl AND 0xFFF)) ?s2) G"
    using pt_wf_store [OF w(1)] pt_wfD(4) [OF w(1,2)] w(3) by simp
  moreover have "walk_pte (store_word f (pt_index va) (pa OR (fl AND 0xFFF)) ?s2) vb =
      (if pd_index vb = pd_index va \<and> pt_index vb = pt_index va then Some (pa OR (fl AND 0xFFF)) else walk_pte s vb)"
    if "pd_index vb < 1023" for vb
    using walk_store_pt [OF w(1,2) that, of "pt_index va" "pa OR (fl AND 0xFFF)"] w(3) w(4) [OF that] pr by simp
  ultimately show ?thesis using s1(1) F i by auto
qed

lemma unmap_page_correct:
  assumes wf: "pt_wf s F" and i: "pd_index va < 1023"
  shows "\<exists>s'. unmap_page va s = Some s' \<and> pt_wf s' F \<and> walk_pte s' va = None \<and>
    (\<forall>vb. pd_index vb < 1023 \<longrightarrow> (pd_index vb, pt_index vb) \<noteq> (pd_index va, pt_index va) \<longrightarrow>
       walk_pte s' vb = walk_pte s vb)"
proof (cases "present (pde s (pd_index va))")
  case True
  then have h: "has_pt s (pd_index va)" using i by (simp add: has_pt_def)
  have "unmap_page va s = Some (store_word (pt_frame s (pd_index va)) (pt_index va) 0 s)"
    using True i vread_pd [OF pt_wfD(1) [OF wf], of "drop_bit 22 va"]
      vwrite_pt [OF pt_wfD(1) [OF wf], of "drop_bit 22 va" "drop_bit 12 va AND 0x3FF"]
    by (simp add: unmap_page_def Let_def drop22 drop12 pt_frame_def)
  then show ?thesis
    using pt_wf_store [OF wf pt_wfD(4) [OF wf h]] walk_store_pt [OF wf h] i by (auto simp: present_odd)
next
  case False
  then have "unmap_page va s = Some s"
    using i vread_pd [OF pt_wfD(1) [OF wf], of "drop_bit 22 va"] by (simp add: unmap_page_def Let_def drop22)
  then show ?thesis using wf False by (auto simp: walk_pte_alt)
qed

lemma page_present_correct:
  assumes wf: "pt_wf s F" and i: "pd_index va < 1023"
  shows "page_present va s = Some (if walk_pte s va = None then 0 else 1)"
  using i vread_pd [OF pt_wfD(1) [OF wf], of "drop_bit 22 va"]
    vread_pt [OF pt_wfD(1) [OF wf], of "drop_bit 22 va" "drop_bit 12 va AND 0x3FF"]
  by (simp add: page_present_def Let_def drop22 drop12 walk_pte_alt pt_frame_def)

section \<open>Allocating and freeing frames\<close>

lemma free_phys_page_correct:
  assumes "free_ok s F" "PAGE_START_INDEX \<le> f" "f < NUM_PAGES" "f \<notin> set F"
    "pg_phys_addr s f = of_nat (f * PAGE_SIZE)"
  shows "free_ok (free_phys_page (of_nat (f * PAGE_SIZE)) s) (f # F)"
proof -
  have "frame_of (of_nat (f * PAGE_SIZE)) = f" using assms(3) frame_of_nat [of f] by simp
  moreover have "tq_list (TAILQ_INSERT_HEAD () f (freeq s)) () (f # F)"
    using tq_list_insert_head [of "freeq s" "()" F f] assms(1,4) by (simp add: free_ok_def)
  ultimately show ?thesis using assms by (auto simp: free_phys_page_def free_ok_def Let_def)
qed

lemma alloc_page_frame_Cons:
  assumes "free_ok s (f # F)"
  shows "\<exists>s'. alloc_page_frame s = Some (of_nat (f * PAGE_SIZE), s') \<and> free_ok s' F \<and>
    pg_ref_count s' = (pg_ref_count s)(f := 1) \<and> pg_phys_addr s' = pg_phys_addr s \<and> pmem s' = pmem s \<and>
    tasks s' = tasks s \<and> cr3 s' = cr3 s"
proof -
  obtain s1 where s1: "alloc_phys_page s = (of_nat (f * PAGE_SIZE), s1)" "free_ok s1 F"
      "s1 = s\<lparr>freeq := freeq s1, pg_flags := pg_flags s1\<rparr>"
    using alloc_phys_page_Cons [OF assms] by blast
  have fb: "f < NUM_PAGES" "0 < f" using free_ok_head [OF assms] by auto
  have fr: "frame_of (of_nat (f * PAGE_SIZE)) = f" using fb(1) frame_of_nat [of f] by simp
  have "alloc_page_frame s = Some (of_nat (f * PAGE_SIZE), s1\<lparr>pg_ref_count := (pg_ref_count s1)(f := 1)\<rparr>)"
    using s1(1) of_nat_frame_nonzero [OF fb(2,1)] fb(1) fr by (simp add: alloc_page_frame_def set_ref1_def)
  moreover have "free_ok (s1\<lparr>pg_ref_count := (pg_ref_count s1)(f := 1)\<rparr>) F"
    by (rule free_ok_cong [OF s1(2)]) simp_all
  moreover have "pg_ref_count s1 = pg_ref_count s" "pg_phys_addr s1 = pg_phys_addr s" "pmem s1 = pmem s"
    "tasks s1 = tasks s" "cr3 s1 = cr3 s" by (subst s1(3), simp)+
  ultimately show ?thesis by auto
qed

text \<open>When no frame is left, the allocation fails and a running USER task is raised to CRITICAL.\<close>

lemma alloc_page_frame_Nil:
  assumes "free_ok s []"
  shows "alloc_page_frame s = Some (0, case current_task s of None \<Rightarrow> s | Some c \<Rightarrow>
     if t_tier (tasks s c) = TIER_USER
     then (upd_task c (\<lambda>x. x\<lparr>t_tier := TIER_CRITICAL\<rparr>) s)\<lparr>pressure_triggered := True\<rparr> else s)"
proof -
  have c: "free_pages_count s = Some 0"
    using tailq_count_eq [of "freeq s" "()" "[]"] assms by (simp add: free_pages_count_def free_ok_def)
  have n: "free_ok s' [] \<Longrightarrow> alloc_phys_page s' = (0, s')" for s' :: "'a paging_state_scheme"
    by (rule alloc_phys_page_Nil)
  have "vm_handle_pressure s = Some (case current_task s of None \<Rightarrow> s | Some c \<Rightarrow>
     if t_tier (tasks s c) = TIER_USER
     then (upd_task c (\<lambda>x. x\<lparr>t_tier := TIER_CRITICAL\<rparr>) s)\<lparr>pressure_triggered := True\<rparr> else s)"
    by (simp add: vm_handle_pressure_def get_current_task_def c split: option.split)
  moreover have "free_ok ((upd_task c (\<lambda>x. x\<lparr>t_tier := TIER_CRITICAL\<rparr>) s)\<lparr>pressure_triggered := True\<rparr>) []" for c
    by (rule free_ok_cong [OF assms]) (simp_all add: upd_task_def)
  ultimately show ?thesis using n [OF assms] n by (simp add: alloc_page_frame_def assms split: option.split)
qed

section \<open>Initialisation\<close>

definition fill_words :: "nat \<Rightarrow> nat \<Rightarrow> (nat \<Rightarrow> u32) \<Rightarrow> 'a paging_state_scheme \<Rightarrow> 'a paging_state_scheme" where
  "fill_words f n v s = s\<lparr>pmem := (pmem s)(f := (\<lambda>w. if w < n then v w else pmem s f w))\<rparr>"

lemma store_fill_words: "store_word f n (v n) (fill_words f n v s) = fill_words f (Suc n) v s"
  by (simp add: store_word_def fill_words_def fun_eq_iff less_Suc_eq)

lemma fold_store_word: "fold (\<lambda>i. store_word f i (v i)) [0..<n] s = fill_words f n v s"
  by (induction n) (simp_all add: store_fill_words, simp add: fill_words_def)

lemma fold_store_entries: "fold (\<lambda>i. store_word f i (v i)) entries s = fill_words f 1024 v s"
  unfolding entries_def by (rule fold_store_word)

lemma fold_store_two:
  assumes "f \<noteq> g"
  shows "fold (\<lambda>i s. store_word f i 0 (store_word g i 0 s)) [0..<n] s = fill_words f n (\<lambda>_. 0) (fill_words g n (\<lambda>_. 0) s)"
proof (induction n)
  case 0
  then show ?case by (simp add: fill_words_def)
next
  case (Suc n)
  have "store_word f n 0 (store_word g n 0 (fill_words f n (\<lambda>_. 0) (fill_words g n (\<lambda>_. 0) s))) =
      fill_words f (Suc n) (\<lambda>_. 0) (fill_words g (Suc n) (\<lambda>_. 0) s)"
    using assms by (auto simp: store_word_def fill_words_def fun_eq_iff less_Suc_eq)
  then show ?case using Suc by simp
qed

lemma fill_words_other [simp]:
  "cr3 (fill_words f n v s) = cr3 s" "freeq (fill_words f n v s) = freeq s"
  "pg_phys_addr (fill_words f n v s) = pg_phys_addr s" "kernel_pd (fill_words f n v s) = kernel_pd s"
  "pt0_addr (fill_words f n v s) = pt0_addr s" "physmap_addr (fill_words f n v s) = physmap_addr s"
  by (simp_all add: fill_words_def)

lemma pmem_fill_words: "pmem (fill_words f n v s) g w = (if g = f \<and> w < n then v w else pmem s g w)"
  by (simp add: fill_words_def)

text \<open>The page array: every frame from 1024 on is in the free list, in ascending order.\<close>

lemma init_pages:
  assumes "tq_list (freeq s) () []"
  defines "r n \<equiv> fold init_page [0..<n] s"
  shows "tq_list (freeq (r n)) () [PAGE_START_INDEX..<n] \<and>
    (\<forall>i < n. pg_phys_addr (r n) i = of_nat (i * PAGE_SIZE) \<and> pg_ref_count (r n) i = 0) \<and>
    pmem (r n) = pmem s \<and> kernel_pd (r n) = kernel_pd s \<and> pt0_addr (r n) = pt0_addr s \<and>
    physmap_addr (r n) = physmap_addr s"
proof (induction n)
  case 0
  then show ?case using assms by (simp add: r_def)
next
  case (Suc n)
  have r: "r (Suc n) = init_page n (r n)" by (simp add: r_def)
  have "tq_list (freeq (r (Suc n))) () [PAGE_START_INDEX..<Suc n]"
  proof (cases "PAGE_START_INDEX \<le> n")
    case True
    have u: "[PAGE_START_INDEX..<Suc n] = [PAGE_START_INDEX..<n] @ [n]" using True by (rule upt_Suc_append)
    have q: "freeq (r (Suc n)) = TAILQ_INSERT_TAIL () n (freeq (r n))"
      using True by (simp add: r init_page_def Let_def)
    show ?thesis unfolding u q by (rule tq_list_insert_tail) (use Suc in auto)
  next
    case False
    then show ?thesis using Suc by (simp add: r init_page_def Let_def)
  qed
  moreover have "\<forall>i < Suc n. pg_phys_addr (r (Suc n)) i = of_nat (i * PAGE_SIZE) \<and> pg_ref_count (r (Suc n)) i = 0"
    using Suc by (auto simp: r init_page_def Let_def less_Suc_eq)
  moreover have "pmem (r (Suc n)) = pmem s" "kernel_pd (r (Suc n)) = kernel_pd s"
    "pt0_addr (r (Suc n)) = pt0_addr s" "physmap_addr (r (Suc n)) = physmap_addr s"
    using Suc by (auto simp: r init_page_def Let_def)
  ultimately show ?case by blast
qed

text \<open>
  The static arrays \<open>page_directory\<close>, \<open>page_table_0\<close> and \<open>page_table_physmap\<close> are page aligned, lie in
  the first 4 MB, where the kernel is linked, and do not overlap.
\<close>

definition statics_ok :: "'a paging_state_scheme \<Rightarrow> bool" where
  "statics_ok s \<longleftrightarrow>
     (let pd = frame_of (kernel_pd s); pt0 = frame_of (pt0_addr s); pmf = frame_of (physmap_addr s) in
      unat (kernel_pd s) = pd * 4096 \<and> unat (pt0_addr s) = pt0 * 4096 \<and> unat (physmap_addr s) = pmf * 4096 \<and>
      pd < 1024 \<and> pt0 < 1024 \<and> pmf + 16 \<le> 1024 \<and>
      pd \<noteq> pt0 \<and> (pd < pmf \<or> pmf + 16 \<le> pd) \<and> (pt0 < pmf \<or> pmf + 16 \<le> pt0))"

definition pm_entry :: "nat \<Rightarrow> u32" where
  "pm_entry k = of_nat (k * PAGE_SIZE) OR PTE_PRESENT OR PTE_RW"

lemma init_physmap_loop:
  fixes s :: "'a paging_state_scheme"
  assumes pd: "pd < pmf \<or> pmf + 16 \<le> pd"
  defines "r n \<equiv> fold (init_physmap pd pmf) [0..<n] s"
  shows "n \<le> 16 \<Longrightarrow> (\<forall>f w. pmem (r n) f w =
      (if f = pd \<and> 768 \<le> w \<and> w < 768 + n
       then (physmap_addr s + of_nat ((w - 768) * PAGE_SIZE)) OR PTE_PRESENT OR PTE_RW
       else if pmf \<le> f \<and> f < pmf + n \<and> w < 1024 then pm_entry ((f - pmf) * 1024 + w)
       else pmem s f w)) \<and>
    r n = s\<lparr>pmem := pmem (r n)\<rparr>"
proof (induction n)
  case 0
  then show ?case by (auto simp: r_def)
next
  case (Suc n)
  have IH: "r n = s\<lparr>pmem := pmem (r n)\<rparr>" using Suc by simp
  have pa: "physmap_addr (r n) = physmap_addr s" by (subst IH) simp
  have r: "r (Suc n) = fill_words (pmf + n) 1024 (\<lambda>j. pm_entry (n * 1024 + j))
      (store_word pd (768 + n) ((physmap_addr s + of_nat (n * PAGE_SIZE)) OR PTE_PRESENT OR PTE_RW) (r n))"
    by (simp add: r_def init_physmap_def Let_def entries_def [symmetric] fold_store_entries pa [unfolded r_def] pm_entry_def)
  have "r (Suc n) = (r n)\<lparr>pmem := pmem (r (Suc n))\<rparr>"
    unfolding r by (simp add: fill_words_def store_word_def)
  also have "\<dots> = s\<lparr>pmem := pmem (r (Suc n))\<rparr>" by (subst IH) simp
  finally have "r (Suc n) = s\<lparr>pmem := pmem (r (Suc n))\<rparr>" .
  moreover have "pmem (r (Suc n)) f w =
      (if f = pd \<and> 768 \<le> w \<and> w < 768 + Suc n
       then (physmap_addr s + of_nat ((w - 768) * PAGE_SIZE)) OR PTE_PRESENT OR PTE_RW
       else if pmf \<le> f \<and> f < pmf + Suc n \<and> w < 1024 then pm_entry ((f - pmf) * 1024 + w)
       else pmem s f w)" for f w
  proof -
    have IHm: "pmem (r n) f w =
      (if f = pd \<and> 768 \<le> w \<and> w < 768 + n
       then (physmap_addr s + of_nat ((w - 768) * PAGE_SIZE)) OR PTE_PRESENT OR PTE_RW
       else if pmf \<le> f \<and> f < pmf + n \<and> w < 1024 then pm_entry ((f - pmf) * 1024 + w)
       else pmem s f w)" using Suc by simp
    consider "f = pmf + n" "w < 1024" | "f = pd" "w = 768 + n"
      | "\<not> (f = pmf + n \<and> w < 1024)" "\<not> (f = pd \<and> w = 768 + n)" by blast
    then show ?thesis
    proof cases
      case 1
      have "f \<noteq> pd" using pd 1 Suc.prems by auto
      then show ?thesis using 1 unfolding r pmem_fill_words pmem_store_word by simp
    next
      case 2
      have "f \<noteq> pmf + n" using pd 2 Suc.prems by auto
      then show ?thesis using 2 unfolding r pmem_fill_words pmem_store_word by simp
    next
      case 3
      have "(f = pd \<and> 768 \<le> w \<and> w < 768 + Suc n) = (f = pd \<and> 768 \<le> w \<and> w < 768 + n)"
        "(pmf \<le> f \<and> f < pmf + Suc n \<and> w < 1024) = (pmf \<le> f \<and> f < pmf + n \<and> w < 1024)"
        using 3 by auto
      then show ?thesis using 3 IHm unfolding r pmem_fill_words pmem_store_word by (simp only: if_False simp_thms)
    qed
  qed
  ultimately show ?case by blast
qed

lemma frame_of_low: "unat a = k * 4096 \<Longrightarrow> frame_of (a OR 1 OR 2) = k \<and> present (a OR 1 OR 2)"
proof
  assume a: "unat a = k * 4096"
  have "frame_of (a OR (1 OR 2)) = frame_of a" by (rule frame_of_or) simp
  then show "frame_of (a OR 1 OR 2) = k" using a by (simp add: frame_of_def unat_drop_bit32)
  show "present (a OR 1 OR 2)" by (simp add: present_odd bit_0 [symmetric] bit_or_iff)
qed

lemma frame_of_aligned_add:
  fixes a :: u32
  assumes "unat a = k * 4096" "k + i < 2 ^ 20"
  shows "unat (a + of_nat (i * 4096)) = (k + i) * 4096"
proof -
  have "unat (of_nat (i * 4096) :: u32) = i * 4096" using assms(2) by (intro unat_of_nat32) simp
  then show ?thesis using assms unat_add32 [of a "of_nat (i * 4096)"] by simp
qed

text \<open>The contents of physical memory after \<open>paging_init\<close>, at the words that hold tables.\<close>

lemma paging_init_memory:
  fixes s :: "'a paging_state_scheme" and a b :: u32
  assumes ok: "statics_ok s"
  defines "s' \<equiv> snd (paging_init a b s)"
    and "pd \<equiv> frame_of (kernel_pd s)" and "pt0 \<equiv> frame_of (pt0_addr s)" and "pmf \<equiv> frame_of (physmap_addr s)"
  shows "cr3 s' = kernel_pd s" "free_ok s' [PAGE_START_INDEX..<NUM_PAGES]"
    "w < 1024 \<Longrightarrow> pmem s' pd w =
       (if w = 0 then pt0_addr s OR PTE_PRESENT OR PTE_RW
        else if w = 1023 then kernel_pd s OR PTE_PRESENT OR PTE_RW
        else if 768 \<le> w \<and> w < 784 then (physmap_addr s + of_nat ((w - 768) * PAGE_SIZE)) OR PTE_PRESENT OR PTE_RW
        else 0)"
    "w < 1024 \<Longrightarrow> pmem s' pt0 w = pm_entry w"
    "i < 16 \<Longrightarrow> w < 1024 \<Longrightarrow> pmem s' (pmf + i) w = pm_entry (i * 1024 + w)"
proof -
  have ne: "pd \<noteq> pt0" "pd < pmf \<or> pmf + 16 \<le> pd" "pt0 < pmf \<or> pmf + 16 \<le> pt0"
    using ok by (simp_all add: statics_ok_def Let_def pd_def pt0_def pmf_def)
  define A where "A = fill_words pt0 1024 pm_entry (fill_words pt0 1024 (\<lambda>_. 0) (fill_words pd 1024 (\<lambda>_. 0) s))"
  define B where "B = A\<lparr>freeq := TAILQ_INIT () (freeq A)\<rparr>"
  define C where "C = fold init_page [0..<NUM_PAGES] B"
  define D where "D = store_word pd 1023 (kernel_pd s OR PTE_PRESENT OR PTE_RW)
      (store_word pd 0 (pt0_addr s OR PTE_PRESENT OR PTE_RW) C)"
  define E where "E = fold (init_physmap pd pmf) [0..<16] D"
  have tB: "tq_list (freeq B) () []" by (simp add: B_def tq_list_init)
  note Call = init_pages [OF tB, of NUM_PAGES, folded C_def]
  note Cq = Call [THEN conjunct1] and Cp = Call [THEN conjunct2, THEN conjunct1]
    and C = Call [THEN conjunct2, THEN conjunct2]
  have cB: "kernel_pd B = kernel_pd s" "pt0_addr B = pt0_addr s" "physmap_addr B = physmap_addr s"
    by (simp_all add: B_def A_def)
  have sD: "physmap_addr D = physmap_addr s" "kernel_pd D = kernel_pd s" "freeq D = freeq C"
    "pg_phys_addr D = pg_phys_addr C" using C cB by (simp_all add: D_def)
  note E = init_physmap_loop [OF ne(2), of 16 D, folded E_def, simplified]
  have sE: "kernel_pd E = kernel_pd s" "freeq E = freeq C" "pg_phys_addr E = pg_phys_addr C"
    using sD by (subst E [THEN conjunct2], simp)+
  have A: "fold (\<lambda>i. store_word pt0 i (of_nat (i * PAGE_SIZE) OR PTE_PRESENT OR PTE_RW)) entries
      (fold (\<lambda>i s. store_word pt0 i 0 (store_word pd i 0 s)) entries s) = A"
    unfolding A_def entries_def fold_store_two [OF ne(1) [symmetric]] pm_entry_def fold_store_word ..
  have s': "s' = E\<lparr>cr3 := kernel_pd s, cr0 := cr0 E OR 0x80000000\<rparr>"
    unfolding s'_def paging_init_def Let_def snd_conv
    unfolding pd_def [symmetric] pt0_def [symmetric] pmf_def [symmetric] A
    unfolding B_def [symmetric] C_def [symmetric]
    unfolding C [THEN conjunct2, THEN conjunct1] C [THEN conjunct2, THEN conjunct2, THEN conjunct1]
      cB store_word_other D_def [symmetric] E_def [symmetric] sE(1) ..
  show "cr3 s' = kernel_pd s" by (simp add: s')
  show "free_ok s' [PAGE_START_INDEX..<NUM_PAGES]"
  proof -
    have f: "freeq s' = freeq C" "pg_phys_addr s' = pg_phys_addr C" using sE by (simp_all add: s')
    show ?thesis unfolding free_ok_def f using Cq Cp by (auto simp only: set_upt atLeastLessThan_iff order_refl)
  qed
  have m: "pmem s' = pmem E" by (simp add: s')
  have pC: "pmem C = pmem A" using C by (simp add: B_def)
  show "w < 1024 \<Longrightarrow> pmem s' pd w =
       (if w = 0 then pt0_addr s OR PTE_PRESENT OR PTE_RW
        else if w = 1023 then kernel_pd s OR PTE_PRESENT OR PTE_RW
        else if 768 \<le> w \<and> w < 784 then (physmap_addr s + of_nat ((w - 768) * PAGE_SIZE)) OR PTE_PRESENT OR PTE_RW
        else 0)"
    using E ne sD(1) unfolding m D_def pmem_store_word pC A_def pmem_fill_words by auto
  show "w < 1024 \<Longrightarrow> pmem s' pt0 w = pm_entry w"
    using E ne unfolding m D_def pmem_store_word pC A_def pmem_fill_words by auto
  show "i < 16 \<Longrightarrow> w < 1024 \<Longrightarrow> pmem s' (pmf + i) w = pm_entry (i * 1024 + w)"
    using E ne unfolding m by auto
qed

lemma pm_entry_simps: "k < 2 ^ 20 \<Longrightarrow> frame_of (pm_entry k) = k \<and> present (pm_entry k)"
proof -
  assume k: "k < 2 ^ 20"
  then have "unat (of_nat (k * 4096) :: u32) = k * 4096" by (intro unat_of_nat32) simp
  then show ?thesis using frame_of_low [of "of_nat (k * 4096)" k] by (simp add: pm_entry_def or.assoc)
qed

lemma paging_init_tables:
  fixes s :: "'a paging_state_scheme" and a b :: u32
  assumes ok: "statics_ok s"
  defines "s' \<equiv> snd (paging_init a b s)"
  shows "present (pde s' 0)" "pt_frame s' 0 = frame_of (pt0_addr s)"
    "i < 16 \<Longrightarrow> present (pde s' (768 + i)) \<and> pt_frame s' (768 + i) = frame_of (physmap_addr s) + i"
    "present (pde s' 1023)" "frame_of (pde s' 1023) = frame_of (kernel_pd s)"
    "has_pt s' k \<Longrightarrow> k = 0 \<or> (\<exists>i < 16. k = 768 + i)"
proof -
  have al: "unat (kernel_pd s) = frame_of (kernel_pd s) * 4096" "unat (pt0_addr s) = frame_of (pt0_addr s) * 4096"
    "unat (physmap_addr s) = frame_of (physmap_addr s) * 4096" "frame_of (physmap_addr s) + 16 \<le> 1024"
    using ok by (simp_all add: statics_ok_def Let_def)
  note mem = paging_init_memory [OF ok, where a = a and b = b, folded s'_def]
  have p: "pde s' w = pmem s' (frame_of (kernel_pd s)) w" for w by (simp add: pde_def mem(1))
  note p0 = mem(3) [of 0] and p1 = mem(3) [of 1023]
  show "present (pde s' 0)" "pt_frame s' 0 = frame_of (pt0_addr s)"
    using frame_of_low [OF al(2)] p0 by (simp_all add: p pt_frame_def or.assoc)
  show "present (pde s' 1023)" "frame_of (pde s' 1023) = frame_of (kernel_pd s)"
    using frame_of_low [OF al(1)] p1 by (simp_all add: p or.assoc)
  show "present (pde s' (768 + i)) \<and> pt_frame s' (768 + i) = frame_of (physmap_addr s) + i" if i: "i < 16"
  proof -
    have "unat (physmap_addr s + of_nat (i * 4096)) = (frame_of (physmap_addr s) + i) * 4096"
      using al(4) i by (intro frame_of_aligned_add [OF al(3)]) simp
    from frame_of_low [OF this] mem(3) [of "768 + i"] i
    show ?thesis by (simp add: p pt_frame_def or.assoc)
  qed
  show "k = 0 \<or> (\<exists>i < 16. k = 768 + i)" if k: "has_pt s' k"
  proof (rule ccontr)
    assume n: "\<not> ?thesis"
    have "\<not> (768 \<le> k \<and> k < 784)"
    proof
      assume "768 \<le> k \<and> k < 784"
      then have "k - 768 < 16" "k = 768 + (k - 768)" by auto
      with n show False by blast
    qed
    then have "pde s' k = 0" using n k mem(3) [of k] by (auto simp: p has_pt_def)
    with k show False by (simp add: has_pt_def present_odd)
  qed
qed

lemma paging_init_wf:
  assumes ok: "statics_ok s"
  shows "pt_wf (snd (paging_init a b s)) [PAGE_START_INDEX..<NUM_PAGES]"
proof -
  let ?s = "snd (paging_init a b s)"
  note mem = paging_init_memory [OF ok, where a = a and b = b] and tab = paging_init_tables [OF ok, where a = a and b = b]
  have b: "frame_of (kernel_pd s) < 1024" "frame_of (pt0_addr s) < 1024" "frame_of (physmap_addr s) + 16 \<le> 1024"
    and d: "frame_of (kernel_pd s) \<noteq> frame_of (pt0_addr s)"
      "\<And>i. i < 16 \<Longrightarrow> frame_of (physmap_addr s) + i \<noteq> frame_of (kernel_pd s)"
      "\<And>i. i < 16 \<Longrightarrow> frame_of (physmap_addr s) + i \<noteq> frame_of (pt0_addr s)"
    using ok by (auto simp: statics_ok_def Let_def)
  have low: "f < 1024 \<Longrightarrow> f \<notin> set [PAGE_START_INDEX..<NUM_PAGES]" for f
    unfolding set_upt by simp
  have fr: "pt_frame ?s k < 1024 \<and> pt_frame ?s k \<noteq> frame_of (kernel_pd s)" if "has_pt ?s k" for k
    using tab(6) [OF that] tab(2,3) b d by auto
  have inj: "i = j" if h: "has_pt ?s i" "has_pt ?s j" "pt_frame ?s i = pt_frame ?s j" for i j
    using tab(6) [OF h(1)] tab(6) [OF h(2)] h(3) tab(2,3) d(3) by (auto, blast+)
  show ?thesis
    unfolding pt_wf_def rec_ok_def mem(1) using tab(4,5) mem(2) low fr b(1) inj by blast
qed

lemma index_of_split:
  assumes "unat va = i * 4194304 + j * 4096 + r" "j < 1024" "r < 4096"
  shows "pd_index va = i" "pt_index va = j"
proof -
  have e: "unat va = 4194304 * i + (4096 * j + r)" "unat va = 4096 * (1024 * i + j) + r" using assms(1) by simp_all
  show "pd_index va = i"
    unfolding pd_index_def unat_drop_bit32 e(1) using split_div_mod [of "4096 * j + r" 4194304 i] assms(2,3) by simp
  show "pt_index va = j"
    unfolding pt_index_def unat_and_3FF unat_drop_bit32 e(2)
    using split_div_mod [of r 4096 "1024 * i + j"] split_div_mod [of j 1024 i] assms(2,3) by simp
qed

section \<open>Properties\<close>

text \<open>A small machine: the directory in frame 5 with only the recursive entry, two free frames.\<close>

definition small_paging :: paging_state where
  "small_paging = \<lparr>tasks = (\<lambda>_. zero_task), pid_counter = 1, current_task = None, rq_head = (\<lambda>_. None),
     rq_tail = (\<lambda>_. None), tss_stack = None, cr3 = 0x5000, kernel_pd = 0x5000,
     pg_phys_addr = (\<lambda>i. of_nat (i * PAGE_SIZE)), pg_ref_count = (\<lambda>_. 0), pg_flags = (\<lambda>_. PG_FREE),
     pg_object = (\<lambda>_. 0),
     freeq = fold (TAILQ_INSERT_TAIL ()) [1024, 1025]
       (TAILQ_INIT () \<lparr>tqh_first = (\<lambda>_. None), tqh_last = HeadCell, tqe_next = (\<lambda>_. None), tqe_prev = (\<lambda>_. HeadCell ())\<rparr>),
     pmem = (\<lambda>f w. if f = 5 \<and> w = 1023 then 0x5003 else 0),
     pressure_triggered = False, pt0_addr = 0x6000, physmap_addr = 0x7000, cr0 = 0x80000000\<rparr>"

lemma small_paging_free: "free_ok small_paging [1024, 1025]"
proof -
  have "tq_list (freeq small_paging) () ([] @ [1024, 1025])"
    unfolding small_paging_def paging_state.simps
    by (rule tailq.fill_tail [OF tq_list_init]) simp
  then show ?thesis by (simp add: free_ok_def) (simp add: small_paging_def)
qed

lemma small_paging_pde: "pde small_paging i = (if i = 1023 then 0x5003 else 0)"
  by (simp add: pde_def small_paging_def frame_of_def unat_drop_bit32)

lemma small_paging_wf: "pt_wf small_paging [1024, 1025]"
proof -
  have c: "frame_of (cr3 small_paging) = 5" "frame_of 0x5003 = 5" by (simp_all add: small_paging_def frame_of_def unat_drop_bit32)
  have "has_pt small_paging i = False" for i by (auto simp: has_pt_def small_paging_pde present_odd)
  then show ?thesis using small_paging_free c
    by (simp add: pt_wf_def rec_ok_def small_paging_pde present_odd)
qed

text \<open>
  C5: \<open>map_page\<close> maps. For an address outside the recursive window, when its page table exists or a
  frame is free, \<open>map_page\<close> returns without a fault, the MMU then translates the page to the given
  frame with the given flags, every other page outside the window translates as before, and the
  page tables stay well formed, with at most one frame taken from the free list.
\<close>

theorem map_page_maps:
  assumes "pt_wf s F" "pd_index va < 1023" "has_pt s (pd_index va) \<or> F \<noteq> []" "present (pa OR (fl AND 0xFFF))"
  shows "\<exists>s' F'. map_page va pa fl s = Some s' \<and> pt_wf s' F' \<and> (F' = F \<or> F' = tl F) \<and>
    walk_pte s' va = Some (pa OR (fl AND 0xFFF)) \<and>
    (\<forall>vb. pd_index vb < 1023 \<longrightarrow> (pd_index vb, pt_index vb) \<noteq> (pd_index va, pt_index va) \<longrightarrow>
       walk_pte s' vb = walk_pte s vb)"
  using assms by (rule map_page_correct)

lemma map_page_maps_witness:
  "\<exists>s'. map_page 0x400000 0x401000 7 small_paging = Some s' \<and> walk_pte s' 0x400000 = Some 0x401007"
proof -
  have "pd_index 0x400000 < 1023" by (simp add: pd_index_def unat_drop_bit32)
  moreover have "present (0x401000 OR (7 AND 0xFFF))" by (simp add: present_odd)
  ultimately show ?thesis using map_page_maps [OF small_paging_wf, where va = "0x400000" and pa = "0x401000" and fl = 7] by auto
qed

text \<open>
  C17: \<open>unmap_page\<close> undoes \<open>map_page\<close>: afterwards the page faults, \<open>page_present\<close> says so, and every other
  page outside the recursive window translates as before the mapping.
\<close>

theorem unmap_after_map:
  assumes "pt_wf s F" "pd_index va < 1023" "has_pt s (pd_index va) \<or> F \<noteq> []" "present (pa OR (fl AND 0xFFF))"
  shows "\<exists>s1 s2. map_page va pa fl s = Some s1 \<and> page_present va s1 = Some 1 \<and> unmap_page va s1 = Some s2 \<and>
    page_present va s2 = Some 0 \<and>
    (\<forall>vb. pd_index vb < 1023 \<longrightarrow> (pd_index vb, pt_index vb) \<noteq> (pd_index va, pt_index va) \<longrightarrow>
       walk_pte s2 vb = walk_pte s vb)"
proof -
  obtain s1 F1 where s1: "map_page va pa fl s = Some s1" "pt_wf s1 F1" "walk_pte s1 va = Some (pa OR (fl AND 0xFFF))"
    "\<forall>vb. pd_index vb < 1023 \<longrightarrow> (pd_index vb, pt_index vb) \<noteq> (pd_index va, pt_index va) \<longrightarrow>
       walk_pte s1 vb = walk_pte s vb"
    using map_page_correct [OF assms] by blast
  obtain s2 where s2: "unmap_page va s1 = Some s2" "pt_wf s2 F1" "walk_pte s2 va = None"
    "\<forall>vb. pd_index vb < 1023 \<longrightarrow> (pd_index vb, pt_index vb) \<noteq> (pd_index va, pt_index va) \<longrightarrow>
       walk_pte s2 vb = walk_pte s1 vb"
    using unmap_page_correct [OF s1(2) assms(2)] by blast
  show ?thesis
    using s1 s2 page_present_correct [OF s1(2) assms(2)] page_present_correct [OF s2(2) assms(2)] by auto
qed

lemma unmap_after_map_witness:
  "\<exists>s1 s2. map_page 0x400000 0x401000 7 small_paging = Some s1 \<and> page_present 0x400000 s1 = Some 1 \<and>
    unmap_page 0x400000 s1 = Some s2 \<and> page_present 0x400000 s2 = Some 0"
proof -
  have "pd_index 0x400000 < 1023" by (simp add: pd_index_def unat_drop_bit32)
  moreover have "present (0x401000 OR (7 AND 0xFFF))" by (simp add: present_odd)
  ultimately show ?thesis using unmap_after_map [OF small_paging_wf, where va = "0x400000" and pa = "0x401000" and fl = 7] by auto
qed

text \<open>
  The frame allocator hands out the first free frame, page aligned, from the range it manages,
  with reference count one; freeing it puts it back at the head of the free list with count zero.
\<close>

theorem alloc_free_roundtrip:
  assumes "free_ok s (f # F)"
  shows "\<exists>p s1. alloc_page_frame s = Some (p, s1) \<and> unat p = f * PAGE_SIZE \<and> PAGE_START_INDEX \<le> f \<and> f < NUM_PAGES \<and>
    free_ok s1 F \<and> f \<notin> set F \<and> pg_ref_count s1 f = 1 \<and>
    free_ok (free_page_frame p s1) (f # F) \<and> pg_ref_count (free_page_frame p s1) f = 0"
proof -
  obtain s1 where s1: "alloc_page_frame s = Some (of_nat (f * PAGE_SIZE), s1)" "free_ok s1 F"
    "pg_ref_count s1 = (pg_ref_count s)(f := 1)" "pg_phys_addr s1 = pg_phys_addr s"
    using alloc_page_frame_Cons [OF assms] by blast
  note f = free_ok_head [OF assms]
  have ph: "pg_phys_addr s f = of_nat (f * PAGE_SIZE)" using assms by (simp add: free_ok_def)
  have fr: "frame_of (of_nat (f * PAGE_SIZE)) = f" using f frame_of_nat [of f] by simp
  let ?s = "s1\<lparr>pg_ref_count := (pg_ref_count s1)(f := 0)\<rparr>"
  have fp: "free_page_frame (of_nat (f * PAGE_SIZE)) s1 = free_phys_page (of_nat (f * PAGE_SIZE)) ?s"
    unfolding free_page_frame_def fr Let_def using f s1(3) by simp
  have "free_ok (free_phys_page (of_nat (f * PAGE_SIZE)) ?s) (f # F)"
    by (rule free_phys_page_correct) (use f ph s1(4) free_ok_cong [OF s1(2), of ?s] in auto)
  moreover have "pg_ref_count (free_phys_page (of_nat (f * PAGE_SIZE)) ?s) f = 0"
    by (simp add: free_phys_page_def Let_def)
  moreover have "unat (of_nat (f * PAGE_SIZE) :: u32) = f * PAGE_SIZE" using f by (intro unat_of_nat32) simp
  ultimately show ?thesis using s1 f fp by auto
qed

lemma alloc_free_roundtrip_witness:
  "\<exists>p s1. alloc_page_frame small_paging = Some (p, s1) \<and> unat p = 0x400000 \<and> free_ok (free_page_frame p s1) [1024, 1025]"
  using alloc_free_roundtrip [OF small_paging_free] by auto

text \<open>
  Out of memory. With no free frame, \<open>alloc_page_frame\<close> returns 0 and changes no page table and no
  frame; its one effect is that a USER task that asked is raised to tier CRITICAL, which the
  scheduler treats as SYSTEM priority.
\<close>

theorem alloc_page_frame_exhausted:
  assumes "free_ok s []" "current_task s = Some c" "t_tier (tasks s c) = TIER_USER"
  shows "\<exists>s'. alloc_page_frame s = Some (0, s') \<and> pmem s' = pmem s \<and> pg_ref_count s' = pg_ref_count s \<and>
    t_tier (tasks s' c) = TIER_CRITICAL \<and> task_qidx (Some c) s' = 1 \<and> pressure_triggered s'"
  using alloc_page_frame_Nil [OF assms(1)] assms(2,3) by (simp add: upd_task_def task_qidx_def)

lemma alloc_page_frame_exhausted_witness:
  "\<exists>s'. alloc_page_frame (small_paging\<lparr>freeq := TAILQ_INIT () (freeq small_paging), current_task := Some 3,
       tasks := (\<lambda>_. zero_task\<lparr>t_tier := TIER_USER\<rparr>)\<rparr>) = Some (0, s') \<and> t_tier (tasks s' 3) = TIER_CRITICAL"
proof -
  let ?s = "small_paging\<lparr>freeq := TAILQ_INIT () (freeq small_paging), current_task := Some 3,
       tasks := (\<lambda>_. zero_task\<lparr>t_tier := TIER_USER\<rparr>)\<rparr>"
  have "free_ok ?s []" by (simp add: free_ok_def tq_list_init)
  then show ?thesis using alloc_page_frame_exhausted [of ?s 3] by auto
qed

text \<open>
  C18: \<open>paging_init\<close> establishes the page-table invariant with all frames from 1024 to 16383 free, maps
  the first 4 MB identically, and maps the 64 MB window at \<open>0xC0000000\<close> to physical memory.
\<close>

theorem paging_init_correct:
  assumes "statics_ok s"
  shows "let s' = snd (paging_init a b s) in pt_wf s' [PAGE_START_INDEX..<NUM_PAGES] \<and>
    (\<forall>va. unat va < 0x400000 \<longrightarrow> walk_pte s' va = Some (pm_entry (unat va div 4096))) \<and>
    (\<forall>va. 0xC0000000 \<le> unat va \<and> unat va < 0xC4000000 \<longrightarrow>
       walk_pte s' va = Some (pm_entry ((unat va - 0xC0000000) div 4096)))"
proof -
  let ?s = "snd (paging_init a b s)"
  note mem = paging_init_memory [OF assms, where a = a and b = b]
    and tab = paging_init_tables [OF assms, where a = a and b = b]
  have "walk_pte ?s va = Some (pm_entry (unat va div 4096))" if v: "unat va < 0x400000" for va
  proof -
    have j: "unat va div 4096 < 1024" using v by (simp add: less_mult_imp_div_less)
    have "unat va = 0 * 4194304 + (unat va div 4096) * 4096 + unat va mod 4096" by simp
    note ix = index_of_split [OF this j]
    show ?thesis using mem(4) [OF j] pm_entry_simps [of "unat va div 4096"] j tab(1,2)
      by (simp add: walk_pte_alt ix)
  qed
  moreover have "walk_pte ?s va = Some (pm_entry ((unat va - 0xC0000000) div 4096))"
    if v: "0xC0000000 \<le> unat va" "unat va < 0xC4000000" for va
  proof -
    define k where "k = (unat va - 0xC0000000) div 4096"
    define m where "m = (unat va - 0xC0000000) mod 4096"
    define i where "i = k div 1024"
    define j where "j = k mod 1024"
    have k: "k < 16384" using v by (simp add: k_def less_mult_imp_div_less)
    have i: "i < 16" using k by (simp add: i_def less_mult_imp_div_less)
    have b: "j < 1024" "m < 4096" by (simp_all add: j_def m_def)
    have kij: "k = i * 1024 + j" by (simp add: i_def j_def)
    have "unat va - 0xC0000000 = k * 4096 + m" by (simp add: k_def m_def)
    then have "unat va = (768 + i) * 4194304 + j * 4096 + m" using v(1) kij by simp
    note ix = index_of_split [OF this b]
    show ?thesis using mem(5) [OF i b(1)] tab(3) [OF i] pm_entry_simps [of k] k
      by (simp add: walk_pte_alt ix kij flip: k_def)
  qed
  ultimately show ?thesis using paging_init_wf [OF assms] unfolding Let_def by blast
qed

lemma paging_init_correct_witness:
  "let s' = snd (paging_init 0x200000 0x4000000 small_paging) in walk_pte s' 0xC0123456 = Some (pm_entry 0x123)"
proof -
  have "statics_ok small_paging"
    by (simp add: statics_ok_def Let_def small_paging_def frame_of_def unat_drop_bit32)
  from paging_init_correct [OF this, of "0x200000" "0x4000000", unfolded Let_def, THEN conjunct2,
      THEN conjunct2, rule_format, of "0xC0123456"]
  show ?thesis by (simp add: Let_def)
qed

end
