(* ===== verification/Heap.thy ===== *)
theory Heap
  imports Paging
begin

text \<open>
  The kernel heap of \<open>kernel/heap.c\<close>: boundary-tagged blocks between \<open>HEAP_VIRT_START\<close> and
  \<open>heap_end\<close>, with an address-ordered singly linked list of the free ones.

  The memory of the heap region is a map from word addresses to words (\<open>hmem\<close>). Growing the heap takes
  frames and writes page tables as in \<open>Paging\<close>; the loads and stores of the allocator itself are not
  sent through the page walk. A loop over the free list that does not end is \<^const>\<open>None\<close>.
\<close>

section \<open>State\<close>

record heap_state = paging_state +
  hmem :: "u32 \<Rightarrow> u32"
  free_list :: u32
  heap_brk :: u32
  heap_end :: u32

definition HEAP_VIRT_START :: u32 where "HEAP_VIRT_START = 0xD0000000"
abbreviation HEAP_INIT_PAGES :: nat where "HEAP_INIT_PAGES \<equiv> 64"
definition BLOCK_FLAG_FREE :: u32 where "BLOCK_FLAG_FREE = 1"
definition BLOCK_FLAG_PREV_FREE :: u32 where "BLOCK_FLAG_PREV_FREE = 2"
abbreviation BLOCK_SIZE_MASK :: u32 where "BLOCK_SIZE_MASK \<equiv> NOT 3"
abbreviation MIN_BLOCK_SIZE :: u32 where "MIN_BLOCK_SIZE \<equiv> 16"

lemmas heap_consts = HEAP_VIRT_START_def BLOCK_FLAG_FREE_def
  BLOCK_FLAG_PREV_FREE_def

definition hstore :: "u32 \<Rightarrow> u32 \<Rightarrow> 'a heap_state_scheme \<Rightarrow> 'a heap_state_scheme" where
  "hstore a v s = s\<lparr>hmem := (hmem s)(a := v)\<rparr>"

section \<open>Blocks\<close>

definition block_size :: "u32 \<Rightarrow> 'a heap_state_scheme \<Rightarrow> u32" where
  "block_size b s = hmem s b AND BLOCK_SIZE_MASK"

definition block_is_free :: "u32 \<Rightarrow> 'a heap_state_scheme \<Rightarrow> bool" where
  "block_is_free b s \<longleftrightarrow> hmem s b AND BLOCK_FLAG_FREE \<noteq> 0"

definition block_payload :: "u32 \<Rightarrow> u32" where
  "block_payload b = b + 4"

definition block_after :: "u32 \<Rightarrow> 'a heap_state_scheme \<Rightarrow> u32" where
  "block_after b s = b + block_size b s"

definition block_footer :: "u32 \<Rightarrow> 'a heap_state_scheme \<Rightarrow> u32" where
  "block_footer b s = b + block_size b s - 4"

definition block_in_heap :: "u32 \<Rightarrow> 'a heap_state_scheme \<Rightarrow> bool" where
  "block_in_heap b s \<longleftrightarrow> b \<ge> HEAP_VIRT_START \<and> b + 4 \<le> heap_end s"

text \<open>The \<open>next\<close> field of a free block.\<close>

definition fb_next :: "u32 \<Rightarrow> 'a heap_state_scheme \<Rightarrow> u32" where
  "fb_next b s = hmem s (b + 4)"

definition set_next :: "u32 \<Rightarrow> u32 \<Rightarrow> 'a heap_state_scheme \<Rightarrow> 'a heap_state_scheme" where
  "set_next b v = hstore (b + 4) v"

section \<open>The free list\<close>

text \<open>The walk of \<open>insert_free\<close>: the values of \<open>prev\<close> and \<open>curr\<close> at its end.\<close>

partial_function (option) insert_walk :: "(u32 \<Rightarrow> u32) \<Rightarrow> u32 \<Rightarrow> u32 \<Rightarrow> u32 \<Rightarrow> (u32 \<times> u32) option" where
  "insert_walk nxt block prev cur =
     (if cur \<noteq> 0 \<and> cur < block then insert_walk nxt block cur (nxt cur) else Some (prev, cur))"

declare insert_walk.simps [code]

definition insert_free :: "u32 \<Rightarrow> 'a heap_state_scheme \<Rightarrow> 'a heap_state_scheme option" where
  "insert_free block s = do {
     (prev, cur) \<leftarrow> insert_walk (\<lambda>b. fb_next b s) block 0 (free_list s);
     let s = set_next block cur s;
     Some (if prev \<noteq> 0 then set_next prev block s else s\<lparr>free_list := block\<rparr>)
   }"

text \<open>The walk of \<open>remove_free\<close>: \<open>Some prev\<close> when the block is met, \<^const>\<open>None\<close> at the end of the list.\<close>

partial_function (option) remove_walk :: "(u32 \<Rightarrow> u32) \<Rightarrow> u32 \<Rightarrow> u32 \<Rightarrow> u32 \<Rightarrow> u32 option option" where
  "remove_walk nxt block prev cur =
     (if cur = 0 then Some None
      else if cur = block then Some (Some prev)
      else remove_walk nxt block cur (nxt cur))"

declare remove_walk.simps [code]

definition remove_free :: "u32 \<Rightarrow> 'a heap_state_scheme \<Rightarrow> 'a heap_state_scheme option" where
  "remove_free block s = do {
     r \<leftarrow> remove_walk (\<lambda>b. fb_next b s) block 0 (free_list s);
     Some (case r of None \<Rightarrow> s
       | Some prev \<Rightarrow> if prev \<noteq> 0 then set_next prev (fb_next block s) s
                     else s\<lparr>free_list := fb_next block s\<rparr>)
   }"

text \<open>The search loop of \<open>kmalloc\<close>; 0 when no block is large enough.\<close>

partial_function (option) find_fit :: "(u32 \<Rightarrow> u32) \<Rightarrow> (u32 \<Rightarrow> u32) \<Rightarrow> u32 \<Rightarrow> u32 \<Rightarrow> u32 option" where
  "find_fit nxt sz tot fb =
     (if fb = 0 then Some 0 else if sz fb \<ge> tot then Some fb else find_fit nxt sz tot (nxt fb))"

declare find_fit.simps [code]

definition find_block :: "u32 \<Rightarrow> 'a heap_state_scheme \<Rightarrow> u32 option" where
  "find_block tot s = find_fit (\<lambda>b. fb_next b s) (\<lambda>b. block_size b s) tot (free_list s)"

section \<open>Growth\<close>

definition expand_heap :: "u32 \<Rightarrow> 'a heap_state_scheme \<Rightarrow> (int \<times> 'a heap_state_scheme) option" where
  "expand_heap vaddr s = do {
     (phys, s) \<leftarrow> alloc_page_frame s;
     if phys = 0 then Some (-1, s)
     else do { s \<leftarrow> map_page vaddr phys (PTE_PRESENT OR PTE_RW) s; Some (0, s) }
   }"

definition heap_init :: "'a heap_state_scheme \<Rightarrow> 'a heap_state_scheme option" where
  "heap_init s = do {
     s \<leftarrow> fold_opt (\<lambda>i s. map_option snd (expand_heap (heap_brk s + of_nat (i * PAGE_SIZE)) s))
            [0..<HEAP_INIT_PAGES] s;
     let s = s\<lparr>free_list := HEAP_VIRT_START\<rparr>;
     let s = hstore (free_list s) (of_nat (HEAP_INIT_PAGES * PAGE_SIZE) OR BLOCK_FLAG_FREE) s;
     let s = set_next (free_list s) 0 s;
     let s = hstore (block_footer (free_list s) s) (of_nat (HEAP_INIT_PAGES * PAGE_SIZE)) s;
     let s = s\<lparr>heap_brk := heap_brk s + of_nat (HEAP_INIT_PAGES * PAGE_SIZE)\<rparr>;
     Some (s\<lparr>heap_end := heap_brk s\<rparr>)
   }"

text \<open>The page loop of \<open>grow_heap\<close>; it stops with -1 at the first page that cannot be had.\<close>

fun grow_pages :: "nat list \<Rightarrow> 'a heap_state_scheme \<Rightarrow> (int \<times> 'a heap_state_scheme) option" where
  "grow_pages [] s = Some (0, s)"
| "grow_pages (i # is) s = do {
     (r, s) \<leftarrow> expand_heap (heap_brk s + of_nat (i * PAGE_SIZE)) s;
     if r \<noteq> 0 then Some (-1, s) else grow_pages is s
   }"

text \<open>The second half of \<open>grow_heap\<close>: the new bytes extend a free last block or become a block of their own.\<close>

definition grow_link :: "u32 \<Rightarrow> 'a heap_state_scheme \<Rightarrow> 'a heap_state_scheme option" where
  "grow_link bytes s =
     (let prev_size = hmem s (heap_brk s - 4); prev = heap_brk s - prev_size in
      if heap_brk s > HEAP_VIRT_START \<and> block_in_heap prev s \<and> prev + prev_size = heap_brk s \<and> block_is_free prev s
      then do {
        s \<leftarrow> remove_free prev s;
        let s = hstore prev ((prev_size + bytes) OR BLOCK_FLAG_FREE OR (hmem s prev AND BLOCK_FLAG_PREV_FREE)) s;
        let s = s\<lparr>heap_brk := heap_brk s + bytes\<rparr>;
        let s = s\<lparr>heap_end := heap_brk s\<rparr>;
        let s = hstore (block_footer prev s) (block_size prev s) s;
        insert_free prev (set_next prev 0 s)
      }
      else do {
        let newblock = heap_brk s;
        let s = hstore newblock (bytes OR BLOCK_FLAG_FREE) s;
        let s = hstore (block_footer newblock s) bytes s;
        let s = set_next newblock 0 s;
        let s = s\<lparr>heap_brk := heap_brk s + bytes\<rparr>;
        insert_free newblock (s\<lparr>heap_end := heap_brk s\<rparr>)
      })"

definition grow_heap :: "u32 \<Rightarrow> 'a heap_state_scheme \<Rightarrow> (int \<times> 'a heap_state_scheme) option" where
  "grow_heap need_bytes s =
     (if need_bytes = 0 then Some (-1, s)
      else if heap_brk s \<ge> 0xFE000000 then Some (-1, s)
      else do {
        let pages = (need_bytes + of_nat PAGE_SIZE - 1) div of_nat PAGE_SIZE;
        (r, s) \<leftarrow> grow_pages [0..<unat pages] s;
        if r \<noteq> 0 then Some (-1, s)
        else do { s \<leftarrow> grow_link (pages * of_nat PAGE_SIZE) s; Some (0, s) }
      })"

section \<open>Allocation\<close>

definition round_size :: "u32 \<Rightarrow> u32" where
  "round_size sz = (sz + 3) AND NOT 3"

definition total_size :: "u32 \<Rightarrow> u32" where
  "total_size sz = (let t = round_size sz + 4 + 4 in if t < MIN_BLOCK_SIZE then MIN_BLOCK_SIZE else t)"

text \<open>\<open>kmalloc\<close> once a free block of sufficient size is found.\<close>

definition take_block :: "u32 \<Rightarrow> u32 \<Rightarrow> 'a heap_state_scheme \<Rightarrow> (u32 \<times> 'a heap_state_scheme) option" where
  "take_block block tot s = do {
     s \<leftarrow> remove_free block s;
     let remaining = block_size block s - tot;
     s \<leftarrow> (if remaining \<ge> MIN_BLOCK_SIZE then do {
             let split = block + tot;
             let s = hstore split (remaining OR BLOCK_FLAG_FREE) s;
             let after_split = block_after split s;
             let s = (if block_in_heap after_split s
                      then hstore after_split (hmem s after_split OR BLOCK_FLAG_PREV_FREE) s else s);
             let s = hstore (block_footer split s) remaining s;
             s \<leftarrow> insert_free split s;
             Some (hstore block (tot OR (hmem s block AND BLOCK_FLAG_PREV_FREE)) s)
           }
           else Some s);
     let s = hstore block (hmem s block AND NOT BLOCK_FLAG_FREE) s;
     let s = hstore (block_footer block s) (block_size block s) s;
     let nxt = block_after block s;
     let s = (if block_in_heap nxt s then hstore nxt (hmem s nxt AND NOT BLOCK_FLAG_PREV_FREE) s else s);
     Some (block_payload block, s)
   }"

definition kmalloc :: "u32 \<Rightarrow> 'a heap_state_scheme \<Rightarrow> (u32 \<times> 'a heap_state_scheme) option" where
  "kmalloc sz s =
     (if sz = 0 then Some (0, s)
      else do {
        let tot = total_size sz;
        fb \<leftarrow> find_block tot s;
        if fb \<noteq> 0 then take_block fb tot s
        else do {
          (r, s) \<leftarrow> grow_heap tot s;
          if r \<noteq> 0 then Some (0, s)
          else do {
            fb \<leftarrow> find_block tot s;
            if fb = 0 then Some (0, s) else take_block fb tot s
          }
        }
      })"

text \<open>The first step of \<open>kfree\<close>, the merge with the block before.\<close>

definition kfree_prev :: "u32 \<Rightarrow> 'a heap_state_scheme \<Rightarrow> (u32 \<times> 'a heap_state_scheme) option" where
  "kfree_prev block s =
     (let prev_size = hmem s (block - 4); prev = block - prev_size in
      if hmem s block AND BLOCK_FLAG_PREV_FREE \<noteq> 0 \<and> block_in_heap prev s \<and> prev + prev_size = block
      then do {
        s \<leftarrow> remove_free prev s;
        Some (prev, hstore prev ((prev_size + block_size block s) OR BLOCK_FLAG_FREE OR
                                 (hmem s prev AND BLOCK_FLAG_PREV_FREE)) s)
      }
      else Some (block, s))"

text \<open>The merge with the block behind.\<close>

definition kfree_next :: "u32 \<Rightarrow> 'a heap_state_scheme \<Rightarrow> 'a heap_state_scheme option" where
  "kfree_next block s =
     (let nxt = block_after block s in
      if block_in_heap nxt s \<and> block_is_free nxt s
      then do {
        s \<leftarrow> remove_free nxt s;
        Some (hstore block ((block_size block s + block_size nxt s) OR BLOCK_FLAG_FREE OR
                            (hmem s block AND BLOCK_FLAG_PREV_FREE)) s)
      }
      else Some s)"

definition kfree :: "u32 \<Rightarrow> 'a heap_state_scheme \<Rightarrow> 'a heap_state_scheme option" where
  "kfree ptr s =
     (if ptr = 0 then Some s
      else let block = ptr - 4 in
      if \<not> block_in_heap block s \<or> block_size block s = 0 then Some s
      else do {
        (block, s) \<leftarrow> kfree_prev block s;
        s \<leftarrow> kfree_next block s;
        let nxt = block_after block s;
        let s = (if block_in_heap nxt s then hstore nxt (hmem s nxt OR BLOCK_FLAG_PREV_FREE) s else s);
        let s = hstore block (hmem s block OR BLOCK_FLAG_FREE) s;
        let s = hstore (block_footer block s) (block_size block s) s;
        insert_free block (set_next block 0 s)
      })"

section \<open>Statistics and the self test\<close>

definition nonnull :: "u32 \<Rightarrow> u32 option" where
  "nonnull p = (if p = 0 then None else Some p)"

definition heap_free_block_count :: "'a heap_state_scheme \<Rightarrow> u32 option" where
  "heap_free_block_count s = count_chain (\<lambda>b. nonnull (fb_next b s)) (nonnull (free_list s)) 0"

partial_function (option) largest_walk :: "(u32 \<Rightarrow> u32) \<Rightarrow> (u32 \<Rightarrow> u32) \<Rightarrow> u32 \<Rightarrow> u32 \<Rightarrow> u32 option" where
  "largest_walk nxt sz fb mx =
     (if fb = 0 then Some mx else largest_walk nxt sz (nxt fb) (if sz fb > mx then sz fb else mx))"

declare largest_walk.simps [code]

definition heap_largest_free :: "'a heap_state_scheme \<Rightarrow> u32 option" where
  "heap_largest_free s = largest_walk (\<lambda>b. fb_next b s) (\<lambda>b. block_size b s) (free_list s) 0"

text \<open>\<open>heap_selftest\<close>: the number of free blocks it finds at the end, and the state it leaves.\<close>

definition heap_selftest :: "'a heap_state_scheme \<Rightarrow> (u32 \<times> 'a heap_state_scheme) option" where
  "heap_selftest s = do {
     (a, s) \<leftarrow> kmalloc 64 s;
     (b, s) \<leftarrow> kmalloc 256 s;
     (c, s) \<leftarrow> kmalloc 64 s;
     (d, s) \<leftarrow> kmalloc 512 s;
     (e, s) \<leftarrow> kmalloc 128 s;
     s \<leftarrow> kfree b s;
     s \<leftarrow> kfree d s;
     before \<leftarrow> heap_free_block_count s;
     (big, s) \<leftarrow> kmalloc 600 s;
     s \<leftarrow> kfree a s;
     s \<leftarrow> kfree c s;
     s \<leftarrow> kfree e s;
     s \<leftarrow> kfree big s;
     after \<leftarrow> heap_free_block_count s;
     largest \<leftarrow> heap_largest_free s;
     n \<leftarrow> heap_free_block_count s;
     Some (n, s)
   }"

end
