(* ===== verification/Vm.thy ===== *)
theory Vm
  imports Heap
begin

text \<open>
  VM objects, maps and the copy-on-write fault of \<open>vm/vm.c\<close>. Objects and maps live at the addresses
  that \<open>kmalloc\<close> returned; their fields are stored by address. The pages of an object hang on its
  \<open>memq\<close> through the \<open>listq\<close> entries of the page array. Indexing the page array past its end is
  \<^const>\<open>None\<close>.
\<close>

section \<open>State\<close>

record vm_object =
  o_shadow :: u32
  o_ref_count :: u32
  o_size :: u32
  o_flags :: u32

record vm_map =
  m_user_object :: u32
  m_page_directory :: u32

record vm_state = heap_state +
  vobj :: "u32 \<Rightarrow> vm_object"
  memq :: "u32 tailq"
  vmap :: "u32 \<Rightarrow> vm_map"

abbreviation OBJ_ANON :: u32 where "OBJ_ANON \<equiv> 1"
abbreviation OBJ_COW :: u32 where "OBJ_COW \<equiv> 2"
abbreviation OBJ_DEAD :: u32 where "OBJ_DEAD \<equiv> 4"
definition sizeof_vm_object :: u32 where "sizeof_vm_object = 24"
definition sizeof_vm_map :: u32 where "sizeof_vm_map = 8"

definition upd_obj :: "u32 \<Rightarrow> (vm_object \<Rightarrow> vm_object) \<Rightarrow> 'a vm_state_scheme \<Rightarrow> 'a vm_state_scheme" where
  "upd_obj o' f s = s\<lparr>vobj := (vobj s)(o' := f (vobj s o'))\<rparr>"

section \<open>Objects and maps\<close>

definition vm_object_alloc :: "u32 \<Rightarrow> 'a vm_state_scheme \<Rightarrow> (u32 \<times> 'a vm_state_scheme) option" where
  "vm_object_alloc pages s = do {
     (ob, s) \<leftarrow> kmalloc sizeof_vm_object s;
     if ob = 0 then Some (0, s)
     else (let s = upd_obj ob (\<lambda>_. \<lparr>o_shadow = 0, o_ref_count = 1, o_size = pages, o_flags = OBJ_ANON\<rparr>) s
           in Some (ob, s\<lparr>memq := TAILQ_INIT ob (memq s)\<rparr>))
   }"

text \<open>The double loop over the user half of the address space: page tables 1 to 767 that are present.\<close>

definition for_user_ptes ::
  "(u32 \<Rightarrow> u32 \<Rightarrow> u32 \<Rightarrow> 's \<Rightarrow> 's option) \<Rightarrow> ('s \<Rightarrow> 'a paging_state_scheme) \<Rightarrow> 's \<Rightarrow> 's option" where
  "for_user_ptes body mem = fold_opt (\<lambda>i s. do {
     e \<leftarrow> vread32 (mem s) (pd_addr (of_nat i));
     if \<not> present e then Some s
     else fold_opt (\<lambda>j s. do {
            p \<leftarrow> vread32 (mem s) (pt_addr (of_nat i) (of_nat j));
            if \<not> present p then Some s else body (of_nat i) (of_nat j) p s
          }) entries s
   }) [1..<768]"

definition vm_count_user_pages :: "'a vm_state_scheme \<Rightarrow> u32 option" where
  "vm_count_user_pages s = for_user_ptes (\<lambda>i j p n. Some (n + 1)) (\<lambda>_. s) 0"

definition vm_scan_user_pages :: "u32 \<Rightarrow> 'a vm_state_scheme \<Rightarrow> 'a vm_state_scheme option" where
  "vm_scan_user_pages ob = for_user_ptes (\<lambda>i j p s.
     let pg = frame_of p in
     if pg \<ge> NUM_PAGES then None
     else Some (s\<lparr>pg_object := (pg_object s)(pg := ob), pg_ref_count := (pg_ref_count s)(pg := 1),
                  pg_flags := (pg_flags s)(pg := PG_BUSY),
                  memq := TAILQ_INSERT_TAIL ob pg (memq s)\<rparr>)) (\<lambda>s. s)"

definition vm_map_create :: "'a vm_state_scheme \<Rightarrow> (u32 \<times> 'a vm_state_scheme) option" where
  "vm_map_create s = do {
     n \<leftarrow> vm_count_user_pages s;
     (mp, s) \<leftarrow> kmalloc sizeof_vm_map s;
     if mp = 0 then Some (0, s)
     else do {
       (ob, s) \<leftarrow> vm_object_alloc n (s\<lparr>vmap := (vmap s)(mp := (vmap s mp)\<lparr>m_page_directory := cr3 s\<rparr>)\<rparr>);
       let s = s\<lparr>vmap := (vmap s)(mp := (vmap s mp)\<lparr>m_user_object := ob\<rparr>)\<rparr>;
       if ob = 0 then do { s \<leftarrow> kfree mp s; Some (0, s) }
       else do { s \<leftarrow> vm_scan_user_pages ob s; Some (mp, s) }
     }
   }"

definition vm_object_reference :: "u32 \<Rightarrow> 'a vm_state_scheme \<Rightarrow> 'a vm_state_scheme" where
  "vm_object_reference ob s =
     (if ob \<noteq> 0 then upd_obj ob (\<lambda>x. x\<lparr>o_ref_count := o_ref_count x + 1\<rparr>) s else s)"

definition vm_object_shadow :: "u32 \<Rightarrow> 'a vm_state_scheme \<Rightarrow> (u32 \<times> 'a vm_state_scheme) option" where
  "vm_object_shadow backing s = do {
     (ob, s) \<leftarrow> vm_object_alloc 0 s;
     if ob = 0 then Some (0, s)
     else (let s = upd_obj ob (\<lambda>x. x\<lparr>o_shadow := backing, o_flags := OBJ_COW\<rparr>) s
           in Some (ob, if backing \<noteq> 0
                        then upd_obj backing (\<lambda>x. x\<lparr>o_ref_count := o_ref_count x + 1\<rparr>) s else s))
   }"

text \<open>\<open>while (!TAILQ_EMPTY(&obj->memq)) { remove the first page and free its frame }\<close>\<close>

partial_function (option) drain_memq :: "u32 \<Rightarrow> 'a vm_state_scheme \<Rightarrow> 'a vm_state_scheme option" where
  "drain_memq ob s = (case TAILQ_FIRST ob (memq s) of None \<Rightarrow> Some s
     | Some pg \<Rightarrow> drain_memq ob (free_page_frame (pg_phys_addr s pg)
                    (s\<lparr>memq := TAILQ_REMOVE ob pg (memq s)\<rparr>)))"

declare drain_memq.simps [code]

partial_function (option) dealloc_chain :: "u32 \<Rightarrow> 'a vm_state_scheme \<Rightarrow> 'a vm_state_scheme option" where
  "dealloc_chain ob s =
     (if o_ref_count (vobj s ob) = 0 then Some s
      else if o_ref_count (vobj s ob) - 1 > 0
      then Some (upd_obj ob (\<lambda>x. x\<lparr>o_ref_count := o_ref_count x - 1\<rparr>) s)
      else Option.bind (drain_memq ob (upd_obj ob (\<lambda>x. x\<lparr>o_ref_count := o_ref_count x - 1,
                                                      o_flags := o_flags x OR OBJ_DEAD\<rparr>) s)) (\<lambda>s.
           Option.bind (kfree ob (upd_obj ob (\<lambda>x. x\<lparr>o_shadow := 0\<rparr>) s)) (\<lambda>s'.
             if o_shadow (vobj s ob) = 0 then Some s' else dealloc_chain (o_shadow (vobj s ob)) s')))"

declare dealloc_chain.simps [code]

definition vm_object_deallocate :: "u32 \<Rightarrow> 'a vm_state_scheme \<Rightarrow> 'a vm_state_scheme option" where
  "vm_object_deallocate ob s = (if ob = 0 then Some s else dealloc_chain ob s)"

section \<open>Copy on write\<close>

definition vm_copy_phys :: "u32 \<Rightarrow> u32 \<Rightarrow> 'a paging_state_scheme \<Rightarrow> 'a paging_state_scheme option" where
  "vm_copy_phys old_phys new_phys s = do {
     s \<leftarrow> map_page 0xE0000000 old_phys (PTE_PRESENT OR PTE_RW) s;
     s \<leftarrow> map_page 0xE0001000 new_phys (PTE_PRESENT OR PTE_RW) s;
     s \<leftarrow> fold_opt (\<lambda>i s. do {
            w \<leftarrow> vread32 s (0xE0000000 + 4 * of_nat i);
            vwrite32 (0xE0001000 + 4 * of_nat i) w s
          }) entries s;
     s \<leftarrow> unmap_page 0xE0000000 s;
     unmap_page 0xE0001000 s
   }"

definition vm_fault_cow :: "u32 \<Rightarrow> u32 \<Rightarrow> 'a paging_state_scheme \<Rightarrow> (int \<times> 'a paging_state_scheme) option" where
  "vm_fault_cow mp vaddr s =
     (if mp = 0 then Some (-1, s)
      else do {
        let pd_idx = drop_bit 22 vaddr;
        let pt_idx = drop_bit 12 vaddr AND 0x3FF;
        e \<leftarrow> vread32 s (pd_addr pd_idx);
        if \<not> present e then Some (-1, s)
        else do {
          pte \<leftarrow> vread32 s (pt_addr pd_idx pt_idx);
          if \<not> present pte then Some (-1, s)
          else if pte AND PTE_USER = 0 then Some (-1, s)
          else if pte AND PTE_RW \<noteq> 0 then Some (0, s)
          else if frame_of pte \<ge> NUM_PAGES then None
          else if pg_ref_count s (frame_of pte) = 1 then do {
            s \<leftarrow> vwrite32 (pt_addr pd_idx pt_idx) (pte OR PTE_RW) s;
            Some (0, s)
          }
          else do {
            (new_phys, s) \<leftarrow> alloc_page_frame s;
            if new_phys = 0 then Some (-1, s)
            else do {
              s \<leftarrow> vm_copy_phys (pte AND 0xFFFFF000) new_phys s;
              let s = free_page_frame (pte AND 0xFFFFF000) s;
              s \<leftarrow> vwrite32 (pt_addr pd_idx pt_idx) (new_phys OR (pte AND 0xFFF) OR PTE_RW) s;
              Some (0, s)
            }
          }
        }
      })"

definition vm_fault :: "u32 \<Rightarrow> u32 \<Rightarrow> u32 \<Rightarrow> 'a paging_state_scheme \<Rightarrow> (int \<times> 'a paging_state_scheme) option" where
  "vm_fault mp vaddr error_code s =
     (if mp \<noteq> 0 \<and> error_code AND 4 \<noteq> 0 \<and> error_code AND 1 \<noteq> 0 \<and> error_code AND 2 \<noteq> 0
      then vm_fault_cow mp vaddr s else Some (-1, s))"

definition vm_protect_readonly :: "u32 \<Rightarrow> 'a paging_state_scheme \<Rightarrow> 'a paging_state_scheme option" where
  "vm_protect_readonly mp = for_user_ptes (\<lambda>i j p s.
     if p AND PTE_USER = 0 then Some s
     else do {
       s \<leftarrow> vwrite32 (pt_addr i j) (p AND NOT PTE_RW) s;
       if frame_of p \<ge> NUM_PAGES then None
       else Some (s\<lparr>pg_ref_count := (pg_ref_count s)(frame_of p := 1)\<rparr>)
     }) (\<lambda>s. s)"

end
