(* ===== verification/Frames.thy ===== *)
theory Frames
  imports Vm
begin

text \<open>
  What the operations on page frames, page tables and the heap leave unchanged: frame lemmas for the layers
  above. The allocator may change the tier of the current task when memory is short; no other field of a
  task and no state of an upper layer is touched.
\<close>

section \<open>Paging\<close>

definition sf_frame :: "'a sched_state_scheme \<Rightarrow> 'a sched_state_scheme \<Rightarrow> bool" where
  "sf_frame s s' \<longleftrightarrow>
     (\<forall>t. tasks s' t = (tasks s t)\<lparr>t_tier := t_tier (tasks s' t)\<rparr> \<and>
          (t_tier (tasks s' t) = t_tier (tasks s t) \<or> current_task s = Some t)) \<and>
     current_task s' = current_task s \<and> rq_head s' = rq_head s \<and> rq_tail s' = rq_tail s \<and>
     pid_counter s' = pid_counter s \<and> kernel_pd s' = kernel_pd s"

definition pg_frame :: "'a paging_state_scheme \<Rightarrow> 'a paging_state_scheme \<Rightarrow> bool" where
  "pg_frame s s' \<longleftrightarrow> sf_frame s s' \<and> paging_state.more s' = paging_state.more s"

lemma tier_upd_same [simp]: "x\<lparr>t_tier := t_tier x\<rparr> = x" for x :: task
  by simp

lemma sf_frame_refl [simp]: "sf_frame s s"
  by (simp add: sf_frame_def)

lemma sf_frame_same:
  "tasks s' = tasks s \<Longrightarrow> current_task s' = current_task s \<Longrightarrow> rq_head s' = rq_head s \<Longrightarrow> rq_tail s' = rq_tail s \<Longrightarrow>
   pid_counter s' = pid_counter s \<Longrightarrow> kernel_pd s' = kernel_pd s \<Longrightarrow> sf_frame s s'"
  by (simp add: sf_frame_def)

lemma sf_frame_trans:
  assumes a: "sf_frame s s1" and b: "sf_frame s1 s2"
  shows "sf_frame s s2"
proof -
  have "tasks s2 t = (tasks s t)\<lparr>t_tier := t_tier (tasks s2 t)\<rparr>" for t
  proof -
    have x: "tasks s1 t = (tasks s t)\<lparr>t_tier := t_tier (tasks s1 t)\<rparr>" using a unfolding sf_frame_def by blast
    have "tasks s2 t = (tasks s1 t)\<lparr>t_tier := t_tier (tasks s2 t)\<rparr>" using b unfolding sf_frame_def by blast
    also have "\<dots> = (tasks s t)\<lparr>t_tier := t_tier (tasks s2 t)\<rparr>" by (subst x) simp
    finally show ?thesis .
  qed
  moreover have "t_tier (tasks s2 t) = t_tier (tasks s t) \<or> current_task s = Some t" for t
    using a b unfolding sf_frame_def by metis
  ultimately show ?thesis using a b by (simp add: sf_frame_def)
qed

lemma sf_frame_task:
  assumes "sf_frame s s'"
  shows "t_stack (tasks s' t) = t_stack (tasks s t)" "t_caps (tasks s' t) = t_caps (tasks s t)"
    "t_mem_limit (tasks s' t) = t_mem_limit (tasks s t)" "t_cpu_quota (tasks s' t) = t_cpu_quota (tasks s t)"
    "t_root_path (tasks s' t) = t_root_path (tasks s t)" "t_parent (tasks s' t) = t_parent (tasks s t)"
    "t_in_use (tasks s' t) = t_in_use (tasks s t)" "t_pid (tasks s' t) = t_pid (tasks s t)"
    "t_state (tasks s' t) = t_state (tasks s t)" "t_cr3 (tasks s' t) = t_cr3 (tasks s t)"
    "t_next (tasks s' t) = t_next (tasks s t)" "t_cur_queue (tasks s' t) = t_cur_queue (tasks s t)"
    "t_tier_override (tasks s' t) = t_tier_override (tasks s t)" "t_fd_table (tasks s' t) = t_fd_table (tasks s t)"
    "t_user_entry (tasks s' t) = t_user_entry (tasks s t)" "t_user_stack (tasks s' t) = t_user_stack (tasks s t)"
proof -
  obtain x where "tasks s' t = (tasks s t)\<lparr>t_tier := x\<rparr>" using assms unfolding sf_frame_def by blast
  then show "t_stack (tasks s' t) = t_stack (tasks s t)" "t_caps (tasks s' t) = t_caps (tasks s t)"
    "t_mem_limit (tasks s' t) = t_mem_limit (tasks s t)" "t_cpu_quota (tasks s' t) = t_cpu_quota (tasks s t)"
    "t_root_path (tasks s' t) = t_root_path (tasks s t)" "t_parent (tasks s' t) = t_parent (tasks s t)"
    "t_in_use (tasks s' t) = t_in_use (tasks s t)" "t_pid (tasks s' t) = t_pid (tasks s t)"
    "t_state (tasks s' t) = t_state (tasks s t)" "t_cr3 (tasks s' t) = t_cr3 (tasks s t)"
    "t_next (tasks s' t) = t_next (tasks s t)" "t_cur_queue (tasks s' t) = t_cur_queue (tasks s t)"
    "t_tier_override (tasks s' t) = t_tier_override (tasks s t)" "t_fd_table (tasks s' t) = t_fd_table (tasks s t)"
    "t_user_entry (tasks s' t) = t_user_entry (tasks s t)" "t_user_stack (tasks s' t) = t_user_stack (tasks s t)"
    by simp_all
qed

lemma sf_frame_other:
  assumes "sf_frame s s'" "current_task s \<noteq> Some t"
  shows "tasks s' t = tasks s t"
proof -
  have "tasks s' t = (tasks s t)\<lparr>t_tier := t_tier (tasks s' t)\<rparr>" "t_tier (tasks s' t) = t_tier (tasks s t)"
    using assms unfolding sf_frame_def by blast+
  then show ?thesis by simp
qed

lemma sf_frame_current: "sf_frame s s' \<Longrightarrow> current_task s' = current_task s"
  by (simp add: sf_frame_def)

lemma pg_frame_refl [simp]: "pg_frame s s"
  by (simp add: pg_frame_def)

lemma pg_frame_trans: "pg_frame s s1 \<Longrightarrow> pg_frame s1 s2 \<Longrightarrow> pg_frame s s2"
  by (auto simp: pg_frame_def intro: sf_frame_trans)

lemma pg_frame_same:
  "tasks s' = tasks s \<Longrightarrow> current_task s' = current_task s \<Longrightarrow> rq_head s' = rq_head s \<Longrightarrow> rq_tail s' = rq_tail s \<Longrightarrow>
   pid_counter s' = pid_counter s \<Longrightarrow> kernel_pd s' = kernel_pd s \<Longrightarrow> paging_state.more s' = paging_state.more s \<Longrightarrow>
   pg_frame s s'"
  by (simp add: pg_frame_def sf_frame_same)

lemma pg_frame_sf: "pg_frame s s' \<Longrightarrow> sf_frame s s'"
  by (simp add: pg_frame_def)

lemma fold_opt_pg_frame:
  assumes "\<And>x s s'. f x s = Some s' \<Longrightarrow> pg_frame s s'"
  shows "fold_opt f xs s = Some s' \<Longrightarrow> pg_frame s s'"
  by (induction xs arbitrary: s) (auto simp: bind_eq_Some_conv dest: assms intro: pg_frame_trans)

lemma load_cr3_frame [simp]: "pg_frame s (load_cr3 pd s)"
  by (simp add: pg_frame_same load_cr3_def)

lemma store_word_frame [simp]: "pg_frame s (store_word f w v s)"
  by (simp add: pg_frame_same store_word_def)

lemma vwrite32_frame: "vwrite32 a v s = Some s' \<Longrightarrow> pg_frame s s'"
  by (auto simp: vwrite32_def)

lemma vwrite8_frame: "vwrite8 a v s = Some s' \<Longrightarrow> pg_frame s s'"
  by (auto simp: vwrite8_def bind_eq_Some_conv intro: vwrite32_frame)

lemma alloc_phys_page_frame: "alloc_phys_page s = (p, s') \<Longrightarrow> pg_frame s s'"
  by (auto simp: alloc_phys_page_def split: option.splits intro: pg_frame_same)

lemma free_phys_page_frame [simp]: "pg_frame s (free_phys_page p s)"
  by (auto simp: free_phys_page_def Let_def intro: pg_frame_same)

lemma set_ref1_frame [simp]: "pg_frame s (set_ref1 p s)"
  by (auto simp: set_ref1_def intro: pg_frame_same)

lemma free_page_frame_frame [simp]: "pg_frame s (free_page_frame p s)"
proof -
  have "pg_frame s (s\<lparr>pg_ref_count := r\<rparr>)" for r by (simp add: pg_frame_same)
  then show ?thesis
    by (auto simp: free_page_frame_def Let_def intro: pg_frame_trans [OF _ free_phys_page_frame])
qed

lemma vm_handle_pressure_frame: "vm_handle_pressure s = Some s' \<Longrightarrow> pg_frame s s'"
  by (auto simp: vm_handle_pressure_def get_current_task_def bind_eq_Some_conv pg_frame_def sf_frame_def upd_task_def
      split: option.splits if_splits)

lemma vm_release_pressure_frame: "vm_release_pressure s = Some s' \<Longrightarrow> pg_frame s s'"
  by (auto simp: vm_release_pressure_def get_current_task_def bind_eq_Some_conv pg_frame_def sf_frame_def upd_task_def
      split: option.splits if_splits)

lemma alloc_page_frame_frame:
  assumes "alloc_page_frame s = Some (p, s')"
  shows "pg_frame s s'"
proof -
  obtain p1 s1 where 1: "alloc_phys_page s = (p1, s1)" by fastforce
  note f1 = alloc_phys_page_frame [OF 1]
  show ?thesis
  proof (cases "p1 = 0")
    case False
    then show ?thesis using assms 1 by (auto simp: alloc_page_frame_def intro: pg_frame_trans [OF f1])
  next
    case True
    then obtain s2 where 2: "vm_handle_pressure s1 = Some s2"
      using assms 1 by (auto simp: alloc_page_frame_def bind_eq_Some_conv)
    obtain p3 s3 where 3: "alloc_phys_page s2 = (p3, s3)" by fastforce
    note f3 = pg_frame_trans [OF pg_frame_trans [OF f1 vm_handle_pressure_frame [OF 2]] alloc_phys_page_frame [OF 3]]
    show ?thesis using assms True 1 2 3 by (auto simp: alloc_page_frame_def f3 split: if_splits intro: pg_frame_trans [OF f3])
  qed
qed

lemma map_page_frame: "map_page va pa fl s = Some s' \<Longrightarrow> pg_frame s s'"
  by (auto simp: map_page_def Let_def bind_eq_Some_conv split: prod.splits if_splits
      dest!: alloc_phys_page_frame vwrite32_frame fold_opt_pg_frame [where xs = entries, rotated] intro: pg_frame_trans)

lemma unmap_page_frame: "unmap_page va s = Some s' \<Longrightarrow> pg_frame s s'"
  by (auto simp: unmap_page_def Let_def bind_eq_Some_conv split: if_splits dest: vwrite32_frame)

lemma paging_create_task_pd_frame: "paging_create_task_pd s = Some (p, s') \<Longrightarrow> pg_frame s s'"
  by (auto simp: paging_create_task_pd_def Let_def bind_eq_Some_conv split: prod.splits if_splits
      dest!: alloc_page_frame_frame map_page_frame unmap_page_frame vwrite32_frame
        fold_opt_pg_frame [where xs = entries, rotated]) (meson pg_frame_trans)+

lemma vm_copy_phys_frame: "vm_copy_phys a b s = Some s' \<Longrightarrow> pg_frame s s'"
  by (auto simp: vm_copy_phys_def Let_def bind_eq_Some_conv split: prod.splits if_splits
      dest!: map_page_frame unmap_page_frame vwrite32_frame
        fold_opt_pg_frame [where xs = entries, rotated]) (meson pg_frame_trans)+

section \<open>The heap\<close>

definition hp_frame :: "'a heap_state_scheme \<Rightarrow> 'a heap_state_scheme \<Rightarrow> bool" where
  "hp_frame s s' \<longleftrightarrow> sf_frame s s' \<and> heap_state.more s' = heap_state.more s"

lemma hp_frame_refl [simp]: "hp_frame s s"
  by (simp add: hp_frame_def)

lemma hp_frame_trans: "hp_frame s s1 \<Longrightarrow> hp_frame s1 s2 \<Longrightarrow> hp_frame s s2"
  by (auto simp: hp_frame_def intro: sf_frame_trans)

lemma hp_frame_same:
  "tasks s' = tasks s \<Longrightarrow> current_task s' = current_task s \<Longrightarrow> rq_head s' = rq_head s \<Longrightarrow> rq_tail s' = rq_tail s \<Longrightarrow>
   pid_counter s' = pid_counter s \<Longrightarrow> kernel_pd s' = kernel_pd s \<Longrightarrow> heap_state.more s' = heap_state.more s \<Longrightarrow>
   hp_frame s s'"
  by (simp add: hp_frame_def sf_frame_same)

lemma hp_frame_sf: "hp_frame s s' \<Longrightarrow> sf_frame s s'"
  by (simp add: hp_frame_def)

lemma pg_frame_heap:
  fixes s s' :: "'a heap_state_scheme"
  assumes "pg_frame s s'"
  shows "hmem s' = hmem s" "free_list s' = free_list s" "heap_brk s' = heap_brk s" "heap_end s' = heap_end s"
    "heap_state.more s' = heap_state.more s"
proof -
  have "paging_state.more s' = paging_state.more s" using assms by (simp add: pg_frame_def)
  then show "hmem s' = hmem s" "free_list s' = free_list s" "heap_brk s' = heap_brk s" "heap_end s' = heap_end s"
    "heap_state.more s' = heap_state.more s"
    by (cases s; cases s'; simp)+
qed

lemma pg_frame_hp: "pg_frame s s' \<Longrightarrow> hp_frame s s'"
  by (simp add: hp_frame_def pg_frame_sf pg_frame_heap)

lemma hstore_frame [simp]: "hp_frame s (hstore a v s)" "hp_frame s (set_next a v s)"
  by (simp_all add: hp_frame_same hstore_def set_next_def)

lemma heap_fields_frame [simp]: "hp_frame s (s\<lparr>free_list := p\<rparr>)" "hp_frame s (s\<lparr>heap_brk := p\<rparr>)" "hp_frame s (s\<lparr>heap_end := p\<rparr>)"
  by (simp_all add: hp_frame_same)

lemma hstore_frame_iff [simp]:
  "hp_frame (hstore a v s) t = hp_frame s t" "hp_frame (set_next a v s) t = hp_frame s t"
  "hp_frame (s\<lparr>free_list := p\<rparr>) t = hp_frame s t" "hp_frame (s\<lparr>heap_brk := p\<rparr>) t = hp_frame s t"
  "hp_frame (s\<lparr>heap_end := p\<rparr>) t = hp_frame s t"
  "hp_frame s (hstore a v t) = hp_frame s t" "hp_frame s (set_next a v t) = hp_frame s t"
  "hp_frame s (t\<lparr>free_list := p\<rparr>) = hp_frame s t" "hp_frame s (t\<lparr>heap_brk := p\<rparr>) = hp_frame s t"
  "hp_frame s (t\<lparr>heap_end := p\<rparr>) = hp_frame s t"
  by (simp_all add: hp_frame_def sf_frame_def hstore_def set_next_def)

lemma insert_free_frame: "insert_free b s = Some s' \<Longrightarrow> hp_frame s s'"
  by (auto simp: insert_free_def bind_eq_Some_conv Let_def split: if_splits)

lemma remove_free_frame: "remove_free b s = Some s' \<Longrightarrow> hp_frame s s'"
  by (auto simp: remove_free_def bind_eq_Some_conv Let_def split: if_splits option.splits)

lemma expand_heap_frame: "expand_heap a s = Some (r, s') \<Longrightarrow> pg_frame s s'"
  by (auto simp: expand_heap_def bind_eq_Some_conv split: prod.splits if_splits
      dest!: alloc_page_frame_frame map_page_frame intro: pg_frame_trans)

lemma grow_pages_frame: "grow_pages is s = Some (r, s') \<Longrightarrow> pg_frame s s'"
  by (induction "is" arbitrary: s)
    (auto simp: bind_eq_Some_conv split: prod.splits if_splits dest!: expand_heap_frame intro: pg_frame_trans)

lemma grow_link_frame: "grow_link n s = Some s' \<Longrightarrow> hp_frame s s'"
  by (auto simp: grow_link_def bind_eq_Some_conv Let_def split: if_splits
      dest!: insert_free_frame remove_free_frame intro: hp_frame_trans)

lemma grow_heap_frame: "grow_heap n s = Some (r, s') \<Longrightarrow> hp_frame s s'"
  by (auto simp: grow_heap_def bind_eq_Some_conv Let_def split: prod.splits if_splits
      dest!: grow_pages_frame [THEN pg_frame_hp] grow_link_frame intro: hp_frame_trans)

lemma take_block_frame: "take_block b n s = Some (r, s') \<Longrightarrow> hp_frame s s'"
  by (auto simp: take_block_def bind_eq_Some_conv Let_def split: prod.splits if_splits
      dest!: insert_free_frame remove_free_frame
      intro: hp_frame_trans)

lemma kmalloc_frame: "kmalloc n s = Some (p, s') \<Longrightarrow> hp_frame s s'"
  by (auto simp: kmalloc_def bind_eq_Some_conv Let_def split: prod.splits if_splits
      dest!: grow_heap_frame take_block_frame intro: hp_frame_trans)

lemma kfree_prev_frame: "kfree_prev b s = Some (b', s') \<Longrightarrow> hp_frame s s'"
  by (auto simp: kfree_prev_def bind_eq_Some_conv Let_def split: if_splits dest!: remove_free_frame)

lemma kfree_next_frame: "kfree_next b s = Some s' \<Longrightarrow> hp_frame s s'"
  by (auto simp: kfree_next_def bind_eq_Some_conv Let_def split: if_splits dest!: remove_free_frame)

lemma kfree_frame: "kfree p s = Some s' \<Longrightarrow> hp_frame s s'"
  by (auto simp: kfree_def bind_eq_Some_conv Let_def split: prod.splits if_splits
      dest!: kfree_prev_frame kfree_next_frame insert_free_frame) (meson hp_frame_trans)+

end
