(* ===== verification/Kstring.thy ===== *)
theory Kstring
  imports Prelude "HOL-Library.Sublist"
begin

text \<open>
  The kernel's string library, \<open>rust/src/lib.rs\<close>: byte loops over raw pointers. Memory is a map from
  addresses to bytes, \<open>usize\<close> is a 32-bit word. The loops that only a zero byte ends are partial.
  The lemmas relate them to lists of bytes; the other theories name C strings by such lists.
\<close>

section \<open>Model\<close>

type_synonym bytes = "u32 \<Rightarrow> u8"

definition copy_byte :: "u32 \<Rightarrow> u32 \<Rightarrow> nat \<Rightarrow> bytes \<Rightarrow> bytes" where
  "copy_byte dest src i m = m(dest + of_nat i := m (src + of_nat i))"

definition memcpy :: "u32 \<Rightarrow> u32 \<Rightarrow> u32 \<Rightarrow> bytes \<Rightarrow> bytes" where
  "memcpy dest src n m = fold (copy_byte dest src) [0..<unat n] m"

definition memset :: "u32 \<Rightarrow> u32 \<Rightarrow> u32 \<Rightarrow> bytes \<Rightarrow> bytes" where
  "memset s c n m = (let v = ucast c in fold (\<lambda>i m. m(s + of_nat i := v)) [0..<unat n] m)"

text \<open>The bounded loops recurse on the number of bytes left; \<open>i\<close> is the loop's counter.\<close>

primrec memcmp_loop :: "nat \<Rightarrow> bytes \<Rightarrow> u32 \<Rightarrow> u32 \<Rightarrow> u32 \<Rightarrow> int" where
  "memcmp_loop 0 m s1 s2 i = 0"
| "memcmp_loop (Suc k) m s1 s2 i =
     (let a = m (s1 + i); b = m (s2 + i) in
      if a \<noteq> b then uint a - uint b else memcmp_loop k m s1 s2 (i + 1))"

definition memcmp :: "bytes \<Rightarrow> u32 \<Rightarrow> u32 \<Rightarrow> u32 \<Rightarrow> int" where
  "memcmp m s1 s2 n = memcmp_loop (unat n) m s1 s2 0"

partial_function (option) strcmp_loop :: "bytes \<Rightarrow> u32 \<Rightarrow> u32 \<Rightarrow> u32 \<Rightarrow> int option" where
  "strcmp_loop m s1 s2 i =
     (let a = m (s1 + i); b = m (s2 + i) in
      if a = 0 \<or> a \<noteq> b then Some (uint a - uint b) else strcmp_loop m s1 s2 (i + 1))"

definition strcmp :: "bytes \<Rightarrow> u32 \<Rightarrow> u32 \<Rightarrow> int option" where
  "strcmp m s1 s2 = strcmp_loop m s1 s2 0"

primrec strncmp_loop :: "nat \<Rightarrow> bytes \<Rightarrow> u32 \<Rightarrow> u32 \<Rightarrow> u32 \<Rightarrow> int" where
  "strncmp_loop 0 m s1 s2 i = 0"
| "strncmp_loop (Suc k) m s1 s2 i =
     (let a = m (s1 + i); b = m (s2 + i) in
      if a \<noteq> b \<or> a = 0 then uint a - uint b else strncmp_loop k m s1 s2 (i + 1))"

definition strncmp :: "bytes \<Rightarrow> u32 \<Rightarrow> u32 \<Rightarrow> u32 \<Rightarrow> int" where
  "strncmp m s1 s2 n = strncmp_loop (unat n) m s1 s2 0"

partial_function (option) strcpy_loop :: "u32 \<Rightarrow> u32 \<Rightarrow> u32 \<Rightarrow> bytes \<Rightarrow> bytes option" where
  "strcpy_loop dest src i m =
     (let c = m (src + i); m' = m(dest + i := c) in
      if c = 0 then Some m' else strcpy_loop dest src (i + 1) m')"

definition strcpy :: "u32 \<Rightarrow> u32 \<Rightarrow> bytes \<Rightarrow> bytes option" where
  "strcpy dest src m = strcpy_loop dest src 0 m"

partial_function (option) strlen_loop :: "bytes \<Rightarrow> u32 \<Rightarrow> u32 \<Rightarrow> u32 option" where
  "strlen_loop m s len = (if m (s + len) \<noteq> 0 then strlen_loop m s (len + 1) else Some len)"

definition strlen :: "bytes \<Rightarrow> u32 \<Rightarrow> u32 option" where
  "strlen m s = strlen_loop m s 0"

text \<open>The result of \<open>strchr\<close> is an address, 0 for the null pointer.\<close>

partial_function (option) strchr_loop :: "bytes \<Rightarrow> u32 \<Rightarrow> u8 \<Rightarrow> u32 \<Rightarrow> u32 option" where
  "strchr_loop m s target i =
     (let ch = m (s + i) in
      if ch = target then Some (s + i) else if ch = 0 then Some 0 else strchr_loop m s target (i + 1))"

definition strchr :: "bytes \<Rightarrow> u32 \<Rightarrow> u32 \<Rightarrow> u32 option" where
  "strchr m s c = strchr_loop m s (ucast c) 0"

declare strcmp_loop.simps [code] strcpy_loop.simps [code] strlen_loop.simps [code] strchr_loop.simps [code]

section \<open>Strings in memory\<close>

text \<open>\<open>str_at m a cs\<close>: the C string at \<open>a\<close> has the bytes \<open>cs\<close>; \<open>bytes_at\<close> is the same without the
  terminating zero.\<close>

primrec bytes_at :: "bytes \<Rightarrow> u32 \<Rightarrow> u8 list \<Rightarrow> bool" where
  "bytes_at m a [] \<longleftrightarrow> True"
| "bytes_at m a (b # bs) \<longleftrightarrow> m a = b \<and> bytes_at m (a + 1) bs"

definition str_at :: "bytes \<Rightarrow> u32 \<Rightarrow> u8 list \<Rightarrow> bool" where
  "str_at m a cs \<longleftrightarrow> 0 \<notin> set cs \<and> bytes_at m a (cs @ [0])"

lemma bytes_at_nth: "bytes_at m a bs \<longleftrightarrow> (\<forall>i < length bs. m (a + of_nat i) = bs ! i)"
proof (induction bs arbitrary: a)
  case Nil
  then show ?case by simp
next
  case (Cons b bs)
  show ?case unfolding bytes_at.simps Cons.IH by (simp add: All_less_Suc2 add.assoc)
qed

lemma str_at_nil [simp]: "str_at m a [] \<longleftrightarrow> m a = 0"
  by (simp add: str_at_def)

lemma str_at_cons: "str_at m a (c # cs) \<longleftrightarrow> c \<noteq> 0 \<and> m a = c \<and> str_at m (a + 1) cs"
  by (auto simp: str_at_def)

lemma bytes_at_append:
  "bytes_at m a (xs @ ys) \<longleftrightarrow> bytes_at m a xs \<and> bytes_at m (a + of_nat (length xs)) ys"
  by (induction xs arbitrary: a) (auto simp: algebra_simps)

text \<open>A loop counter added to the base address can be moved into it.\<close>

lemma strlen_loop_str: "str_at m (s + len) cs \<Longrightarrow> strlen_loop m s len = Some (len + of_nat (length cs))"
proof (induction cs arbitrary: len)
  case Nil
  then show ?case by (subst strlen_loop.simps) simp
next
  case (Cons c cs)
  then have "m (s + len) \<noteq> 0" "str_at m (s + (len + 1)) cs" by (auto simp: str_at_cons algebra_simps)
  then show ?case using Cons.IH [of "len + 1"] by (subst strlen_loop.simps) (simp add: algebra_simps)
qed

text \<open>The byte by which a comparison decides, as a function on lists.\<close>

fun cmp_list :: "u8 list \<Rightarrow> u8 list \<Rightarrow> int" where
  "cmp_list [] [] = 0"
| "cmp_list [] (y # ys) = - uint y"
| "cmp_list (x # xs) [] = uint x"
| "cmp_list (x # xs) (y # ys) = (if x = y then cmp_list xs ys else uint x - uint y)"

lemma strcmp_loop_str:
  "str_at m (s1 + i) xs \<Longrightarrow> str_at m (s2 + i) ys \<Longrightarrow> strcmp_loop m s1 s2 i = Some (cmp_list xs ys)"
proof (induction xs ys arbitrary: i rule: cmp_list.induct)
  case (4 x xs y ys)
  have "strcmp_loop m s1 s2 (i + 1) = Some (cmp_list xs ys)" if "x = y"
    using 4 that by (intro "4.IH") (auto simp: str_at_cons algebra_simps)
  then show ?case using 4 by (subst strcmp_loop.simps) (auto simp: str_at_cons)
qed (subst strcmp_loop.simps; auto simp: str_at_cons)+

lemma uint_u8_pos: "(x :: u8) \<noteq> 0 \<Longrightarrow> 0 < uint x"
  by (simp add: word_neq_0_conv word_less_def)

lemma cmp_list_zero: "0 \<notin> set xs \<Longrightarrow> 0 \<notin> set ys \<Longrightarrow> cmp_list xs ys = 0 \<longleftrightarrow> xs = ys"
  by (induction xs ys rule: cmp_list.induct) (auto dest: uint_u8_pos simp: word_uint_eq_iff)

text \<open>Lexicographic order of byte strings.\<close>

fun lex_less :: "u8 list \<Rightarrow> u8 list \<Rightarrow> bool" where
  "lex_less [] ys \<longleftrightarrow> ys \<noteq> []"
| "lex_less (x # xs) [] \<longleftrightarrow> False"
| "lex_less (x # xs) (y # ys) \<longleftrightarrow> x < y \<or> x = y \<and> lex_less xs ys"

lemma cmp_list_less: "0 \<notin> set xs \<Longrightarrow> 0 \<notin> set ys \<Longrightarrow> cmp_list xs ys < 0 \<longleftrightarrow> lex_less xs ys"
  by (induction xs ys rule: cmp_list.induct) (auto dest!: uint_u8_pos simp: word_less_def)

lemma strncmp_loop_prefix:
  "bytes_at m (s1 + i) xs \<Longrightarrow> 0 \<notin> set xs \<Longrightarrow> str_at m (s2 + i) ys \<Longrightarrow>
   strncmp_loop (length xs) m s1 s2 i = 0 \<longleftrightarrow> prefix xs ys"
proof (induction xs ys arbitrary: i rule: cmp_list.induct)
  case (4 x xs y ys)
  have "strncmp_loop (length xs) m s1 s2 (i + 1) = 0 \<longleftrightarrow> prefix xs ys" if "x = y"
    using 4 that by (intro "4.IH") (auto simp: str_at_cons algebra_simps)
  then show ?case using 4 by (auto simp: str_at_cons word_uint_eq_iff)
qed (auto simp: str_at_cons dest: uint_u8_pos)

lemma of_nat32_inject: "i < 4294967296 \<Longrightarrow> j < 4294967296 \<Longrightarrow> (of_nat i :: u32) = of_nat j \<longleftrightarrow> i = j"
  by (metis unat_of_nat32)

text \<open>The addresses from \<open>a\<close> on, and the address at distance \<open>unat (x - a)\<close> of it.\<close>

definition area :: "u32 \<Rightarrow> nat \<Rightarrow> u32 set" where
  "area a n = {x. unat (x - a) < n}"

lemma area_add: "i < 4294967296 \<Longrightarrow> a + of_nat i \<in> area a n \<longleftrightarrow> i < n"
  by (simp add: area_def unat_of_nat32)

lemma area_eq: "n \<le> 4294967296 \<Longrightarrow> x \<in> area a n \<longleftrightarrow> (\<exists>i < n. x = a + of_nat i)"
proof
  assume "x \<in> area a n"
  then show "\<exists>i < n. x = a + of_nat i" by (intro exI [of _ "unat (x - a)"]) (simp add: area_def)
next
  assume "n \<le> 4294967296" "\<exists>i < n. x = a + of_nat i"
  then show "x \<in> area a n" using area_add by auto
qed

lemma area_Suc: "n < 4294967296 \<Longrightarrow> x \<in> area a (Suc n) \<longleftrightarrow> x \<in> area a n \<or> x = a + of_nat n"
  using area_eq [of "Suc n"] area_eq [of n] by (auto simp: less_Suc_eq)

lemma memcpy_loop:
  assumes "area d k \<inter> area s k = {}" "k \<le> 4294967296"
  shows "n \<le> k \<Longrightarrow> fold (copy_byte d s) [0..<n] m =
    (\<lambda>x. if x \<in> area d n then m (s + (x - d)) else m x)"
proof (induction n)
  case 0
  then show ?case by (simp add: area_def)
next
  case (Suc n)
  let ?f = "fold (copy_byte d s) [0..<n] m"
  have k: "n < 4294967296" using Suc.prems assms(2) by simp
  have "s + of_nat n \<in> area s k" using Suc.prems k by (simp add: area_add)
  moreover have "area d n \<subseteq> area d k" using Suc.prems by (auto simp: area_def)
  ultimately have "s + of_nat n \<notin> area d n" using assms(1) by blast
  moreover have f: "?f = (\<lambda>x. if x \<in> area d n then m (s + (x - d)) else m x)"
    using Suc.IH Suc.prems by (meson Suc_leD)
  ultimately have "?f (s + of_nat n) = m (s + of_nat n)" by simp
  moreover have "d + of_nat n \<notin> area d n" using k by (simp add: area_add)
  moreover have "fold (copy_byte d s) [0..<Suc n] m =
      ?f(d + of_nat n := ?f (s + of_nat n))" by (simp add: copy_byte_def)
  ultimately show ?case by (auto simp: f fun_eq_iff area_Suc [OF k])
qed

lemma memset_loop:
  "n \<le> 4294967296 \<Longrightarrow> fold (\<lambda>i m. m(d + of_nat i := v)) [0..<n] m = (\<lambda>x. if x \<in> area d n then v else m x)"
proof (induction n)
  case 0
  then show ?case by (simp add: area_def)
next
  case (Suc n)
  then show ?case by (auto simp: fun_eq_iff area_Suc)
qed

section \<open>Properties\<close>

text \<open>C22: On two terminated strings \<open>strcmp\<close> returns; its result is 0 exactly when they are equal and
  negative exactly when the first precedes the second in the lexicographic order of unsigned bytes.\<close>

theorem strcmp_correct:
  assumes "str_at m s1 xs" "str_at m s2 ys"
  shows "\<exists>r. strcmp m s1 s2 = Some r \<and> (r = 0 \<longleftrightarrow> xs = ys) \<and> (r < 0 \<longleftrightarrow> lex_less xs ys)"
  using assms strcmp_loop_str [of m s1 0 xs s2 ys] cmp_list_zero cmp_list_less
  by (simp add: strcmp_def str_at_def)

definition demo_mem :: bytes where
  "demo_mem a = (if a = 0x1000 then 0x61 else if a = 0x1001 then 0xE9 else if a = 0x2000 then 0x61
                 else if a = 0x2001 then 0x7A else 0)"

theorem strcmp_correct_witness:
  "strcmp demo_mem 0x2000 0x1000 \<noteq> None \<and> strcmp demo_mem 0x2000 0x1000 \<noteq> Some 0"
  using strcmp_correct [of demo_mem "0x2000" "[0x61, 0x7A]" "0x1000" "[0x61, 0xE9]"]
  by (auto simp: demo_mem_def str_at_def)

text \<open>\<open>strncmp\<close> with the length of the first string, the test that path checks make, is 0 exactly when
  the first string is a prefix of the second.\<close>

theorem strncmp_prefix:
  assumes "str_at m s1 xs" "str_at m s2 ys" "length xs < 2 ^ 32"
  shows "strlen m s1 = Some (of_nat (length xs)) \<and> (strncmp m s1 s2 (of_nat (length xs)) = 0 \<longleftrightarrow> prefix xs ys)"
proof -
  have "bytes_at m s1 xs" "0 \<notin> set xs" using assms(1) by (simp_all add: str_at_def bytes_at_append)
  then show ?thesis using assms strlen_loop_str [of m s1 0 xs] strncmp_loop_prefix [of m s1 0 xs s2 ys]
    by (simp add: strlen_def strncmp_def unat_of_nat32)
qed

theorem strncmp_prefix_witness:
  "strlen demo_mem 0x2001 = Some 1 \<and> strncmp demo_mem 0x2001 0x1000 1 \<noteq> 0"
  using strncmp_prefix [of demo_mem "0x2001" "[0x7A]" "0x1000" "[0x61, 0xE9]"]
  by (simp add: demo_mem_def str_at_def)

text \<open>When its areas do not overlap, \<open>memcpy\<close> leaves a copy of the source at the destination and
  changes no other byte.\<close>

theorem memcpy_copies:
  assumes "area dest (unat n) \<inter> area src (unat n) = {}"
  shows "(\<forall>i < unat n. memcpy dest src n m (dest + of_nat i) = m (src + of_nat i)) \<and>
         (\<forall>x. x \<notin> area dest (unat n) \<longrightarrow> memcpy dest src n m x = m x)"
proof -
  have b: "unat n \<le> 4294967296" using unat_lt32 [of n] by simp
  have "memcpy dest src n m = (\<lambda>x. if x \<in> area dest (unat n) then m (src + (x - dest)) else m x)"
    unfolding memcpy_def by (rule memcpy_loop [OF assms b]) simp
  then show ?thesis using b by (auto simp: area_add)
qed

theorem memcpy_copies_witness:
  "memcpy 0x3000 0x1000 2 demo_mem 0x3001 = 0xE9 \<and> memcpy 0x3000 0x1000 2 demo_mem 0x3002 = 0"
proof -
  have e: "area 0x3000 2 \<inter> area 0x1000 2 = {}" by (auto simp: area_eq less_2_cases_iff)
  show ?thesis using memcpy_copies [of "0x3000" 2 "0x1000" demo_mem] e
    by (auto simp: demo_mem_def area_def less_2_cases_iff dest: spec [of _ 1])
qed

end
