(* ===== verification/Vfs_Core.thy ===== *)
theory Vfs_Core
  imports Frames Kstring
begin

text \<open>
  The objects of the virtual file system (\<open>include/fs/vfs.h\<close>), their allocation, path lookup
  (\<open>fs/vfs.c\<close>) and the mount table (\<open>fs/mount.c\<close>). Objects live at the addresses \<open>kmalloc\<close> returned; 0 is
  the null pointer, and following it is \<^const>\<open>None\<close>. A kernel C string is a \<open>string\<close> without zero
  characters; strings that the code copies to the heap are kept by address (\<open>kstr\<close>). The tables of
  function pointers are enumerations.

  Bytes of the heap region are kept in \<open>kbytes\<close>, apart from the allocator's own words; every other
  address is reached through the page tables.
\<close>

section \<open>State\<close>

datatype iops = Memfs_iops | Ramfs_iops | Tarfs_iops
datatype fops = Memfs_fops | Ramfs_fops | Tarfs_fops
datatype sops = Tarfs_sops
datatype fs_info = No_info | Image u32 | Bdev nat

record inode =
  i_ino :: u32
  i_mode :: u32
  i_size :: u32
  i_uid :: u32
  i_gid :: u32
  i_links :: u32
  i_sb :: u32
  i_op :: "iops option"
  i_fop :: "fops option"
  i_private :: u32
  i_children :: u32

record dentry =
  d_name :: u32
  d_inode :: u32
  d_parent :: u32
  d_next :: u32
  d_hash_next :: u32

record vfs_file =
  f_dentry :: u32
  f_pos :: u64
  f_flags :: u32
  f_op :: "fops option"
  f_private :: u32

record super_block =
  s_dev :: u32
  s_blocksize :: u32
  s_root :: u32
  s_op :: "sops option"
  s_fs_info :: fs_info

record mount_node =
  mn_path :: u32
  mn_sb :: u32
  mn_next :: u32

record fs_state = vm_state +
  kstr :: "u32 \<Rightarrow> string"
  kbytes :: bytes
  inodes :: "u32 \<Rightarrow> inode"
  dentries :: "u32 \<Rightarrow> dentry"
  files :: "u32 \<Rightarrow> vfs_file"
  sblocks :: "u32 \<Rightarrow> super_block"
  mounts :: "u32 \<Rightarrow> mount_node"
  mount_root :: u32
  vfs_root :: u32
  vfs_ino_next :: u32

abbreviation S_IFREG :: u32 where "S_IFREG \<equiv> 0x8000"
abbreviation S_IFDIR :: u32 where "S_IFDIR \<equiv> 0x4000"
abbreviation O_RDONLY :: u32 where "O_RDONLY \<equiv> 0"
abbreviation O_CREAT :: u32 where "O_CREAT \<equiv> 0x100"
abbreviation O_TRUNC :: u32 where "O_TRUNC \<equiv> 0x200"

definition zero_inode :: inode where
  "zero_inode = \<lparr>i_ino = 0, i_mode = 0, i_size = 0, i_uid = 0, i_gid = 0, i_links = 0, i_sb = 0,
     i_op = None, i_fop = None, i_private = 0, i_children = 0\<rparr>"

definition zero_dentry :: dentry where
  "zero_dentry = \<lparr>d_name = 0, d_inode = 0, d_parent = 0, d_next = 0, d_hash_next = 0\<rparr>"

definition zero_file :: vfs_file where
  "zero_file = \<lparr>f_dentry = 0, f_pos = 0, f_flags = 0, f_op = None, f_private = 0\<rparr>"

definition zero_sb :: super_block where
  "zero_sb = \<lparr>s_dev = 0, s_blocksize = 0, s_root = 0, s_op = None, s_fs_info = No_info\<rparr>"

definition upd_inode :: "u32 \<Rightarrow> (inode \<Rightarrow> inode) \<Rightarrow> 'a fs_state_scheme \<Rightarrow> 'a fs_state_scheme" where
  "upd_inode i f s = s\<lparr>inodes := (inodes s)(i := f (inodes s i))\<rparr>"

definition upd_dentry :: "u32 \<Rightarrow> (dentry \<Rightarrow> dentry) \<Rightarrow> 'a fs_state_scheme \<Rightarrow> 'a fs_state_scheme" where
  "upd_dentry d f s = s\<lparr>dentries := (dentries s)(d := f (dentries s d))\<rparr>"

definition upd_file :: "u32 \<Rightarrow> (vfs_file \<Rightarrow> vfs_file) \<Rightarrow> 'a fs_state_scheme \<Rightarrow> 'a fs_state_scheme" where
  "upd_file p f s = s\<lparr>files := (files s)(p := f (files s p))\<rparr>"

definition upd_sb :: "u32 \<Rightarrow> (super_block \<Rightarrow> super_block) \<Rightarrow> 'a fs_state_scheme \<Rightarrow> 'a fs_state_scheme" where
  "upd_sb p f s = s\<lparr>sblocks := (sblocks s)(p := f (sblocks s p))\<rparr>"

definition set_kstr :: "u32 \<Rightarrow> string \<Rightarrow> 'a fs_state_scheme \<Rightarrow> 'a fs_state_scheme" where
  "set_kstr a x s = s\<lparr>kstr := (kstr s)(a := x)\<rparr>"

section \<open>Bytes\<close>

definition heap_addr :: "u32 \<Rightarrow> bool" where
  "heap_addr a \<longleftrightarrow> HEAP_VIRT_START \<le> a \<and> a < 0xE0000000"

definition read8 :: "'a fs_state_scheme \<Rightarrow> u32 \<Rightarrow> u8 option" where
  "read8 s a = (if heap_addr a then Some (kbytes s a) else vread8 s a)"

definition write8 :: "u32 \<Rightarrow> u8 \<Rightarrow> 'a fs_state_scheme \<Rightarrow> 'a fs_state_scheme option" where
  "write8 a b s = (if heap_addr a then Some (s\<lparr>kbytes := (kbytes s)(a := b)\<rparr>) else vwrite8 a b s)"

primrec load_bytes :: "nat \<Rightarrow> u32 \<Rightarrow> 'a fs_state_scheme \<Rightarrow> u8 list option" where
  "load_bytes 0 a s = Some []"
| "load_bytes (Suc n) a s = do { b \<leftarrow> read8 s a; bs \<leftarrow> load_bytes n (a + 1) s; Some (b # bs) }"

fun store_bytes :: "u8 list \<Rightarrow> u32 \<Rightarrow> 'a fs_state_scheme \<Rightarrow> 'a fs_state_scheme option" where
  "store_bytes [] a s = Some s"
| "store_bytes (b # bs) a s = do { s \<leftarrow> write8 a b s; store_bytes bs (a + 1) s }"

text \<open>\<open>memcpy\<close> on areas that do not overlap.\<close>

definition copy_bytes :: "u32 \<Rightarrow> u32 \<Rightarrow> u32 \<Rightarrow> 'a fs_state_scheme \<Rightarrow> 'a fs_state_scheme option" where
  "copy_bytes dst src n s = do { bs \<leftarrow> load_bytes (unat n) src s; store_bytes bs dst s }"

section \<open>Inodes and dentries\<close>

definition vfs_new_inode :: "u32 \<Rightarrow> 'a fs_state_scheme \<Rightarrow> (u32 \<times> 'a fs_state_scheme) option" where
  "vfs_new_inode mode s = do {
     (i, s) \<leftarrow> kmalloc 44 s;
     if i = 0 then Some (0, s)
     else (let s = upd_inode i (\<lambda>_. zero_inode\<lparr>i_ino := vfs_ino_next s, i_mode := mode, i_links := 1\<rparr>) s
           in Some (i, s\<lparr>vfs_ino_next := vfs_ino_next s + 1\<rparr>))
   }"

definition vfs_new_dentry :: "string \<Rightarrow> u32 \<Rightarrow> u32 \<Rightarrow> 'a fs_state_scheme \<Rightarrow> (u32 \<times> 'a fs_state_scheme) option" where
  "vfs_new_dentry name ino parent s = do {
     (d, s) \<leftarrow> kmalloc 20 s;
     if d = 0 then Some (0, s)
     else do {
       let s = upd_dentry d (\<lambda>_. zero_dentry) s;
       (n, s) \<leftarrow> kmalloc (of_nat (length name) + 1) s;
       let s = upd_dentry d (\<lambda>x. x\<lparr>d_name := n\<rparr>) s;
       if n = 0 then do { s \<leftarrow> kfree d s; Some (0, s) }
       else do {
         let s = upd_dentry d (\<lambda>x. x\<lparr>d_inode := ino, d_parent := parent\<rparr>) (set_kstr n name s);
         if parent = 0 then Some (d, s)
         else do {
           let p = d_inode (dentries s parent);
           if p = 0 then None
           else (let s = upd_dentry d (\<lambda>x. x\<lparr>d_next := i_children (inodes s p)\<rparr>) s
                 in Some (d, upd_inode p (\<lambda>x. x\<lparr>i_children := d\<rparr>) s))
         }
       }
     }
   }"

definition vfs_free_dentry :: "u32 \<Rightarrow> 'a fs_state_scheme \<Rightarrow> 'a fs_state_scheme option" where
  "vfs_free_dentry d s =
     (if d = 0 then Some s
      else do {
        s \<leftarrow> (if d_name (dentries s d) \<noteq> 0 then kfree (d_name (dentries s d)) s else Some s);
        kfree d s
      })"

definition vfs_mount_root :: "u32 \<Rightarrow> 'a fs_state_scheme \<Rightarrow> (int \<times> 'a fs_state_scheme) option" where
  "vfs_mount_root root_inode s =
     (if root_inode = 0 \<or> i_mode (inodes s root_inode) AND S_IFDIR = 0 then Some (-1, s)
      else do {
        (d, s) \<leftarrow> vfs_new_dentry ''/'' root_inode 0 s;
        if d = 0 then Some (-1, s) else Some (0, s\<lparr>vfs_root := d\<rparr>)
      })"

section \<open>Lookup\<close>

text \<open>\<open>vfs_generic_lookup\<close>, which is the \<open>lookup\<close> operation of every file system.\<close>

definition vfs_generic_lookup :: "u32 \<Rightarrow> u32 \<Rightarrow> 'a fs_state_scheme \<Rightarrow> u32 option" where
  "vfs_generic_lookup dir d s = do {
     r \<leftarrow> find_chain (\<lambda>c. nonnull (d_next (dentries s c)))
            (\<lambda>c. kstr s (d_name (dentries s c)) = kstr s (d_name (dentries s d)))
            (nonnull (i_children (inodes s dir)));
     Some (case r of None \<Rightarrow> 0 | Some c \<Rightarrow> c)
   }"

definition vfs_lookup_component :: "u32 \<Rightarrow> string \<Rightarrow> 'a fs_state_scheme \<Rightarrow> (u32 \<times> 'a fs_state_scheme) option" where
  "vfs_lookup_component dir name s =
     (let i = d_inode (dentries s dir) in
      if i = 0 then None
      else if i_op (inodes s i) = None then Some (0, s)
      else do {
        (tmp, s) \<leftarrow> kmalloc 20 s;
        if tmp = 0 then Some (0, s)
        else do {
          let s = upd_dentry tmp (\<lambda>_. zero_dentry) s;
          (n, s) \<leftarrow> kmalloc (of_nat (length name) + 1) s;
          let s = upd_dentry tmp (\<lambda>x. x\<lparr>d_name := n\<rparr>) s;
          if n = 0 then do { s \<leftarrow> kfree tmp s; Some (0, s) }
          else do {
            let s = set_kstr n name s;
            res \<leftarrow> vfs_generic_lookup i tmp s;
            s \<leftarrow> kfree n s;
            s \<leftarrow> kfree tmp s;
            Some (res, s)
          }
        }
      })"

text \<open>The pieces between the slashes that the loop of \<open>vfs_lookup_from\<close> cuts off.\<close>

primrec split_slash :: "string \<Rightarrow> string list" where
  "split_slash [] = [[]]"
| "split_slash (c # cs) =
     (if c = CHR ''/'' then [] # split_slash cs
      else (case split_slash cs of [] \<Rightarrow> [[c]] | t # ts \<Rightarrow> (c # t) # ts))"

fun lookup_tokens :: "u32 \<Rightarrow> string list \<Rightarrow> 'a fs_state_scheme \<Rightarrow> (u32 \<times> 'a fs_state_scheme) option" where
  "lookup_tokens cur [] s = Some (cur, s)"
| "lookup_tokens cur [t] s = (if t \<noteq> [] then vfs_lookup_component cur t s else Some (cur, s))"
| "lookup_tokens cur (t # ts) s = do {
     (cur, s) \<leftarrow> vfs_lookup_component cur t s;
     if cur = 0 then Some (0, s) else lookup_tokens cur ts s
   }"

definition skip_slash :: "string \<Rightarrow> string" where
  "skip_slash path = (case path of c # cs \<Rightarrow> if c = CHR ''/'' then cs else path | [] \<Rightarrow> [])"

definition vfs_lookup_from :: "u32 \<Rightarrow> string \<Rightarrow> 'a fs_state_scheme \<Rightarrow> (u32 \<times> 'a fs_state_scheme) option" where
  "vfs_lookup_from base path s =
     (let path = skip_slash path in
      if base = 0 then Some (0, s)
      else if path = [] then Some (base, s)
      else do {
        (copy, s) \<leftarrow> kmalloc (of_nat (length path) + 1) s;
        if copy = 0 then Some (0, s)
        else do {
          (cur, s) \<leftarrow> lookup_tokens base (split_slash path) (set_kstr copy path s);
          s \<leftarrow> kfree copy s;
          Some (cur, s)
        }
      })"

section \<open>Mounts\<close>

definition vfs_mount :: "string \<Rightarrow> u32 \<Rightarrow> 'a fs_state_scheme \<Rightarrow> (int \<times> 'a fs_state_scheme) option" where
  "vfs_mount path sb s =
     (if sb = 0 then Some (-1, s)
      else do {
        (node, s) \<leftarrow> kmalloc 116 s;
        if node = 0 then Some (-1, s)
        else do {
          (p, s) \<leftarrow> kmalloc (of_nat (length path) + 1) s;
          if p = 0 then do { s \<leftarrow> kfree node s; Some (-1, s) }
          else (let s = set_kstr p path s;
                    s = s\<lparr>mounts := (mounts s)(node := \<lparr>mn_path = p, mn_sb = sb, mn_next = mount_root s\<rparr>)\<rparr>
                in Some (0, s\<lparr>mount_root := node\<rparr>))
        }
      })"

text \<open>The test of \<open>vfs_find_mount\<close>, \<open>is_path_allowed\<close> and \<open>path_is_within\<close>: \<open>strncmp\<close> over the length of
  the first path, and the next character of the second is the end or a slash.\<close>

definition dir_prefix :: "string \<Rightarrow> string \<Rightarrow> bool" where
  "dir_prefix root path \<longleftrightarrow>
     prefix root path \<and> (length path = length root \<or> path ! length root = CHR ''/'')"

partial_function (option) mount_walk ::
  "(u32 \<Rightarrow> mount_node) \<Rightarrow> (u32 \<Rightarrow> string) \<Rightarrow> string \<Rightarrow> u32 \<Rightarrow> u32 \<Rightarrow> nat \<Rightarrow> (u32 \<times> nat) option" where
  "mount_walk mn str path node best len =
     (if node = 0 then Some (best, len)
      else let mp = str (mn_path (mn node)) in
        if dir_prefix mp path \<and> length mp > len
        then mount_walk mn str path (mn_next (mn node)) node (length mp)
        else mount_walk mn str path (mn_next (mn node)) best len)"

declare mount_walk.simps [code]

definition vfs_find_mount :: "string \<Rightarrow> 'a fs_state_scheme \<Rightarrow> (u32 \<times> string) option" where
  "vfs_find_mount path s = do {
     (best, len) \<leftarrow> mount_walk (mounts s) (kstr s) path (mount_root s) 0 0;
     Some (if best \<noteq> 0 then mn_sb (mounts s best) else 0, drop len path)
   }"

section \<open>Paths from the root\<close>

definition is_path_allowed :: "string \<Rightarrow> string \<Rightarrow> bool" where
  "is_path_allowed path root \<longleftrightarrow> root = [] \<or> dir_prefix root path"

text \<open>The check that \<open>vfs_lookup\<close> makes for the current task.\<close>

definition root_allows :: "string \<Rightarrow> 'a fs_state_scheme \<Rightarrow> bool" where
  "root_allows path s = (case get_current_task s of None \<Rightarrow> True | Some c \<Rightarrow>
     (let root = t_root_path (tasks s c) in
      if root \<noteq> [] \<and> root \<noteq> ''/''
      then path \<noteq> [] \<and> hd path = CHR ''/'' \<and> is_path_allowed path root else True))"

definition vfs_lookup :: "string \<Rightarrow> 'a fs_state_scheme \<Rightarrow> (u32 \<times> 'a fs_state_scheme) option" where
  "vfs_lookup path s =
     (if path = [] \<or> vfs_root s = 0 then Some (0, s)
      else if \<not> root_allows path s then Some (0, s)
      else do {
        (sb, rest) \<leftarrow> vfs_find_mount path s;
        if sb \<noteq> 0 \<and> s_root (sblocks s sb) \<noteq> 0 then vfs_lookup_from (s_root (sblocks s sb)) rest s
        else vfs_lookup_from (vfs_root s) path s
      })"

section \<open>Mount points\<close>

abbreviation mount_path :: "'a fs_state_scheme \<Rightarrow> u32 \<Rightarrow> string" where
  "mount_path s n \<equiv> kstr s (mn_path (mounts s n))"

definition mount_list :: "'a fs_state_scheme \<Rightarrow> u32 list \<Rightarrow> bool" where
  "mount_list s ns \<longleftrightarrow> chain (\<lambda>n. nonnull (mn_next (mounts s n))) (nonnull (mount_root s)) ns"

text \<open>The choice of the walk as a function on the list of nodes: the first of the longest matches.\<close>

fun best_mount :: "(u32 \<Rightarrow> string) \<Rightarrow> string \<Rightarrow> u32 list \<Rightarrow> u32 \<Rightarrow> nat \<Rightarrow> u32 \<times> nat" where
  "best_mount mp path [] best len = (best, len)"
| "best_mount mp path (n # ns) best len =
     (if dir_prefix (mp n) path \<and> length (mp n) > len then best_mount mp path ns n (length (mp n))
      else best_mount mp path ns best len)"

lemma nonnull_Some: "nonnull p = Some x \<longleftrightarrow> p \<noteq> 0 \<and> x = p"
  by (auto simp: nonnull_def)

lemma nonnull_None: "nonnull p = None \<longleftrightarrow> p = 0"
  by (simp add: nonnull_def)

lemma mount_walk_list:
  "chain (\<lambda>n. nonnull (mn_next (mn n))) (nonnull p) ns \<Longrightarrow>
   mount_walk mn str path p best len = Some (best_mount (\<lambda>n. str (mn_path (mn n))) path ns best len)"
proof (induction ns arbitrary: p best len)
  case Nil
  then show ?case by (subst mount_walk.simps) (simp add: nonnull_None)
next
  case (Cons n ns)
  then show ?case by (subst mount_walk.simps) (auto simp: nonnull_Some Let_def)
qed

lemma mount_list_nonzero: "chain (\<lambda>n. nonnull (mn_next (mn n))) (nonnull p) ns \<Longrightarrow> n \<in> set ns \<Longrightarrow> n \<noteq> 0"
  by (induction ns arbitrary: p) (auto simp: nonnull_Some)

lemma best_mount_none:
  "(\<forall>n \<in> set ns. dir_prefix (mp n) path \<longrightarrow> length (mp n) \<le> len) \<Longrightarrow> best_mount mp path ns best len = (best, len)"
  by (induction ns arbitrary: best len) auto

lemma best_mount_some:
  "\<exists>n \<in> set ns. dir_prefix (mp n) path \<and> length (mp n) > len \<Longrightarrow>
   \<exists>us n vs. ns = us @ n # vs \<and> best_mount mp path ns best len = (n, length (mp n)) \<and> dir_prefix (mp n) path \<and>
     len < length (mp n) \<and>
     (\<forall>m \<in> set us. dir_prefix (mp m) path \<longrightarrow> length (mp m) < length (mp n)) \<and>
     (\<forall>m \<in> set vs. dir_prefix (mp m) path \<longrightarrow> length (mp m) \<le> length (mp n))"
proof (induction ns arbitrary: best len)
  case Nil
  then show ?case by simp
next
  case (Cons n ns)
  show ?case
  proof (cases "dir_prefix (mp n) path \<and> length (mp n) > len")
    case True
    show ?thesis
    proof (cases "\<exists>m \<in> set ns. dir_prefix (mp m) path \<and> length (mp m) > length (mp n)")
      case longer: True
      from Cons.IH [OF this, of n] obtain us m vs where m: "ns = us @ m # vs"
        "best_mount mp path ns n (length (mp n)) = (m, length (mp m))" "dir_prefix (mp m) path"
        "length (mp n) < length (mp m)" "\<forall>k \<in> set us. dir_prefix (mp k) path \<longrightarrow> length (mp k) < length (mp m)"
        "\<forall>k \<in> set vs. dir_prefix (mp k) path \<longrightarrow> length (mp k) \<le> length (mp m)" by blast
      show ?thesis using m True by (intro exI [of _ "n # us"] exI [of _ m] exI [of _ vs]) auto
    next
      case False
      then have "best_mount mp path ns n (length (mp n)) = (n, length (mp n))"
        by (intro best_mount_none) auto
      then show ?thesis using True False by (intro exI [of _ "[]"] exI [of _ n] exI [of _ ns]) auto
    qed
  next
    case False
    then have "\<exists>m \<in> set ns. dir_prefix (mp m) path \<and> length (mp m) > len" using Cons.prems by auto
    from Cons.IH [OF this, of best] obtain us m vs where m: "ns = us @ m # vs"
      "best_mount mp path ns best len = (m, length (mp m))" "dir_prefix (mp m) path"
      "len < length (mp m)" "\<forall>k \<in> set us. dir_prefix (mp k) path \<longrightarrow> length (mp k) < length (mp m)"
      "\<forall>k \<in> set vs. dir_prefix (mp k) path \<longrightarrow> length (mp k) \<le> length (mp m)" by blast
    show ?thesis using m False by (intro exI [of _ "n # us"] exI [of _ m] exI [of _ vs]) auto
  qed
qed

lemma dir_prefix_split: "dir_prefix root path \<longleftrightarrow> (\<exists>rest. path = root @ rest \<and> (rest = [] \<or> hd rest = CHR ''/''))"
proof -
  have "root @ r = root @ [] \<or> (root @ r) ! length root = CHR ''/'' \<longleftrightarrow> r = [] \<or> hd r = CHR ''/''" for r
    by (cases r) auto
  moreover have "dir_prefix root path \<longleftrightarrow> (\<exists>r. path = root @ r \<and> (root @ r = root @ [] \<or> (root @ r) ! length root = CHR ''/''))"
    by (auto simp: dir_prefix_def prefix_def)
  ultimately show ?thesis by simp
qed

section \<open>Properties\<close>

text \<open>A kernel with an empty heap, file systems mounted at \<open>/\<close>\<open>home\<close> and \<open>/\<close>\<open>home/data\<close>, and a task confined
  to \<open>/\<close>\<open>home/data\<close>.\<close>

definition demo_fs :: fs_state where
  "demo_fs = vm_state.extend (heap_state.extend (paging_state.extend (small_paging\<lparr>current_task := Some 3,
       tasks := (\<lambda>_. zero_task\<lparr>t_root_path := ''/home/data''\<rparr>)\<rparr>)
       (heap_state.fields (\<lambda>_. 0) 0 HEAP_VIRT_START HEAP_VIRT_START))
       (vm_state.fields (\<lambda>_. \<lparr>o_shadow = 0, o_ref_count = 0, o_size = 0, o_flags = 0\<rparr>)
         \<lparr>tqh_first = (\<lambda>_. None), tqh_last = HeadCell, tqe_next = (\<lambda>_. None), tqe_prev = (\<lambda>_. HeadCell 0)\<rparr> (\<lambda>_. \<lparr>m_user_object = 0, m_page_directory = 0\<rparr>)))
       (fs_state.fields (\<lambda>a. if a = 0xD0001000 then ''/home/data'' else if a = 0xD0002000 then ''/home'' else [])
         (\<lambda>_. 0) (\<lambda>_. zero_inode) (\<lambda>_. zero_dentry) (\<lambda>_. zero_file) (\<lambda>_. zero_sb)
         (\<lambda>a. if a = 0xD0003000 then \<lparr>mn_path = 0xD0001000, mn_sb = 0xD0005000, mn_next = 0xD0004000\<rparr>
              else \<lparr>mn_path = 0xD0002000, mn_sb = 0xD0006000, mn_next = 0\<rparr>)
         0xD0003000 0 1)"

lemma demo_fs_simps:
  "current_task demo_fs = Some 3" "tasks demo_fs t = zero_task\<lparr>t_root_path := ''/home/data''\<rparr>"
  "mount_root demo_fs = 0xD0003000"
  "mounts demo_fs 0xD0003000 = \<lparr>mn_path = 0xD0001000, mn_sb = 0xD0005000, mn_next = 0xD0004000\<rparr>"
  "mounts demo_fs 0xD0004000 = \<lparr>mn_path = 0xD0002000, mn_sb = 0xD0006000, mn_next = 0\<rparr>"
  "kstr demo_fs 0xD0001000 = ''/home/data''" "kstr demo_fs 0xD0002000 = ''/home''"
  by (simp_all add: demo_fs_def small_paging_def fs_state.defs vm_state.defs heap_state.defs paging_state.defs)

text \<open>
  C27: \<open>vfs_find_mount\<close> returns, and it picks the mounted file system with the longest mount path that is a
  directory prefix of the path, the most recently mounted one when several have that path, and the rest of
  the path after it; when no mount path matches, it gives no file system and the whole path.
\<close>

theorem vfs_find_mount_longest:
  assumes "mount_list s ns"
  shows "if \<exists>n \<in> set ns. mount_path s n \<noteq> [] \<and> dir_prefix (mount_path s n) path
    then \<exists>us n vs rest. ns = us @ n # vs \<and> vfs_find_mount path s = Some (mn_sb (mounts s n), rest) \<and>
      path = mount_path s n @ rest \<and> (rest = [] \<or> hd rest = CHR ''/'') \<and>
      (\<forall>m \<in> set us. dir_prefix (mount_path s m) path \<longrightarrow> length (mount_path s m) < length (mount_path s n)) \<and>
      (\<forall>m \<in> set vs. dir_prefix (mount_path s m) path \<longrightarrow> length (mount_path s m) \<le> length (mount_path s n))
    else vfs_find_mount path s = Some (0, path)"
proof -
  note ch = assms [unfolded mount_list_def]
  note w = mount_walk_list [OF ch, of "kstr s" path 0 0]
  show ?thesis
  proof (cases "\<exists>n \<in> set ns. mount_path s n \<noteq> [] \<and> dir_prefix (mount_path s n) path")
    case True
    then have "\<exists>n \<in> set ns. dir_prefix (mount_path s n) path \<and> length (mount_path s n) > 0" by auto
    from best_mount_some [OF this, of 0] obtain us n vs where n: "ns = us @ n # vs"
      "best_mount (mount_path s) path ns 0 0 = (n, length (mount_path s n))" "dir_prefix (mount_path s n) path"
      "\<forall>m \<in> set us. dir_prefix (mount_path s m) path \<longrightarrow> length (mount_path s m) < length (mount_path s n)"
      "\<forall>m \<in> set vs. dir_prefix (mount_path s m) path \<longrightarrow> length (mount_path s m) \<le> length (mount_path s n)" by auto
    obtain rest where r: "path = mount_path s n @ rest" "rest = [] \<or> hd rest = CHR ''/''"
      using n(3) by (auto simp: dir_prefix_split)
    have "n \<noteq> 0" using mount_list_nonzero [OF ch] n(1) by auto
    moreover have "drop (length (mount_path s n)) path = rest" by (subst r(1)) simp
    ultimately have "vfs_find_mount path s = Some (mn_sb (mounts s n), rest)"
      by (simp add: vfs_find_mount_def w n(2))
    then show ?thesis using True n r by (simp only: if_True) blast
  next
    case False
    then have "best_mount (mount_path s) path ns 0 0 = (0, 0)" by (intro best_mount_none) auto
    then have "vfs_find_mount path s = Some (0, path)" by (simp add: vfs_find_mount_def w)
    then show ?thesis using False by (simp only: if_False)
  qed
qed

theorem vfs_find_mount_longest_witness:
  "vfs_find_mount ''/home/data/x'' demo_fs = Some (0xD0005000, ''/x'')"
proof -
  have l: "mount_list demo_fs [0xD0003000, 0xD0004000]" by (simp add: mount_list_def demo_fs_simps nonnull_def)
  have p: "dir_prefix ''/home/data'' ''/home/data/x''" "dir_prefix ''/home'' ''/home/data/x''" by (simp_all add: dir_prefix_def)
  then have "\<exists>n \<in> set [0xD0003000, 0xD0004000]. mount_path demo_fs n \<noteq> [] \<and> dir_prefix (mount_path demo_fs n) ''/home/data/x''"
    by (simp add: demo_fs_simps)
  with vfs_find_mount_longest [OF l, of "''/home/data/x''"] obtain us n vs rest where
    *: "[0xD0003000, 0xD0004000] = us @ n # vs" "vfs_find_mount ''/home/data/x'' demo_fs = Some (mn_sb (mounts demo_fs n), rest)"
    "''/home/data/x'' = mount_path demo_fs n @ rest"
    "\<forall>m \<in> set us. dir_prefix (mount_path demo_fs m) ''/home/data/x'' \<longrightarrow> length (mount_path demo_fs m) < length (mount_path demo_fs n)"
    unfolding if_P by metis
  have "n = 0xD0003000"
  proof (rule ccontr)
    assume "n \<noteq> 0xD0003000"
    then have "us = [0xD0003000] \<and> n = 0xD0004000" using *(1) by (cases us) (auto simp: Cons_eq_append_conv)
    then show False using *(4) p by (simp add: demo_fs_simps)
  qed
  then show ?thesis using *(2,3) by (simp add: demo_fs_simps)
qed

text \<open>
  C6: A confined task finds nothing outside its root: for a task whose root path is set and is not \<open>/\<close>, a
  lookup of a path that is neither the root nor below it finds nothing and has no effect, whatever is mounted.
\<close>

theorem vfs_lookup_confined:
  assumes "current_task s = Some t" "t_root_path (tasks s t) = root" "root \<noteq> []" "root \<noteq> ''/''"
    "path \<noteq> root" "\<not> prefix (root @ ''/'') path"
  shows "vfs_lookup path s = Some (0, s)"
proof -
  have "\<not> dir_prefix root path"
  proof
    assume "dir_prefix root path"
    then obtain rest where r: "path = root @ rest" "rest = [] \<or> hd rest = CHR ''/''" by (auto simp: dir_prefix_split)
    then show False using assms(5,6) by (cases rest) auto
  qed
  then have "\<not> root_allows path s"
    using assms(1-4) by (simp add: root_allows_def get_current_task_def is_path_allowed_def)
  then show ?thesis by (simp add: vfs_lookup_def)
qed

theorem vfs_lookup_confined_witness: "vfs_lookup ''/home/database'' demo_fs = Some (0, demo_fs)"
  using vfs_lookup_confined [of demo_fs 3 "''/home/data''" "''/home/database''"] by (simp add: demo_fs_simps)

end
