(* ===== verification/Memfs.thy ===== *)
theory Memfs
  imports Vfs_Core
begin

text \<open>
  The writable in-memory file system, \<open>fs/memfs.c\<close>. A file's bytes are in a heap buffer that is replaced by
  one of at least twice the size when a write does not fit. The operations get the offset from the open
  file, as \<open>vfs_read\<close> and \<open>vfs_write\<close> pass it.
\<close>

section \<open>Model\<close>

record memfs_inode =
  mi_size :: u32
  mi_capacity :: u32
  mi_data :: u32

record memfs_state = fs_state +
  mino :: "u32 \<Rightarrow> memfs_inode"
  memfs_sb :: u32

definition upd_mino :: "u32 \<Rightarrow> (memfs_inode \<Rightarrow> memfs_inode) \<Rightarrow> 'a memfs_state_scheme \<Rightarrow> 'a memfs_state_scheme" where
  "upd_mino p f s = s\<lparr>mino := (mino s)(p := f (mino s p))\<rparr>"

definition memfs_alloc_inode :: "u32 \<Rightarrow> 'a memfs_state_scheme \<Rightarrow> (u32 \<times> 'a memfs_state_scheme) option" where
  "memfs_alloc_inode mode s = do {
     (i, s) \<leftarrow> vfs_new_inode mode s;
     if i = 0 then Some (0, s)
     else do {
       (p, s) \<leftarrow> kmalloc 12 s;
       if p = 0 then do { s \<leftarrow> kfree i s; Some (0, s) }
       else (let s = upd_mino p (\<lambda>_. \<lparr>mi_size = 0, mi_capacity = 0, mi_data = 0\<rparr>) s
             in Some (i, upd_inode i (\<lambda>x. x\<lparr>i_private := p, i_fop := None\<rparr>) s))
     }
   }"

definition memfs_create :: "u32 \<Rightarrow> u32 \<Rightarrow> u32 \<Rightarrow> 'a memfs_state_scheme \<Rightarrow> (int \<times> 'a memfs_state_scheme) option" where
  "memfs_create dir d mode s = do {
     (i, s) \<leftarrow> memfs_alloc_inode mode s;
     if i = 0 then Some (-1, s)
     else Some (0, upd_dentry d (\<lambda>x. x\<lparr>d_inode := i\<rparr>) (upd_inode i (\<lambda>x. x\<lparr>i_fop := Some Memfs_fops\<rparr>) s))
   }"

text \<open>The private data of the inode of an open file; \<^const>\<open>None\<close> where the code returns -1.\<close>

definition file_private :: "u32 \<Rightarrow> 'a fs_state_scheme \<Rightarrow> u32 option" where
  "file_private filp s =
     (if filp = 0 \<or> f_dentry (files s filp) = 0 \<or> d_inode (dentries s (f_dentry (files s filp))) = 0 then None
      else nonnull (i_private (inodes s (d_inode (dentries s (f_dentry (files s filp)))))))"

definition memfs_read :: "u32 \<Rightarrow> u32 \<Rightarrow> u32 \<Rightarrow> 'a memfs_state_scheme \<Rightarrow> (int \<times> 'a memfs_state_scheme) option" where
  "memfs_read filp buf len s = (case file_private filp s of None \<Rightarrow> Some (-1, s) | Some p \<Rightarrow>
     (let x = mino s p; off = f_pos (files s filp) in
      if mi_data x = 0 then Some (-1, s)
      else do {
        let avail = (if ucast (mi_size x) > off then ucast (ucast (mi_size x) - off) else 0);
        let len = (if len > avail then avail else len);
        s \<leftarrow> copy_bytes buf (mi_data x + ucast off) len s;
        Some (sint len, upd_file filp (\<lambda>f. f\<lparr>f_pos := f_pos f + ucast len\<rparr>) s)
      }))"

text \<open>\<open>while (cap < need) cap *= 2;\<close>\<close>

partial_function (option) grow_cap :: "u32 \<Rightarrow> u32 \<Rightarrow> u32 option" where
  "grow_cap need cap = (if cap < need then grow_cap need (cap * 2) else Some cap)"

declare grow_cap.simps [code]

text \<open>The growth of the buffer to at least \<open>need\<close> bytes; 0 on success.\<close>

definition memfs_grow :: "u32 \<Rightarrow> u32 \<Rightarrow> 'a memfs_state_scheme \<Rightarrow> (int \<times> 'a memfs_state_scheme) option" where
  "memfs_grow p need s =
     (if need > mi_capacity (mino s p) then do {
        cap \<leftarrow> grow_cap need (if mi_capacity (mino s p) \<noteq> 0 then mi_capacity (mino s p) else 64);
        (nd, s) \<leftarrow> kmalloc cap s;
        if nd = 0 then Some (-1, s)
        else do {
          s \<leftarrow> (if mi_data (mino s p) \<noteq> 0 then do {
                  s \<leftarrow> copy_bytes nd (mi_data (mino s p)) (mi_size (mino s p)) s;
                  kfree (mi_data (mino s p)) s
                }
                else Some s);
          Some (0, upd_mino p (\<lambda>x. x\<lparr>mi_data := nd, mi_capacity := cap\<rparr>) s)
        }
      }
      else Some (0, s))"

definition memfs_write :: "u32 \<Rightarrow> u32 \<Rightarrow> u32 \<Rightarrow> 'a memfs_state_scheme \<Rightarrow> (int \<times> 'a memfs_state_scheme) option" where
  "memfs_write filp buf len s = (case file_private filp s of None \<Rightarrow> Some (-1, s) | Some p \<Rightarrow>
     do {
       let off = f_pos (files s filp);
       (r, s) \<leftarrow> memfs_grow p (ucast off + len) s;
       if r \<noteq> 0 then Some (-1, s)
       else do {
         s \<leftarrow> copy_bytes (mi_data (mino s p) + ucast off) buf len s;
         let s = upd_file filp (\<lambda>f. f\<lparr>f_pos := f_pos f + ucast len\<rparr>) s;
         let off = f_pos (files s filp);
         let s = (if off > ucast (mi_size (mino s p)) then upd_mino p (\<lambda>x. x\<lparr>mi_size := ucast off\<rparr>) s else s);
         Some (sint len, s)
       }
     })"

definition memfs_open :: "u32 \<Rightarrow> u32 \<Rightarrow> 'a memfs_state_scheme \<Rightarrow> int \<times> 'a memfs_state_scheme" where
  "memfs_open ino filp s =
     (let p = i_private (inodes s ino) in
      if p = 0 then (-1, s)
      else if f_flags (files s filp) AND O_TRUNC \<noteq> 0
      then (0, upd_file filp (\<lambda>f. f\<lparr>f_pos := 0\<rparr>) (upd_mino p (\<lambda>x. x\<lparr>mi_size := 0\<rparr>) s))
      else (0, s))"

definition memfs_release :: "u32 \<Rightarrow> u32 \<Rightarrow> 'a memfs_state_scheme \<Rightarrow> int \<times> 'a memfs_state_scheme" where
  "memfs_release ino filp s = (0, s)"

definition memfs_mount :: "'a memfs_state_scheme \<Rightarrow> (u32 \<times> 'a memfs_state_scheme) option" where
  "memfs_mount s =
     (if memfs_sb s \<noteq> 0 then Some (memfs_sb s, s)
      else do {
        (sb, s) \<leftarrow> kmalloc 20 s;
        if sb = 0 then Some (0, s)
        else do {
          let s = upd_sb sb (\<lambda>_. zero_sb) s;
          (ri, s) \<leftarrow> memfs_alloc_inode (S_IFDIR OR 0x1ED) s;
          if ri = 0 then do { s \<leftarrow> kfree sb s; Some (0, s) }
          else do {
            let s = upd_inode ri (\<lambda>x. x\<lparr>i_op := Some Memfs_iops\<rparr>) s;
            (rd, s) \<leftarrow> vfs_new_dentry ''/'' ri 0 s;
            if rd = 0 then do {
              s \<leftarrow> kfree (i_private (inodes s ri)) s;
              s \<leftarrow> kfree ri s;
              s \<leftarrow> kfree sb s;
              Some (0, s)
            }
            else Some (sb, (upd_sb sb (\<lambda>x. x\<lparr>s_root := rd\<rparr>) s)\<lparr>memfs_sb := sb\<rparr>)
          }
        }
      })"

section \<open>Growth of the buffer\<close>

definition pow2_cap :: "u32 \<Rightarrow> bool" where
  "pow2_cap c \<longleftrightarrow> (\<exists>k < 32. c = 2 ^ k)"

lemma pow2_cap_le: "pow2_cap c \<Longrightarrow> c \<le> 0x80000000"
proof -
  assume "pow2_cap c"
  then obtain k where k: "k < 32" "c = 2 ^ k" by (auto simp: pow2_cap_def)
  have "unat c = 2 ^ k" using k unat_of_nat32 [of "2 ^ k"] power_strict_increasing [of k 32 "2 :: nat"] by simp
  also have "\<dots> \<le> 2 ^ 31" using k(1) by (intro power_increasing) auto
  finally show ?thesis by (simp add: word_le_nat_alt)
qed

lemma pow2_cap_double: "pow2_cap c \<Longrightarrow> c * 2 = 0 \<or> pow2_cap (c * 2)"
proof -
  assume "pow2_cap c"
  then obtain k where k: "k < 32" "c = 2 ^ k" by (auto simp: pow2_cap_def)
  then have d: "c * 2 = 2 ^ Suc k" by simp
  show ?thesis
  proof (cases "k = 31")
    case True
    then show ?thesis using k by simp
  next
    case False
    then show ?thesis using k d by (intro disjI2) (auto simp: pow2_cap_def intro!: exI [of _ "Suc k"])
  qed
qed

lemma grow_cap_diverges:
  assumes "0x80000000 < need" "cap = 0 \<or> pow2_cap cap"
  shows "grow_cap need cap = None"
proof -
  have "\<not> (0x80000000 < need \<and> (cap = 0 \<or> pow2_cap cap))" if "grow_cap need cap = Some c" for c
  proof (rule grow_cap.raw_induct [where P = "\<lambda>need cap c. \<not> (0x80000000 < need \<and> (cap = 0 \<or> pow2_cap cap))", OF _ that])
    fix f :: "u32 \<Rightarrow> u32 \<Rightarrow> u32 option" and need cap c :: u32
    assume IH: "\<And>need cap c. f need cap = Some c \<Longrightarrow> \<not> (0x80000000 < need \<and> (cap = 0 \<or> pow2_cap cap))"
      and r: "(if cap < need then f need (cap * 2) else Some cap) = Some c"
    show "\<not> (0x80000000 < need \<and> (cap = 0 \<or> pow2_cap cap))"
    proof
      assume a: "0x80000000 < need \<and> (cap = 0 \<or> pow2_cap cap)"
      then have "cap < need" using pow2_cap_le [of cap] by (auto intro: le_less_trans word_gt_0 [THEN iffD2])
      then have "f need (cap * 2) = Some c" using r by simp
      from IH [OF this] a pow2_cap_double show False by auto
    qed
  qed
  then show ?thesis using assms by (cases "grow_cap need cap") auto
qed

lemma grow_cap_returns:
  "need \<le> 0x80000000 \<Longrightarrow> 0 < cap \<Longrightarrow>
   \<exists>c. grow_cap need cap = Some c \<and> need \<le> c \<and> (c = cap \<or> unat c < 2 * unat need)"
proof (induction "unat need - unat cap" arbitrary: cap rule: less_induct)
  case less
  show ?case
  proof (cases "cap < need")
    case False
    then have "grow_cap need cap = Some cap" by (subst grow_cap.simps) simp
    then show ?thesis using False by (simp add: not_less)
  next
    case True
    have n: "unat need \<le> 0x80000000" "unat cap < unat need" "0 < unat cap"
      using less.prems True by (simp_all add: word_le_nat_alt word_less_nat_alt)
    then have u: "unat (cap * 2) = 2 * unat cap" by (simp add: unat_mult_lem [THEN iffD1] mult.commute)
    have "0 < cap * 2" using u n by (simp add: word_less_nat_alt)
    moreover have "unat need - unat (cap * 2) < unat need - unat cap" using u n by simp
    ultimately obtain c where c: "grow_cap need (cap * 2) = Some c" "need \<le> c" "c = cap * 2 \<or> unat c < 2 * unat need"
      using less.hyps [of "cap * 2"] less.prems(1) by auto
    then have "unat c < 2 * unat need" using u n by auto
    then show ?thesis using c True by (subst grow_cap.simps) simp
  qed
qed

section \<open>Properties\<close>

text \<open>
  C28: The loop that doubles the capacity of a file, which starts from a power of two, returns exactly when at
  most 2 GiB are needed; the result then holds the data and is less than twice the need, or is the old
  capacity. For more it never returns: the doubling wraps to 0 and stays there.
\<close>

theorem memfs_growth_returns_iff:
  assumes "pow2_cap cap"
  shows "if need \<le> 0x80000000
    then \<exists>c. grow_cap need cap = Some c \<and> need \<le> c \<and> (c = cap \<or> unat c < 2 * unat need)
    else grow_cap need cap = None"
proof -
  have "0 < cap" using assms by (auto simp: pow2_cap_def word_gt_0)
  then show ?thesis using grow_cap_returns [of need cap] grow_cap_diverges [of need cap] assms by auto
qed

theorem memfs_growth_returns_iff_witness: "grow_cap 0x80000001 64 = None \<and> grow_cap 100 64 \<noteq> None"
proof -
  have "pow2_cap 64" by (auto simp: pow2_cap_def intro!: exI [of _ 6])
  from memfs_growth_returns_iff [OF this, of "0x80000001"] memfs_growth_returns_iff [OF this, of 100]
  show ?thesis by auto
qed

end
