(* ===== verification/Tar.thy ===== *)
theory Tar
  imports Prelude "HOL-Library.Sublist"
begin

text \<open>
  The reader of ustar archives, \<open>fs/tar.c\<close>. The block reader is the argument the C code passes as a
  function pointer: \<open>rd blk st\<close> gives the result code, the 512 bytes of a block and the state after it.
  Bytes of names become characters as in the C code, where both are \<open>char\<close>.
\<close>

section \<open>Model\<close>

abbreviation TAR_BLOCK_SIZE :: u32 where "TAR_BLOCK_SIZE \<equiv> 512"

definition TAR_MAGIC :: "u8 list" where
  "TAR_MAGIC = [0x75, 0x73, 0x74, 0x61, 0x72]"

record tar_entry =
  te_name :: string
  te_type :: u8
  te_offset :: u32
  te_size :: u32

definition char_of_u8 :: "u8 \<Rightarrow> char" where
  "char_of_u8 b = char_of (unat b)"

definition u8_of_char :: "char \<Rightarrow> u8" where
  "u8_of_char c = of_nat (of_char c)"

text \<open>The loop of \<open>tar_octal\<close> over the bytes of a field: it stops at a zero byte or one that is no octal digit.\<close>

fun octal_loop :: "u8 list \<Rightarrow> u32 \<Rightarrow> u32" where
  "octal_loop [] val = val"
| "octal_loop (c # cs) val =
     (if c = 0 then val
      else if c \<ge> 48 \<and> c \<le> 55 then octal_loop cs (push_bit 3 val OR ucast (c - 48))
      else val)"

definition tar_octal :: "u8 list \<Rightarrow> u32" where
  "tar_octal s = octal_loop s 0"

text \<open>\<open>tar_skip_name\<close> advances its own copy of the pointer: the caller's name does not change.\<close>

definition tar_skip_name :: "string \<Rightarrow> string" where
  "tar_skip_name name = name"

definition tar_next_entry ::
  "(u32 \<Rightarrow> 's \<Rightarrow> (int \<times> u8 list \<times> 's) option) \<Rightarrow> u32 \<Rightarrow> 's \<Rightarrow> ((u32 \<times> tar_entry) option \<times> 's) option" where
  "tar_next_entry rd blk st = do {
     (r, hdr, st) \<leftarrow> rd blk st;
     if r \<noteq> 0 then Some (None, st)
     else if take 5 (drop 257 hdr) \<noteq> TAR_MAGIC then Some (None, st)
     else if hdr ! 0 = 0 then Some (None, st)
     else do {
       let name = map char_of_u8 (takeWhile (\<lambda>b. b \<noteq> 0) (take 99 hdr));
       let size = tar_octal (take 12 (drop 124 hdr));
       let data_off = (blk + 1) * TAR_BLOCK_SIZE;
       let padding = (TAR_BLOCK_SIZE - size mod TAR_BLOCK_SIZE) mod TAR_BLOCK_SIZE;
       Some (Some (data_off div TAR_BLOCK_SIZE + (size + padding) div TAR_BLOCK_SIZE,
                   \<lparr>te_name = name, te_type = hdr ! 156, te_offset = data_off, te_size = size\<rparr>), st)
     }
   }"

partial_function (option) tar_find_loop ::
  "(u32 \<Rightarrow> 's \<Rightarrow> (int \<times> u8 list \<times> 's) option) \<Rightarrow> string \<Rightarrow> u32 \<Rightarrow> 's \<Rightarrow> (tar_entry option \<times> 's) option" where
  "tar_find_loop rd nm blk st =
     Option.bind (tar_next_entry rd blk st) (\<lambda>(r, st).
       case r of None \<Rightarrow> Some (None, st)
       | Some (blk, e) \<Rightarrow> if tar_skip_name (te_name e) = nm then Some (Some e, st) else tar_find_loop rd nm blk st)"

declare tar_find_loop.simps [code]

definition tar_find_entry ::
  "(u32 \<Rightarrow> 's \<Rightarrow> (int \<times> u8 list \<times> 's) option) \<Rightarrow> string \<Rightarrow> 's \<Rightarrow> (tar_entry option \<times> 's) option" where
  "tar_find_entry rd nm st = tar_find_loop rd nm 0 st"

section \<open>Octal fields\<close>

text \<open>The \<open>k\<close> octal digits of a number as ASCII, most significant first: how an archive writes a size.\<close>

primrec octal_digits :: "nat \<Rightarrow> nat \<Rightarrow> u8 list" where
  "octal_digits 0 n = []"
| "octal_digits (Suc k) n = octal_digits k (n div 8) @ [48 + of_nat (n mod 8)]"

lemma shift_or_digit:
  fixes v d :: u32
  assumes "d < 8"
  shows "push_bit 3 v OR d = 8 * v + d"
proof -
  have "\<not> bit d n" if "3 \<le> n" for n
  proof -
    have "d = take_bit 3 d" using assms by (simp add: take_bit_eq_mod word_mod_less_divisor less_eq_word_def)
      (metis assms mod_word_less)
    then show ?thesis using that by (metis bit_take_bit_iff leD)
  qed
  then have "push_bit 3 v AND d = 0" by (auto simp: bit_eq_iff bit_and_iff bit_push_bit_iff)
  then have "push_bit 3 v + d = push_bit 3 v OR d" by (rule disjunctive_add_eq_or)
  then show ?thesis by (simp add: push_bit_eq_mult mult.commute)
qed

lemma octal_step:
  assumes "d < 8"
  shows "octal_loop ((48 + of_nat d) # cs) v = octal_loop cs (8 * v + of_nat d)"
proof -
  have u: "unat (of_nat d :: u8) = d" using assms by (simp add: unat_of_nat)
  have c: "unat (48 + of_nat d :: u8) = 48 + d" using assms u by (simp add: unat_word_ariths)
  have "48 + of_nat d - 48 = (of_nat d :: u8)" by simp
  moreover have "ucast (of_nat d :: u8) = (of_nat d :: u32)"
    using assms by (intro word_unat_eq_iff [THEN iffD2]) (simp add: unat_of_nat unsigned_ucast_eq take_bit_eq_mod)
  moreover have "(of_nat d :: u32) < 8" using assms by (simp add: word_less_nat_alt unat_of_nat)
  moreover have "48 + of_nat d \<noteq> (0 :: u8)" "(48 :: u8) \<le> 48 + of_nat d" "48 + of_nat d \<le> (55 :: u8)"
    using assms c by (auto simp: word_le_nat_alt word_unat_eq_iff)
  ultimately show ?thesis using shift_or_digit [of "of_nat d" v] by simp
qed

lemma octal_digits_loop:
  "octal_loop (octal_digits k n @ cs) v = octal_loop cs (8 ^ k * v + of_nat (n mod 8 ^ k))"
proof (induction k arbitrary: n v cs)
  case 0
  then show ?case by simp
next
  case (Suc k)
  have "n mod 8 ^ Suc k = 8 * (n div 8 mod 8 ^ k) + n mod 8"
    by (simp add: mod_mult2_eq mult.commute)
  then have "(of_nat (n mod 8 ^ Suc k) :: u32) = 8 * of_nat (n div 8 mod 8 ^ k) + of_nat (n mod 8)"
    by (simp only: of_nat_add of_nat_mult) simp
  then show ?case using octal_step [of "n mod 8"] by (simp add: Suc.IH algebra_simps)
qed

lemma tar_octal_digits: "n < 8 ^ k \<Longrightarrow> tar_octal (octal_digits k n @ [0]) = of_nat n"
  using octal_digits_loop [of k n "[0]" 0] by (simp add: tar_octal_def)

lemma length_octal_digits [simp]: "length (octal_digits k n) = k"
  by (induction k arbitrary: n) auto

section \<open>Headers\<close>

text \<open>A ustar header: name, size in octal, type and magic at their offsets. The fields that the kernel
  does not read are zero.\<close>

definition pad :: "nat \<Rightarrow> u8 list \<Rightarrow> u8 list" where
  "pad n bs = bs @ replicate (n - length bs) 0"

definition ustar_header :: "string \<Rightarrow> u8 \<Rightarrow> nat \<Rightarrow> u8 list" where
  "ustar_header name ty sz =
     pad 124 (map u8_of_char name) @ octal_digits 11 sz @ [0] @ pad 20 [] @ [ty] @ pad 100 [] @ TAR_MAGIC @ pad 250 []"

lemma unat_u8_of_char: "unat (u8_of_char c) = of_char c"
proof -
  have "of_char c < (256 :: nat)" by simp
  then show ?thesis unfolding u8_of_char_def by (simp only: unat_of_nat) simp
qed

lemma char_of_u8_of_char [simp]: "char_of_u8 (u8_of_char c) = c"
  by (simp add: char_of_u8_def unat_u8_of_char)

lemma u8_of_char_zero: "u8_of_char c = 0 \<longleftrightarrow> c = CHR 0x00"
proof
  assume "u8_of_char c = 0"
  then have "(of_char c :: nat) = 0" using unat_u8_of_char [of c] by simp
  then have "c = char_of (0 :: nat)" by (metis char_of_char)
  then show "c = CHR 0x00" by (simp add: char_of_def)
next
  assume "c = CHR 0x00"
  then show "u8_of_char c = 0" by (simp add: u8_of_char_def)
qed

lemma pad_length: "length bs \<le> n \<Longrightarrow> length (pad n bs) = n"
  by (simp add: pad_def)

lemma header_fields:
  assumes "length name \<le> 99"
  shows "length (ustar_header name ty sz) = 512" "ustar_header name ty sz ! 156 = ty"
    "take 5 (drop 257 (ustar_header name ty sz)) = TAR_MAGIC"
    "take 12 (drop 124 (ustar_header name ty sz)) = octal_digits 11 sz @ [0]"
    "take 99 (ustar_header name ty sz) = pad 99 (map u8_of_char name)"
proof -
  let ?n = "pad 124 (map u8_of_char name)"
  have n: "length ?n = 124" using assms by (simp add: pad_length)
  show "length (ustar_header name ty sz) = 512" using n by (simp add: ustar_header_def pad_length TAR_MAGIC_def)
  show "ustar_header name ty sz ! 156 = ty"
    using n by (simp add: ustar_header_def nth_append pad_length)
  show "take 5 (drop 257 (ustar_header name ty sz)) = TAR_MAGIC"
    using n by (simp add: ustar_header_def pad_length TAR_MAGIC_def)
  show "take 12 (drop 124 (ustar_header name ty sz)) = octal_digits 11 sz @ [0]"
    using n by (simp add: ustar_header_def)
  show "take 99 (ustar_header name ty sz) = pad 99 (map u8_of_char name)"
    using assms n by (simp add: ustar_header_def pad_def take_replicate min_def)
qed

lemma takeWhile_pad: "0 \<notin> set bs \<Longrightarrow> takeWhile (\<lambda>b. b \<noteq> 0) (pad n bs) = bs"
  by (induction bs) (auto simp: pad_def takeWhile_append takeWhile_replicate)

text \<open>The number of blocks that a file of \<open>n\<close> bytes takes.\<close>

definition data_blocks :: "nat \<Rightarrow> nat" where
  "data_blocks n = (n + 511) div 512"

lemma data_blocks_pad: "(n + (512 - n mod 512) mod 512) div 512 = data_blocks n"
proof (cases "n mod 512 = 0")
  case True
  then obtain q where "n = 512 * q" by auto
  then show ?thesis by (simp add: data_blocks_def)
next
  case False
  define q r where "q = n div 512" and "r = n mod 512"
  have n: "n = 512 * q + r" "0 < r" "r < 512" using False by (auto simp: q_def r_def)
  have "n + (512 - r) = 512 * (q + 1)" "n + 511 = 512 * (q + 1) + (r - 1)" using n by auto
  moreover have "(512 * (q + 1) + (r - 1)) div 512 = q + 1" using n(3) by (simp add: div_mult_self4 [symmetric] del: div_mult_self4)
  ultimately show ?thesis using n by (simp add: data_blocks_def r_def [symmetric])
qed

lemma padded_blocks:
  assumes "n + 511 < 4294967296"
  shows "((of_nat n :: u32) + (512 - of_nat n mod 512) mod 512) div 512 = of_nat (data_blocks n)"
proof -
  let ?w = "of_nat n :: u32"
  have w: "unat ?w = n" using assms by (simp add: unat_of_nat32)
  have m: "unat (?w mod 512) = n mod 512" by (simp add: unat_mod w)
  have "unat (512 - ?w mod 512) = 512 - n mod 512"
    using m by (subst unat_sub) (simp_all add: word_le_nat_alt)
  then have p: "unat ((512 - ?w mod 512) mod 512) = (512 - n mod 512) mod 512" by (simp add: unat_mod)
  have b: "(512 - n mod 512) mod 512 \<le> 511" by (simp add: less_Suc_eq_le [symmetric])
  have "unat (?w + (512 - ?w mod 512) mod 512) = n + (512 - n mod 512) mod 512"
    using w p b assms by (subst unat_add32) simp_all
  moreover have "(n + (512 - n mod 512) mod 512) div 512 = data_blocks n"
    by (rule data_blocks_pad)
  ultimately have "unat ((?w + (512 - ?w mod 512) mod 512) div 512) = data_blocks n" by (simp add: unat_div)
  moreover have "data_blocks n < 4294967296" using assms by (simp add: data_blocks_def)
  ultimately show ?thesis by (simp add: word_unat_eq_iff unat_of_nat32)
qed

section \<open>Properties\<close>

text \<open>C26: Reading the header of a ustar archive gives back the name, type and size that were written, the
  offset of the file's data, and the number of the block behind the data, where the next header is.\<close>

theorem tar_header_roundtrip:
  assumes "length name \<le> 99" "name \<noteq> []" "CHR 0x00 \<notin> set name" "n + 511 < 4294967296"
    "unat blk + 1 + data_blocks n < 8388608" "rd blk st = Some (0, ustar_header name ty n, st')"
  shows "tar_next_entry rd blk st =
    Some (Some (blk + 1 + of_nat (data_blocks n),
                \<lparr>te_name = name, te_type = ty, te_offset = (blk + 1) * 512, te_size = of_nat n\<rparr>), st')"
proof -
  let ?h = "ustar_header name ty n"
  note h = header_fields [OF assms(1), of ty n]
  have "u8_of_char c \<noteq> 0" if "c \<in> set name" for c using that assms(3) by (auto simp: u8_of_char_zero)
  then have z: "0 \<notin> set (map u8_of_char name)" by force
  have nm: "takeWhile (\<lambda>b. b \<noteq> 0) (take 99 ?h) = map u8_of_char name" unfolding h(5) by (rule takeWhile_pad [OF z])
  have f: "?h ! 0 \<noteq> 0" using z assms(2) by (cases name) (simp_all add: ustar_header_def pad_def)
  have sz: "tar_octal (take 12 (drop 124 ?h)) = of_nat n"
    unfolding h(4) using assms(4) by (intro tar_octal_digits) simp
  have "unat ((blk + 1) * 512) = (unat blk + 1) * 512"
    using assms(5) by (simp add: unat_word_ariths)
  then have "unat ((blk + 1) * 512 div 512) = unat (blk + 1)"
    using assms(5) by (simp add: unat_div unat_word_ariths)
  then have d: "(blk + 1) * 512 div 512 = blk + 1" by (simp only: word_unat_eq_iff)
  have c: "char_of_u8 \<circ> u8_of_char = id" by (simp add: fun_eq_iff)
  show ?thesis using h(2,3) f nm sz d padded_blocks [OF assms(4)] assms(6)
    by (simp add: tar_next_entry_def Let_def c)
qed

text \<open>The beginning of an archive with one file of 1000 bytes.\<close>

definition demo_reader :: "u32 \<Rightarrow> unit \<Rightarrow> (int \<times> u8 list \<times> unit) option" where
  "demo_reader blk st = Some (if blk = 0 then 0 else -1, ustar_header ''init'' 0x30 1000, st)"

theorem tar_header_roundtrip_witness:
  "tar_next_entry demo_reader 0 () =
     Some (Some (3, \<lparr>te_name = ''init'', te_type = 0x30, te_offset = 512, te_size = 1000\<rparr>), ())"
  using tar_header_roundtrip [of "''init''" 1000 0 demo_reader "()" "0x30" "()"]
  by (simp add: demo_reader_def data_blocks_def)

text \<open>The size field of an archive has eleven octal digits; \<open>tar_octal\<close> returns the number modulo
  \<open>2^32\<close>, so a file of 4 GiB or more gets a wrong size without an error.\<close>

theorem tar_octal_wraps:
  "n < 8 ^ 11 \<Longrightarrow> unat (tar_octal (octal_digits 11 n @ [0])) = n mod 4294967296"
  by (simp add: tar_octal_digits unat_of_nat)

theorem tar_octal_wraps_witness: "unat (tar_octal (octal_digits 11 4294967301 @ [0])) = 5"
  using tar_octal_wraps [of 4294967301] by simp

end
