(* ===== verification/Ramfs.thy ===== *)
theory Ramfs
  imports Memfs Tar
begin

text \<open>
  The read-only file system over a tar image in memory, \<open>fs/ramfs.c\<close>: every regular file of the archive
  becomes a child of the root, and its data stays where it is in the image.
\<close>

section \<open>Model\<close>

record ramfs_inode =
  ri_size :: u32
  ri_data :: u32

record ramfs_state = memfs_state +
  rino :: "u32 \<Rightarrow> ramfs_inode"
  ramfs_sb :: u32

definition upd_rino :: "u32 \<Rightarrow> (ramfs_inode \<Rightarrow> ramfs_inode) \<Rightarrow> 'a ramfs_state_scheme \<Rightarrow> 'a ramfs_state_scheme" where
  "upd_rino p f s = s\<lparr>rino := (rino s)(p := f (rino s p))\<rparr>"

definition ramfs_block_read :: "u32 \<Rightarrow> u32 \<Rightarrow> u32 \<Rightarrow> 'a ramfs_state_scheme \<Rightarrow> (int \<times> u8 list \<times> 'a ramfs_state_scheme) option" where
  "ramfs_block_read img nblk blk s = do {
     bs \<leftarrow> load_bytes (unat (nblk * TAR_BLOCK_SIZE)) (img + blk * TAR_BLOCK_SIZE) s;
     Some (0, bs, s)
   }"

definition ramfs_alloc_inode :: "u32 \<Rightarrow> 'a ramfs_state_scheme \<Rightarrow> (u32 \<times> 'a ramfs_state_scheme) option" where
  "ramfs_alloc_inode mode s = do {
     (i, s) \<leftarrow> vfs_new_inode mode s;
     if i = 0 then Some (0, s)
     else do {
       (p, s) \<leftarrow> kmalloc 8 s;
       if p = 0 then do { s \<leftarrow> kfree i s; Some (0, s) }
       else (let s = upd_rino p (\<lambda>_. \<lparr>ri_size = 0, ri_data = 0\<rparr>) s
             in Some (i, upd_inode i (\<lambda>x. x\<lparr>i_private := p\<rparr>) s))
     }
   }"

definition ramfs_read :: "u32 \<Rightarrow> u32 \<Rightarrow> u32 \<Rightarrow> 'a ramfs_state_scheme \<Rightarrow> (int \<times> 'a ramfs_state_scheme) option" where
  "ramfs_read filp buf len s = (case file_private filp s of None \<Rightarrow> Some (-1, s) | Some p \<Rightarrow>
     (let x = rino s p; off = f_pos (files s filp) in
      if ri_data x = 0 then Some (-1, s)
      else do {
        let avail = (if ucast (ri_size x) > off then ucast (ucast (ri_size x) - off) else 0);
        let len = (if len > avail then avail else len);
        s \<leftarrow> copy_bytes buf (ri_data x + ucast off) len s;
        Some (sint len, upd_file filp (\<lambda>f. f\<lparr>f_pos := f_pos f + ucast len\<rparr>) s)
      }))"

text \<open>The body of the loop over the archive's entries.\<close>

definition ramfs_add_entry :: "u32 \<Rightarrow> u32 \<Rightarrow> tar_entry \<Rightarrow> 'a ramfs_state_scheme \<Rightarrow> 'a ramfs_state_scheme option" where
  "ramfs_add_entry img rd e s =
     (if te_type e \<noteq> 0x30 \<and> te_type e \<noteq> 0 then Some s
      else do {
        (i, s) \<leftarrow> ramfs_alloc_inode (S_IFREG OR 0x1A4) s;
        if i = 0 then Some s
        else do {
          let s = upd_rino (i_private (inodes s i)) (\<lambda>x. x\<lparr>ri_size := te_size e, ri_data := img + te_offset e\<rparr>) s;
          let s = upd_inode i (\<lambda>x. x\<lparr>i_size := te_size e, i_fop := Some Ramfs_fops\<rparr>) s;
          (d, s) \<leftarrow> vfs_new_dentry (te_name e) i rd s;
          if d = 0 then do { s \<leftarrow> kfree (i_private (inodes s i)) s; kfree i s } else Some s
        }
      })"

partial_function (option) ramfs_fill_loop :: "u32 \<Rightarrow> u32 \<Rightarrow> u32 \<Rightarrow> 'a ramfs_state_scheme \<Rightarrow> 'a ramfs_state_scheme option" where
  "ramfs_fill_loop img rd blk s =
     Option.bind (tar_next_entry (ramfs_block_read img 1) blk s) (\<lambda>(r, s).
       case r of None \<Rightarrow> Some s
       | Some (blk, e) \<Rightarrow> Option.bind (ramfs_add_entry img rd e s) (\<lambda>s. ramfs_fill_loop img rd blk s))"

declare ramfs_fill_loop.simps [code]

definition ramfs_fill_super :: "u32 \<Rightarrow> u32 \<Rightarrow> 'a ramfs_state_scheme \<Rightarrow> (int \<times> 'a ramfs_state_scheme) option" where
  "ramfs_fill_super sb img s =
     (if sb = 0 \<or> img = 0 then Some (-1, s)
      else do {
        (ri, s) \<leftarrow> ramfs_alloc_inode (S_IFDIR OR 0x1ED) s;
        if ri = 0 then Some (-1, s)
        else do {
          let s = upd_inode ri (\<lambda>x. x\<lparr>i_op := Some Ramfs_iops\<rparr>) s;
          (rd, s) \<leftarrow> vfs_new_dentry ''/'' ri 0 s;
          if rd = 0 then do {
            s \<leftarrow> kfree (i_private (inodes s ri)) s;
            s \<leftarrow> kfree ri s;
            Some (-1, s)
          }
          else do {
            s \<leftarrow> ramfs_fill_loop img rd 0 (upd_sb sb (\<lambda>x. x\<lparr>s_root := rd\<rparr>) s);
            Some (0, s)
          }
        }
      })"

definition ramfs_mount :: "u32 \<Rightarrow> 'a ramfs_state_scheme \<Rightarrow> (u32 \<times> 'a ramfs_state_scheme) option" where
  "ramfs_mount img s =
     (if ramfs_sb s \<noteq> 0 then Some (ramfs_sb s, s)
      else do {
        (sb, s) \<leftarrow> kmalloc 20 s;
        if sb = 0 then Some (0, s)
        else do {
          (r, s) \<leftarrow> ramfs_fill_super sb img (upd_sb sb (\<lambda>_. zero_sb\<lparr>s_fs_info := Image img\<rparr>) s);
          if r \<noteq> 0 then do { s \<leftarrow> kfree sb s; Some (0, s) }
          else Some (sb, s\<lparr>ramfs_sb := sb\<rparr>)
        }
      })"

end
