(* ===== verification/Bdev.thy ===== *)
theory Bdev
  imports Ata Ramfs
begin

text \<open>
  Block devices, \<open>fs/bdev.c\<close>, and their registration by \<open>ata_init\<close>. The two static devices of the ATA
  driver are numbers: 0 is the master, 1 the slave. The only functions a \<open>read\<close> or \<open>write\<close> field can point
  to are those of the ATA driver. Sector buffers are lists of bytes.
\<close>

section \<open>State\<close>

record block_device =
  bd_name :: string
  bd_blocks :: u32
  bd_block_size :: u32
  bd_read :: bool
  bd_write :: bool
  bd_private :: "nat option"

record deferred_write =
  dw_lba :: u64
  dw_data :: "u8 list"
  dw_tier :: tier
  dw_next :: u32

record 'd disk_state = ramfs_state +
  disk :: 'd
  ata_devs :: "nat \<Rightarrow> ata_device"
  bdevs :: "nat \<Rightarrow> block_device"
  bdev_table :: "nat \<Rightarrow> nat option"
  bdev_count :: nat
  dwrites :: "u32 \<Rightarrow> deferred_write"
  write_pool :: u32

abbreviation BDEV_MAX :: nat where "BDEV_MAX \<equiv> 8"

section \<open>Bytes and words\<close>

definition word_bytes :: "u16 \<Rightarrow> u8 list" where
  "word_bytes w = [ucast (w AND 0xFF), ucast (drop_bit 8 w)]"

fun bytes_words :: "u8 list \<Rightarrow> u16 list" where
  "bytes_words (a # b # bs) = (ucast a OR push_bit 8 (ucast b)) # bytes_words bs"
| "bytes_words bs = []"

section \<open>The ATA functions behind a block device\<close>

definition ata_bdev_read :: "'d ata_io \<Rightarrow> nat \<Rightarrow> u64 \<Rightarrow> u32 \<Rightarrow> ('d, 'a) disk_state_scheme \<Rightarrow>
    (int \<times> u8 list \<times> ('d, 'a) disk_state_scheme) option" where
  "ata_bdev_read io b lba nsec s = (case bd_private (bdevs s b) of None \<Rightarrow> Some (-1, [], s)
     | Some v \<Rightarrow> do {
         (r, ws, d) \<leftarrow> ata_read_sectors io (ata_devs s v) (ucast lba) nsec (disk s);
         Some (r, concat (map word_bytes ws), s\<lparr>disk := d\<rparr>)
       })"

definition ata_bdev_write :: "'d ata_io \<Rightarrow> nat \<Rightarrow> u64 \<Rightarrow> u8 list \<Rightarrow> u32 \<Rightarrow> ('d, 'a) disk_state_scheme \<Rightarrow>
    (int \<times> ('d, 'a) disk_state_scheme) option" where
  "ata_bdev_write io b lba buf nsec s = (case bd_private (bdevs s b) of None \<Rightarrow> Some (-1, s)
     | Some v \<Rightarrow> do {
         (r, d) \<leftarrow> ata_write_sectors io (ata_devs s v) (ucast lba) (bytes_words buf) nsec (disk s);
         Some (r, s\<lparr>disk := d\<rparr>)
       })"

section \<open>Block devices\<close>

definition bdev_register :: "nat option \<Rightarrow> ('d, 'a) disk_state_scheme \<Rightarrow> int \<times> ('d, 'a) disk_state_scheme" where
  "bdev_register dev s =
     (if dev = None \<or> bdev_count s \<ge> BDEV_MAX then (-1, s)
      else (0, s\<lparr>bdev_table := (bdev_table s)(bdev_count s := dev), bdev_count := bdev_count s + 1\<rparr>))"

definition bdev_read :: "'d ata_io \<Rightarrow> nat option \<Rightarrow> u64 \<Rightarrow> u32 \<Rightarrow> tier \<Rightarrow> ('d, 'a) disk_state_scheme \<Rightarrow>
    (int \<times> u8 list \<times> ('d, 'a) disk_state_scheme) option" where
  "bdev_read io dev lba nsec tier s = (case dev of None \<Rightarrow> Some (-1, [], s)
     | Some b \<Rightarrow> if \<not> bd_read (bdevs s b) then Some (-1, [], s) else ata_bdev_read io b lba nsec s)"

definition bdev_write :: "'d ata_io \<Rightarrow> nat option \<Rightarrow> u64 \<Rightarrow> u8 list \<Rightarrow> u32 \<Rightarrow> tier \<Rightarrow> ('d, 'a) disk_state_scheme \<Rightarrow>
    (int \<times> ('d, 'a) disk_state_scheme) option" where
  "bdev_write io dev lba buf nsec tier s = (case dev of None \<Rightarrow> Some (-1, s)
     | Some b \<Rightarrow> if \<not> bd_write (bdevs s b) then Some (-1, s) else ata_bdev_write io b lba buf nsec s)"

definition bdev_write_deferred :: "nat option \<Rightarrow> u64 \<Rightarrow> u8 list \<Rightarrow> tier \<Rightarrow> ('d, 'a) disk_state_scheme \<Rightarrow>
    (int \<times> ('d, 'a) disk_state_scheme) option" where
  "bdev_write_deferred dev lba buf tier s = do {
     (e, s) \<leftarrow> kmalloc 528 s;
     if e = 0 then Some (-1, s)
     else (let s = s\<lparr>dwrites := (dwrites s)(e := \<lparr>dw_lba = lba, dw_data = take 512 buf, dw_tier = tier,
                                               dw_next = write_pool s\<rparr>)\<rparr>
           in Some (0, s\<lparr>write_pool := e\<rparr>))
   }"

partial_function (option) flush_loop :: "'d ata_io \<Rightarrow> nat \<Rightarrow> int \<Rightarrow> ('d, 'a) disk_state_scheme \<Rightarrow>
    (int \<times> ('d, 'a) disk_state_scheme) option" where
  "flush_loop io b ret s =
     (if write_pool s = 0 then Some (ret, s)
      else let e = write_pool s; w = dwrites s e in
        Option.bind (ata_bdev_write io b (dw_lba w) (dw_data w) 1 (s\<lparr>write_pool := dw_next w\<rparr>)) (\<lambda>(r, s).
          Option.bind (kfree e s) (\<lambda>s. flush_loop io b (if r \<noteq> 0 then -1 else ret) s)))"

declare flush_loop.simps [code]

definition bdev_flush :: "'d ata_io \<Rightarrow> nat option \<Rightarrow> ('d, 'a) disk_state_scheme \<Rightarrow>
    (int \<times> ('d, 'a) disk_state_scheme) option" where
  "bdev_flush io dev s = (case dev of None \<Rightarrow> Some (-1, s)
     | Some b \<Rightarrow> if \<not> bd_write (bdevs s b) then Some (-1, s) else flush_loop io b 0 s)"

definition bdev_lookup :: "string \<Rightarrow> ('d, 'a) disk_state_scheme \<Rightarrow> nat option" where
  "bdev_lookup name s =
     (case find (\<lambda>i. case bdev_table s i of None \<Rightarrow> False | Some b \<Rightarrow> bd_name (bdevs s b) = name)
        [0..<bdev_count s] of
        None \<Rightarrow> None | Some i \<Rightarrow> bdev_table s i)"

section \<open>Start-up\<close>

text \<open>Identification of one drive and, if it is there, its registration.\<close>

definition ata_probe :: "'d ata_io \<Rightarrow> nat \<Rightarrow> bool \<Rightarrow> string \<Rightarrow> ('d, 'a) disk_state_scheme \<Rightarrow>
    ('d, 'a) disk_state_scheme option" where
  "ata_probe io v master name s = do {
     (r, dev, d) \<leftarrow> ata_identify io (ata_devs s v) master (disk s);
     let s = s\<lparr>ata_devs := (ata_devs s)(v := dev), disk := d\<rparr>;
     Some (if r = 0 \<and> ad_present dev
           then snd (bdev_register (Some v) (s\<lparr>bdevs := (bdevs s)(v :=
                  \<lparr>bd_name = name, bd_blocks = ad_sectors dev, bd_block_size = 512, bd_read = True,
                   bd_write = True, bd_private = Some v\<rparr>)\<rparr>))
           else s)
   }"

definition ata_init :: "'d ata_io \<Rightarrow> ('d, 'a) disk_state_scheme \<Rightarrow> (int \<times> ('d, 'a) disk_state_scheme) option" where
  "ata_init io s = do {
     let s = s\<lparr>ata_devs := (ata_devs s)(0 := zero_ata, 1 := zero_ata)\<rparr>;
     s \<leftarrow> ata_probe io 0 True ''ata0'' s;
     s \<leftarrow> ata_probe io 1 False ''ata1'' s;
     Some (if \<not> ad_present (ata_devs s 0) \<and> \<not> ad_present (ata_devs s 1) then -1 else 0, s)
   }"

end
