(* ===== verification/Tarfs.thy ===== *)
theory Tarfs
  imports Bdev
begin

text \<open>
  The page cache, \<open>fs/page_cache.c\<close>, and the read-only tar file system on a block device, \<open>fs/tarfs.c\<close>,
  which reads through it. A page of the cache is a physical frame, reached through the window that maps
  physical memory at \<open>0xC0000000\<close>. The page that a caller gets is the list of its 4096 bytes, empty on
  error.
\<close>

section \<open>State\<close>

record page_cache_slot =
  pc_ino :: u32
  pc_pgoff :: u32
  pc_phys :: u32
  pc_valid :: bool
  pc_tier :: tier

record tarfs_inode =
  ti_offset :: u32
  ti_size :: u32

record 'd tarfs_state = "'d disk_state" +
  cache :: "nat \<Rightarrow> page_cache_slot"
  tino :: "u32 \<Rightarrow> tarfs_inode"
  tfile_last :: "u32 \<Rightarrow> u32"
  tarfs_bdev :: "nat option"

abbreviation PAGE_CACHE_SIZE :: nat where "PAGE_CACHE_SIZE \<equiv> 64"
abbreviation TARFS_READAHEAD :: nat where "TARFS_READAHEAD \<equiv> 4"

section \<open>The page cache\<close>

text \<open>\<open>PAGE_CACHE_SIZE\<close> stands for no slot.\<close>

definition page_cache_find :: "u32 \<Rightarrow> u32 \<Rightarrow> ('d, 'a) tarfs_state_scheme \<Rightarrow> nat" where
  "page_cache_find ino pgoff s =
     (case find (\<lambda>i. pc_valid (cache s i) \<and> pc_ino (cache s i) = ino \<and> pc_pgoff (cache s i) = pgoff)
        [0..<PAGE_CACHE_SIZE] of None \<Rightarrow> PAGE_CACHE_SIZE | Some i \<Rightarrow> i)"

definition page_cache_alloc_slot :: "('d, 'a) tarfs_state_scheme \<Rightarrow> nat" where
  "page_cache_alloc_slot s =
     (case find (\<lambda>i. \<not> pc_valid (cache s i)) [0..<PAGE_CACHE_SIZE] of None \<Rightarrow> PAGE_CACHE_SIZE | Some i \<Rightarrow> i)"

text \<open>The \<open>readpage\<close> operation of a super block: the bytes go to \<open>vaddr\<close>.\<close>

definition tarfs_readpage :: "'d ata_io \<Rightarrow> u32 \<Rightarrow> u32 \<Rightarrow> u32 \<Rightarrow> tier \<Rightarrow> ('d, 'a) tarfs_state_scheme \<Rightarrow>
    (int \<times> ('d, 'a) tarfs_state_scheme) option" where
  "tarfs_readpage io ino pgoff vaddr tier s =
     (if ino = 0 \<or> vaddr = 0 then Some (-1, s)
      else let p = i_private (inodes s ino) in
        if p = 0 then Some (-1, s)
        else let start = pgoff * 4096 in
          if start \<ge> ti_size (tino s p) then Some (-1, s)
          else do {
            let count = (if start + 4096 > ti_size (tino s p) then ti_size (tino s p) - start else 4096);
            let nsec = (count + 511) div 512;
            (r, bs, s) \<leftarrow> bdev_read io (tarfs_bdev s) (ucast ((ti_offset (tino s p) + start) div 512)) nsec tier s;
            s \<leftarrow> store_bytes bs vaddr s;
            Some (if r \<noteq> 0 then -1 else sint count, s)
          })"

definition readpage :: "'d ata_io \<Rightarrow> u32 \<Rightarrow> u32 \<Rightarrow> tier \<Rightarrow> ('d, 'a) tarfs_state_scheme \<Rightarrow>
    (int \<times> u8 list \<times> ('d, 'a) tarfs_state_scheme) option" where
  "readpage io ino pgoff tier s =
     (if ino = 0 then Some (-1, [], s)
      else let slot = page_cache_find (i_ino (inodes s ino)) pgoff s in
      if slot \<noteq> PAGE_CACHE_SIZE then do {
        let s = s\<lparr>cache := (cache s)(slot := (cache s slot)\<lparr>pc_tier := tier\<rparr>)\<rparr>;
        bs \<leftarrow> load_bytes 4096 (pc_phys (cache s slot) + 0xC0000000) s;
        Some (4096, bs, s)
      }
      else let sb = i_sb (inodes s ino) in
      if sb = 0 \<or> s_op (sblocks s sb) = None then Some (-1, [], s)
      else let slot = page_cache_alloc_slot s in
      if slot = PAGE_CACHE_SIZE then Some (-1, [], s)
      else do {
        (phys, s) \<leftarrow> alloc_page_frame s;
        if phys = 0 then Some (-1, [], s)
        else do {
          (r, s) \<leftarrow> tarfs_readpage io ino pgoff (phys + 0xC0000000) tier s;
          if r < 0 then Some (-1, [], free_page_frame phys s)
          else do {
            let s = s\<lparr>cache := (cache s)(slot := \<lparr>pc_ino = i_ino (inodes s ino), pc_pgoff = pgoff,
                        pc_phys = phys, pc_valid = True, pc_tier = tier\<rparr>)\<rparr>;
            bs \<leftarrow> load_bytes 4096 (phys + 0xC0000000) s;
            Some (4096, bs, s)
          }
        }
      })"

section \<open>Files\<close>

definition readahead :: "'d ata_io \<Rightarrow> u32 \<Rightarrow> u32 \<Rightarrow> u32 \<Rightarrow> ('d, 'a) tarfs_state_scheme \<Rightarrow> ('d, 'a) tarfs_state_scheme option" where
  "readahead io ino pgoff pgoff_end s = fold_opt (\<lambda>i s.
     if pgoff + of_nat i < pgoff_end
     then map_option (\<lambda>(r, bs, s). s) (readpage io ino (pgoff + of_nat i) TIER_KERNEL s) else Some s)
     [1..<Suc TARFS_READAHEAD] s"

text \<open>The loop over the pages of a read. \<open>off\<close> and \<open>len\<close> are fixed, \<open>tot\<close> counts the bytes copied; the
  recursion is on the number of pages left. The result is the bytes copied to the buffer, in order.\<close>

fun tarfs_read_loop :: "nat \<Rightarrow> 'd ata_io \<Rightarrow> u32 \<Rightarrow> u32 \<Rightarrow> u64 \<Rightarrow> u32 \<Rightarrow> u32 \<Rightarrow> u32 \<Rightarrow> u32 \<Rightarrow>
    ('d, 'a) tarfs_state_scheme \<Rightarrow> (u8 list \<times> u32 \<times> ('d, 'a) tarfs_state_scheme) option" where
  "tarfs_read_loop 0 io ino tf off len pgoff pgoff_end tot s = Some ([], tot, s)"
| "tarfs_read_loop (Suc n) io ino tf off len pgoff pgoff_end tot s = do {
     (ret, page, s) \<leftarrow> readpage io ino pgoff TIER_KERNEL s;
     if ret < 0 then Some ([], tot, s)
     else do {
       let page_off = (if ucast pgoff = off div 4096 then ucast (off mod 4096) else 0);
       let page_len = 4096 - page_off;
       let page_len = (if page_len > len - tot then len - tot else page_len);
       let bs = take (unat page_len) (drop (unat page_off) page);
       s \<leftarrow> (if tf \<noteq> 0 then do {
               s \<leftarrow> (if pgoff = tfile_last s tf + 1 \<and> pgoff + 1 < pgoff_end
                     then readahead io ino pgoff pgoff_end s else Some s);
               Some (s\<lparr>tfile_last := (tfile_last s)(tf := pgoff)\<rparr>)
             }
             else Some s);
       (rest, tot, s) \<leftarrow> tarfs_read_loop n io ino tf off len (pgoff + 1) pgoff_end (tot + page_len) s;
       Some (bs @ rest, tot, s)
     }
   }"

definition tarfs_read :: "'d ata_io \<Rightarrow> u32 \<Rightarrow> u32 \<Rightarrow> u32 \<Rightarrow> ('d, 'a) tarfs_state_scheme \<Rightarrow>
    (int \<times> ('d, 'a) tarfs_state_scheme) option" where
  "tarfs_read io filp buf len s = (case file_private filp s of None \<Rightarrow> Some (-1, s) | Some p \<Rightarrow>
     (let ino = d_inode (dentries s (f_dentry (files s filp)));
          off = f_pos (files s filp);
          sz = ti_size (tino s p);
          avail = (if ucast sz > off then ucast (ucast sz - off) else 0);
          len = (if len > avail then avail else len) in
      if len = 0 then Some (0, s)
      else do {
        let pgoff = ucast (off div 4096);
        let pgoff_end = ucast ((off + ucast len + 4095) div 4096);
        (bs, tot, s) \<leftarrow> tarfs_read_loop (unat pgoff_end - unat pgoff) io ino (f_private (files s filp)) off len
                          pgoff pgoff_end 0 s;
        s \<leftarrow> store_bytes bs buf s;
        Some (sint tot, upd_file filp (\<lambda>f. f\<lparr>f_pos := f_pos f + ucast tot\<rparr>) s)
      }))"

definition tarfs_open :: "u32 \<Rightarrow> u32 \<Rightarrow> ('d, 'a) tarfs_state_scheme \<Rightarrow> (int \<times> ('d, 'a) tarfs_state_scheme) option" where
  "tarfs_open ino filp s = do {
     (p, s) \<leftarrow> kmalloc 4 s;
     let s = upd_file filp (\<lambda>f. f\<lparr>f_private := p\<rparr>) s;
     if p = 0 then Some (-1, s) else Some (0, s\<lparr>tfile_last := (tfile_last s)(p := 0)\<rparr>)
   }"

definition tarfs_release :: "u32 \<Rightarrow> u32 \<Rightarrow> ('d, 'a) tarfs_state_scheme \<Rightarrow> (int \<times> ('d, 'a) tarfs_state_scheme) option" where
  "tarfs_release ino filp s =
     (if f_private (files s filp) \<noteq> 0 then do {
        s \<leftarrow> kfree (f_private (files s filp)) s;
        Some (0, upd_file filp (\<lambda>f. f\<lparr>f_private := 0\<rparr>) s)
      }
      else Some (0, s))"

section \<open>Mounting\<close>

definition tarfs_block_read :: "'d ata_io \<Rightarrow> nat option \<Rightarrow> u32 \<Rightarrow> u32 \<Rightarrow> ('d, 'a) tarfs_state_scheme \<Rightarrow>
    (int \<times> u8 list \<times> ('d, 'a) tarfs_state_scheme) option" where
  "tarfs_block_read io dev nblk blk s = bdev_read io dev (ucast blk) nblk TIER_KERNEL s"

text \<open>The body of the loop over the archive; the flag says that the loop is left.\<close>

definition tarfs_add_entry :: "u32 \<Rightarrow> u32 \<Rightarrow> tar_entry \<Rightarrow> ('d, 'a) tarfs_state_scheme \<Rightarrow>
    (bool \<times> ('d, 'a) tarfs_state_scheme) option" where
  "tarfs_add_entry sb rd e s =
     (if te_type e \<noteq> 0x30 \<and> te_type e \<noteq> 0 then Some (False, s)
      else do {
        (i, s) \<leftarrow> vfs_new_inode (S_IFREG OR 0x1A4) s;
        if i = 0 then Some (True, s)
        else do {
          let s = upd_inode i (\<lambda>x. x\<lparr>i_sb := sb, i_size := te_size e\<rparr>) s;
          (p, s) \<leftarrow> kmalloc 8 s;
          if p = 0 then do { s \<leftarrow> kfree i s; Some (True, s) }
          else do {
            let s = s\<lparr>tino := (tino s)(p := \<lparr>ti_offset = te_offset e, ti_size = te_size e\<rparr>)\<rparr>;
            let s = upd_inode i (\<lambda>x. x\<lparr>i_private := p, i_fop := Some Tarfs_fops\<rparr>) s;
            (d, s) \<leftarrow> vfs_new_dentry (te_name e) i rd s;
            if d = 0 then do { s \<leftarrow> kfree p s; s \<leftarrow> kfree i s; Some (False, s) } else Some (False, s)
          }
        }
      })"

partial_function (option) tarfs_fill_loop :: "'d ata_io \<Rightarrow> nat option \<Rightarrow> u32 \<Rightarrow> u32 \<Rightarrow> u32 \<Rightarrow>
    ('d, 'a) tarfs_state_scheme \<Rightarrow> ('d, 'a) tarfs_state_scheme option" where
  "tarfs_fill_loop io dev sb rd blk s =
     Option.bind (tar_next_entry (tarfs_block_read io dev 1) blk s) (\<lambda>(r, s).
       case r of None \<Rightarrow> Some s
       | Some (blk, e) \<Rightarrow> Option.bind (tarfs_add_entry sb rd e s) (\<lambda>(stop, s).
           if stop then Some s else tarfs_fill_loop io dev sb rd blk s))"

declare tarfs_fill_loop.simps [code]

definition tarfs_fill_super :: "'d ata_io \<Rightarrow> u32 \<Rightarrow> nat option \<Rightarrow> ('d, 'a) tarfs_state_scheme \<Rightarrow>
    (int \<times> ('d, 'a) tarfs_state_scheme) option" where
  "tarfs_fill_super io sb dev s =
     (if sb = 0 \<or> dev = None then Some (-1, s)
      else do {
        let s = upd_sb sb (\<lambda>x. x\<lparr>s_op := Some Tarfs_sops\<rparr>) (s\<lparr>tarfs_bdev := dev\<rparr>);
        (ri, s) \<leftarrow> vfs_new_inode (S_IFDIR OR 0x1ED) s;
        if ri = 0 then Some (-1, s)
        else do {
          let s = upd_inode ri (\<lambda>x. x\<lparr>i_sb := sb, i_op := Some Tarfs_iops\<rparr>) s;
          (rd, s) \<leftarrow> vfs_new_dentry ''/'' ri 0 s;
          if rd = 0 then do { s \<leftarrow> kfree ri s; Some (-1, s) }
          else do {
            s \<leftarrow> tarfs_fill_loop io dev sb rd 0 (upd_sb sb (\<lambda>x. x\<lparr>s_root := rd\<rparr>) s);
            Some (0, s)
          }
        }
      })"

definition tarfs_mount :: "'d ata_io \<Rightarrow> nat option \<Rightarrow> ('d, 'a) tarfs_state_scheme \<Rightarrow>
    (u32 \<times> ('d, 'a) tarfs_state_scheme) option" where
  "tarfs_mount io dev s = (case dev of None \<Rightarrow> Some (0, s) | Some b \<Rightarrow> do {
     (sb, s) \<leftarrow> kmalloc 20 s;
     if sb = 0 then Some (0, s)
     else do {
       (r, s) \<leftarrow> tarfs_fill_super io sb dev (upd_sb sb (\<lambda>_. zero_sb\<lparr>s_fs_info := Bdev b\<rparr>) s);
       if r \<noteq> 0 then do { s \<leftarrow> kfree sb s; Some (0, s) } else Some (sb, s)
     }
   })"

section \<open>What a page read leaves unchanged\<close>

lemma pg_frame_tarfs:
  fixes s s' :: "('d, 'a) tarfs_state_scheme"
  assumes "pg_frame s s'"
  shows "cache s' = cache s" "inodes s' = inodes s" "sblocks s' = sblocks s"
proof -
  have "paging_state.more s' = paging_state.more s" using assms by (simp add: pg_frame_def)
  then show "cache s' = cache s" "inodes s' = inodes s" "sblocks s' = sblocks s"
    by (cases s; cases s'; simp)+
qed

lemma write8_keeps:
  fixes s s' :: "('d, 'a) tarfs_state_scheme"
  assumes "write8 a b s = Some s'"
  shows "cache s' = cache s" "inodes s' = inodes s" "sblocks s' = sblocks s"
  using assms by (auto simp: write8_def pg_frame_tarfs [OF vwrite8_frame] split: if_splits)

lemma store_bytes_keeps:
  fixes s s' :: "('d, 'a) tarfs_state_scheme"
  shows "store_bytes bs a s = Some s' \<Longrightarrow> cache s' = cache s \<and> inodes s' = inodes s \<and> sblocks s' = sblocks s"
  by (induction bs arbitrary: a s) (auto simp: bind_eq_Some_conv write8_keeps)

lemma bdev_read_keeps:
  fixes s s' :: "('d, 'a) tarfs_state_scheme"
  shows "bdev_read io dv lba n t s = Some (r, bs, s') \<Longrightarrow> cache s' = cache s \<and> inodes s' = inodes s \<and> sblocks s' = sblocks s"
  by (auto simp: bdev_read_def ata_bdev_read_def bind_eq_Some_conv split: option.splits if_splits prod.splits)

lemma tarfs_readpage_keeps:
  fixes s s' :: "('d, 'a) tarfs_state_scheme"
  shows "tarfs_readpage io ino pgoff a t s = Some (r, s') \<Longrightarrow> cache s' = cache s \<and> inodes s' = inodes s \<and> sblocks s' = sblocks s"
  by (auto simp: tarfs_readpage_def bind_eq_Some_conv Let_def split: if_splits prod.splits
      dest!: bdev_read_keeps store_bytes_keeps)

lemma read8_cache: "read8 (s\<lparr>cache := c\<rparr>) a = read8 s a"
  by (simp add: read8_def vread8_def vread32_def walk_def walk_pte_def Let_def)

lemma load_bytes_cache [simp]: "load_bytes n a (s\<lparr>cache := c\<rparr>) = load_bytes n a s"
  by (induction n arbitrary: a) (simp_all add: read8_cache)

section \<open>The slots\<close>

definition holds :: "page_cache_slot \<Rightarrow> u32 \<Rightarrow> u32 \<Rightarrow> bool" where
  "holds x ino pgoff \<longleftrightarrow> pc_valid x \<and> pc_ino x = ino \<and> pc_pgoff x = pgoff"

lemma find_upt_Some: "find P [0..<n] = Some i \<longleftrightarrow> i < n \<and> P i \<and> (\<forall>j < i. \<not> P j)"
  by (auto simp: find_Some_iff)

lemma find_upt_None: "find P [0..<n] = None \<longleftrightarrow> (\<forall>j < n. \<not> P j)"
  by (auto simp: find_None_iff)

lemma page_cache_find_hit:
  "page_cache_find ino pgoff s = i \<Longrightarrow> i \<noteq> PAGE_CACHE_SIZE \<Longrightarrow>
   i < PAGE_CACHE_SIZE \<and> holds (cache s i) ino pgoff \<and> (\<forall>j < i. \<not> holds (cache s j) ino pgoff)"
  by (auto simp: page_cache_find_def holds_def find_upt_Some split: option.splits)

lemma page_cache_find_miss:
  "page_cache_find ino pgoff s = PAGE_CACHE_SIZE \<longleftrightarrow> (\<forall>j < PAGE_CACHE_SIZE. \<not> holds (cache s j) ino pgoff)"
  by (auto simp: page_cache_find_def holds_def find_upt_Some find_upt_None split: option.splits)

lemma page_cache_find_eq:
  "i < PAGE_CACHE_SIZE \<Longrightarrow> holds (cache s i) ino pgoff \<Longrightarrow> (\<And>j. j < i \<Longrightarrow> \<not> holds (cache s j) ino pgoff) \<Longrightarrow>
   page_cache_find ino pgoff s = i"
proof -
  assume *: "i < PAGE_CACHE_SIZE" "holds (cache s i) ino pgoff" "\<And>j. j < i \<Longrightarrow> \<not> holds (cache s j) ino pgoff"
  then have "find (\<lambda>i. pc_valid (cache s i) \<and> pc_ino (cache s i) = ino \<and> pc_pgoff (cache s i) = pgoff)
     [0..<PAGE_CACHE_SIZE] = Some i" unfolding find_upt_Some by (simp add: holds_def)
  then show ?thesis unfolding page_cache_find_def by (simp only: option.case)
qed

lemma page_cache_alloc_slot_free:
  "page_cache_alloc_slot s = i \<Longrightarrow> i \<noteq> PAGE_CACHE_SIZE \<Longrightarrow> i < PAGE_CACHE_SIZE \<and> \<not> pc_valid (cache s i)"
  by (auto simp: page_cache_alloc_slot_def find_upt_Some split: option.splits)

lemma page_cache_alloc_slot_full:
  "page_cache_alloc_slot s = PAGE_CACHE_SIZE \<longleftrightarrow> (\<forall>i < PAGE_CACHE_SIZE. pc_valid (cache s i))"
  by (auto simp: page_cache_alloc_slot_def find_upt_Some find_upt_None split: option.splits)

text \<open>The two ways in which \<open>readpage\<close> succeeds, and the change of the cache in each.\<close>

lemma readpage_cases:
  assumes "readpage io ino pgoff t s = Some (r, bs, s1)"
  obtains (fail) "r = -1" "bs = []" "cache s1 = cache s"
    | (hit) i where "ino \<noteq> 0" "r = 4096" "page_cache_find (i_ino (inodes s ino)) pgoff s = i" "i \<noteq> PAGE_CACHE_SIZE"
        "s1 = s\<lparr>cache := (cache s)(i := (cache s i)\<lparr>pc_tier := t\<rparr>)\<rparr>" "load_bytes 4096 (pc_phys (cache s i) + 0xC0000000) s = Some bs"
    | (miss) i ph where "ino \<noteq> 0" "r = 4096" "page_cache_find (i_ino (inodes s ino)) pgoff s = PAGE_CACHE_SIZE"
        "page_cache_alloc_slot s = i" "i \<noteq> PAGE_CACHE_SIZE" "inodes s1 = inodes s"
        "cache s1 = (cache s)(i := \<lparr>pc_ino = i_ino (inodes s ino), pc_pgoff = pgoff, pc_phys = ph, pc_valid = True, pc_tier = t\<rparr>)"
        "load_bytes 4096 (ph + 0xC0000000) s1 = Some bs"
proof (cases "ino = 0 \<or> page_cache_find (i_ino (inodes s ino)) pgoff s \<noteq> PAGE_CACHE_SIZE")
  case True
  then show ?thesis
    using assms by (auto simp: readpage_def Let_def bind_eq_Some_conv split: if_splits intro: fail hit)
next
  case nohit: False
  let ?sb = "i_sb (inodes s ino)" and ?i = "page_cache_alloc_slot s"
  show ?thesis
  proof (cases "?sb = 0 \<or> s_op (sblocks s ?sb) = None \<or> ?i = PAGE_CACHE_SIZE")
    case True
    then show ?thesis using assms nohit by (intro fail) (auto simp: readpage_def Let_def split: if_splits)
  next
    case False
    then obtain p s2 where p: "alloc_page_frame s = Some (p, s2)"
      using assms nohit by (auto simp: readpage_def Let_def bind_eq_Some_conv split: if_splits)
    note k2 = pg_frame_tarfs [OF alloc_page_frame_frame [OF p]]
    show ?thesis
    proof (cases "p = 0")
      case True
      then show ?thesis using assms nohit False p k2 by (intro fail) (auto simp: readpage_def Let_def split: if_splits)
    next
      case np: False
      then obtain q s3 where q: "tarfs_readpage io ino pgoff (p + 0xC0000000) t s2 = Some (q, s3)"
        using assms nohit False p by (auto simp: readpage_def Let_def bind_eq_Some_conv split: if_splits)
      note k3 = tarfs_readpage_keeps [OF q]
      show ?thesis
      proof (cases "q < 0")
        case True
        then show ?thesis using assms nohit False p np q k2 k3 pg_frame_tarfs [OF free_page_frame_frame [where s = s3 and p = p]]
          by (intro fail) (auto simp: readpage_def Let_def split: if_splits)
      next
        case nq: False
        show ?thesis
          using assms nohit False p np q nq k2 k3
          by (intro miss [of ?i p]) (auto simp: readpage_def Let_def bind_eq_Some_conv split: if_splits)
      qed
    qed
  qed
qed

section \<open>Properties\<close>

text \<open>
  C30: A page that was read once is served from the cache. After a successful \<open>readpage\<close>, the next \<open>readpage\<close> of
  the same page returns the same 4096 bytes whatever the drive does, and it changes nothing but the tier
  recorded in one slot of the cache: the disk is not touched.
\<close>

theorem readpage_cached:
  assumes "readpage io ino pgoff t s = Some (r, bs, s1)" "0 \<le> r"
  shows "r = 4096 \<and> (\<exists>i < PAGE_CACHE_SIZE. readpage io' ino pgoff t' s1 =
    Some (4096, bs, s1\<lparr>cache := (cache s1)(i := (cache s1 i)\<lparr>pc_tier := t'\<rparr>)\<rparr>))"
proof -
  have again: ?thesis if "ino \<noteq> 0" "r = 4096" "page_cache_find (i_ino (inodes s1 ino)) pgoff s1 = i" "i \<noteq> PAGE_CACHE_SIZE"
    "load_bytes 4096 (pc_phys (cache s1 i) + 0xC0000000) s1 = Some bs" for i
  proof -
    have "readpage io' ino pgoff t' s1 = Some (4096, bs, s1\<lparr>cache := (cache s1)(i := (cache s1 i)\<lparr>pc_tier := t'\<rparr>)\<rparr>)"
      unfolding readpage_def Let_def that(3) using that(1,4,5) by simp
    then show ?thesis using page_cache_find_hit [OF that(3,4)] that(2) by blast
  qed
  from assms(1) show ?thesis
  proof (cases rule: readpage_cases)
    case fail
    then show ?thesis using assms(2) by simp
  next
    case (hit i)
    note h = page_cache_find_hit [OF hit(3,4)]
    have "page_cache_find (i_ino (inodes s1 ino)) pgoff s1 = i"
      by (rule page_cache_find_eq) (use h hit(5) in \<open>auto simp: holds_def\<close>)
    then show ?thesis by (rule again [OF hit(1,2)]) (use hit in simp_all)
  next
    case (miss i p)
    note f = page_cache_alloc_slot_free [OF miss(4,5)]
    have "page_cache_find (i_ino (inodes s1 ino)) pgoff s1 = i"
      by (rule page_cache_find_eq) (use f miss(3) [unfolded page_cache_find_miss] miss(6,7) in \<open>auto simp: holds_def\<close>)
    then show ?thesis by (rule again [OF miss(1,2)]) (use miss in simp_all)
  qed
qed

text \<open>
  C31: The cache never gives up a page: \<open>readpage\<close> keeps every valid slot with its page and frame, and when all
  64 slots are valid and none holds the page, it fails with -1 and changes nothing. Once 64 pages have been
  read, no other page of any file can be read again.
\<close>

theorem page_cache_never_evicts:
  assumes "readpage io ino pgoff t s = Some (r, bs, s1)"
  shows "(\<forall>i. pc_valid (cache s i) \<longrightarrow> cache s1 i = (cache s i)\<lparr>pc_tier := pc_tier (cache s1 i)\<rparr>) \<and>
    (ino \<noteq> 0 \<and> (\<forall>i < PAGE_CACHE_SIZE. pc_valid (cache s i) \<and>
        (pc_ino (cache s i), pc_pgoff (cache s i)) \<noteq> (i_ino (inodes s ino), pgoff)) \<longrightarrow>
      r = -1 \<and> bs = [] \<and> s1 = s)"
proof
  show "\<forall>i. pc_valid (cache s i) \<longrightarrow> cache s1 i = (cache s i)\<lparr>pc_tier := pc_tier (cache s1 i)\<rparr>"
    using assms
  proof (cases rule: readpage_cases)
    case (miss i p)
    then show ?thesis using page_cache_alloc_slot_free [OF miss(4,5)] by auto
  qed auto
  show "ino \<noteq> 0 \<and> (\<forall>i < PAGE_CACHE_SIZE. pc_valid (cache s i) \<and>
      (pc_ino (cache s i), pc_pgoff (cache s i)) \<noteq> (i_ino (inodes s ino), pgoff)) \<longrightarrow> r = -1 \<and> bs = [] \<and> s1 = s"
  proof
    assume a: "ino \<noteq> 0 \<and> (\<forall>i < PAGE_CACHE_SIZE. pc_valid (cache s i) \<and>
      (pc_ino (cache s i), pc_pgoff (cache s i)) \<noteq> (i_ino (inodes s ino), pgoff))"
    then have "page_cache_find (i_ino (inodes s ino)) pgoff s = PAGE_CACHE_SIZE" "page_cache_alloc_slot s = PAGE_CACHE_SIZE"
      unfolding page_cache_find_miss page_cache_alloc_slot_full by (auto simp: holds_def)
    then show "r = -1 \<and> bs = [] \<and> s1 = s" using assms a by (auto simp: readpage_def Let_def split: if_splits)
  qed
qed

text \<open>A kernel with the window at \<open>0xC0000000\<close>, an inode 7 of a tar file system at \<open>0xD0001000\<close> and its first page
  in slot 0 of the cache; in the other state all slots hold pages of other files.\<close>

definition demo_tarfs :: "unit tarfs_state" where
  "demo_tarfs = disk_state.extend (ramfs_state.extend (memfs_state.extend (fs_state.extend
       (demo_fs\<lparr>pmem := (\<lambda>f w. if f = 5 then (if w = 1023 then 0x5003 else if w = 768 then 0x6003 else 0)
                        else if f = 6 then of_nat (w * 4096) OR 3 else 0xABABABAB),
                inodes := (\<lambda>_. zero_inode\<lparr>i_ino := 7, i_sb := 0xD0002000\<rparr>),
                sblocks := (\<lambda>_. zero_sb\<lparr>s_op := Some Tarfs_sops\<rparr>)\<rparr>)
       (memfs_state.fields (\<lambda>_. \<lparr>mi_size = 0, mi_capacity = 0, mi_data = 0\<rparr>) 0))
       (ramfs_state.fields (\<lambda>_. \<lparr>ri_size = 0, ri_data = 0\<rparr>) 0))
       (disk_state.fields () (\<lambda>_. zero_ata)
         (\<lambda>_. \<lparr>bd_name = [], bd_blocks = 0, bd_block_size = 0, bd_read = False, bd_write = False, bd_private = None\<rparr>)
         (\<lambda>_. None) 0 (\<lambda>_. \<lparr>dw_lba = 0, dw_data = [], dw_tier = TIER_KERNEL, dw_next = 0\<rparr>) 0))
       (tarfs_state.fields
         ((\<lambda>_. \<lparr>pc_ino = 1, pc_pgoff = 0, pc_phys = 0x8000, pc_valid = True, pc_tier = TIER_USER\<rparr>)
            (0 := \<lparr>pc_ino = 7, pc_pgoff = 0, pc_phys = 0x7000, pc_valid = True, pc_tier = TIER_USER\<rparr>))
         (\<lambda>_. \<lparr>ti_offset = 0, ti_size = 0\<rparr>) (\<lambda>_. 0) None)"

definition no_drive :: "unit ata_io" where
  "no_drive = \<lparr>io_inb = (\<lambda>_ d. (0xFF, d)), io_outb = (\<lambda>_ _ d. d), io_inw = (\<lambda>_ d. (0xFFFF, d)), io_outw = (\<lambda>_ _ d. d)\<rparr>"

lemma demo_tarfs_simps:
  "cr3 demo_tarfs = 0x5000"
  "pmem demo_tarfs f w = (if f = 5 then (if w = 1023 then 0x5003 else if w = 768 then 0x6003 else 0)
                        else if f = 6 then of_nat (w * 4096) OR 3 else 0xABABABAB)"
  "inodes demo_tarfs i = zero_inode\<lparr>i_ino := 7, i_sb := 0xD0002000\<rparr>"
  "sblocks demo_tarfs b = zero_sb\<lparr>s_op := Some Tarfs_sops\<rparr>"
  "cache demo_tarfs = (\<lambda>_. \<lparr>pc_ino = 1, pc_pgoff = 0, pc_phys = 0x8000, pc_valid = True, pc_tier = TIER_USER\<rparr>)
            (0 := \<lparr>pc_ino = 7, pc_pgoff = 0, pc_phys = 0x7000, pc_valid = True, pc_tier = TIER_USER\<rparr>)"
  by (simp_all add: demo_tarfs_def demo_fs_def small_paging_def tarfs_state.defs disk_state.defs ramfs_state.defs
      memfs_state.defs fs_state.defs vm_state.defs heap_state.defs paging_state.defs)

lemma load_bytes_total:
  "(\<And>i. i < n \<Longrightarrow> read8 s (a + of_nat i) \<noteq> None) \<Longrightarrow> \<exists>bs. load_bytes n a s = Some bs \<and> length bs = n"
proof (induction n arbitrary: a)
  case 0
  then show ?case by simp
next
  case (Suc n)
  have "read8 s (a + 1 + of_nat i) \<noteq> None" if "i < n" for i using Suc.prems [of "Suc i"] that by (simp add: add.assoc)
  then obtain bs where "load_bytes n (a + 1) s = Some bs" "length bs = n" using Suc.IH [of "a + 1"] by blast
  moreover obtain b where "read8 s a = Some b" using Suc.prems [of 0] by auto
  ultimately show ?case by simp
qed

lemma demo_tarfs_window:
  assumes "i < 4096"
  shows "read8 demo_tarfs (0xC0007000 + of_nat i) \<noteq> None"
proof -
  let ?a = "0xC0007000 + of_nat i :: u32"
  have u: "unat ?a = 768 * 4194304 + 7 * 4096 + i" using assms by (simp add: unat_add32 unat_of_nat32)
  note ix = index_of_split [OF u _ assms, simplified]
  have "\<not> heap_addr ?a" using u assms by (auto simp: heap_addr_def HEAP_VIRT_START_def word_le_nat_alt)
  then show ?thesis
    by (simp add: read8_def vread8_def vread32_def walk_def walk_pte_def ix demo_tarfs_simps present_odd frame_of_def unat_drop_bit32)
qed

theorem readpage_cached_witness:
  "\<exists>bs s1. readpage no_drive 0xD0001000 0 TIER_KERNEL demo_tarfs = Some (4096, bs, s1) \<and>
    (\<exists>s2. readpage no_drive 0xD0001000 0 TIER_USER s1 = Some (4096, bs, s2))"
proof -
  obtain bs where "load_bytes 4096 0xC0007000 demo_tarfs = Some bs"
    using load_bytes_total [of 4096 demo_tarfs "0xC0007000"] demo_tarfs_window by blast
  moreover have "page_cache_find 7 0 demo_tarfs = 0"
    by (rule page_cache_find_eq) (simp_all add: holds_def demo_tarfs_simps)
  ultimately obtain s1 where s1: "readpage no_drive 0xD0001000 0 TIER_KERNEL demo_tarfs = Some (4096, bs, s1)"
    by (simp add: readpage_def Let_def demo_tarfs_simps)
  then show ?thesis using readpage_cached [OF s1, of no_drive TIER_USER] by auto
qed

theorem page_cache_never_evicts_witness:
  "readpage no_drive 0xD0001000 5 TIER_KERNEL demo_tarfs = Some (-1, [], demo_tarfs)"
proof -
  have f: "page_cache_find 7 5 demo_tarfs = PAGE_CACHE_SIZE" "page_cache_alloc_slot demo_tarfs = PAGE_CACHE_SIZE"
    unfolding page_cache_find_miss page_cache_alloc_slot_full by (simp_all add: holds_def demo_tarfs_simps)
  then obtain r bs s1 where r: "readpage no_drive 0xD0001000 5 TIER_KERNEL demo_tarfs = Some (r, bs, s1)"
    by (simp add: readpage_def Let_def demo_tarfs_simps)
  have "\<forall>i < PAGE_CACHE_SIZE. pc_valid (cache demo_tarfs i) \<and>
      (pc_ino (cache demo_tarfs i), pc_pgoff (cache demo_tarfs i)) \<noteq> (i_ino (inodes demo_tarfs 0xD0001000), 5)"
    by (simp add: demo_tarfs_simps)
  with page_cache_never_evicts [OF r] show ?thesis using r by auto
qed

end
