(* ===== verification/Vfs.thy ===== *)
theory Vfs
  imports Tarfs
begin

text \<open>
  Open files, \<open>fs/vfs.c\<close>: the calls through the operation tables of the three file systems.
\<close>

section \<open>Dispatch\<close>

text \<open>The \<open>open\<close>, \<open>read\<close>, \<open>write\<close> and \<open>release\<close> fields of \<open>ramfs_fops\<close>, \<open>tarfs_fops\<close> and \<open>memfs_fops\<close>;
  \<^const>\<open>None\<close> in place of an operation is a null field.\<close>

definition fop_open :: "fops \<Rightarrow> (u32 \<Rightarrow> u32 \<Rightarrow> ('d, 'a) tarfs_state_scheme \<Rightarrow> (int \<times> ('d, 'a) tarfs_state_scheme) option) option" where
  "fop_open f = (case f of Ramfs_fops \<Rightarrow> None | Tarfs_fops \<Rightarrow> Some tarfs_open
     | Memfs_fops \<Rightarrow> Some (\<lambda>ino filp s. Some (memfs_open ino filp s)))"

definition fop_read :: "'d ata_io \<Rightarrow> fops \<Rightarrow>
    (u32 \<Rightarrow> u32 \<Rightarrow> u32 \<Rightarrow> ('d, 'a) tarfs_state_scheme \<Rightarrow> (int \<times> ('d, 'a) tarfs_state_scheme) option) option" where
  "fop_read io f = (case f of Ramfs_fops \<Rightarrow> Some ramfs_read | Tarfs_fops \<Rightarrow> Some (tarfs_read io)
     | Memfs_fops \<Rightarrow> Some memfs_read)"

definition fop_write :: "fops \<Rightarrow>
    (u32 \<Rightarrow> u32 \<Rightarrow> u32 \<Rightarrow> ('d, 'a) tarfs_state_scheme \<Rightarrow> (int \<times> ('d, 'a) tarfs_state_scheme) option) option" where
  "fop_write f = (case f of Ramfs_fops \<Rightarrow> None | Tarfs_fops \<Rightarrow> None | Memfs_fops \<Rightarrow> Some memfs_write)"

definition fop_release :: "fops \<Rightarrow> (u32 \<Rightarrow> u32 \<Rightarrow> ('d, 'a) tarfs_state_scheme \<Rightarrow> (int \<times> ('d, 'a) tarfs_state_scheme) option) option" where
  "fop_release f = (case f of Ramfs_fops \<Rightarrow> None | Tarfs_fops \<Rightarrow> Some tarfs_release
     | Memfs_fops \<Rightarrow> Some (\<lambda>ino filp s. Some (memfs_release ino filp s)))"

text \<open>The \<open>create\<close> field of the inode operations.\<close>

definition iop_create :: "iops \<Rightarrow> (u32 \<Rightarrow> u32 \<Rightarrow> u32 \<Rightarrow> ('d, 'a) tarfs_state_scheme \<Rightarrow> (int \<times> ('d, 'a) tarfs_state_scheme) option) option" where
  "iop_create f = (case f of Memfs_iops \<Rightarrow> Some memfs_create | Ramfs_iops \<Rightarrow> None | Tarfs_iops \<Rightarrow> None)"

section \<open>Open files\<close>

text \<open>The end of \<open>vfs_open\<close> and \<open>vfs_create\<close>: a new file object for a dentry, opened by its file system.\<close>

definition new_file :: "u32 \<Rightarrow> u32 \<Rightarrow> ('d, 'a) tarfs_state_scheme \<Rightarrow> (u32 \<times> ('d, 'a) tarfs_state_scheme) option" where
  "new_file d flags s = do {
     let ino = d_inode (dentries s d);
     (filp, s) \<leftarrow> kmalloc 24 s;
     if filp = 0 then Some (0, s)
     else do {
       let s = upd_file filp (\<lambda>_. zero_file\<lparr>f_dentry := d, f_flags := flags, f_op := i_fop (inodes s ino)\<rparr>) s;
       case Option.bind (i_fop (inodes s ino)) fop_open of None \<Rightarrow> Some (filp, s)
       | Some op \<Rightarrow> do {
           (r, s) \<leftarrow> op ino filp s;
           if r \<noteq> 0 then do { s \<leftarrow> kfree filp s; Some (0, s) } else Some (filp, s)
         }
     }
   }"

definition vfs_open :: "string \<Rightarrow> u32 \<Rightarrow> ('d, 'a) tarfs_state_scheme \<Rightarrow> (u32 \<times> ('d, 'a) tarfs_state_scheme) option" where
  "vfs_open path flags s = do {
     (d, s) \<leftarrow> vfs_lookup path s;
     if d = 0 then Some (0, s)
     else if d_inode (dentries s d) = 0 then Some (0, s)
     else new_file d flags s
   }"

definition vfs_read :: "'d ata_io \<Rightarrow> u32 \<Rightarrow> u32 \<Rightarrow> u32 \<Rightarrow> ('d, 'a) tarfs_state_scheme \<Rightarrow>
    (int \<times> ('d, 'a) tarfs_state_scheme) option" where
  "vfs_read io filp buf len s =
     (if filp = 0 then Some (-1, s)
      else case Option.bind (f_op (files s filp)) (fop_read io) of None \<Rightarrow> Some (-1, s)
      | Some op \<Rightarrow> op filp buf len s)"

definition vfs_write :: "u32 \<Rightarrow> u32 \<Rightarrow> u32 \<Rightarrow> ('d, 'a) tarfs_state_scheme \<Rightarrow>
    (int \<times> ('d, 'a) tarfs_state_scheme) option" where
  "vfs_write filp buf len s =
     (if filp = 0 then Some (-1, s)
      else case Option.bind (f_op (files s filp)) fop_write of None \<Rightarrow> Some (-1, s)
      | Some op \<Rightarrow> op filp buf len s)"

definition vfs_close :: "u32 \<Rightarrow> ('d, 'a) tarfs_state_scheme \<Rightarrow> (int \<times> ('d, 'a) tarfs_state_scheme) option" where
  "vfs_close filp s =
     (if filp = 0 then Some (-1, s)
      else do {
        (r, s) \<leftarrow> (case Option.bind (f_op (files s filp)) fop_release of None \<Rightarrow> Some (0, s)
                  | Some op \<Rightarrow> op (d_inode (dentries s (f_dentry (files s filp)))) filp s);
        s \<leftarrow> kfree filp s;
        Some (r, s)
      })"

text \<open>No file system has a \<open>readdir\<close> operation.\<close>

definition vfs_readdir :: "u32 \<Rightarrow> ('d, 'a) tarfs_state_scheme \<Rightarrow> int" where
  "vfs_readdir filp s = -1"

section \<open>Creation\<close>

text \<open>The loop over the copied path: the part before the last slash, and the name after it. Without a slash
  the whole path is the name, and the copy, which is the name as well, stays the directory part.\<close>

definition split_last :: "string \<Rightarrow> string \<times> string" where
  "split_last path =
     (if CHR ''/'' \<in> set path
      then (rev (tl (dropWhile (\<lambda>c. c \<noteq> CHR ''/'') (rev path))), rev (takeWhile (\<lambda>c. c \<noteq> CHR ''/'') (rev path)))
      else (path, path))"

definition vfs_create :: "string \<Rightarrow> u32 \<Rightarrow> ('d, 'a) tarfs_state_scheme \<Rightarrow> (u32 \<times> ('d, 'a) tarfs_state_scheme) option" where
  "vfs_create path mode s =
     (if path = [] \<or> vfs_root s = 0 then Some (0, s)
      else do {
        (sb, rest) \<leftarrow> vfs_find_mount path s;
        let base = (if sb \<noteq> 0 \<and> s_root (sblocks s sb) \<noteq> 0 then s_root (sblocks s sb) else vfs_root s);
        (copy, s) \<leftarrow> kmalloc (of_nat (length rest) + 1) s;
        if copy = 0 then Some (0, s)
        else do {
          let (dirp, base_name) = split_last rest;
          let s = set_kstr copy dirp s;
          if base_name = [] then do { s \<leftarrow> kfree copy s; Some (0, s) }
          else do {
            (dir, s) \<leftarrow> (if dirp = [] then Some (base, s) else vfs_lookup_from base dirp s);
            if dir = 0 then do { s \<leftarrow> kfree copy s; Some (0, s) }
            else do {
              (found, s) \<leftarrow> vfs_lookup_component dir base_name s;
              if found \<noteq> 0 then do { s \<leftarrow> kfree copy s; Some (0, s) }
              else do {
                (d, s) \<leftarrow> vfs_new_dentry base_name 0 dir s;
                s \<leftarrow> kfree copy s;
                if d = 0 then Some (0, s)
                else do {
                  let di = d_inode (dentries s dir);
                  (r, s) \<leftarrow> (case Option.bind (i_op (inodes s di)) iop_create of None \<Rightarrow> Some (-1, s)
                            | Some op \<Rightarrow> op di d mode s);
                  if r \<noteq> 0 then do { s \<leftarrow> vfs_free_dentry d s; Some (0, s) }
                  else new_file d 0 s
                }
              }
            }
          }
        }
      })"

end
