(* ===== verification/Elf.thy ===== *)
theory Elf
  imports Vfs_Core
begin

text \<open>
  The ELF loader, \<open>kernel/elf.c\<close>. It reads the image at \<open>data\<close>, a heap buffer, and writes segments at the
  virtual addresses the image names, in the address space of CR3.
\<close>

section \<open>Fields\<close>

definition read16 :: "'a fs_state_scheme \<Rightarrow> u32 \<Rightarrow> u16 option" where
  "read16 s a = do { b0 \<leftarrow> read8 s a; b1 \<leftarrow> read8 s (a + 1); Some (ucast b0 OR push_bit 8 (ucast b1)) }"

definition read32 :: "'a fs_state_scheme \<Rightarrow> u32 \<Rightarrow> u32 option" where
  "read32 s a = do { w0 \<leftarrow> read16 s a; w1 \<leftarrow> read16 s (a + 2); Some (ucast w0 OR push_bit 16 (ucast w1)) }"

abbreviation PT_LOAD :: u32 where "PT_LOAD \<equiv> 1"

record elf_phdr =
  p_type :: u32
  p_offset :: u32
  p_vaddr :: u32
  p_filesz :: u32
  p_memsz :: u32

definition read_phdr :: "'a fs_state_scheme \<Rightarrow> u32 \<Rightarrow> elf_phdr option" where
  "read_phdr s a = do {
     ty \<leftarrow> read32 s a;
     off \<leftarrow> read32 s (a + 4);
     va \<leftarrow> read32 s (a + 8);
     fs \<leftarrow> read32 s (a + 16);
     ms \<leftarrow> read32 s (a + 20);
     Some \<lparr>p_type = ty, p_offset = off, p_vaddr = va, p_filesz = fs, p_memsz = ms\<rparr>
   }"

section \<open>Tier\<close>

definition base_name :: "string \<Rightarrow> string" where
  "base_name path = rev (takeWhile (\<lambda>c. c \<noteq> CHR ''/'') (rev path))"

definition elf_assign_tier :: "string \<Rightarrow> tier" where
  "elf_assign_tier path =
     (let name = base_name path in
      if name = ''shell'' \<or> name = ''init'' \<or> name = ''shell.elf'' then TIER_SYSTEM else TIER_USER)"

section \<open>Segments\<close>

text \<open>\<open>for (va = va_start; va < va_end; va += PAGE_SIZE)\<close>; the result is -1 when no frame is left.\<close>

partial_function (option) elf_map_pages :: "u32 \<Rightarrow> u32 \<Rightarrow> 'a fs_state_scheme \<Rightarrow> (int \<times> 'a fs_state_scheme) option" where
  "elf_map_pages va va_end s =
     (if va < va_end then
        Option.bind (page_present va s) (\<lambda>p.
          if p \<noteq> 0 then elf_map_pages (va + of_nat PAGE_SIZE) va_end s
          else Option.bind (alloc_page_frame s) (\<lambda>(paddr, s).
            if paddr = 0 then Some (-1, s)
            else Option.bind (map_page va paddr (PTE_PRESENT OR PTE_RW OR PTE_USER) s) (\<lambda>s.
              elf_map_pages (va + of_nat PAGE_SIZE) va_end s)))
      else Some (0, s))"

declare elf_map_pages.simps [code]

definition zero_bytes :: "u32 \<Rightarrow> u32 \<Rightarrow> 'a fs_state_scheme \<Rightarrow> 'a fs_state_scheme option" where
  "zero_bytes a n s = store_bytes (replicate (unat n) 0) a s"

definition elf_load_segment :: "u32 \<Rightarrow> elf_phdr \<Rightarrow> 'a fs_state_scheme \<Rightarrow> (int \<times> 'a fs_state_scheme) option" where
  "elf_load_segment data h s =
     (if p_type h \<noteq> PT_LOAD then Some (0, s)
      else do {
        (r, s) \<leftarrow> elf_map_pages (p_vaddr h AND NOT 0xFFF) (p_vaddr h + p_memsz h) s;
        if r \<noteq> 0 then Some (-1, s)
        else do {
          s \<leftarrow> copy_bytes (p_vaddr h) (data + p_offset h) (p_filesz h) s;
          s \<leftarrow> (if p_memsz h > p_filesz h
                then zero_bytes (p_vaddr h + p_filesz h) (p_memsz h - p_filesz h) s else Some s);
          Some (0, s)
        }
      })"

fun elf_load_loop :: "u32 \<Rightarrow> u32 \<Rightarrow> nat list \<Rightarrow> 'a fs_state_scheme \<Rightarrow> (int \<times> 'a fs_state_scheme) option" where
  "elf_load_loop data phdr [] s = Some (0, s)"
| "elf_load_loop data phdr (i # is) s = do {
     h \<leftarrow> read_phdr s (phdr + 32 * of_nat i);
     (r, s) \<leftarrow> elf_load_segment data h s;
     if r \<noteq> 0 then Some (-1, s) else elf_load_loop data phdr is s
   }"

text \<open>The magic number, the class and the byte order of \<open>e_ident\<close>.\<close>

definition elf_ident :: "u8 list" where
  "elf_ident = [0x7F, 0x45, 0x4C, 0x46, 1, 1]"

text \<open>The result code, the entry point (unchanged on an early error) and the state.\<close>

definition elf_load :: "u32 \<Rightarrow> u32 \<Rightarrow> 'a fs_state_scheme \<Rightarrow> (int \<times> u32 \<times> 'a fs_state_scheme) option" where
  "elf_load data entry s =
     (if data = 0 then Some (-1, entry, s)
      else do {
        ident \<leftarrow> load_bytes 6 data s;
        if ident \<noteq> elf_ident then Some (-1, entry, s)
        else do {
          phnum \<leftarrow> read16 s (data + 44);
          if phnum = 0 then Some (-1, entry, s)
          else do {
            entry \<leftarrow> read32 s (data + 24);
            phoff \<leftarrow> read32 s (data + 28);
            (r, s) \<leftarrow> elf_load_loop data (data + phoff) [0..<unat phnum] s;
            Some (r, entry, s)
          }
        }
      })"

end
