(* ===== verification/Process.thy ===== *)
theory Process
  imports Vfs Elf Sched
begin

text \<open>
  Processes: \<open>kernel/process.c\<close> and \<open>task_exit\<close> of \<open>kernel/task.c\<close>.

  The system call frame lies on the kernel stack of the calling task: \<open>r\<close> is the word index of its
  \<open>pt_regs\<close>, which \<open>syscall_entry\<close> pushed with \<open>pusha\<close>, and the frame of the interrupt follows it. A kernel
  stack address is a symbolic word (\<open>KStack\<close>). The system calls that wait give up the CPU in the middle:
  their result \<^const>\<open>None\<close> means that the task called the scheduler and will try again when it runs.
\<close>

section \<open>Frames\<close>

datatype reg = EDI | ESI | EBP | ESP | EBX | EDX | ECX | EAX

fun reg_index :: "reg \<Rightarrow> nat" where
  "reg_index EDI = 0" | "reg_index ESI = 1" | "reg_index EBP = 2" | "reg_index ESP = 3"
| "reg_index EBX = 4" | "reg_index EDX = 5" | "reg_index ECX = 6" | "reg_index EAX = 7"

text \<open>The word on the stack of task \<open>t\<close>, when it is a number.\<close>

fun kval :: "kword \<Rightarrow> u32" where
  "kval (KVal v) = v"
| "kval _ = 0"

definition regs :: "nat \<Rightarrow> nat \<Rightarrow> reg \<Rightarrow> 'a sched_state_scheme \<Rightarrow> u32" where
  "regs t r x s = kval (t_stack (tasks s t) (r + reg_index x))"

definition set_stack :: "nat \<Rightarrow> nat \<Rightarrow> kword \<Rightarrow> 'a sched_state_scheme \<Rightarrow> 'a sched_state_scheme" where
  "set_stack t k w = upd_task t (\<lambda>x. x\<lparr>t_stack := (t_stack x)(k := w)\<rparr>)"

section \<open>Address spaces\<close>

abbreviation USER_STACK_VIRT :: u32 where "USER_STACK_VIRT \<equiv> 0xBFFFF000"
abbreviation MAX_USER_PAGES :: nat where "MAX_USER_PAGES \<equiv> 256"
abbreviation EXEC_BUF_SIZE :: u32 where "EXEC_BUF_SIZE \<equiv> 65536"
abbreviation MAX_EXEC_ARGS :: nat where "MAX_EXEC_ARGS \<equiv> 8"

definition teardown_current_pd :: "u32 \<Rightarrow> u32 \<Rightarrow> 'a paging_state_scheme \<Rightarrow> 'a paging_state_scheme option" where
  "teardown_current_pd pd_phys target_cr3 s = do {
     s \<leftarrow> fold_opt (\<lambda>i s. do {
            e \<leftarrow> vread32 s (pd_addr (of_nat i));
            if \<not> present e then Some s
            else do {
              s \<leftarrow> fold_opt (\<lambda>j s. do {
                     p \<leftarrow> vread32 s (pt_addr (of_nat i) (of_nat j));
                     Some (if present p then free_page_frame (p AND 0xFFFFF000) s else s)
                   }) entries s;
              e \<leftarrow> vread32 s (pd_addr (of_nat i));
              vwrite32 (pd_addr (of_nat i)) 0 (free_page_frame (e AND 0xFFFFF000) s)
            }
          }) [1..<768] s;
     Some (free_page_frame pd_phys (load_cr3 target_cr3 s))
   }"

definition free_task_address_space :: "nat option \<Rightarrow> 'a paging_state_scheme \<Rightarrow> 'a paging_state_scheme option" where
  "free_task_address_space p s = (case p of None \<Rightarrow> Some s
     | Some t \<Rightarrow> teardown_current_pd (t_cr3 (tasks s t)) (kernel_pd s) s)"

definition free_built_pd :: "u32 \<Rightarrow> u32 \<Rightarrow> 'a paging_state_scheme \<Rightarrow> 'a paging_state_scheme option" where
  "free_built_pd pd_phys target_cr3 s = teardown_current_pd pd_phys target_cr3 s"

definition count_user_pages :: "'a paging_state_scheme \<Rightarrow> u32 option" where
  "count_user_pages s = for_user_ptes (\<lambda>i j p n. Some (n + 1)) (\<lambda>_. s) 0"

section \<open>Strings from user space\<close>

text \<open>The check that the code makes byte by byte: the page of an address is mapped for user mode.\<close>

definition user_page_ok :: "u32 \<Rightarrow> 'a paging_state_scheme \<Rightarrow> bool option" where
  "user_page_ok page s = do {
     e \<leftarrow> vread32 s (pd_addr (drop_bit 22 page));
     if \<not> present e then Some False
     else do {
       p \<leftarrow> vread32 s (pt_addr (drop_bit 22 page) (drop_bit 12 page AND 0x3FF));
       Some (present p \<and> p AND PTE_USER \<noteq> 0)
     }
   }"

text \<open>At most \<open>n\<close> characters, up to a zero byte; \<open>Some None\<close> is the error.\<close>

primrec copy_chars :: "nat \<Rightarrow> u32 \<Rightarrow> 'a fs_state_scheme \<Rightarrow> string option option" where
  "copy_chars 0 src s = Some (Some [])"
| "copy_chars (Suc n) src s = do {
     ok \<leftarrow> user_page_ok src s;
     if \<not> ok then Some None
     else do {
       b \<leftarrow> read8 s src;
       if b = 0 then Some (Some [])
       else do {
         r \<leftarrow> copy_chars n (src + 1) s;
         Some (map_option ((#) (char_of_u8 b)) r)
       }
     }
   }"

definition copy_user_string :: "u32 \<Rightarrow> nat \<Rightarrow> 'a fs_state_scheme \<Rightarrow> string option option" where
  "copy_user_string src maxlen s =
     (if src \<ge> 0xC0000000 then Some None else copy_chars (maxlen - 1) src s)"

definition path_is_within :: "string \<Rightarrow> string \<Rightarrow> bool" where
  "path_is_within child parent \<longleftrightarrow> dir_prefix parent child"

definition resolve_path :: "nat option \<Rightarrow> string \<Rightarrow> nat \<Rightarrow> 'a sched_state_scheme \<Rightarrow> string" where
  "resolve_path p path buflen s = (case p of None \<Rightarrow> path | Some t \<Rightarrow>
     (let root = t_root_path (tasks s t) in
      if root = [] \<or> root = ''/'' then path
      else if length root + length path + 2 > buflen then path
      else if last root \<noteq> CHR ''/'' then root @ ''/'' @ path
      else root @ path))"

section \<open>Fork\<close>

record fork_sandbox_config =
  sb_caps_allow :: u32
  sb_mem_limit :: u64
  sb_cpu_quota :: u32
  sb_root_path :: u32
  sb_tier_override :: int

text \<open>The user pages of the current address space, \<^const>\<open>None\<close> when there are too many.\<close>

definition collect_pages :: "'a paging_state_scheme \<Rightarrow> (u32 \<times> u32) list option option" where
  "collect_pages s = for_user_ptes (\<lambda>i j p acc. Some (case acc of None \<Rightarrow> None
       | Some ps \<Rightarrow> if length ps \<ge> MAX_USER_PAGES then None
                   else Some (ps @ [(push_bit 22 i OR push_bit 12 j, p AND 0xFFFFF000)])))
     (\<lambda>_. s) (Some [])"

text \<open>The credentials of the child: an error number or the child's task structure.\<close>

definition fork_tier :: "task \<Rightarrow> fork_sandbox_config option \<Rightarrow> task \<Rightarrow> int + task" where
  "fork_tier parent sb child = (case sb of
      Some c \<Rightarrow> if sb_tier_override c \<noteq> 0 then
          (if sb_tier_override c < 0 \<or> sb_tier_override c > int (tier_num TIER_CRITICAL) then Inl (- EINVAL)
           else if t_caps parent AND CAP_SET_TIER = 0 then Inl (- EPERM)
           else Inr (child\<lparr>t_tier_override := sb_tier_override c,
                           t_tier := tier_of_nat (nat (sb_tier_override c))\<rparr>))
        else Inr (child\<lparr>t_tier_override := t_tier_override parent, t_tier := t_tier parent\<rparr>)
    | None \<Rightarrow> Inr (child\<lparr>t_tier_override := t_tier_override parent, t_tier := t_tier parent\<rparr>))"

definition fork_caps :: "task \<Rightarrow> fork_sandbox_config option \<Rightarrow> u32" where
  "fork_caps parent sb = (case sb of
      Some c \<Rightarrow> if sb_caps_allow c \<noteq> 0 then t_caps parent AND sb_caps_allow c else t_caps parent
    | None \<Rightarrow> t_caps parent)"

definition fork_mem :: "task \<Rightarrow> fork_sandbox_config option \<Rightarrow> u64" where
  "fork_mem parent sb = (case sb of
      Some c \<Rightarrow> if sb_mem_limit c \<noteq> 0 then
          (if t_mem_limit parent \<noteq> 0 \<and> sb_mem_limit c > t_mem_limit parent then t_mem_limit parent
           else sb_mem_limit c)
        else t_mem_limit parent
    | None \<Rightarrow> t_mem_limit parent)"

definition fork_quota :: "task \<Rightarrow> fork_sandbox_config option \<Rightarrow> u32" where
  "fork_quota parent sb = (case sb of
      Some c \<Rightarrow> if sb_cpu_quota c \<noteq> 0 then
          (let q = (if sb_cpu_quota c > 100 then 100 else sb_cpu_quota c) in
           if t_cpu_quota parent \<noteq> 0 \<and> q > t_cpu_quota parent then t_cpu_quota parent else q)
        else t_cpu_quota parent
    | None \<Rightarrow> t_cpu_quota parent)"

definition fork_root :: "task \<Rightarrow> fork_sandbox_config option \<Rightarrow> 'a fs_state_scheme \<Rightarrow> (int + string) option" where
  "fork_root parent sb s = (case sb of
      Some c \<Rightarrow> if sb_root_path c \<noteq> 0 then do {
          r \<leftarrow> copy_user_string (sb_root_path c) 64 s;
          Some (case r of None \<Rightarrow> Inl (- EINVAL)
            | Some sub \<Rightarrow> if t_root_path parent \<noteq> [] \<and> \<not> path_is_within sub (t_root_path parent)
                         then Inl (- EPERM) else Inr sub)
        }
        else Some (Inr (t_root_path parent))
    | None \<Rightarrow> Some (Inr (t_root_path parent)))"

text \<open>The whole inheritance, in the order of the code: tier, capabilities, memory, quota, root, and the check
  of the memory limit against the number of pages to copy.\<close>

definition fork_credentials :: "task \<Rightarrow> fork_sandbox_config option \<Rightarrow> nat \<Rightarrow> task \<Rightarrow> 'a fs_state_scheme \<Rightarrow> (int + task) option" where
  "fork_credentials parent sb npages child s = (case fork_tier parent sb child of Inl e \<Rightarrow> Some (Inl e)
     | Inr child \<Rightarrow> do {
         root \<leftarrow> fork_root parent sb s;
         case root of Inl e \<Rightarrow> Some (Inl e)
         | Inr rt \<Rightarrow>
            (let child = child\<lparr>t_caps := fork_caps parent sb, t_mem_limit := fork_mem parent sb,
                               t_cpu_quota := fork_quota parent sb, t_root_path := rt\<rparr>;
                 limit_pages = (if t_mem_limit child \<noteq> 0 then ucast (t_mem_limit child div 4096) else 0 :: u32)
             in Some (if limit_pages \<noteq> 0 \<and> of_nat npages > limit_pages then Inl (-1) else Inr child))
       })"

text \<open>The loop that copies the pages into the new address space; -1 when no frame is left.\<close>

fun copy_pages :: "(u32 \<times> u32) list \<Rightarrow> 'a paging_state_scheme \<Rightarrow> (int \<times> 'a paging_state_scheme) option" where
  "copy_pages [] s = Some (0, s)"
| "copy_pages ((vaddr, phys) # ps) s = do {
     (new_phys, s) \<leftarrow> alloc_page_frame s;
     if new_phys = 0 then Some (-1, s)
     else do {
       s \<leftarrow> map_page vaddr new_phys (PTE_PRESENT OR PTE_RW OR PTE_USER) s;
       s \<leftarrow> vm_copy_phys phys new_phys s;
       copy_pages ps s
     }
   }"

text \<open>The child's kernel stack: the interrupt frame, the registers with \<open>EAX = 0\<close>, and \<open>fork_return\<close>.\<close>

definition fork_stack :: "(nat \<Rightarrow> kword) \<Rightarrow> nat \<Rightarrow> (nat \<Rightarrow> kword) \<Rightarrow> nat \<Rightarrow> kword" where
  "fork_stack pst r st =
     (let fr = (case pst (r + 3) of KStack n \<Rightarrow> n | _ \<Rightarrow> 0); top = stack_words in
      st(top - 1 := pst (fr + 4), top - 2 := pst (fr + 3), top - 3 := pst (fr + 2),
         top - 4 := pst (fr + 1), top - 5 := pst fr,
         top - 13 := pst (r + 0), top - 12 := pst (r + 1), top - 11 := pst (r + 2),
         top - 10 := KStack (top - 5), top - 9 := pst (r + 4), top - 8 := pst (r + 5),
         top - 7 := pst (r + 6), top - 6 := KVal 0, top - 14 := KCode Fork_return))"

text \<open>From the creation of the child's address space to the end; the child's credentials are set.\<close>

definition fork_build :: "nat \<Rightarrow> nat \<Rightarrow> nat \<Rightarrow> (u32 \<times> u32) list \<Rightarrow> 'a paging_state_scheme \<Rightarrow>
    (int \<times> 'a paging_state_scheme) option" where
  "fork_build parent child r pages s = do {
     (child_pd, s) \<leftarrow> paging_create_task_pd s;
     if child_pd = 0 then Some (-1, free_task_slot (Some child) s)
     else do {
       let old_cr3 = t_cr3 (tasks s parent);
       (e, s) \<leftarrow> copy_pages pages (load_cr3 child_pd s);
       if e \<noteq> 0 then do {
         s \<leftarrow> teardown_current_pd child_pd old_cr3 s;
         Some (-1, free_task_slot (Some child) s)
       }
       else do {
         let s = upd_task child (\<lambda>x. x\<lparr>t_cr3 := child_pd, t_user_entry := t_user_entry (tasks s parent),
                    t_user_stack := t_user_stack (tasks s parent), t_pages_charged := of_nat (length pages)\<rparr>) s;
         let s = load_cr3 old_cr3 s;
         let s = upd_task child (\<lambda>x. x\<lparr>t_stack := fork_stack (t_stack (tasks s parent)) r (t_stack x),
                    t_esp := stack_words - 14, t_ebp := KStack (stack_words - 14)\<rparr>) s;
         let s = enqueue_task (Some child) s;
         Some (t_pid (tasks s child), s)
       }
     }
   }"

definition sys_fork :: "nat \<Rightarrow> fork_sandbox_config option \<Rightarrow> 'a fs_state_scheme \<Rightarrow> (int \<times> 'a fs_state_scheme) option" where
  "sys_fork r sb s = (case current_task s of None \<Rightarrow> Some (-1, s) | Some parent \<Rightarrow> do {
     pages \<leftarrow> collect_pages s;
     case pages of None \<Rightarrow> Some (-1, s)
     | Some ps \<Rightarrow>
       (let (ch, s) = create_task_slot s in
        case ch of None \<Rightarrow> Some (-1, s)
        | Some child \<Rightarrow> do {
            let s = upd_task child (\<lambda>x. x\<lparr>t_priority := t_priority (tasks s parent), t_timeslice := TASK_TIMESLICE,
                      t_state := TASK_READY, t_mlfq_level := 0, t_parent := Some parent, t_map := 0,
                      t_wd_managed := False\<rparr>) s;
            cred \<leftarrow> fork_credentials (tasks s parent) sb (length ps) (tasks s child) s;
            case cred of Inl e \<Rightarrow> Some (e, free_task_slot (Some child) s)
            | Inr t \<Rightarrow> fork_build parent child r ps (upd_task child (\<lambda>_. t) s)
          })
   })"

section \<open>Exec\<close>

text \<open>The strings from the top of the stack downwards; the result is the stack pointer and their addresses.\<close>

fun push_strings :: "string list \<Rightarrow> u32 \<Rightarrow> 'a fs_state_scheme \<Rightarrow> (u32 list \<times> u32 \<times> 'a fs_state_scheme) option" where
  "push_strings [] sp s = Some ([], sp, s)"
| "push_strings (a # as) sp s = do {
     let sp = sp - (of_nat (length a) + 1);
     s \<leftarrow> store_bytes (map u8_of_char a @ [0]) sp s;
     (addrs, sp', s) \<leftarrow> push_strings as sp s;
     Some (sp # addrs, sp', s)
   }"

fun store_words :: "u32 list \<Rightarrow> u32 \<Rightarrow> 'a paging_state_scheme \<Rightarrow> 'a paging_state_scheme option" where
  "store_words [] a s = Some s"
| "store_words (w # ws) a s = do { s \<leftarrow> vwrite32 a w s; store_words ws (a + 4) s }"

definition build_arg_stack :: "string list \<Rightarrow> 'a fs_state_scheme \<Rightarrow> (u32 \<times> 'a fs_state_scheme) option" where
  "build_arg_stack argv s = do {
     let args = takeWhile (\<lambda>a. a \<noteq> []) (take MAX_EXEC_ARGS argv);
     (addrs, sp, s) \<leftarrow> push_strings args (USER_STACK_VIRT + 4096) s;
     let sp = (sp AND NOT 3) - (of_nat (length args) + 1) * 4;
     s \<leftarrow> store_words (addrs @ [0]) sp s;
     s \<leftarrow> vwrite32 (sp - 4) (of_nat (length args)) s;
     Some (sp - 4, s)
   }"

text \<open>The words that \<open>sys_exec\<close> writes over the system call frame, so that the call returns through
  \<open>fork_return\<close> to the new program.\<close>

definition exec_frame :: "nat \<Rightarrow> nat \<Rightarrow> u32 \<Rightarrow> u32 \<Rightarrow> 'a sched_state_scheme \<Rightarrow> 'a sched_state_scheme" where
  "exec_frame t r entry ustack = upd_task t (\<lambda>x. x\<lparr>t_stack := (t_stack x)(
     r - 2 := KCode Fork_return, r - 1 := KVal 0, r := KVal 0, r + 1 := KVal 0, r + 2 := KStack (r + 7),
     r + 3 := KVal 0, r + 4 := KVal 0, r + 5 := KVal 0, r + 6 := KVal 0, r + 7 := KVal entry,
     r + 8 := KVal 0x1B, r + 9 := KVal 0x202, r + 10 := KVal ustack, r + 11 := KVal 0x23)\<rparr>)"

text \<open>The first half of \<open>sys_exec\<close> and \<open>spawn_user_process\<close>: the file's bytes in a heap buffer. The result is
  the address of the buffer or the error number.\<close>

definition read_image :: "'d ata_io \<Rightarrow> string \<Rightarrow> ('d, 'a) tarfs_state_scheme \<Rightarrow>
    ((int + u32) \<times> ('d, 'a) tarfs_state_scheme) option" where
  "read_image io path s = do {
     (f, s) \<leftarrow> vfs_open path O_RDONLY s;
     if f = 0 then Some (Inl (- ENOENT), s)
     else do {
       (buf, s) \<leftarrow> kmalloc EXEC_BUF_SIZE s;
       if buf = 0 then do { (_, s) \<leftarrow> vfs_close f s; Some (Inl (- ENOMEM), s) }
       else do {
         (n, s) \<leftarrow> vfs_read io f buf (EXEC_BUF_SIZE - 1) s;
         (_, s) \<leftarrow> vfs_close f s;
         if n \<le> 0 then do { s \<leftarrow> kfree buf s; Some (Inl (- EIO), s) } else Some (Inr buf, s)
       }
     }
   }"

text \<open>The second half of \<open>sys_exec\<close>, once the new address space holds the program and a stack.\<close>

definition exec_commit :: "nat \<Rightarrow> nat \<Rightarrow> string \<Rightarrow> string list \<Rightarrow> u32 \<Rightarrow> u32 \<Rightarrow> 'a fs_state_scheme \<Rightarrow> 'a fs_state_scheme option" where
  "exec_commit t r resolved argv entry new_pd s = do {
     s \<leftarrow> free_task_address_space (Some t) (load_cr3 (t_cr3 (tasks s t)) s);
     let s = load_cr3 new_pd s;
     let s = upd_task t (\<lambda>x. x\<lparr>t_cr3 := new_pd, t_user_entry := entry\<rparr>) s;
     (us, s) \<leftarrow> build_arg_stack argv s;
     n \<leftarrow> count_user_pages s;
     let s = upd_task t (\<lambda>x. x\<lparr>t_user_stack := us, t_map := 0, t_pages_charged := n\<rparr>) s;
     s \<leftarrow> (if t_tier_override (tasks s t) < 0 then
             (let nt = elf_assign_tier resolved in
              if nt \<noteq> t_tier (tasks s t) then task_set_tier (Some t) nt s else Some s)
           else Some s);
     Some (exec_frame t r entry (t_user_stack (tasks s t)) s)
   }"

definition sys_exec :: "'d ata_io \<Rightarrow> nat \<Rightarrow> string \<Rightarrow> string list \<Rightarrow> ('d, 'a) tarfs_state_scheme \<Rightarrow>
    (int \<times> ('d, 'a) tarfs_state_scheme) option" where
  "sys_exec io r path argv s = (case current_task s of None \<Rightarrow> Some (- EINVAL, s) | Some t \<Rightarrow> do {
     let resolved = resolve_path (Some t) path 128 s;
     (img, s) \<leftarrow> read_image io resolved s;
     case img of Inl e \<Rightarrow> Some (e, s)
     | Inr buf \<Rightarrow> do {
         (new_pd, s) \<leftarrow> paging_create_task_pd s;
         if new_pd = 0 then do { s \<leftarrow> kfree buf s; Some (- ENOMEM, s) }
         else do {
           (e, entry, s) \<leftarrow> elf_load buf 0 (load_cr3 new_pd s);
           if e \<noteq> 0 then do {
             s \<leftarrow> free_built_pd new_pd (t_cr3 (tasks s t)) s;
             s \<leftarrow> kfree buf s;
             Some (- ENOEXEC, s)
           }
           else do {
             (phys, s) \<leftarrow> alloc_page_frame s;
             if phys = 0 then do {
               s \<leftarrow> free_built_pd new_pd (t_cr3 (tasks s t)) s;
               s \<leftarrow> kfree buf s;
               Some (- ENOMEM, s)
             }
             else do {
               s \<leftarrow> map_page USER_STACK_VIRT phys (PTE_PRESENT OR PTE_RW OR PTE_USER) s;
               s \<leftarrow> exec_commit t r resolved argv entry new_pd s;
               s \<leftarrow> kfree buf s;
               Some (0, s)
             }
           }
         }
       }
   })"

section \<open>Wait\<close>

text \<open>One round of the loop of \<open>sys_wait\<close>; the result \<open>(child_pid << 8) | (code & 0xFF)\<close> for small process numbers.\<close>

definition wait_status :: "int \<Rightarrow> int \<Rightarrow> int" where
  "wait_status pid code = sint ((push_bit 8 (of_int pid) OR (of_int code AND 0xFF)) :: u32)"

definition sys_wait :: "int \<Rightarrow> 'a sched_state_scheme \<Rightarrow> (int option \<times> 'a sched_state_scheme) option" where
  "sys_wait pid s = (case current_task s of None \<Rightarrow> Some (Some (-1), s) | Some t \<Rightarrow>
     (case task_find_child (Some t) pid s of None \<Rightarrow> Some (Some (-1), s)
      | Some child \<Rightarrow>
          if t_state (tasks s child) = TASK_EXITED
          then Some (Some (wait_status (t_pid (tasks s child)) (t_exit_code (tasks s child))),
                     free_task_slot (Some child) s)
          else do {
            s \<leftarrow> dequeue_task (Some t) (upd_task t (\<lambda>x. x\<lparr>t_state := TASK_WAITING\<rparr>) s);
            s \<leftarrow> schedule s;
            Some (None, s)
          }))"

section \<open>Spawn\<close>

definition spawn_user_process :: "'d ata_io \<Rightarrow> string \<Rightarrow> ('d, 'a) tarfs_state_scheme \<Rightarrow>
    (nat option \<times> ('d, 'a) tarfs_state_scheme) option" where
  "spawn_user_process io path s = do {
     (img, s) \<leftarrow> read_image io path s;
     case img of Inl e \<Rightarrow> Some (None, s)
     | Inr buf \<Rightarrow> do {
         (task_pd, s) \<leftarrow> paging_create_task_pd s;
         if task_pd = 0 then do { s \<leftarrow> kfree buf s; Some (None, s) }
         else do {
           let old_cr3 = cr3 s;
           (e, entry, s) \<leftarrow> elf_load buf 0 (load_cr3 task_pd s);
           if e \<noteq> 0 then do { s \<leftarrow> kfree buf (load_cr3 old_cr3 s); Some (None, s) }
           else do {
             (phys, s) \<leftarrow> alloc_page_frame s;
             if phys = 0 then do { s \<leftarrow> kfree buf (load_cr3 old_cr3 s); Some (None, s) }
             else do {
               s \<leftarrow> map_page USER_STACK_VIRT phys (PTE_PRESENT OR PTE_RW OR PTE_USER) s;
               s \<leftarrow> vwrite32 (USER_STACK_VIRT + 4096 - 4) 0 s;
               s \<leftarrow> vwrite32 (USER_STACK_VIRT + 4096 - 8) 0 s;
               let (p, s) = create_task User_process_entry TASK_PRIO_NORMAL s;
               case p of None \<Rightarrow> do { s \<leftarrow> kfree buf (load_cr3 old_cr3 s); Some (None, s) }
               | Some t \<Rightarrow> do {
                   (mp, s) \<leftarrow> vm_map_create s;
                   let s = upd_task t (\<lambda>x. x\<lparr>t_map := mp\<rparr>) s;
                   s \<leftarrow> (if mp \<noteq> 0 then vm_protect_readonly mp s else Some s);
                   n \<leftarrow> count_user_pages s;
                   let assigned = elf_assign_tier path;
                   let s = upd_task t (\<lambda>x. x\<lparr>t_pages_charged := n, t_cr3 := task_pd, t_user_entry := entry,
                             t_user_stack := USER_STACK_VIRT + 4096 - 8, t_tier := assigned,
                             t_caps := (if assigned = TIER_SYSTEM then CAP_SYSTEM_DEFAULT else CAP_USER_DEFAULT)\<rparr>)
                             (load_cr3 old_cr3 s);
                   s \<leftarrow> kfree buf (enqueue_task (Some t) s);
                   Some (Some t, s)
                 }
             }
           }
         }
       }
   }"

section \<open>Exit\<close>

definition close_fds :: "nat \<Rightarrow> ('d, 'a) tarfs_state_scheme \<Rightarrow> ('d, 'a) tarfs_state_scheme option" where
  "close_fds t s = fold_opt (\<lambda>i s.
     if t_fd_table (tasks s t) i \<noteq> 0 then do {
       (_, s) \<leftarrow> vfs_close (t_fd_table (tasks s t) i) s;
       Some (upd_task t (\<lambda>x. x\<lparr>t_fd_table := (t_fd_table x)(i := 0)\<rparr>) s)
     }
     else Some s) [3..<FD_MAX] s"

text \<open>A waiting parent is made ready.\<close>

definition wake_parent :: "nat option \<Rightarrow> 'a sched_state_scheme \<Rightarrow> 'a sched_state_scheme" where
  "wake_parent p s = (case p of None \<Rightarrow> s | Some q \<Rightarrow>
     if t_state (tasks s q) = TASK_WAITING then
       (let s = upd_task q (\<lambda>x. x\<lparr>t_state := TASK_READY\<rparr>) s;
            s = (if t_tier (tasks s q) = TIER_USER
                 then upd_task q (\<lambda>x. x\<lparr>t_mlfq_cont_ticks := 0, t_mlfq_level := 0\<rparr>) s else s)
        in enqueue_task (Some q) s)
     else s)"

definition orphan_children :: "nat \<Rightarrow> 'a sched_state_scheme \<Rightarrow> 'a sched_state_scheme" where
  "orphan_children t s = fold (\<lambda>i s.
     if t_in_use (tasks s i) \<and> t_parent (tasks s i) = Some t
     then upd_task i (\<lambda>x. x\<lparr>t_parent := None\<rparr>) s else s) [0..<MAX_TASKS] s"

text \<open>\<open>task_exit\<close> up to the switch away from the dead task, which never runs again.\<close>

definition task_exit :: "int \<Rightarrow> ('d, 'a) tarfs_state_scheme \<Rightarrow> ('d, 'a) tarfs_state_scheme option" where
  "task_exit code s = (case current_task s of None \<Rightarrow> Some s | Some t \<Rightarrow> do {
     s \<leftarrow> dequeue_task (Some t) s;
     s \<leftarrow> close_fds t (upd_task t (\<lambda>x. x\<lparr>t_state := TASK_EXITED, t_exit_code := code\<rparr>) s);
     let s = wake_parent (t_parent (tasks s t)) s;
     let s = orphan_children t s;
     let s = upd_task t (\<lambda>x. x\<lparr>t_flags := t_flags x AND NOT TASK_INHERITED, t_saved_tier := TIER_USER\<rparr>) s;
     s \<leftarrow> free_task_address_space (Some t) s;
     schedule (upd_task t (\<lambda>x. x\<lparr>t_pages_charged := 0\<rparr>) s)
   })"

end
