(* ===== verification/Keyboard.thy ===== *)
theory Keyboard
  imports Prelude
begin

text \<open>
  The PS/2 keyboard driver of \<open>driver/keyboard.c\<close>: the scancode translation, the modifier state and
  the ring buffer between the interrupt handler and \<open>getchar\<close>. The handler's input is the byte read from
  port \<open>0x60\<close>; its writes to I/O ports are recorded in \<open>port_log\<close>.
\<close>

section \<open>Model\<close>

definition BUFFER_SIZE :: nat where "BUFFER_SIZE = 256"

record kbd =
  key_buffer :: "nat \<Rightarrow> u8"
  kb_head :: nat
  kb_tail :: nat
  key_down :: "nat \<Rightarrow> u32"
  k_down :: "nat \<Rightarrow> int"
  shift_state :: u32
  caps_lock :: bool
  num_lock :: bool
  rep :: bool
  prev_scancode :: u8
  port_log :: "(u16 \<times> u8) list"

definition kbd0 :: kbd where
  "kbd0 = \<lparr>key_buffer = (\<lambda>_. 0), kb_head = 0, kb_tail = 0, key_down = (\<lambda>_. 0), k_down = (\<lambda>_. 0),
     shift_state = 0, caps_lock = False, num_lock = False, rep = False, prev_scancode = 0, port_log = []\<rparr>"

abbreviation KEY_UP :: u8 where "KEY_UP \<equiv> 1"
abbreviation KEY_DOWN :: u8 where "KEY_DOWN \<equiv> 2"
abbreviation KEY_LEFT :: u8 where "KEY_LEFT \<equiv> 3"
abbreviation KEY_RIGHT :: u8 where "KEY_RIGHT \<equiv> 4"
abbreviation KEY_HOME :: u8 where "KEY_HOME \<equiv> 0x10"
abbreviation KEY_END :: u8 where "KEY_END \<equiv> 0x11"
abbreviation KEY_PGUP :: u8 where "KEY_PGUP \<equiv> 0x12"
abbreviation KEY_PGDN :: u8 where "KEY_PGDN \<equiv> 0x13"
abbreviation KEY_INS :: u8 where "KEY_INS \<equiv> 0x14"
abbreviation KEY_DEL :: u8 where "KEY_DEL \<equiv> 0x15"

text \<open>The non-zero prefix of the table; its other entries are zero.\<close>

definition scancode_table :: "u8 list" where
  "scancode_table = [
    0, 27, 49, 50, 51, 52, 53, 54, 55, 56, 57, 48, 45, 61, 8, 9,
    113, 119, 101, 114, 116, 121, 117, 105, 111, 112, 91, 93, 10, 0, 97, 115,
    100, 102, 103, 104, 106, 107, 108, 59, 39, 96, 0, 92, 122, 120, 99, 118,
    98, 110, 109, 44, 46, 47, 0, 42, 0, 32]"

definition scancode_to_ascii :: "nat \<Rightarrow> u8" where
  "scancode_to_ascii n = (if n < length scancode_table then scancode_table ! n else 0)"

definition shift_symbols :: "u8 list" where
  "shift_symbols = [33, 64, 35, 36, 37, 94, 38, 42, 40]"

definition push_to_buffer :: "u8 \<Rightarrow> kbd \<Rightarrow> kbd" where
  "push_to_buffer c k =
     (let nxt = (kb_head k + 1) mod BUFFER_SIZE in
      if nxt \<noteq> kb_tail k
      then k\<lparr>key_buffer := (key_buffer k)(kb_head k := c), kb_head := nxt\<rparr> else k)"

definition getchar :: "kbd \<Rightarrow> u8 \<times> kbd" where
  "getchar k =
     (if kb_tail k = kb_head k then (0, k)
      else (key_buffer k (kb_tail k), k\<lparr>kb_tail := (kb_tail k + 1) mod BUFFER_SIZE\<rparr>))"

definition test_bit :: "nat \<Rightarrow> (nat \<Rightarrow> u32) \<Rightarrow> bool" where
  "test_bit nr addr \<longleftrightarrow> drop_bit (nr mod 32) (addr (nr div 32)) AND 1 \<noteq> 0"

definition set_bit' :: "nat \<Rightarrow> (nat \<Rightarrow> u32) \<Rightarrow> nat \<Rightarrow> u32" where
  "set_bit' nr addr = addr(nr div 32 := addr (nr div 32) OR push_bit (nr mod 32) 1)"

definition clear_bit :: "nat \<Rightarrow> (nat \<Rightarrow> u32) \<Rightarrow> nat \<Rightarrow> u32" where
  "clear_bit nr addr = addr(nr div 32 := addr (nr div 32) AND NOT (push_bit (nr mod 32) 1))"

definition do_shift :: "nat \<Rightarrow> bool \<Rightarrow> kbd \<Rightarrow> kbd" where
  "do_shift v up_flag k =
     (if rep k then k
      else let k = (if up_flag
                    then (if k_down k v \<noteq> 0 then k\<lparr>k_down := (k_down k)(v := k_down k v - 1)\<rparr> else k)
                    else k\<lparr>k_down := (k_down k)(v := k_down k v + 1)\<rparr>)
           in if k_down k v \<noteq> 0 then k\<lparr>shift_state := shift_state k OR push_bit v 1\<rparr>
              else k\<lparr>shift_state := shift_state k AND NOT (push_bit v 1)\<rparr>)"

definition caps_toggle :: "kbd \<Rightarrow> kbd" where
  "caps_toggle k = (if rep k then k else k\<lparr>caps_lock := \<not> caps_lock k\<rparr>)"

definition push_arrow :: "nat \<Rightarrow> kbd \<Rightarrow> kbd" where
  "push_arrow sc =
     (if sc = 0x47 then push_to_buffer KEY_HOME
      else if sc = 0x48 then push_to_buffer KEY_UP
      else if sc = 0x49 then push_to_buffer KEY_PGUP
      else if sc = 0x4B then push_to_buffer KEY_LEFT
      else if sc = 0x4D then push_to_buffer KEY_RIGHT
      else if sc = 0x4F then push_to_buffer KEY_END
      else if sc = 0x50 then push_to_buffer KEY_DOWN
      else if sc = 0x51 then push_to_buffer KEY_PGDN
      else if sc = 0x52 then push_to_buffer KEY_INS
      else if sc = 0x53 then push_to_buffer KEY_DEL
      else (\<lambda>k. k))"

definition kp_num :: "u8 list" where
  "kp_num = [55, 56, 57, 45, 52, 53, 54, 43, 49, 50, 51, 48, 46]"

definition handle_keypad :: "nat \<Rightarrow> kbd \<Rightarrow> kbd" where
  "handle_keypad sc k =
     (if sc = 0x4A then push_to_buffer 45 k
      else if sc = 0x4E then push_to_buffer 43 k
      else if sc = 0x37 then push_to_buffer 42 k
      else if sc \<ge> 0x47 \<and> sc \<le> 0x53 then
        (if num_lock k then push_to_buffer (kp_num ! (sc - 0x47)) k else push_arrow sc k)
      else k)"

text \<open>The character that a key gives under the modifiers.\<close>

definition shifted :: "u8 \<Rightarrow> u8" where
  "shifted c =
     (if c \<ge> 49 \<and> c \<le> 57 then shift_symbols ! unat (c - 49)
      else if c = 48 then 41 else if c = 45 then 95 else if c = 61 then 43
      else if c = 91 then 123 else if c = 93 then 125 else if c = 59 then 58
      else if c = 39 then 34 else if c = 96 then 126 else if c = 92 then 124
      else if c = 44 then 60 else if c = 46 then 62 else if c = 47 then 63 else c)"

definition modified :: "u8 \<Rightarrow> kbd \<Rightarrow> u8" where
  "modified c k =
     (if c \<ge> 97 \<and> c \<le> 122 then
        (if (shift_state k XOR (if caps_lock k then 1 else 0)) AND 1 \<noteq> 0 then c - 32 else c)
      else if shift_state k AND 1 \<noteq> 0 then shifted c else c)"

definition eoi :: "kbd \<Rightarrow> kbd" where
  "eoi k = k\<lparr>port_log := port_log k @ [(0x20, 0x20)]\<rparr>"

definition is_shift :: "nat \<Rightarrow> bool" where
  "is_shift sc \<longleftrightarrow> sc = 0x2A \<or> sc = 0x36"

definition keyboard_handler :: "u8 \<Rightarrow> kbd \<Rightarrow> kbd" where
  "keyboard_handler raw k =
     (if raw = 0xE0 \<or> raw = 0xE1 then eoi (k\<lparr>prev_scancode := raw\<rparr>)
      else
        let up_flag = (raw AND 0x80 \<noteq> 0); sc = unat (raw AND 0x7F) in
        if prev_scancode k \<noteq> 0 then
          (let k = k\<lparr>prev_scancode := 0\<rparr> in
           if is_shift sc then eoi k
           else if \<not> up_flag then
             eoi (if sc = 0x1C then push_to_buffer 10 k
                  else if sc = 0x35 then push_to_buffer 47 k
                  else push_arrow sc k)
           else eoi k)
        else if up_flag then
          (let k = k\<lparr>key_down := clear_bit sc (key_down k), rep := False\<rparr> in
           eoi (if is_shift sc then do_shift 0 up_flag k else k))
        else
          (let k = k\<lparr>rep := test_bit sc (key_down k), key_down := set_bit' sc (key_down k)\<rparr> in
           if is_shift sc then eoi (do_shift 0 up_flag k)
           else if sc = 0x3A then eoi (if \<not> rep k then caps_toggle k else k)
           else if sc = 0x45 then eoi (if \<not> rep k then k\<lparr>num_lock := \<not> num_lock k\<rparr> else k)
           else if sc = 0x37 \<or> sc = 0x4A \<or> (sc \<ge> 0x47 \<and> sc \<le> 0x53) then eoi (handle_keypad sc k)
           else let c = scancode_to_ascii sc in
                eoi (if c \<noteq> 0 then push_to_buffer (modified c k) k else k)))"

definition keyboard_init :: "kbd \<Rightarrow> kbd" where
  "keyboard_init k = k\<lparr>port_log := port_log k @
     [(0x20, 0x11), (0xA0, 0x11), (0x21, 0x20), (0xA1, 0x28), (0x21, 0x04), (0xA1, 0x02),
      (0x21, 0x01), (0xA1, 0x01), (0x21, 0xFC), (0xA1, 0xFF)]\<rparr>"

section \<open>The ring buffer\<close>

text \<open>
  A bounded queue of characters: \<open>push\<close> appends unless the queue is full, \<open>pop\<close> takes the oldest.
\<close>

locale bounded_fifo =
  fixes inv :: "'q \<Rightarrow> bool"
    and contents :: "'q \<Rightarrow> 'c list"
    and push :: "'c \<Rightarrow> 'q \<Rightarrow> 'q"
    and pop :: "'q \<Rightarrow> 'c \<times> 'q"
    and capacity :: nat
  assumes push_inv: "inv q \<Longrightarrow> inv (push c q)"
    and push_contents: "inv q \<Longrightarrow>
      contents (push c q) = (if length (contents q) < capacity then contents q @ [c] else contents q)"
    and pop_law: "inv q \<Longrightarrow> contents q = c # cs \<Longrightarrow>
      fst (pop q) = c \<and> contents (snd (pop q)) = cs \<and> inv (snd (pop q))"
    and bounded: "inv q \<Longrightarrow> length (contents q) \<le> capacity"
begin

fun pops :: "nat \<Rightarrow> 'q \<Rightarrow> 'c list" where
  "pops 0 q = []"
| "pops (Suc n) q = fst (pop q) # pops n (snd (pop q))"

lemma pushes_contents:
  "inv q \<Longrightarrow> inv (fold push cs q) \<and>
     contents (fold push cs q) = contents q @ take (capacity - length (contents q)) cs"
proof (induction cs arbitrary: q)
  case Nil
  then show ?case by simp
next
  case (Cons c cs)
  have l: "length (contents q) \<le> capacity" using Cons.prems by (rule bounded)
  show ?case
  proof (cases "length (contents q) < capacity")
    case True
    then obtain n where n: "capacity - length (contents q) = Suc n"
      by (metis Suc_diff_Suc)
    then have "capacity - length (contents (push c q)) = n"
      using push_contents [OF Cons.prems, of c] True by simp
    then show ?thesis
      using Cons.IH [OF push_inv [OF Cons.prems, of c]] push_contents [OF Cons.prems, of c] True n by simp
  next
    case False
    then show ?thesis
      using Cons.IH [OF push_inv [OF Cons.prems, of c]] push_contents [OF Cons.prems, of c] l by simp
  qed
qed

lemma pops_contents: "inv q \<Longrightarrow> n \<le> length (contents q) \<Longrightarrow> pops n q = take n (contents q)"
proof (induction n arbitrary: q)
  case 0
  then show ?case by simp
next
  case (Suc n)
  then obtain c cs where c: "contents q = c # cs" by (cases "contents q") auto
  then show ?case using Suc pop_law [OF Suc.prems(1) c] by simp
qed

text \<open>What goes in comes out in order, as far as it fits.\<close>

lemma fifo:
  assumes "inv q" "contents q = []" "length cs \<le> capacity"
  shows "pops (length cs) (fold push cs q) = cs"
  using pushes_contents [OF assms(1), of cs] assms(2,3) pops_contents [of "fold push cs q" "length cs"] by simp

end

definition kb_ok :: "kbd \<Rightarrow> bool" where
  "kb_ok k \<longleftrightarrow> kb_head k < BUFFER_SIZE \<and> kb_tail k < BUFFER_SIZE"

definition kb_count :: "kbd \<Rightarrow> nat" where
  "kb_count k = (kb_head k + BUFFER_SIZE - kb_tail k) mod BUFFER_SIZE"

definition kb_contents :: "kbd \<Rightarrow> u8 list" where
  "kb_contents k = map (\<lambda>i. key_buffer k ((kb_tail k + i) mod BUFFER_SIZE)) [0..<kb_count k]"

lemma kb_count_cases:
  assumes "kb_ok k"
  shows "kb_count k = (if kb_tail k \<le> kb_head k then kb_head k - kb_tail k else kb_head k + 256 - kb_tail k)"
  using assms by (auto simp: kb_count_def kb_ok_def BUFFER_SIZE_def mod_if)

lemma kb_count_bound: "kb_count k < 256"
  by (simp add: kb_count_def BUFFER_SIZE_def)

lemma length_kb_contents [simp]: "length (kb_contents k) = kb_count k"
  by (simp add: kb_contents_def)

lemma mod256: "n < 512 \<Longrightarrow> n mod 256 = (if n < 256 then n else n - 256 :: nat)"
  by (simp add: mod_if)

lemma push_contents:
  assumes ok: "kb_ok k"
  shows "kb_ok (push_to_buffer c k) \<and>
    kb_contents (push_to_buffer c k) = (if length (kb_contents k) < 255 then kb_contents k @ [c] else kb_contents k)"
proof (cases "kb_count k < 255")
  case True
  have nf: "(kb_head k + 1) mod 256 \<noteq> kb_tail k"
    using True ok kb_count_cases [OF ok] by (auto simp: kb_ok_def BUFFER_SIZE_def mod256 split: if_splits)
  let ?k = "push_to_buffer c k"
  have k: "?k = k\<lparr>key_buffer := (key_buffer k)(kb_head k := c), kb_head := (kb_head k + 1) mod 256\<rparr>"
    using nf by (simp add: push_to_buffer_def BUFFER_SIZE_def)
  have ok': "kb_ok ?k" using ok by (simp add: k kb_ok_def BUFFER_SIZE_def)
  have cnt: "kb_count ?k = Suc (kb_count k)"
    using ok nf kb_count_cases [OF ok] kb_count_cases [OF ok'] True
    by (auto simp: k kb_ok_def BUFFER_SIZE_def mod256 split: if_splits)
  have last: "(kb_tail k + kb_count k) mod 256 = kb_head k"
    using ok kb_count_cases [OF ok] by (auto simp: kb_ok_def BUFFER_SIZE_def mod256 split: if_splits)
  have other: "(kb_tail k + i) mod 256 \<noteq> kb_head k" if "i < kb_count k" for i
    using that ok kb_count_cases [OF ok] by (auto simp: kb_ok_def BUFFER_SIZE_def mod256 split: if_splits)
  have "kb_contents ?k = kb_contents k @ [c]"
    unfolding kb_contents_def cnt using last other
    by (simp add: k BUFFER_SIZE_def)
  then show ?thesis using ok' True by simp
next
  case False
  then have "kb_count k = 255" using kb_count_bound [of k] by simp
  then have "(kb_head k + 1) mod 256 = kb_tail k"
    using ok kb_count_cases [OF ok] by (auto simp: kb_ok_def BUFFER_SIZE_def mod256 split: if_splits)
  then have "push_to_buffer c k = k" by (simp add: push_to_buffer_def BUFFER_SIZE_def)
  then show ?thesis using ok False by simp
qed

lemma getchar_contents:
  assumes ok: "kb_ok k" and c: "kb_contents k = c # cs"
  shows "fst (getchar k) = c \<and> kb_contents (snd (getchar k)) = cs \<and> kb_ok (snd (getchar k))"
proof -
  obtain n where n: "kb_count k = Suc n" using arg_cong [OF c, of length] by (cases "kb_count k") auto
  have ne: "kb_tail k \<noteq> kb_head k" using n kb_count_cases [OF ok] by auto
  let ?k = "k\<lparr>kb_tail := (kb_tail k + 1) mod 256\<rparr>"
  have g: "getchar k = (key_buffer k (kb_tail k), ?k)" using ne by (simp add: getchar_def BUFFER_SIZE_def)
  have ok': "kb_ok ?k" using ok by (simp add: kb_ok_def BUFFER_SIZE_def)
  have cnt: "kb_count ?k = n"
    using ok n ne kb_count_cases [OF ok] kb_count_cases [OF ok']
    by (auto simp: kb_ok_def BUFFER_SIZE_def mod256 split: if_splits)
  have t: "kb_tail k mod 256 = kb_tail k" using ok by (simp add: kb_ok_def BUFFER_SIZE_def)
  have "kb_contents k = key_buffer k (kb_tail k) # kb_contents ?k"
    unfolding kb_contents_def n cnt upt_conv_Cons [OF zero_less_Suc] list.map map_Suc_upt [symmetric]
    using t by (simp add: BUFFER_SIZE_def mod_simps add.assoc)
  then show ?thesis using c g ok' by simp
qed

interpretation kb: bounded_fifo kb_ok kb_contents push_to_buffer getchar 255
proof
  show "length (kb_contents q) \<le> 255" if "kb_ok q" for q using kb_count_bound [of q] by simp
qed (use push_contents getchar_contents in auto)

text \<open>Reading \<open>n\<close> characters.\<close>

fun getchars :: "nat \<Rightarrow> kbd \<Rightarrow> u8 list" where
  "getchars 0 k = []"
| "getchars (Suc n) k = fst (getchar k) # getchars n (snd (getchar k))"

lemma getchars_pops: "getchars n k = kb.pops n k"
  by (induction n arbitrary: k) simp_all

section \<open>Modifier state\<close>

lemma test_bit_iff: "test_bit nr a \<longleftrightarrow> bit (a (nr div 32)) (nr mod 32)"
  by (simp add: test_bit_def bit_iff_odd_drop_bit and_one_eq odd_iff_mod_2_eq_one even_iff_mod_2_eq_zero)

lemma div_mod_eq_iff: "(m :: nat) = n \<longleftrightarrow> m div 32 = n div 32 \<and> m mod 32 = n mod 32"
  by (metis div_mult_mod_eq)

lemma test_set_bit: "test_bit m (set_bit' n a) \<longleftrightarrow> m = n \<or> test_bit m a"
  unfolding test_bit_iff set_bit'_def by (subst div_mod_eq_iff) (auto simp: bit_or_iff bit_push_bit_iff bit_1_iff bit_exp_iff)

lemma test_clear_bit: "test_bit m (clear_bit n a) \<longleftrightarrow> m \<noteq> n \<and> test_bit m a"
  unfolding test_bit_iff clear_bit_def
  by (subst div_mod_eq_iff) (auto simp: bit_and_iff bit_not_iff bit_push_bit_iff bit_1_iff bit_exp_iff)

definition held :: "nat \<Rightarrow> kbd \<Rightarrow> bool" where
  "held sc k \<longleftrightarrow> test_bit sc (key_down k)"

text \<open>The shift counter counts the shift keys that are down, and bit 0 of \<open>shift_state\<close> follows it.\<close>

definition shift_ok :: "kbd \<Rightarrow> bool" where
  "shift_ok k \<longleftrightarrow> k_down k 0 = of_bool (held 0x2A k) + of_bool (held 0x36 k) \<and>
     bit (shift_state k) 0 = (0 < k_down k 0)"

lemma push_fields [simp]:
  "key_down (push_to_buffer c k) = key_down k" "k_down (push_to_buffer c k) = k_down k"
  "shift_state (push_to_buffer c k) = shift_state k" "port_log (push_to_buffer c k) = port_log k"
  "prev_scancode (push_to_buffer c k) = prev_scancode k"
  by (simp_all add: push_to_buffer_def Let_def)

lemma push_arrow_fields [simp]:
  "key_down (push_arrow sc k) = key_down k" "k_down (push_arrow sc k) = k_down k"
  "shift_state (push_arrow sc k) = shift_state k" "port_log (push_arrow sc k) = port_log k"
  by (simp_all add: push_arrow_def)

lemma handle_keypad_fields [simp]:
  "key_down (handle_keypad sc k) = key_down k" "k_down (handle_keypad sc k) = k_down k"
  "shift_state (handle_keypad sc k) = shift_state k" "port_log (handle_keypad sc k) = port_log k"
  by (simp_all add: handle_keypad_def)

lemma eoi_fields [simp]:
  "key_down (eoi k) = key_down k" "k_down (eoi k) = k_down k" "shift_state (eoi k) = shift_state k"
  "port_log (eoi k) = port_log k @ [(0x20, 0x20)]"
  by (simp_all add: eoi_def)

lemma do_shift_log [simp]: "port_log (do_shift v u k) = port_log k" "key_down (do_shift v u k) = key_down k"
  by (simp_all add: do_shift_def Let_def)

lemma caps_toggle_fields [simp]:
  "key_down (caps_toggle k) = key_down k" "k_down (caps_toggle k) = k_down k"
  "shift_state (caps_toggle k) = shift_state k" "port_log (caps_toggle k) = port_log k"
  by (simp_all add: caps_toggle_def)

lemma shift_ok_cong:
  "shift_ok k \<Longrightarrow> key_down k' = key_down k \<Longrightarrow> k_down k' = k_down k \<Longrightarrow> shift_state k' = shift_state k \<Longrightarrow> shift_ok k'"
  by (simp add: shift_ok_def held_def)

lemma shift_bit_or: "bit (w OR 1 :: u32) 0" "\<not> bit (w AND -2 :: u32) 0"
  unfolding bit_or_iff bit_and_iff by simp_all

lemma do_shift_ok:
  assumes "\<not> rep k" "k_down k 0 \<ge> 0" "up \<longrightarrow> k_down k 0 > 0"
  shows "k_down (do_shift 0 up k) 0 = (if up then k_down k 0 - 1 else k_down k 0 + 1)"
    "bit (shift_state (do_shift 0 up k)) 0 = (0 < k_down (do_shift 0 up k) 0)"
  using assms by (auto simp: do_shift_def Let_def shift_bit_or)

text \<open>A key is released only while it is down, unless it is an extended key.\<close>

definition plausible :: "u8 \<Rightarrow> kbd \<Rightarrow> bool" where
  "plausible raw k \<longleftrightarrow> raw = 0xE0 \<or> raw = 0xE1 \<or> prev_scancode k \<noteq> 0 \<or> raw AND 0x80 = 0 \<or>
     held (unat (raw AND 0x7F)) k"

lemma held_upd:
  "held sc (k\<lparr>key_down := set_bit' n (key_down k), rep := r\<rparr>) \<longleftrightarrow> sc = n \<or> held sc k"
  "held sc (k\<lparr>rep := r, key_down := set_bit' n (key_down k)\<rparr>) \<longleftrightarrow> sc = n \<or> held sc k"
  "held sc (k\<lparr>key_down := clear_bit n (key_down k), rep := r\<rparr>) \<longleftrightarrow> sc \<noteq> n \<and> held sc k"
  by (simp_all add: held_def test_set_bit test_clear_bit)

definition shifts_held :: "kbd \<Rightarrow> int" where
  "shifts_held k = of_bool (held 0x2A k) + of_bool (held 0x36 k)"

lemma shifts_held_release:
  "(\<And>s. held s k' \<longleftrightarrow> s \<noteq> sc \<and> held s k) \<Longrightarrow> held sc k \<Longrightarrow>
     shifts_held k' = (if is_shift sc then shifts_held k - 1 else shifts_held k)"
  by (auto simp: shifts_held_def is_shift_def)

lemma shifts_held_press:
  "(\<And>s. held s k' \<longleftrightarrow> s = sc \<or> held s k) \<Longrightarrow>
     shifts_held k' = (if is_shift sc \<and> \<not> held sc k then shifts_held k + 1 else shifts_held k)"
  by (auto simp: shifts_held_def is_shift_def)

lemma shift_ok_alt: "shift_ok k \<longleftrightarrow> k_down k 0 = shifts_held k \<and> bit (shift_state k) 0 = (0 < k_down k 0)"
  by (simp add: shift_ok_def shifts_held_def)

lemma keyboard_shift_ok:
  assumes ok: "shift_ok k" and pl: "plausible raw k"
  shows "shift_ok (keyboard_handler raw k)"
proof -
  let ?sc = "unat (raw AND 0x7F)"
  have nn: "k_down k 0 \<ge> 0" using ok by (simp add: shift_ok_def)
  consider (pre) "raw = 0xE0 \<or> raw = 0xE1 \<or> prev_scancode k \<noteq> 0"
    | (up) "\<not> (raw = 0xE0 \<or> raw = 0xE1 \<or> prev_scancode k \<noteq> 0)" "raw AND 0x80 \<noteq> 0"
    | (down) "\<not> (raw = 0xE0 \<or> raw = 0xE1 \<or> prev_scancode k \<noteq> 0)" "raw AND 0x80 = 0" by blast
  then show ?thesis
  proof cases
    case pre
    then have "key_down (keyboard_handler raw k) = key_down k" "k_down (keyboard_handler raw k) = k_down k"
      "shift_state (keyboard_handler raw k) = shift_state k"
      by (auto simp: keyboard_handler_def Let_def)
    then show ?thesis using ok shift_ok_cong by blast
  next
    case up
    let ?k = "k\<lparr>key_down := clear_bit ?sc (key_down k), rep := False\<rparr>"
    have h: "keyboard_handler raw k = eoi (if is_shift ?sc then do_shift 0 True ?k else ?k)"
      using up by (simp add: keyboard_handler_def Let_def)
    have hs: "held ?sc k" using pl up by (auto simp: plausible_def)
    show ?thesis
    proof (cases "is_shift ?sc")
      case True
      then have "held 0x2A k \<or> held 0x36 k" using hs by (auto simp: is_shift_def)
      then have pos: "k_down ?k 0 > 0" using ok by (auto simp: shift_ok_def)
      have d: "k_down (do_shift 0 True ?k) 0 = k_down k 0 - 1"
        "bit (shift_state (do_shift 0 True ?k)) 0 = (0 < k_down (do_shift 0 True ?k) 0)"
        using do_shift_ok [of ?k True] pos by simp_all
      have "held s (eoi (do_shift 0 True ?k)) \<longleftrightarrow> s \<noteq> ?sc \<and> held s k" for s
        by (simp add: held_def test_clear_bit)
      from shifts_held_release [OF this hs] d ok True show ?thesis unfolding h by (simp add: shift_ok_alt)
    next
      case False
      have "held s (eoi ?k) \<longleftrightarrow> s \<noteq> ?sc \<and> held s k" for s by (simp add: held_def test_clear_bit)
      from shifts_held_release [OF this hs] ok False show ?thesis unfolding h by (simp add: shift_ok_alt)
    qed
  next
    case down
    let ?k = "k\<lparr>rep := test_bit ?sc (key_down k), key_down := set_bit' ?sc (key_down k)\<rparr>"
    show ?thesis
    proof (cases "is_shift ?sc")
      case True
      have h: "keyboard_handler raw k = eoi (do_shift 0 False ?k)"
        using down True by (simp add: keyboard_handler_def Let_def)
      have hd: "held s (eoi (do_shift 0 False ?k)) \<longleftrightarrow> s = ?sc \<or> held s k" for s
        by (simp add: held_def test_set_bit)
      show ?thesis
      proof (cases "held ?sc k")
        case True
        then have "do_shift 0 False ?k = ?k" by (simp add: do_shift_def held_def)
        then show ?thesis using shifts_held_press [OF hd] True ok unfolding h by (simp add: shift_ok_alt)
      next
        case False
        have d: "k_down (do_shift 0 False ?k) 0 = k_down k 0 + 1"
          "bit (shift_state (do_shift 0 False ?k)) 0 = (0 < k_down (do_shift 0 False ?k) 0)"
          using do_shift_ok [of ?k False] False nn by (simp_all add: held_def)
        then show ?thesis using shifts_held_press [OF hd] False ok \<open>is_shift ?sc\<close> unfolding h
          by (simp add: shift_ok_alt)
      qed
    next
      case False
      have e: "k_down (keyboard_handler raw k) = k_down k" "shift_state (keyboard_handler raw k) = shift_state k"
        "key_down (keyboard_handler raw k) = set_bit' ?sc (key_down k)"
        using down False by (auto simp: keyboard_handler_def Let_def)
      have "held s (keyboard_handler raw k) \<longleftrightarrow> s = ?sc \<or> held s k" for s by (simp add: held_def test_set_bit e)
      from shifts_held_press [OF this] ok False e show ?thesis by (simp add: shift_ok_alt)
    qed
  qed
qed

section \<open>The handler and the buffer\<close>

definition kb_view :: "kbd \<Rightarrow> (nat \<Rightarrow> u8) \<times> nat \<times> nat" where
  "kb_view k = (key_buffer k, kb_head k, kb_tail k)"

lemma kb_view_contents: "kb_view k = kb_view k' \<Longrightarrow> kb_contents k = kb_contents k' \<and> kb_ok k = kb_ok k'"
  by (simp add: kb_view_def kb_contents_def kb_count_def kb_ok_def)

text \<open>Up to the view, a step is either nothing or one push.\<close>

definition one_push :: "kbd \<Rightarrow> kbd \<Rightarrow> bool" where
  "one_push k k' \<longleftrightarrow> kb_view k' = kb_view k \<or> (\<exists>c. kb_view k' = kb_view (push_to_buffer c k))"

lemma one_push_same: "kb_view k' = kb_view k \<Longrightarrow> one_push k k'"
  by (simp add: one_push_def)

lemma one_push_push: "kb_view k' = kb_view k \<Longrightarrow> one_push k (push_to_buffer c k')"
proof -
  assume "kb_view k' = kb_view k"
  then have "kb_view (push_to_buffer c k') = kb_view (push_to_buffer c k)"
    by (simp add: kb_view_def push_to_buffer_def Let_def)
  then show ?thesis unfolding one_push_def by blast
qed

lemma one_push_arrow: "kb_view k' = kb_view k \<Longrightarrow> one_push k (push_arrow sc k')"
  unfolding push_arrow_def by (simp add: one_push_push one_push_same)

lemma one_push_keypad: "kb_view k' = kb_view k \<Longrightarrow> one_push k (handle_keypad sc k')"
  unfolding handle_keypad_def by (simp add: one_push_push one_push_same one_push_arrow)

lemma one_push_eoi: "one_push k k' \<Longrightarrow> one_push k (eoi k')"
  by (simp add: one_push_def kb_view_def eoi_def)

lemma one_push_if: "one_push k x \<Longrightarrow> one_push k y \<Longrightarrow> one_push k (if b then x else y)"
  by simp

lemma handler_one_push: "one_push k (keyboard_handler raw k)"
  unfolding keyboard_handler_def Let_def
  by (intro one_push_if one_push_eoi one_push_push one_push_arrow one_push_keypad one_push_same)
     (simp_all add: kb_view_def do_shift_def caps_toggle_def Let_def)

section \<open>Properties\<close>



text \<open>
  C20: The buffer never overflows and never overwrites: whatever the scancode, the handler keeps the indices
  in range, and the characters already waiting stay, in order, in front of at most one new one.
\<close>

theorem keyboard_handler_appends:
  assumes "kb_ok k"
  shows "kb_ok (keyboard_handler raw k) \<and>
    (kb_contents (keyboard_handler raw k) = kb_contents k \<or>
     (\<exists>c. kb_contents (keyboard_handler raw k) = kb_contents k @ [c])) \<and>
    length (kb_contents (keyboard_handler raw k)) \<le> 255"
proof -
  have "kb_ok (keyboard_handler raw k) \<and> (kb_contents (keyboard_handler raw k) = kb_contents k \<or>
     (\<exists>c. kb_contents (keyboard_handler raw k) = kb_contents k @ [c]))"
    using handler_one_push [of k raw] kb_view_contents push_contents [OF assms] assms
    unfolding one_push_def by metis
  moreover have "length (kb_contents (keyboard_handler raw k)) \<le> 255"
    using kb_count_bound [of "keyboard_handler raw k"] by simp
  ultimately show ?thesis by blast
qed

lemma keyboard_handler_appends_witness:
  "kb_ok (keyboard_handler 0x1E kbd0) \<and> kb_contents (keyboard_handler 0x1E kbd0) = [97]"
  using keyboard_handler_appends [of kbd0 "0x1E"]
  by (simp add: kb_ok_def kbd0_def BUFFER_SIZE_def keyboard_handler_def Let_def is_shift_def
      scancode_to_ascii_def scancode_table_def modified_def push_to_buffer_def eoi_def kb_contents_def kb_count_def)

text \<open>
  The shift state is exact. If keys are released only while they are down, then after every scancode
  the shift counter equals the number of shift keys held, and the shift bit that selects the upper
  case is set exactly when at least one of them is held.
\<close>

theorem keyboard_shift_exact:
  assumes "shift_ok k" "plausible raw k"
  shows "shift_ok (keyboard_handler raw k)"
  using assms by (rule keyboard_shift_ok)

lemma keyboard_shift_exact_witness: "shift_ok (keyboard_handler 0x2A kbd0)"
proof -
  have "shift_ok kbd0" by (simp add: shift_ok_def kbd0_def held_def test_bit_def)
  moreover have "plausible 0x2A kbd0" by (simp add: plausible_def)
  ultimately show ?thesis by (rule keyboard_shift_exact)
qed

text \<open>
  Every keyboard interrupt is acknowledged exactly once: on each path through the handler the one port
  write is the end-of-interrupt command.
\<close>

theorem keyboard_one_eoi: "port_log (keyboard_handler raw k) = port_log k @ [(0x20, 0x20)]"
  unfolding keyboard_handler_def Let_def by simp

end
