(* ===== verification/Vga.thy ===== *)
theory Vga
  imports Prelude
begin

text \<open>
  The text console of \<open>driver/vga.c\<close>: the 80 by 25 cells at \<open>0xB8000\<close>, the cursor, and the cursor
  registers of the CRT controller, which \<open>vga_update_cursor\<close> writes through an index and a data port.
  A C \<open>char\<close> is signed: or-ing it into a cell extends its sign.
\<close>

section \<open>Model\<close>

abbreviation VGA_WIDTH :: int where "VGA_WIDTH \<equiv> 80"
abbreviation VGA_HEIGHT :: int where "VGA_HEIGHT \<equiv> 25"

record vga =
  vga_buffer :: "nat \<Rightarrow> u16"
  cursor_x :: int
  cursor_y :: int
  crtc :: "u8 \<Rightarrow> u8"

definition blank :: u16 where "blank = 0x0F20"

definition vga_update_cursor :: "vga \<Rightarrow> vga" where
  "vga_update_cursor v =
     (let pos = of_int (cursor_y v * VGA_WIDTH + cursor_x v) :: u16 in
      v\<lparr>crtc := (crtc v)(0x0F := ucast (pos AND 0xFF), 0x0E := ucast (drop_bit 8 pos AND 0xFF))\<rparr>)"

definition set_cell :: "nat \<Rightarrow> u16 \<Rightarrow> vga \<Rightarrow> vga" where
  "set_cell i c v = v\<lparr>vga_buffer := (vga_buffer v)(i := c)\<rparr>"

definition copy_row :: "nat \<Rightarrow> vga \<Rightarrow> vga" where
  "copy_row y = fold (\<lambda>x v. set_cell ((y - 1) * 80 + x) (vga_buffer v (y * 80 + x)) v) [0..<80]"

definition vga_scroll :: "vga \<Rightarrow> vga" where
  "vga_scroll v =
     fold (\<lambda>x. set_cell (24 * 80 + x) blank) [0..<80] (fold copy_row [1..<25] v)"

definition cell_at :: "vga \<Rightarrow> nat" where
  "cell_at v = nat (cursor_y v * VGA_WIDTH + cursor_x v)"

text \<open>\<open>if (cursor_y >= VGA_HEIGHT) { vga_scroll(); cursor_y = VGA_HEIGHT - 1; }\<close>\<close>

definition wrap_bottom :: "vga \<Rightarrow> vga" where
  "wrap_bottom v = (if cursor_y v \<ge> VGA_HEIGHT then (vga_scroll v)\<lparr>cursor_y := VGA_HEIGHT - 1\<rparr> else v)"

definition vga_putchar :: "u8 \<Rightarrow> vga \<Rightarrow> vga" where
  "vga_putchar c v =
     (if c = 10 then vga_update_cursor (wrap_bottom (v\<lparr>cursor_x := 0, cursor_y := cursor_y v + 1\<rparr>))
      else if c = 13 then vga_update_cursor (v\<lparr>cursor_x := 0\<rparr>)
      else if c = 8 then
        (let v = (if cursor_x v > 0 then v\<lparr>cursor_x := cursor_x v - 1\<rparr>
                  else if cursor_y v > 0 then v\<lparr>cursor_y := cursor_y v - 1, cursor_x := VGA_WIDTH - 1\<rparr>
                  else v)
         in vga_update_cursor (set_cell (cell_at v) blank v))
      else
        (let v = set_cell (cell_at v) (0x0F00 OR scast c) v;
             v = v\<lparr>cursor_x := cursor_x v + 1\<rparr>;
             v = (if cursor_x v \<ge> VGA_WIDTH
                  then wrap_bottom (v\<lparr>cursor_x := 0, cursor_y := cursor_y v + 1\<rparr>) else v)
         in vga_update_cursor v))"

text \<open>A C string is the list of its bytes before the terminating zero.\<close>

definition vga_write :: "u8 list \<Rightarrow> vga \<Rightarrow> vga" where
  "vga_write cs v = fold vga_putchar cs v"

definition vga_clear :: "vga \<Rightarrow> vga" where
  "vga_clear v = vga_update_cursor ((fold (\<lambda>i. set_cell i blank) [0..<2000] v)\<lparr>cursor_x := 0, cursor_y := 0\<rparr>)"

definition vga_init :: "vga \<Rightarrow> vga" where
  "vga_init = vga_clear"

section \<open>Cells\<close>

lemma set_cell_fields [simp]:
  "vga_buffer (set_cell i c v) = (vga_buffer v)(i := c)" "cursor_x (set_cell i c v) = cursor_x v"
  "cursor_y (set_cell i c v) = cursor_y v" "crtc (set_cell i c v) = crtc v"
  by (simp_all add: set_cell_def)

lemma update_cursor_fields [simp]:
  "vga_buffer (vga_update_cursor v) = vga_buffer v" "cursor_x (vga_update_cursor v) = cursor_x v"
  "cursor_y (vga_update_cursor v) = cursor_y v"
  by (simp_all add: vga_update_cursor_def Let_def)

lemma fold_blank:
  "vga_buffer (fold (\<lambda>x. set_cell (b + x) c) [0..<n] v) = (\<lambda>i. if b \<le> i \<and> i < b + n then c else vga_buffer v i) \<and>
   cursor_x (fold (\<lambda>x. set_cell (b + x) c) [0..<n] v) = cursor_x v \<and>
   cursor_y (fold (\<lambda>x. set_cell (b + x) c) [0..<n] v) = cursor_y v"
  by (induction n) (auto simp: fun_eq_iff)

text \<open>One row of the scroll: row \<open>y\<close> is copied to row \<open>y - 1\<close>.\<close>

lemma fold_row:
  assumes "d + 80 \<le> e"
  shows "n \<le> 80 \<Longrightarrow>
   vga_buffer (fold (\<lambda>x v. set_cell (d + x) (vga_buffer v (e + x)) v) [0..<n] v) =
     (\<lambda>i. if d \<le> i \<and> i < d + n then vga_buffer v (i - d + e) else vga_buffer v i) \<and>
   cursor_x (fold (\<lambda>x v. set_cell (d + x) (vga_buffer v (e + x)) v) [0..<n] v) = cursor_x v \<and>
   cursor_y (fold (\<lambda>x v. set_cell (d + x) (vga_buffer v (e + x)) v) [0..<n] v) = cursor_y v"
proof (induction n)
  case 0
  then show ?case by (auto simp: fun_eq_iff)
next
  case (Suc n)
  then have IH: "vga_buffer (fold (\<lambda>x v. set_cell (d + x) (vga_buffer v (e + x)) v) [0..<n] v) =
     (\<lambda>i. if d \<le> i \<and> i < d + n then vga_buffer v (i - d + e) else vga_buffer v i)" by simp
  show ?case using Suc assms by (auto simp: fun_eq_iff IH add.commute)
qed

lemma copy_row_buffer:
  assumes "1 \<le> y"
  shows "vga_buffer (copy_row y v) =
      (\<lambda>i. if (y - 1) * 80 \<le> i \<and> i < y * 80 then vga_buffer v (i + 80) else vga_buffer v i)"
    "cursor_x (copy_row y v) = cursor_x v" "cursor_y (copy_row y v) = cursor_y v"
proof -
  obtain z where z: "y = Suc z" using assms by (cases y) auto
  have r: "vga_buffer (copy_row y v) = (\<lambda>i. if (y - 1) * 80 \<le> i \<and> i < (y - 1) * 80 + 80
      then vga_buffer v (i - (y - 1) * 80 + y * 80) else vga_buffer v i) \<and>
      cursor_x (copy_row y v) = cursor_x v \<and> cursor_y (copy_row y v) = cursor_y v"
    unfolding copy_row_def using z by (intro fold_row) auto
  then show "cursor_x (copy_row y v) = cursor_x v" "cursor_y (copy_row y v) = cursor_y v" by simp_all
  show "vga_buffer (copy_row y v) =
      (\<lambda>i. if (y - 1) * 80 \<le> i \<and> i < y * 80 then vga_buffer v (i + 80) else vga_buffer v i)"
    using r z by (auto simp: fun_eq_iff algebra_simps)
qed

lemma copy_rows:
  "vga_buffer (fold copy_row [1..<Suc n] v) = (\<lambda>i. if i < n * 80 then vga_buffer v (i + 80) else vga_buffer v i) \<and>
   cursor_x (fold copy_row [1..<Suc n] v) = cursor_x v \<and> cursor_y (fold copy_row [1..<Suc n] v) = cursor_y v"
proof (induction n)
  case 0
  then show ?case by (simp add: fun_eq_iff)
next
  case (Suc n)
  have f: "fold copy_row [1..<Suc (Suc n)] v = copy_row (Suc n) (fold copy_row [1..<Suc n] v)" by simp
  show ?case unfolding f using Suc copy_row_buffer [of "Suc n" "fold copy_row [1..<Suc n] v"]
    by (auto simp: fun_eq_iff)
qed

lemma scroll_buffer:
  "vga_buffer (vga_scroll v) =
     (\<lambda>i. if i < 1920 then vga_buffer v (i + 80) else if i < 2000 then blank else vga_buffer v i)"
  "cursor_x (vga_scroll v) = cursor_x v" "cursor_y (vga_scroll v) = cursor_y v"
proof -
  have s: "vga_scroll v = fold (\<lambda>x. set_cell (24 * 80 + x) blank) [0..<80] (fold copy_row [1..<25] v)"
    by (fact vga_scroll_def)
  have c: "vga_buffer (fold copy_row [1..<25] v) = (\<lambda>i. if i < 1920 then vga_buffer v (i + 80) else vga_buffer v i)"
    "cursor_x (fold copy_row [1..<25] v) = cursor_x v" "cursor_y (fold copy_row [1..<25] v) = cursor_y v"
    using copy_rows [of 24 v] by simp_all
  note b = fold_blank [of "24 * 80" blank 80 "fold copy_row [1..<25] v"]
  show "cursor_x (vga_scroll v) = cursor_x v" "cursor_y (vga_scroll v) = cursor_y v"
    unfolding s using b c by simp_all
  have "vga_buffer (vga_scroll v) = (\<lambda>i. if 24 * 80 \<le> i \<and> i < 24 * 80 + 80 then blank
      else vga_buffer (fold copy_row [1..<25] v) i)"
    unfolding s using b by blast
  then show "vga_buffer (vga_scroll v) =
     (\<lambda>i. if i < 1920 then vga_buffer v (i + 80) else if i < 2000 then blank else vga_buffer v i)"
    unfolding c(1) by (auto simp: fun_eq_iff)
qed

section \<open>The console invariant\<close>

text \<open>The cursor is on the screen, and the controller's registers hold its position.\<close>

definition on_screen :: "vga \<Rightarrow> bool" where
  "on_screen v \<longleftrightarrow> 0 \<le> cursor_x v \<and> cursor_x v < 80 \<and> 0 \<le> cursor_y v \<and> cursor_y v < 25"

definition hw_cursor :: "vga \<Rightarrow> int" where
  "hw_cursor v = 256 * uint (crtc v 0x0E) + uint (crtc v 0x0F)"

definition vga_ok :: "vga \<Rightarrow> bool" where
  "vga_ok v \<longleftrightarrow> on_screen v \<and> hw_cursor v = cursor_y v * 80 + cursor_x v"

definition same_outside :: "vga \<Rightarrow> vga \<Rightarrow> bool" where
  "same_outside v v' \<longleftrightarrow> (\<forall>i \<ge> 2000. vga_buffer v' i = vga_buffer v i)"

lemma same_outside_refl [simp, intro]: "same_outside v v"
  by (simp add: same_outside_def)

lemma same_outside_trans: "same_outside u v \<Longrightarrow> same_outside v w \<Longrightarrow> same_outside u w"
  by (simp add: same_outside_def)

lemma split_pos:
  fixes p :: u16
  shows "256 * uint (ucast (drop_bit 8 p AND 0xFF) :: u8) + uint (ucast (p AND 0xFF) :: u8) = uint p"
proof -
  have e: "(0xFF::u16) = mask 8" by (simp add: mask_eq_exp_minus_1)
  have p: "uint p < 65536" using uint_lt2p [of p] by simp
  have q: "uint p div 256 mod 256 = uint p div 256" using p by (intro mod_pos_pos_trivial) (auto simp: div_int_pos_iff)
  have l: "uint (ucast (p AND 0xFF) :: u8) = uint p mod 256"
    unfolding e by (simp add: unsigned_ucast_eq take_bit_eq_mask [symmetric] unsigned_take_bit_eq) (simp add: take_bit_eq_mod)
  have h: "uint (ucast (drop_bit 8 p AND 0xFF) :: u8) = uint p div 256"
    unfolding e using p q
    by (simp add: unsigned_ucast_eq take_bit_eq_mask [symmetric] unsigned_take_bit_eq unsigned_drop_bit_eq)
      (simp add: take_bit_eq_mod drop_bit_eq_div)
  show ?thesis unfolding l h by (simp add: mult.commute)
qed

lemma update_cursor_ok:
  assumes "on_screen v"
  shows "vga_ok (vga_update_cursor v)"
proof -
  let ?p = "cursor_y v * 80 + cursor_x v"
  have r: "0 \<le> ?p" "?p < 2000" using assms by (auto simp: on_screen_def)
  have "uint (of_int ?p :: u16) = ?p" using r by (simp add: uint_word_of_int_eq take_bit_eq_mod del: of_int_add of_int_mult)
  then have "hw_cursor (vga_update_cursor v) = ?p"
    using split_pos [of "of_int ?p"] by (simp add: hw_cursor_def vga_update_cursor_def Let_def)
  then show ?thesis using assms by (simp add: vga_ok_def on_screen_def)
qed

lemma wrap_bottom_ok:
  assumes "0 \<le> cursor_x v" "cursor_x v < 80" "0 \<le> cursor_y v"
  shows "on_screen (wrap_bottom v) \<and> same_outside v (wrap_bottom v)"
  using assms by (auto simp: wrap_bottom_def on_screen_def same_outside_def scroll_buffer)

lemma cell_at_screen: "on_screen v \<Longrightarrow> cell_at v < 2000"
  by (auto simp: on_screen_def cell_at_def)

lemma set_cell_outside: "i < 2000 \<Longrightarrow> same_outside v (set_cell i c v)"
  by (simp add: same_outside_def)

lemma set_cell_on_screen [simp]: "on_screen (set_cell i c v) = on_screen v"
  by (simp add: on_screen_def)

lemma update_cursor_step:
  assumes "on_screen w" "same_outside v w"
  shows "vga_ok (vga_update_cursor w) \<and> same_outside v (vga_update_cursor w)"
  using assms update_cursor_ok by (simp add: same_outside_def)

lemma putchar_inv:
  assumes "on_screen v"
  shows "vga_ok (vga_putchar c v) \<and> same_outside v (vga_putchar c v)"
proof -
  have nl: "on_screen (wrap_bottom (w\<lparr>cursor_x := 0, cursor_y := cursor_y w + 1\<rparr>)) \<and>
      same_outside w (wrap_bottom (w\<lparr>cursor_x := 0, cursor_y := cursor_y w + 1\<rparr>))" if "on_screen w" for w
    using wrap_bottom_ok [of "w\<lparr>cursor_x := 0, cursor_y := cursor_y w + 1\<rparr>"] that
    by (simp add: on_screen_def same_outside_def)
  consider "c = 10" | "c = 13" | "c = 8" | "c \<noteq> 10" "c \<noteq> 13" "c \<noteq> 8" by blast
  then show ?thesis
  proof cases
    case 1
    then have e: "vga_putchar c v = vga_update_cursor (wrap_bottom (v\<lparr>cursor_x := 0, cursor_y := cursor_y v + 1\<rparr>))"
      by (simp add: vga_putchar_def)
    show ?thesis unfolding e using nl [OF assms] by (intro update_cursor_step) auto
  next
    case 2
    then show ?thesis using assms update_cursor_step [of "v\<lparr>cursor_x := 0\<rparr>" v]
      by (simp add: vga_putchar_def on_screen_def same_outside_def)
  next
    case 3
    define w where "w = (if cursor_x v > 0 then v\<lparr>cursor_x := cursor_x v - 1\<rparr>
       else if cursor_y v > 0 then v\<lparr>cursor_y := cursor_y v - 1, cursor_x := VGA_WIDTH - 1\<rparr> else v)"
    have w: "on_screen w" "same_outside v w" using assms by (auto simp: w_def on_screen_def same_outside_def)
    have "same_outside v (set_cell (cell_at w) blank w)"
      using set_cell_outside [OF cell_at_screen [OF w(1)]] w(2) same_outside_trans by blast
    moreover have "vga_putchar c v = vga_update_cursor (set_cell (cell_at w) blank w)"
      using 3 by (simp add: vga_putchar_def w_def Let_def)
    ultimately show ?thesis using update_cursor_step w(1) by simp
  next
    case 4
    define w where "w = set_cell (cell_at v) (0x0F00 OR scast c) v"
    have w: "on_screen w" "same_outside v w"
      using assms set_cell_outside [OF cell_at_screen [OF assms]] by (auto simp: w_def)
    have e: "vga_putchar c v = vga_update_cursor (if cursor_x w + 1 \<ge> VGA_WIDTH
        then wrap_bottom (w\<lparr>cursor_x := 0, cursor_y := cursor_y w + 1\<rparr>) else w\<lparr>cursor_x := cursor_x w + 1\<rparr>)"
      using 4 by (simp add: vga_putchar_def w_def Let_def)
    show ?thesis unfolding e
      using nl [OF w(1)] w same_outside_trans by (intro update_cursor_step) (auto simp: on_screen_def same_outside_def)
  qed
qed

lemma write_inv: "vga_ok v \<Longrightarrow> vga_ok (vga_write cs v) \<and> same_outside v (vga_write cs v)"
proof (induction cs arbitrary: v)
  case Nil
  then show ?case by (simp add: vga_write_def)
next
  case (Cons c cs)
  then have "on_screen v" by (simp add: vga_ok_def)
  note p = putchar_inv [OF this, of c]
  have "vga_write (c # cs) v = vga_write cs (vga_putchar c v)" by (simp add: vga_write_def)
  then show ?case using Cons.IH p same_outside_trans by metis
qed

lemma clear_buffer: "vga_buffer (vga_clear v) = (\<lambda>i. if i < 2000 then blank else vga_buffer v i)"
  using fold_blank [of 0 blank 2000 v] by (simp add: vga_clear_def)

lemma clear_ok: "vga_ok (vga_clear v)"
  unfolding vga_clear_def by (rule update_cursor_ok) (simp add: on_screen_def)

section \<open>What a write shows\<close>

definition printable :: "u8 \<Rightarrow> bool" where
  "printable c \<longleftrightarrow> 0x20 \<le> c \<and> c < 0x80"

definition white :: "u8 \<Rightarrow> u16" where
  "white c = 0x0F00 + ucast c"

lemma ascii_cells: "list_all (\<lambda>n. (0x0F00 OR scast (word_of_nat n :: u8) :: u16) = 0x0F00 + ucast (word_of_nat n :: u8)) [0..<128]"
  by code_simp

lemma sext_ascii:
  assumes "printable c"
  shows "(0x0F00 OR scast c :: u16) = white c"
proof -
  have "unat c < 128" using assms by (simp add: printable_def word_less_nat_alt)
  then have "(0x0F00 OR scast (word_of_nat (unat c) :: u8) :: u16) = 0x0F00 + ucast (word_of_nat (unat c) :: u8)"
    using ascii_cells unfolding list_all_iff set_upt by (meson atLeastLessThan_iff zero_le)
  then show ?thesis by (simp add: white_def)
qed

lemma putchar_shows:
  assumes "on_screen v" "printable c" "cursor_x v + 1 < 80"
  shows "vga_buffer (vga_putchar c v) = (vga_buffer v)(cell_at v := white c)"
    "cursor_x (vga_putchar c v) = cursor_x v + 1" "cursor_y (vga_putchar c v) = cursor_y v"
proof -
  have "c \<noteq> 10" "c \<noteq> 13" "c \<noteq> 8" using assms(2) by (auto simp: printable_def)
  then have e: "vga_putchar c v = vga_update_cursor ((set_cell (cell_at v) (white c) v)\<lparr>cursor_x := cursor_x v + 1\<rparr>)"
    using assms by (simp add: vga_putchar_def Let_def sext_ascii)
  show "vga_buffer (vga_putchar c v) = (vga_buffer v)(cell_at v := white c)"
    "cursor_x (vga_putchar c v) = cursor_x v + 1" "cursor_y (vga_putchar c v) = cursor_y v"
    unfolding e by simp_all
qed

section \<open>Properties\<close>

text \<open>C21: Once the console is initialised, whatever bytes are written to it, the cursor stays on the 80 by
  25 screen, the controller's two cursor registers hold its position, and no memory beyond the 2000 cells
  of the frame buffer is changed.\<close>

theorem vga_console_invariant:
  "vga_ok (vga_write cs (vga_init v)) \<and> (\<forall>i. vga_buffer (vga_write cs (vga_init v)) (2000 + i) = vga_buffer v (2000 + i))"
  using write_inv [OF clear_ok, of cs v] by (simp add: vga_init_def same_outside_def clear_buffer)

text \<open>Writing printable characters that fit on the cursor's row puts exactly them, white on black, in the
  cells from the cursor on, changes no other cell and moves the cursor behind them.\<close>

theorem vga_write_shows:
  assumes "on_screen v" "\<forall>c \<in> set cs. printable c" "cursor_x v + int (length cs) < 80"
  shows "vga_buffer (vga_write cs v) = (\<lambda>i. if cell_at v \<le> i \<and> i < cell_at v + length cs
            then white (cs ! (i - cell_at v)) else vga_buffer v i) \<and>
         cursor_x (vga_write cs v) = cursor_x v + int (length cs) \<and> cursor_y (vga_write cs v) = cursor_y v"
  using assms
proof (induction cs arbitrary: v)
  case Nil
  then show ?case by (auto simp: vga_write_def fun_eq_iff)
next
  case (Cons c cs)
  let ?w = "vga_putchar c v"
  have p: "vga_buffer ?w = (vga_buffer v)(cell_at v := white c)" "cursor_x ?w = cursor_x v + 1"
      "cursor_y ?w = cursor_y v"
    using putchar_shows [of v c] Cons.prems by simp_all
  have s: "on_screen ?w" using Cons.prems p by (simp add: on_screen_def)
  have c: "cell_at ?w = cell_at v + 1" using Cons.prems(1) p by (auto simp: cell_at_def on_screen_def)
  have e: "vga_write (c # cs) v = vga_write cs ?w" by (simp add: vga_write_def)
  have "(\<lambda>i. if cell_at v + 1 \<le> i \<and> i < cell_at v + 1 + length cs then white (cs ! (i - (cell_at v + 1)))
        else ((vga_buffer v)(cell_at v := white c)) i) =
      (\<lambda>i. if cell_at v \<le> i \<and> i < cell_at v + length (c # cs) then white ((c # cs) ! (i - cell_at v))
        else vga_buffer v i)"
    by (auto simp: fun_eq_iff nth_Cons')
  then show ?case unfolding e using Cons.IH [OF s, unfolded p c] Cons.prems by simp
qed

definition fresh_vga :: vga where
  "fresh_vga = \<lparr>vga_buffer = \<lambda>_. 0, cursor_x = 3, cursor_y = 24, crtc = \<lambda>_. 0\<rparr>"

theorem vga_write_shows_witness:
  "vga_buffer (vga_write [0x4F, 0x4B] fresh_vga) 1923 = 0x0F4F \<and>
   vga_buffer (vga_write [0x4F, 0x4B] fresh_vga) 1924 = 0x0F4B \<and>
   cursor_x (vga_write [0x4F, 0x4B] fresh_vga) = 5"
  using vga_write_shows [of fresh_vga "[0x4F, 0x4B]"]
  by (simp add: fresh_vga_def on_screen_def printable_def cell_at_def white_def)

text \<open>A newline on the last row scrolls: every row moves up by one, the last row becomes blank, and the
  cursor goes to its start.\<close>

theorem vga_newline_scrolls:
  assumes "on_screen v" "cursor_y v = 24"
  shows "(\<forall>i < 1920. vga_buffer (vga_putchar 10 v) i = vga_buffer v (i + 80)) \<and>
         (\<forall>i. 1920 \<le> i \<and> i < 2000 \<longrightarrow> vga_buffer (vga_putchar 10 v) i = 0x0F20) \<and>
         cursor_x (vga_putchar 10 v) = 0 \<and> cursor_y (vga_putchar 10 v) = 24"
  using assms by (simp add: vga_putchar_def wrap_bottom_def scroll_buffer blank_def)

theorem vga_newline_scrolls_witness:
  "vga_buffer (vga_putchar 10 (set_cell 1920 0x0F41 fresh_vga)) 1840 = 0x0F41 \<and>
   cursor_x (vga_putchar 10 (set_cell 1920 0x0F41 fresh_vga)) = 0"
  using vga_newline_scrolls [of "set_cell 1920 0x0F41 fresh_vga"]
  by (simp add: fresh_vga_def on_screen_def)

text \<open>A byte of 0x80 or more, a negative \<open>char\<close>, is shown with attribute 0xFF and not with the
  attribute 0x0F the driver asks for.\<close>

theorem vga_high_byte_attribute:
  assumes "on_screen v" "0x80 \<le> c" "cursor_x v < 79"
  shows "vga_buffer (vga_putchar c v) (cell_at v) = 0xFF00 + ucast c"
proof -
  have l: "list_all (\<lambda>n. (0x0F00 OR scast (word_of_nat n :: u8) :: u16) = 0xFF00 + ucast (word_of_nat n :: u8)) [128..<256]"
    by code_simp
  have "unat c < 256" "128 \<le> unat c" using assms(2) unsigned_less [of c] by (simp_all add: word_le_nat_alt)
  then have "(0x0F00 OR scast (word_of_nat (unat c) :: u8) :: u16) = 0xFF00 + ucast (word_of_nat (unat c) :: u8)"
    using l unfolding list_all_iff set_upt by (meson atLeastLessThan_iff)
  moreover have "c \<noteq> 10" "c \<noteq> 13" "c \<noteq> 8" using assms(2) by auto
  ultimately show ?thesis using assms by (simp add: vga_putchar_def Let_def)
qed

theorem vga_high_byte_attribute_witness:
  "vga_buffer (vga_putchar 0xE9 fresh_vga) 1923 = 0xFFE9"
  using vga_high_byte_attribute [of fresh_vga "0xE9"] by (simp add: fresh_vga_def on_screen_def cell_at_def)

end
