(* ===== verification/Watchdog.thy ===== *)
theory Watchdog
  imports Process Keyboard Vga
begin

text \<open>
  The watchdog that restarts services, \<open>kernel/watchdog.c\<close>, and the timer interrupt of \<open>kernel/sched.c\<close>,
  which drives it. The state of the whole kernel is completed here: the watchdog's table, the tick
  counter, the console, the keyboard and the bytes sent to the serial port.
\<close>

section \<open>State\<close>

record wd_entry =
  wd_path :: string
  wd_tier :: tier
  wd_task :: "nat option"
  wd_restarts :: int
  wd_unstable :: int
  wd_delay :: int
  wd_due :: bool
  wd_active :: bool
  wd_spawn_tick :: u32

record 'd kernel_state = "'d tarfs_state" +
  wd_table :: "nat \<Rightarrow> wd_entry"
  wd_count :: nat
  wd_tick :: u32
  tick_count :: u32
  console :: vga
  keyb :: kbd
  serial_out :: "u8 list"
  port_out :: "(u16 \<times> u16) list"
  kernel_sb :: fork_sandbox_config
  exec_argv :: "nat \<Rightarrow> string"

abbreviation WD_MAX :: nat where "WD_MAX \<equiv> 8"
abbreviation WD_MAX_RESTARTS :: int where "WD_MAX_RESTARTS \<equiv> 5"
abbreviation WD_UNSTABLE_LIMIT :: int where "WD_UNSTABLE_LIMIT \<equiv> 3"
abbreviation WD_BACKOFF_BASE :: int where "WD_BACKOFF_BASE \<equiv> 5"
abbreviation WD_UNSTABLE_TICKS :: u32 where "WD_UNSTABLE_TICKS \<equiv> 10"

definition upd_wd :: "nat \<Rightarrow> (wd_entry \<Rightarrow> wd_entry) \<Rightarrow> ('d, 'a) kernel_state_scheme \<Rightarrow> ('d, 'a) kernel_state_scheme" where
  "upd_wd i f s = s\<lparr>wd_table := (wd_table s)(i := f (wd_table s i))\<rparr>"

section \<open>Watchdog\<close>

definition watchdog_init :: "('d, 'a) kernel_state_scheme \<Rightarrow> ('d, 'a) kernel_state_scheme" where
  "watchdog_init s = s\<lparr>wd_count := 0, wd_tick := 0\<rparr>"

definition watchdog_register :: "string \<Rightarrow> tier \<Rightarrow> nat option \<Rightarrow> ('d, 'a) kernel_state_scheme \<Rightarrow>
    int \<times> ('d, 'a) kernel_state_scheme" where
  "watchdog_register path tier initial s =
     (if wd_count s \<ge> WD_MAX then (-1, s)
      else let s = upd_wd (wd_count s) (\<lambda>_. \<lparr>wd_path = path, wd_tier = tier, wd_task = initial, wd_restarts = 0,
                     wd_unstable = 0, wd_delay = 0, wd_due = False, wd_active = True, wd_spawn_tick = wd_tick s\<rparr>) s;
               s = s\<lparr>wd_count := wd_count s + 1\<rparr>
           in (0, case initial of None \<Rightarrow> s | Some t \<Rightarrow> upd_task t (\<lambda>x. x\<lparr>t_wd_managed := True\<rparr>) s))"

text \<open>One entry that the tick finds active and without a live task; \<open>now\<close> is the watchdog's tick. The
  result also says whether the slot of the dead task is freed.\<close>

definition wd_dead :: "u32 \<Rightarrow> wd_entry \<Rightarrow> wd_entry \<times> bool" where
  "wd_dead now e =
     (if wd_delay e > 0 then
        (let e = e\<lparr>wd_delay := wd_delay e - 1\<rparr> in (if wd_delay e = 0 then e\<lparr>wd_due := True\<rparr> else e, False))
      else case wd_task e of None \<Rightarrow> (e\<lparr>wd_due := True\<rparr>, False)
      | Some t \<Rightarrow>
        (let e = e\<lparr>wd_unstable := (if now - wd_spawn_tick e < WD_UNSTABLE_TICKS then wd_unstable e + 1 else 0)\<rparr> in
         if wd_unstable e \<ge> WD_UNSTABLE_LIMIT then (e\<lparr>wd_task := None, wd_active := False\<rparr>, True)
         else let e = e\<lparr>wd_restarts := wd_restarts e + 1\<rparr> in
           if wd_restarts e > WD_MAX_RESTARTS then (e\<lparr>wd_task := None, wd_active := False\<rparr>, True)
           else (e\<lparr>wd_delay := WD_BACKOFF_BASE * 2 ^ nat (wd_restarts e - 1), wd_task := None\<rparr>, True)))"

definition wd_alive :: "wd_entry \<Rightarrow> ('d, 'a) kernel_state_scheme \<Rightarrow> bool" where
  "wd_alive e s = (case wd_task e of None \<Rightarrow> False | Some t \<Rightarrow> t_state (tasks s t) \<noteq> TASK_EXITED)"

definition wd_tick_entry :: "nat \<Rightarrow> ('d, 'a) kernel_state_scheme \<Rightarrow> ('d, 'a) kernel_state_scheme" where
  "wd_tick_entry i s =
     (let e = wd_table s i in
      if \<not> wd_active e \<or> wd_alive e s then s
      else let (e', fr) = wd_dead (wd_tick s) e;
               s = (if fr then free_task_slot (wd_task e) s else s)
           in upd_wd i (\<lambda>_. e') s)"

definition watchdog_tick :: "('d, 'a) kernel_state_scheme \<Rightarrow> ('d, 'a) kernel_state_scheme" where
  "watchdog_tick s = (let s = s\<lparr>wd_tick := wd_tick s + 1\<rparr> in fold wd_tick_entry [0..<wd_count s] s)"

definition wd_check_entry :: "'d ata_io \<Rightarrow> nat \<Rightarrow> ('d, 'a) kernel_state_scheme \<Rightarrow> ('d, 'a) kernel_state_scheme option" where
  "wd_check_entry io i s =
     (if \<not> wd_active (wd_table s i) \<or> \<not> wd_due (wd_table s i) then Some s
      else do {
        (t, s) \<leftarrow> spawn_user_process io (wd_path (wd_table s i)) (upd_wd i (\<lambda>e. e\<lparr>wd_due := False\<rparr>) s);
        let s = upd_wd i (\<lambda>e. e\<lparr>wd_task := t\<rparr>) s;
        Some (case t of None \<Rightarrow> upd_wd i (\<lambda>e. e\<lparr>wd_due := True\<rparr>) s
              | Some t \<Rightarrow> upd_wd i (\<lambda>e. e\<lparr>wd_spawn_tick := wd_tick s\<rparr>) (upd_task t (\<lambda>x. x\<lparr>t_wd_managed := True\<rparr>) s))
      })"

definition watchdog_check :: "'d ata_io \<Rightarrow> ('d, 'a) kernel_state_scheme \<Rightarrow> ('d, 'a) kernel_state_scheme option" where
  "watchdog_check io s = fold_opt (wd_check_entry io) [0..<wd_count s] s"

section \<open>The timer\<close>

abbreviation MLFQ_AGING_TICKS :: u32 where "MLFQ_AGING_TICKS \<equiv> 300"
abbreviation MLFQ_DEMOTE_TICKS :: int where "MLFQ_DEMOTE_TICKS \<equiv> 3"
abbreviation QUOTA_PERIOD_TICKS :: u32 where "QUOTA_PERIOD_TICKS \<equiv> 1000"

text \<open>The accounting of the current task's CPU quota.\<close>

definition charge_quota :: "'a sched_state_scheme \<Rightarrow> 'a sched_state_scheme" where
  "charge_quota s = (case current_task s of None \<Rightarrow> s | Some c \<Rightarrow>
     if t_cpu_quota (tasks s c) > 0 then
       (let limit = QUOTA_PERIOD_TICKS * t_cpu_quota (tasks s c) div 100;
            limit = (if limit = 0 then 1 else limit);
            s = upd_task c (\<lambda>x. x\<lparr>t_quota_used_ticks := t_quota_used_ticks x + 1\<rparr>) s
        in if t_quota_used_ticks (tasks s c) \<ge> limit then upd_task c (\<lambda>x. x\<lparr>t_quota_done := True\<rparr>) s else s)
     else s)"

text \<open>The demotion of a user task that runs on without giving up the CPU.\<close>

definition charge_mlfq :: "'a sched_state_scheme \<Rightarrow> 'a sched_state_scheme option" where
  "charge_mlfq s = (case current_task s of None \<Rightarrow> Some s | Some c \<Rightarrow>
     if t_tier (tasks s c) = TIER_USER \<and> \<not> t_quota_done (tasks s c) then
       (let s = upd_task c (\<lambda>x. x\<lparr>t_mlfq_cont_ticks := t_mlfq_cont_ticks x + 1\<rparr>) s in
        if t_mlfq_cont_ticks (tasks s c) \<ge> MLFQ_DEMOTE_TICKS \<and> t_mlfq_level (tasks s c) < 2
        then do {
          s \<leftarrow> task_set_mlfq_level (Some c) (t_mlfq_level (tasks s c) + 1) s;
          Some (upd_task c (\<lambda>x. x\<lparr>t_mlfq_cont_ticks := 0\<rparr>) s)
        }
        else Some s)
     else Some s)"

text \<open>The handler from the quota accounting on.\<close>

definition pit_rest :: "('d, 'a) kernel_state_scheme \<Rightarrow> ('d, 'a) kernel_state_scheme option" where
  "pit_rest s = do {
     s \<leftarrow> charge_mlfq (charge_quota s);
     let s = (if tick_count s mod 50 = 0 then watchdog_tick s else s);
     s \<leftarrow> (if tick_count s mod MLFQ_AGING_TICKS = 0 then task_mlfq_aging s else Some s);
     let s = (if tick_count s mod QUOTA_PERIOD_TICKS = 0 then task_quota_period_reset s else s);
     schedule s
   }"

text \<open>A task that is to be killed exits in the handler, which does not continue for it.\<close>

definition pit_handler :: "('d, 'a) kernel_state_scheme \<Rightarrow> ('d, 'a) kernel_state_scheme option" where
  "pit_handler s =
     (let s = s\<lparr>port_out := port_out s @ [(0x20, 0x20)], tick_count := tick_count s + 1\<rparr> in
      case current_task s of None \<Rightarrow> pit_rest s | Some c \<Rightarrow>
        if t_kill_pending (tasks s c)
        then task_exit (-9) (upd_task c (\<lambda>x. x\<lparr>t_kill_pending := False\<rparr>) s)
        else pit_rest s)"

section \<open>The entries of the watchdog\<close>

lemma wd_tick_entry_other: "j \<noteq> i \<Longrightarrow> wd_table (wd_tick_entry i s) j = wd_table s j"
  by (auto simp: wd_tick_entry_def Let_def upd_wd_def free_task_slot_def upd_task_def split: prod.splits option.splits)

lemma wd_tick_entry_state [simp]:
  "wd_count (wd_tick_entry i s) = wd_count s" "wd_tick (wd_tick_entry i s) = wd_tick s"
  by (auto simp: wd_tick_entry_def Let_def upd_wd_def free_task_slot_def upd_task_def split: prod.splits option.splits)

lemma wd_tick_entry_same:
  "wd_table (wd_tick_entry i s) i =
     (if \<not> wd_active (wd_table s i) \<or> wd_alive (wd_table s i) s then wd_table s i else fst (wd_dead (wd_tick s) (wd_table s i)))"
  by (auto simp: wd_tick_entry_def Let_def upd_wd_def free_task_slot_def upd_task_def split: prod.splits option.splits)

lemma wd_tick_entry_task:
  "wd_task (wd_table s i) \<noteq> Some t \<Longrightarrow> tasks (wd_tick_entry i s) t = tasks s t"
  by (auto simp: wd_tick_entry_def Let_def upd_wd_def free_task_slot_def upd_task_def split: prod.splits option.splits)

lemma wd_ticks:
  "\<lbrakk>distinct js; \<forall>j \<in> set js. j \<noteq> i\<rbrakk> \<Longrightarrow> wd_table (fold wd_tick_entry js s) i = wd_table s i"
  "wd_count (fold wd_tick_entry js s) = wd_count s" "wd_tick (fold wd_tick_entry js s) = wd_tick s"
proof -
  show "wd_table (fold wd_tick_entry js s) i = wd_table s i" if "distinct js" "\<forall>j \<in> set js. j \<noteq> i"
    using that by (induction js arbitrary: s) (auto simp: wd_tick_entry_other)
  show "wd_count (fold wd_tick_entry js s) = wd_count s" "wd_tick (fold wd_tick_entry js s) = wd_tick s"
    by (induction js arbitrary: s) simp_all
qed

lemma wd_ticks_task:
  "distinct js \<Longrightarrow> \<forall>j \<in> set js. wd_task (wd_table s j) \<noteq> Some t \<Longrightarrow> tasks (fold wd_tick_entry js s) t = tasks s t"
proof (induction js arbitrary: s)
  case Nil
  then show ?case by simp
next
  case (Cons j js)
  have "wd_task (wd_table (wd_tick_entry j s) k) \<noteq> Some t" if "k \<in> set js" for k
    using Cons.prems that wd_tick_entry_other [of k j s] by (cases "k = j") auto
  then show ?case using Cons by (auto simp: wd_tick_entry_task)
qed

text \<open>The effect of a tick on one entry: the entries before it leave its task alone when they do not share it.\<close>

lemma watchdog_tick_entry:
  assumes "i < wd_count s" "\<And>j t. j < i \<Longrightarrow> wd_task (wd_table s i) = Some t \<Longrightarrow> wd_task (wd_table s j) \<noteq> Some t"
  shows "wd_table (watchdog_tick s) i =
    (if \<not> wd_active (wd_table s i) \<or> wd_alive (wd_table s i) s then wd_table s i
     else fst (wd_dead (wd_tick s + 1) (wd_table s i)))"
    "wd_count (watchdog_tick s) = wd_count s" "wd_tick (watchdog_tick s) = wd_tick s + 1"
proof -
  let ?s = "s\<lparr>wd_tick := wd_tick s + 1\<rparr>" and ?n = "wd_count s"
  let ?a = "fold wd_tick_entry [0..<i] ?s"
  have sp: "[0..<?n] = [0..<i] @ i # [Suc i..<?n]"
    using assms(1) by (metis append_Cons append_Nil less_imp_le_nat upt_add_eq_append upt_conv_Cons le_add_diff_inverse le0)
  have a: "wd_table ?a i = wd_table s i" "wd_tick ?a = wd_tick s + 1" by (simp_all add: wd_ticks)
  have al: "wd_alive (wd_table s i) ?a = wd_alive (wd_table s i) s"
  proof (cases "wd_task (wd_table s i)")
    case None
    then show ?thesis by (simp add: wd_alive_def)
  next
    case (Some t)
    have "tasks ?a t = tasks ?s t"
      by (rule wd_ticks_task) (use assms(2) Some in auto)
    then show ?thesis using Some by (simp add: wd_alive_def)
  qed
  have "wd_table (fold wd_tick_entry [Suc i..<?n] (wd_tick_entry i ?a)) i = wd_table (wd_tick_entry i ?a) i"
    by (rule wd_ticks) auto
  then show "wd_table (watchdog_tick s) i =
    (if \<not> wd_active (wd_table s i) \<or> wd_alive (wd_table s i) s then wd_table s i
     else fst (wd_dead (wd_tick s + 1) (wd_table s i)))"
    unfolding watchdog_tick_def Let_def by (simp add: sp wd_tick_entry_same a al)
  show "wd_count (watchdog_tick s) = wd_count s" "wd_tick (watchdog_tick s) = wd_tick s + 1"
    by (simp_all add: watchdog_tick_def Let_def wd_ticks)
qed

lemma watchdog_tick_state: "wd_count (watchdog_tick s) = wd_count s" "wd_tick (watchdog_tick s) = wd_tick s + 1"
  by (simp_all add: watchdog_tick_def Let_def wd_ticks)

section \<open>Properties\<close>

definition wd_ok :: "wd_entry \<Rightarrow> bool" where
  "wd_ok e \<longleftrightarrow> 0 \<le> wd_restarts e \<and> 0 \<le> wd_delay e \<and> wd_delay e \<le> 80 \<and> 0 \<le> wd_unstable e \<and>
     (wd_active e \<longrightarrow> wd_restarts e \<le> WD_MAX_RESTARTS \<and> wd_unstable e < WD_UNSTABLE_LIMIT)"

lemma backoff_le: "0 \<le> n \<Longrightarrow> n < 5 \<Longrightarrow> 5 * 2 ^ nat n \<le> (80 :: int)"
proof -
  assume "0 \<le> n" "n < 5"
  then have "n \<in> {0, 1, 2, 3, 4}" by auto
  then show ?thesis by auto
qed

lemma wd_dead_ok: "wd_ok e \<Longrightarrow> wd_active e \<Longrightarrow> wd_ok (fst (wd_dead now e))"
  using backoff_le [of "wd_restarts e"]
  by (auto simp: wd_dead_def wd_ok_def Let_def split: option.splits)


lemma watchdog_tick_cases:
  "wd_table (watchdog_tick s) i = wd_table s i \<or>
   wd_active (wd_table s i) \<and> wd_table (watchdog_tick s) i = fst (wd_dead (wd_tick s + 1) (wd_table s i))"
proof (cases "i < wd_count s")
  case False
  have "wd_table (fold wd_tick_entry [0..<wd_count s] (s\<lparr>wd_tick := wd_tick s + 1\<rparr>)) i = wd_table s i"
    by (subst wd_ticks) (use False in auto)
  then show ?thesis by (simp add: watchdog_tick_def Let_def)
next
  case True
  let ?s = "s\<lparr>wd_tick := wd_tick s + 1\<rparr>" and ?n = "wd_count s"
  let ?a = "fold wd_tick_entry [0..<i] ?s"
  have sp: "[0..<?n] = [0..<i] @ i # [Suc i..<?n]"
    using True by (metis append_Cons append_Nil less_imp_le_nat upt_add_eq_append upt_conv_Cons le_add_diff_inverse le0)
  have a: "wd_table ?a i = wd_table s i" "wd_tick ?a = wd_tick s + 1" by (simp_all add: wd_ticks)
  have "wd_table (fold wd_tick_entry [Suc i..<?n] (wd_tick_entry i ?a)) i = wd_table (wd_tick_entry i ?a) i"
    by (rule wd_ticks) auto
  then have "wd_table (watchdog_tick s) i = wd_table (wd_tick_entry i ?a) i"
    unfolding watchdog_tick_def Let_def by (simp add: sp)
  then show ?thesis by (auto simp: wd_tick_entry_same a)
qed

text \<open>
  Runs of the kernel as the watchdog's table sees them: ticks and registrations, between which the rest of the
  kernel may do anything except change the counters of the entries; \<open>watchdog_check\<close> sets their task, due flag and
  spawn tick.
\<close>

inductive wd_run :: "('d, 'a) kernel_state_scheme \<Rightarrow> ('d, 'a) kernel_state_scheme \<Rightarrow> bool" for s where
  wd_start: "wd_run s s"
| wd_ticked: "wd_run s s' \<Longrightarrow> wd_run s (watchdog_tick s')"
| wd_registered: "wd_run s s' \<Longrightarrow> wd_run s (snd (watchdog_register path tier initial s'))"
| wd_other: "\<lbrakk>wd_run s s'; \<And>i. \<exists>t d c. wd_table s'' i = (wd_table s' i)\<lparr>wd_task := t, wd_due := d, wd_spawn_tick := c\<rparr>\<rbrakk>
    \<Longrightarrow> wd_run s s''"


lemma wd_countdown:
  assumes "i < wd_count s" "wd_active (wd_table s i)" "wd_task (wd_table s i) = None" "\<not> wd_due (wd_table s i)"
    "wd_delay (wd_table s i) = int d" "0 < d"
  shows "k \<le> d \<Longrightarrow> wd_count ((watchdog_tick ^^ k) s) = wd_count s \<and>
    wd_table ((watchdog_tick ^^ k) s) i = (wd_table s i)\<lparr>wd_delay := int (d - k), wd_due := (k = d)\<rparr>"
proof (induction k)
  case 0
  then show ?case using assms by simp
next
  case (Suc k)
  let ?s = "(watchdog_tick ^^ k) s"
  have IH: "wd_count ?s = wd_count s" "wd_table ?s i = (wd_table s i)\<lparr>wd_delay := int (d - k), wd_due := False\<rparr>"
    using Suc by auto
  have "wd_table (watchdog_tick ?s) i = fst (wd_dead (wd_tick ?s + 1) (wd_table ?s i))"
    using watchdog_tick_entry(1) [of i ?s] IH assms(1-3) by (simp add: wd_alive_def)
  also have "\<dots> = (wd_table s i)\<lparr>wd_delay := int (d - Suc k), wd_due := (Suc k = d)\<rparr>"
    using Suc.prems unfolding IH(2) by (auto simp: wd_dead_def Let_def of_nat_diff)
  finally show ?case using IH(1) by (simp add: watchdog_tick_state)
qed

text \<open>
  C33: Exponential delay. When the watchdog finds the task of an active entry dead after a stable life, and it
  has been restarted \<open>n < 5\<close> times before, it frees the slot of the task and asks for a new one exactly
  \<open>5 * 2 ^ n\<close> ticks later, not earlier.
\<close>

theorem watchdog_backoff:
  assumes "i < wd_count s" "wd_active (wd_table s i)" "wd_task (wd_table s i) = Some t" "\<not> wd_due (wd_table s i)"
    "wd_delay (wd_table s i) = 0" "wd_restarts (wd_table s i) = int n" "n < 5"
    "t_state (tasks s t) = TASK_EXITED" "WD_UNSTABLE_TICKS \<le> wd_tick s + 1 - wd_spawn_tick (wd_table s i)"
    "\<forall>j < i. wd_task (wd_table s j) \<noteq> Some t"
  shows "\<forall>k \<le> 5 * 2 ^ n. let e = wd_table ((watchdog_tick ^^ Suc k) s) i in
    wd_active e \<and> wd_restarts e = int (Suc n) \<and> wd_task e = None \<and> (wd_due e \<longleftrightarrow> k = 5 * 2 ^ n)"
proof -
  let ?s = "watchdog_tick s"
  have e: "wd_table ?s i = (wd_table s i)\<lparr>wd_unstable := 0, wd_restarts := int (Suc n), wd_delay := int (5 * 2 ^ n), wd_task := None\<rparr>"
  proof -
    have "wd_dead (wd_tick s + 1) (wd_table s i) = ((wd_table s i)\<lparr>wd_unstable := 0,
        wd_restarts := int (Suc n), wd_delay := int (5 * 2 ^ n), wd_task := None\<rparr>, True)"
      using assms(3-7,9) by (simp add: wd_dead_def Let_def not_less)
    then show ?thesis using watchdog_tick_entry(1) [of i s] assms(1-3,8,10) by (auto simp: wd_alive_def)
  qed
  have c: "wd_table ((watchdog_tick ^^ k) ?s) i = (wd_table ?s i)\<lparr>wd_delay := int (5 * 2 ^ n - k), wd_due := (k = 5 * 2 ^ n)\<rparr>"
    if "k \<le> 5 * 2 ^ n" for k
    using wd_countdown [of i ?s "5 * 2 ^ n" k] that assms(1,2,4) e by (simp add: watchdog_tick_state)
  show ?thesis
  proof (intro allI impI)
    fix k :: nat assume k: "k \<le> 5 * 2 ^ n"
    show "let e = wd_table ((watchdog_tick ^^ Suc k) s) i in
      wd_active e \<and> wd_restarts e = int (Suc n) \<and> wd_task e = None \<and> (wd_due e \<longleftrightarrow> k = 5 * 2 ^ n)"
      using c [OF k] e assms(2) unfolding funpow_Suc_right comp_def Let_def by simp
  qed
qed


definition demo_kernel :: "unit kernel_state" where
  "demo_kernel = tarfs_state.extend demo_tarfs (kernel_state.fields
     (\<lambda>_. \<lparr>wd_path = [], wd_tier = TIER_USER, wd_task = None, wd_restarts = 0, wd_unstable = 0, wd_delay = 0,
           wd_due = False, wd_active = False, wd_spawn_tick = 0\<rparr>)
     0 0 0 \<lparr>vga_buffer = (\<lambda>_. 0), cursor_x = 0, cursor_y = 0, crtc = (\<lambda>_. 0)\<rparr> kbd0 [] []
     \<lparr>sb_caps_allow = 0, sb_mem_limit = 0, sb_cpu_quota = 0, sb_root_path = 0, sb_tier_override = 0\<rparr> (\<lambda>_. []))"


theorem watchdog_backoff_witness:
  "let s = demo_kernel\<lparr>wd_count := 1, wd_tick := 20, tasks := (\<lambda>_. zero_task\<lparr>t_state := TASK_EXITED\<rparr>),
       wd_table := (\<lambda>_. \<lparr>wd_path = ''/bin/shell'', wd_tier = TIER_USER, wd_task = Some 3, wd_restarts = 1,
          wd_unstable = 0, wd_delay = 0, wd_due = False, wd_active = True, wd_spawn_tick = 2\<rparr>)\<rparr>
   in wd_due (wd_table ((watchdog_tick ^^ 11) s) 0) \<and> \<not> wd_due (wd_table ((watchdog_tick ^^ 10) s) 0)"
proof -
  define s where "s = demo_kernel\<lparr>wd_count := 1, wd_tick := 20, tasks := (\<lambda>_. zero_task\<lparr>t_state := TASK_EXITED\<rparr>),
       wd_table := (\<lambda>_. \<lparr>wd_path = ''/bin/shell'', wd_tier = TIER_USER, wd_task = Some 3, wd_restarts = 1,
          wd_unstable = 0, wd_delay = 0, wd_due = False, wd_active = True, wd_spawn_tick = 2\<rparr>)\<rparr>"
  have "\<forall>k \<le> 5 * 2 ^ 1. let e = wd_table ((watchdog_tick ^^ Suc k) s) 0 in
    wd_active e \<and> wd_restarts e = int (Suc 1) \<and> wd_task e = None \<and> (wd_due e \<longleftrightarrow> k = 5 * 2 ^ 1)"
    by (rule watchdog_backoff [where t = 3]) (simp_all add: s_def word_le_nat_alt)
  then have "wd_due (wd_table ((watchdog_tick ^^ Suc k) s) 0) \<longleftrightarrow> k = 10" if "k \<le> 10" for k
    using that unfolding Let_def by simp
  from this [of 10] this [of 9] have "wd_due (wd_table ((watchdog_tick ^^ Suc 10) s) 0)"
    "\<not> wd_due (wd_table ((watchdog_tick ^^ Suc 9) s) 0)" by (simp_all only: order_refl)
  moreover have "Suc 10 = 11" "Suc 9 = 10" by simp_all
  ultimately show ?thesis unfolding s_def [symmetric] Let_def by metis
qed

end
