(* ===== verification/Console.thy ===== *)
theory Console
  imports Watchdog
begin

text \<open>
  Output: the serial port, \<open>kernel/serial.c\<close>, and the console and serial output of \<open>kernel/syscall.c\<close>. The
  transmitter is taken to become ready, so the wait for it leaves no trace; \<open>serial_out\<close> lists the bytes
  sent.
\<close>

section \<open>Model\<close>

definition serial_write_char :: "u8 \<Rightarrow> ('d, 'a) kernel_state_scheme \<Rightarrow> ('d, 'a) kernel_state_scheme" where
  "serial_write_char c s = s\<lparr>serial_out := serial_out s @ [c]\<rparr>"

definition serial_write :: "u8 list \<Rightarrow> ('d, 'a) kernel_state_scheme \<Rightarrow> ('d, 'a) kernel_state_scheme" where
  "serial_write cs = fold (\<lambda>c s. serial_write_char c (if c = 10 then serial_write_char 13 s else s)) cs"

definition hex_digit :: "u32 \<Rightarrow> u8" where
  "hex_digit n = (if n < 10 then 48 + ucast n else 65 + ucast n - 10)"

text \<open>The digits of the lowest \<open>k\<close> nibbles, most significant first: the loop of \<open>serial_write_hex\<close>,
  \<open>trap_hex_out\<close> and the shell's \<open>print_hex\<close>, which fill a buffer from its end.\<close>

primrec hex_digits :: "nat \<Rightarrow> u32 \<Rightarrow> u8 list" where
  "hex_digits 0 n = []"
| "hex_digits (Suc k) n = hex_digits k (drop_bit 4 n) @ [hex_digit (n AND 0xF)]"

definition serial_write_hex :: "u32 \<Rightarrow> ('d, 'a) kernel_state_scheme \<Rightarrow> ('d, 'a) kernel_state_scheme" where
  "serial_write_hex num = serial_write (hex_digits 8 num)"

text \<open>The register writes of \<open>serial_init\<close>: line speed and format, FIFO and modem control.\<close>

definition serial_init :: "('d, 'a) kernel_state_scheme \<Rightarrow> ('d, 'a) kernel_state_scheme" where
  "serial_init s = s\<lparr>port_out := port_out s @ [(0x3F9, 0), (0x3FB, 0x80), (0x3F8, 3), (0x3F9, 0), (0x3FB, 3),
     (0x3FA, 0xC7), (0x3FC, 0x0B)]\<rparr>"

definition put_char :: "u8 \<Rightarrow> ('d, 'a) kernel_state_scheme \<Rightarrow> ('d, 'a) kernel_state_scheme" where
  "put_char c s =
     (let s = s\<lparr>console := vga_putchar c (console s)\<rparr>;
          s = (if c = 10 then serial_write_char 13 s else s)
      in serial_write_char c s)"

definition write_buf :: "u32 \<Rightarrow> u32 \<Rightarrow> ('d, 'a) kernel_state_scheme \<Rightarrow> ('d, 'a) kernel_state_scheme option" where
  "write_buf buf len s = do { bs \<leftarrow> load_bytes (unat len) buf s; Some (fold put_char bs s) }"

text \<open>The bytes of an ASCII literal.\<close>

definition text_bytes :: "string \<Rightarrow> u8 list" where
  "text_bytes = map u8_of_char"

end
