(* ===== verification/Syscall.thy ===== *)
theory Syscall
  imports Console
begin

text \<open>
  System calls, \<open>kernel/syscall.c\<close>, and their entry and exit paths in \<open>kernel/syscall_entry.asm\<close> and
  \<open>kernel/task.asm\<close>. \<open>r\<close> is the index of the register frame on the caller's kernel stack. A system call gives
  a result code, or \<^const>\<open>None\<close> when control went to another task before it had one.
\<close>

section \<open>Access to user memory\<close>

partial_function (option) range_loop :: "u32 \<Rightarrow> u32 \<Rightarrow> 'a paging_state_scheme \<Rightarrow> bool option" where
  "range_loop page end' s =
     (if page < end' then
        Option.bind (user_page_ok page s) (\<lambda>ok. if \<not> ok then Some False else range_loop (page + 0x1000) end' s)
      else Some True)"

declare range_loop.simps [code]

definition user_range_valid :: "u32 \<Rightarrow> u32 \<Rightarrow> 'a paging_state_scheme \<Rightarrow> bool option" where
  "user_range_valid addr len s =
     (if len = 0 then Some True
      else if addr \<ge> 0xC0000000 then Some False
      else let end' = addr + len in
        if end' < addr \<or> end' > 0xC0000000 then Some False
        else range_loop (addr AND NOT 0xFFF) end' s)"

definition sandbox_of_bytes :: "u8 list \<Rightarrow> fork_sandbox_config" where
  "sandbox_of_bytes bs =
     (let w = (\<lambda>i. ucast (bs ! i) OR push_bit 8 (ucast (bs ! (i + 1))) OR push_bit 16 (ucast (bs ! (i + 2))) OR
                   push_bit 24 (ucast (bs ! (i + 3))) :: u32)
      in \<lparr>sb_caps_allow = w 0, sb_mem_limit = ucast (w 4) OR push_bit 32 (ucast (w 8)),
          sb_cpu_quota = w 12, sb_root_path = w 16, sb_tier_override = sint (w 20)\<rparr>)"

definition copy_sandbox_config :: "u32 \<Rightarrow> ('d, 'a) kernel_state_scheme \<Rightarrow> (int \<times> ('d, 'a) kernel_state_scheme) option" where
  "copy_sandbox_config user_ptr s =
     (if user_ptr \<ge> 0xC0000000 then Some (-1, s)
      else do {
        ok \<leftarrow> user_range_valid user_ptr 24 s;
        if \<not> ok then Some (-1, s)
        else do { bs \<leftarrow> load_bytes 24 user_ptr s; Some (0, s\<lparr>kernel_sb := sandbox_of_bytes bs\<rparr>) }
      })"

section \<open>Exec arguments\<close>

text \<open>The loop of \<open>copy_exec_argv\<close> over the argument pointers; \<open>n\<close> of them are left, \<open>i\<close> is the index. The
  strings are copied up to 63 characters. The result is the code and the index where the list ends.\<close>

primrec exec_argv_loop :: "nat \<Rightarrow> nat \<Rightarrow> u32 \<Rightarrow> ('d, 'a) kernel_state_scheme \<Rightarrow>
    (int \<times> nat \<times> ('d, 'a) kernel_state_scheme) option" where
  "exec_argv_loop 0 i user_argv s = Some (0, i, s)"
| "exec_argv_loop (Suc n) i user_argv s = do {
     let page = user_argv + of_nat i * 4;
     ok \<leftarrow> user_page_ok page s;
     if \<not> ok then Some (- EINVAL, i, s)
     else do {
       ptr \<leftarrow> read32 s page;
       if ptr = 0 then Some (0, i, s)
       else if ptr \<ge> 0xC0000000 then Some (- EINVAL, i, s)
       else do {
         a \<leftarrow> copy_chars 63 ptr s;
         case a of None \<Rightarrow> Some (- EINVAL, i, s)
         | Some str \<Rightarrow> exec_argv_loop n (i + 1) user_argv (s\<lparr>exec_argv := (exec_argv s)(i := str)\<rparr>)
       }
     }
   }"

definition copy_exec_argv :: "u32 \<Rightarrow> ('d, 'a) kernel_state_scheme \<Rightarrow> (int \<times> ('d, 'a) kernel_state_scheme) option" where
  "copy_exec_argv user_argv s =
     (if user_argv = 0 then Some (0, s\<lparr>exec_argv := (exec_argv s)(0 := [])\<rparr>)
      else do {
        (e, i, s) \<leftarrow> exec_argv_loop MAX_EXEC_ARGS 0 user_argv s;
        if e \<noteq> 0 then Some (e, s) else Some (0, s\<lparr>exec_argv := (exec_argv s)(i := [])\<rparr>)
      })"

text \<open>A path that is not terminated within 127 characters is an error here, unlike in \<open>copy_user_string\<close>.\<close>

primrec copy_terminated :: "nat \<Rightarrow> u32 \<Rightarrow> 'a fs_state_scheme \<Rightarrow> string option option" where
  "copy_terminated 0 src s = Some None"
| "copy_terminated (Suc n) src s = do {
     ok \<leftarrow> user_page_ok src s;
     if \<not> ok then Some None
     else do {
       b \<leftarrow> read8 s src;
       if b = 0 then Some (Some [])
       else do { r \<leftarrow> copy_terminated n (src + 1) s; Some (map_option ((#) (char_of_u8 b)) r) }
     }
   }"

definition sys_exec_from_user :: "'d ata_io \<Rightarrow> nat \<Rightarrow> nat \<Rightarrow> u32 \<Rightarrow> ('d, 'a) kernel_state_scheme \<Rightarrow>
    (int \<times> ('d, 'a) kernel_state_scheme) option" where
  "sys_exec_from_user io t r path_ptr s =
     (if path_ptr \<ge> 0xC0000000 then Some (- EINVAL, s)
      else do {
        p \<leftarrow> copy_terminated 127 path_ptr s;
        case p of None \<Rightarrow> Some (- EINVAL, s)
        | Some path \<Rightarrow> do {
            (e, s) \<leftarrow> copy_exec_argv (regs t r ECX s) s;
            if e \<noteq> 0 then Some (- EINVAL, s)
            else sys_exec io r path (map (exec_argv s) [0..<Suc MAX_EXEC_ARGS]) s
          }
      })"

section \<open>Files\<close>

definition fd_of :: "nat \<Rightarrow> int \<Rightarrow> 'a sched_state_scheme \<Rightarrow> u32" where
  "fd_of t fd s = (if fd < 3 \<or> fd \<ge> int FD_MAX then 0 else t_fd_table (tasks s t) (nat fd))"

definition sys_write_fn :: "nat \<Rightarrow> nat \<Rightarrow> ('d, 'a) kernel_state_scheme \<Rightarrow> (int \<times> ('d, 'a) kernel_state_scheme) option" where
  "sys_write_fn t r s =
     (let fd = sint (regs t r EBX s); buf = regs t r ECX s; len = regs t r EDX s in
      if fd = 1 \<or> fd = 2 then do {
        ok \<leftarrow> user_range_valid buf len s;
        if \<not> ok then Some (- EINVAL, s) else do { s \<leftarrow> write_buf buf len s; Some (0, s) }
      }
      else if fd_of t fd s = 0 then Some (- EINVAL, s)
      else do {
        ok \<leftarrow> user_range_valid buf len s;
        if \<not> ok then Some (- EINVAL, s) else vfs_write (fd_of t fd s) buf len s
      })"

definition copy_user_path :: "u32 \<Rightarrow> nat \<Rightarrow> 'a fs_state_scheme \<Rightarrow> string option option" where
  "copy_user_path src maxlen s =
     (if src \<ge> 0xC0000000 then Some None else copy_chars (maxlen - 1) src s)"

definition free_fd :: "nat \<Rightarrow> 'a sched_state_scheme \<Rightarrow> nat option" where
  "free_fd t s = find (\<lambda>fd. t_fd_table (tasks s t) fd = 0) [3..<FD_MAX]"

definition sys_open_fn :: "nat \<Rightarrow> nat \<Rightarrow> ('d, 'a) kernel_state_scheme \<Rightarrow> (int \<times> ('d, 'a) kernel_state_scheme) option" where
  "sys_open_fn t r s = do {
     p \<leftarrow> copy_user_path (regs t r EBX s) 128 s;
     case p of None \<Rightarrow> Some (- EINVAL, s)
     | Some path \<Rightarrow> do {
         let resolved = resolve_path (Some t) path 128 s;
         let flags = regs t r ECX s;
         let mode = (regs t r EDX s AND 0xFFFF) OR S_IFREG;
         (f, s) \<leftarrow> vfs_open resolved flags s;
         (f, s) \<leftarrow> (if f = 0 \<and> flags AND O_CREAT \<noteq> 0 then vfs_create resolved mode s else Some (f, s));
         if f = 0 then Some (- ENOENT, s)
         else case free_fd t s of
             None \<Rightarrow> do { (_, s) \<leftarrow> vfs_close f s; Some (- ENOMEM, s) }
           | Some fd \<Rightarrow> Some (int fd, upd_task t (\<lambda>x. x\<lparr>t_fd_table := (t_fd_table x)(fd := f)\<rparr>) s)
       }
   }"

definition sys_read_fn :: "'d ata_io \<Rightarrow> nat \<Rightarrow> nat \<Rightarrow> ('d, 'a) kernel_state_scheme \<Rightarrow> (int \<times> ('d, 'a) kernel_state_scheme) option" where
  "sys_read_fn io t r s =
     (let fd = sint (regs t r EBX s); buf = regs t r ECX s; len = regs t r EDX s in
      if fd = 0 then do {
        ok \<leftarrow> user_range_valid buf 1 s;
        if \<not> ok then Some (- EINVAL, s)
        else let (c, k) = getchar (keyb s); s = s\<lparr>keyb := k\<rparr> in
          if c = 0 then Some (0, s) else do { s \<leftarrow> write8 buf c s; Some (1, s) }
      }
      else if fd_of t fd s = 0 then Some (- EINVAL, s)
      else do {
        ok \<leftarrow> user_range_valid buf len s;
        if \<not> ok then Some (- EINVAL, s) else vfs_read io (fd_of t fd s) buf len s
      })"

definition sys_close_fn :: "nat \<Rightarrow> nat \<Rightarrow> ('d, 'a) kernel_state_scheme \<Rightarrow> (int \<times> ('d, 'a) kernel_state_scheme) option" where
  "sys_close_fn t r s =
     (let fd = sint (regs t r EBX s) in
      if fd_of t fd s = 0 then Some (- EINVAL, s)
      else do {
        (e, s) \<leftarrow> vfs_close (fd_of t fd s) s;
        Some (e, upd_task t (\<lambda>x. x\<lparr>t_fd_table := (t_fd_table x)(nat fd := 0)\<rparr>) s)
      })"

text \<open>The loop of \<open>sys_ls_fn\<close> over the children of a directory.\<close>

partial_function (option) ls_loop :: "u32 \<Rightarrow> u32 \<Rightarrow> u32 \<Rightarrow> u32 \<Rightarrow> ('d, 'a) kernel_state_scheme \<Rightarrow>
    (int \<times> ('d, 'a) kernel_state_scheme) option" where
  "ls_loop ubuf buflen off child s =
     (if child = 0 then Some (sint off, s)
      else let name = kstr s (d_name (dentries s child)); n = of_nat (length name) in
        if off + n + 1 > buflen then Some (sint off, s)
        else Option.bind (user_range_valid (ubuf + off) (n + 1) s) (\<lambda>ok.
          if \<not> ok then Some (- EINVAL, s)
          else Option.bind (store_bytes (map u8_of_char name @ [10]) (ubuf + off) s) (\<lambda>s.
            ls_loop ubuf buflen (off + n + 1) (d_next (dentries s child)) s)))"

declare ls_loop.simps [code]

definition sys_ls_fn :: "nat \<Rightarrow> nat \<Rightarrow> ('d, 'a) kernel_state_scheme \<Rightarrow> (int \<times> ('d, 'a) kernel_state_scheme) option" where
  "sys_ls_fn t r s = do {
     p \<leftarrow> copy_user_path (regs t r EBX s) 128 s;
     case p of None \<Rightarrow> Some (- EINVAL, s)
     | Some path \<Rightarrow> do {
         let ubuf = regs t r ECX s;
         let buflen = regs t r EDX s;
         (d, s) \<leftarrow> vfs_lookup (resolve_path (Some t) path 128 s) s;
         if d = 0 then Some (- ENOENT, s)
         else let i = d_inode (dentries s d) in
           if i = 0 then Some (- ENOENT, s)
           else if i_mode (inodes s i) AND S_IFDIR = 0 then Some (- ENOTDIR, s)
           else ls_loop ubuf buflen 0 (i_children (inodes s i)) s
       }
   }"

section \<open>Terminal, machine and tiers\<close>

definition sys_getchar_fn :: "('d, 'a) kernel_state_scheme \<Rightarrow> int \<times> ('d, 'a) kernel_state_scheme" where
  "sys_getchar_fn s = (let (c, k) = getchar (keyb s) in (sint c, s\<lparr>keyb := k\<rparr>))"

definition sys_putchar_fn :: "nat \<Rightarrow> nat \<Rightarrow> ('d, 'a) kernel_state_scheme \<Rightarrow> int \<times> ('d, 'a) kernel_state_scheme" where
  "sys_putchar_fn t r s = (0, put_char (ucast (regs t r EBX s)) s)"

definition sys_clear_fn :: "('d, 'a) kernel_state_scheme \<Rightarrow> int \<times> ('d, 'a) kernel_state_scheme" where
  "sys_clear_fn s = (0, s\<lparr>console := vga_clear (console s)\<rparr>)"

definition sys_reboot_fn :: "('d, 'a) kernel_state_scheme \<Rightarrow> int \<times> ('d, 'a) kernel_state_scheme" where
  "sys_reboot_fn s = (0, s\<lparr>port_out := port_out s @ [(0x64, 0xFE)]\<rparr>)"

definition sys_poweroff_fn :: "('d, 'a) kernel_state_scheme \<Rightarrow> int \<times> ('d, 'a) kernel_state_scheme" where
  "sys_poweroff_fn s = (0, s\<lparr>port_out := port_out s @ [(0x604, 0x2000)]\<rparr>)"

definition sys_tier_query_fn :: "nat \<Rightarrow> 'a sched_state_scheme \<Rightarrow> int" where
  "sys_tier_query_fn t s = int (tier_num (t_tier (tasks s t)))"

definition sys_tier_request_fn :: "nat \<Rightarrow> nat \<Rightarrow> 'a sched_state_scheme \<Rightarrow> (int \<times> 'a sched_state_scheme) option" where
  "sys_tier_request_fn t r s =
     (let x = regs t r EBX s in
      if x > of_nat (tier_num TIER_CRITICAL) then Some (-1, s)
      else do {
        s \<leftarrow> task_set_tier (Some t) (tier_of_nat (unat x)) s;
        Some (int (tier_num (t_tier (tasks s t))), s)
      })"

definition sys_set_tier_fn :: "nat \<Rightarrow> nat \<Rightarrow> 'a sched_state_scheme \<Rightarrow> (int \<times> 'a sched_state_scheme) option" where
  "sys_set_tier_fn t r s =
     (let x = regs t r EBX s in
      if x > of_nat (tier_num TIER_CRITICAL) then Some (-1, s)
      else do {
        s \<leftarrow> task_set_tier (Some t) (tier_of_nat (unat x)) s;
        let s = upd_task t (\<lambda>y. y\<lparr>t_tier_override := sint x\<rparr>) s;
        Some (int (tier_num (t_tier (tasks s t))), s)
      })"

definition sys_mlfq_query_fn :: "nat \<Rightarrow> 'a sched_state_scheme \<Rightarrow> int" where
  "sys_mlfq_query_fn t s = t_mlfq_level (tasks s t)"

definition sys_yield_fn :: "('d, 'a) kernel_state_scheme \<Rightarrow> (int \<times> ('d, 'a) kernel_state_scheme) option" where
  "sys_yield_fn s = do { s \<leftarrow> yield s; Some (0, s) }"

section \<open>Processes\<close>

definition sys_fork_fn :: "nat \<Rightarrow> ('d, 'a) kernel_state_scheme \<Rightarrow> (int \<times> ('d, 'a) kernel_state_scheme) option" where
  "sys_fork_fn r s = sys_fork r None s"

definition sys_fork_with_sandbox_fn :: "nat \<Rightarrow> nat \<Rightarrow> ('d, 'a) kernel_state_scheme \<Rightarrow> (int \<times> ('d, 'a) kernel_state_scheme) option" where
  "sys_fork_with_sandbox_fn t r s = do {
     (e, s) \<leftarrow> copy_sandbox_config (regs t r EBX s) s;
     if e \<noteq> 0 then Some (-1, s) else sys_fork r (Some (kernel_sb s)) s
   }"

definition sys_exec_fn :: "'d ata_io \<Rightarrow> nat \<Rightarrow> nat \<Rightarrow> ('d, 'a) kernel_state_scheme \<Rightarrow> (int \<times> ('d, 'a) kernel_state_scheme) option" where
  "sys_exec_fn io t r s = sys_exec_from_user io t r (regs t r EBX s) s"

definition sys_kill_fn :: "nat \<Rightarrow> nat \<Rightarrow> 'a sched_state_scheme \<Rightarrow> int \<times> 'a sched_state_scheme" where
  "sys_kill_fn t r s = (case task_find_child (Some t) (sint (regs t r EBX s)) s of None \<Rightarrow> (-1, s)
     | Some c \<Rightarrow> if t_state (tasks s c) = TASK_EXITED then (-1, s)
                 else (0, upd_task c (\<lambda>x. x\<lparr>t_kill_pending := True\<rparr>) s))"

section \<open>Information\<close>

definition uname_text :: string where
  "uname_text = ''PokuOS 0.1''"

definition sys_uname_fn :: "nat \<Rightarrow> nat \<Rightarrow> ('d, 'a) kernel_state_scheme \<Rightarrow> (int \<times> ('d, 'a) kernel_state_scheme) option" where
  "sys_uname_fn t r s =
     (let p = regs t r EBX s; len = of_nat (length uname_text) + 1 in
      if p \<ge> 0xC0000000 then Some (-1, s)
      else do {
        ok \<leftarrow> user_range_valid p len s;
        if \<not> ok then Some (-1, s)
        else do { s \<leftarrow> store_bytes (text_bytes uname_text @ [0]) p s; Some (sint len, s) }
      })"

definition le32 :: "u32 \<Rightarrow> u8 list" where
  "le32 w = [ucast w, ucast (drop_bit 8 w), ucast (drop_bit 16 w), ucast (drop_bit 24 w)]"

text \<open>The bytes of \<open>struct sandbox_status\<close>: eight words and the root path in 64 bytes.\<close>

definition sandbox_status :: "task \<Rightarrow> u8 list" where
  "sandbox_status x =
     le32 (of_int (t_pid x)) @ le32 (t_caps x) @ le32 (of_nat (tier_num (t_tier x))) @
     le32 (ucast (t_mem_limit x)) @ le32 (ucast (drop_bit 32 (t_mem_limit x))) @ le32 (t_cpu_quota x) @
     le32 (t_pages_charged x) @ le32 (t_quota_used_ticks x) @
     text_bytes (t_root_path x) @ replicate (64 - length (t_root_path x)) 0"

definition sys_sandbox_query_fn :: "nat \<Rightarrow> nat \<Rightarrow> ('d, 'a) kernel_state_scheme \<Rightarrow> (int \<times> ('d, 'a) kernel_state_scheme) option" where
  "sys_sandbox_query_fn t r s =
     (let p = regs t r EBX s in
      if p \<ge> 0xC0000000 then Some (-1, s)
      else do {
        ok \<leftarrow> user_range_valid p 96 s;
        if \<not> ok then Some (-1, s)
        else do { s \<leftarrow> store_bytes (sandbox_status (tasks s t)) p s; Some (0, s) }
      })"

section \<open>Dispatch\<close>

abbreviation NUM_SYSCALLS :: u32 where "NUM_SYSCALLS \<equiv> 23"

definition syscall_caps :: "u32 list" where
  "syscall_caps = [CAP_WRITE, CAP_READ, CAP_EXIT, CAP_GETCHAR, CAP_PUTCHAR, CAP_CLEAR, CAP_REBOOT, CAP_POWEROFF,
     CAP_TIER_QUERY, CAP_TIER_REQUEST, CAP_FORK, CAP_EXEC, CAP_WAIT, CAP_FORK, CAP_MLFQ_QUERY, CAP_YIELD,
     CAP_READ, CAP_READ, CAP_KILL, CAP_SET_TIER, 0, CAP_READ, CAP_SANDBOX_QUERY]"

definition returns :: "(int \<times> 's) option \<Rightarrow> (int option \<times> 's) option" where
  "returns x = map_option (\<lambda>(r, s). (Some r, s)) x"

text \<open>The table \<open>syscall_table\<close>, by system call number.\<close>

definition syscall_table :: "'d ata_io \<Rightarrow> u32 \<Rightarrow> nat \<Rightarrow> nat \<Rightarrow> ('d, 'a) kernel_state_scheme \<Rightarrow>
    (int option \<times> ('d, 'a) kernel_state_scheme) option" where
  "syscall_table io num t r s =
     (if num = 0 then returns (sys_write_fn t r s)
      else if num = 1 then returns (sys_open_fn t r s)
      else if num = 2 then map_option (\<lambda>s. (None, s)) (task_exit (sint (regs t r EBX s)) s)
      else if num = 3 then returns (Some (sys_getchar_fn s))
      else if num = 4 then returns (Some (sys_putchar_fn t r s))
      else if num = 5 then returns (Some (sys_clear_fn s))
      else if num = 6 then returns (Some (sys_reboot_fn s))
      else if num = 7 then returns (Some (sys_poweroff_fn s))
      else if num = 8 then returns (Some (sys_tier_query_fn t s, s))
      else if num = 9 then returns (sys_tier_request_fn t r s)
      else if num = 10 then returns (sys_fork_fn r s)
      else if num = 11 then returns (sys_exec_fn io t r s)
      else if num = 12 then sys_wait (sint (regs t r EBX s)) s
      else if num = 13 then returns (sys_fork_with_sandbox_fn t r s)
      else if num = 14 then returns (Some (sys_mlfq_query_fn t s, s))
      else if num = 15 then returns (sys_yield_fn s)
      else if num = 16 then returns (sys_read_fn io t r s)
      else if num = 17 then returns (sys_close_fn t r s)
      else if num = 18 then returns (Some (sys_kill_fn t r s))
      else if num = 19 then returns (sys_set_tier_fn t r s)
      else if num = 20 then returns (sys_uname_fn t r s)
      else if num = 21 then returns (sys_ls_fn t r s)
      else returns (sys_sandbox_query_fn t r s))"

text \<open>The handler for the current task; without one there is no frame to read, and the result is -1.\<close>

definition syscall_handler :: "'d ata_io \<Rightarrow> nat \<Rightarrow> ('d, 'a) kernel_state_scheme \<Rightarrow>
    (int option \<times> ('d, 'a) kernel_state_scheme) option" where
  "syscall_handler io r s = (case get_current_task s of None \<Rightarrow> Some (Some (-1), s) | Some t \<Rightarrow>
     (let num = regs t r EAX s in
      if num \<ge> NUM_SYSCALLS then Some (Some (-1), s)
      else let need = syscall_caps ! unat num in
        if need \<noteq> 0 \<and> t_caps (tasks s t) AND need \<noteq> need then Some (Some (- EPERM), s)
        else syscall_table io num t r s))"

section \<open>Return to user mode\<close>

record user_ctx =
  u_edi :: kword
  u_esi :: kword
  u_ebp :: kword
  u_ebx :: kword
  u_edx :: kword
  u_ecx :: kword
  u_eax :: kword
  u_eip :: kword
  u_cs :: kword
  u_eflags :: kword
  u_esp :: kword
  u_ss :: kword

text \<open>\<open>popa\<close> and \<open>iret\<close> with the stack pointer at word \<open>k\<close>: \<open>fork_return\<close>, and the end of \<open>syscall_entry\<close>.
  \<open>popa\<close> skips the saved stack pointer.\<close>

definition fork_return :: "(nat \<Rightarrow> kword) \<Rightarrow> nat \<Rightarrow> user_ctx" where
  "fork_return st k = \<lparr>u_edi = st k, u_esi = st (k + 1), u_ebp = st (k + 2), u_ebx = st (k + 4), u_edx = st (k + 5),
     u_ecx = st (k + 6), u_eax = st (k + 7), u_eip = st (k + 8), u_cs = st (k + 9), u_eflags = st (k + 10),
     u_esp = st (k + 11), u_ss = st (k + 12)\<rparr>"

text \<open>The stack that the processor, \<open>pusha\<close>, the pushed argument and the call leave; the return address into
  \<open>syscall_entry\<close> is \<open>Kernel_fn 0\<close>.\<close>

definition entry_stack :: "user_ctx \<Rightarrow> (nat \<Rightarrow> kword) \<Rightarrow> nat \<Rightarrow> kword" where
  "entry_stack u st =
     (let r = stack_words - 13 in
      st(r + 12 := u_ss u, r + 11 := u_esp u, r + 10 := u_eflags u, r + 9 := u_cs u, r + 8 := u_eip u,
         r + 7 := u_eax u, r + 6 := u_ecx u, r + 5 := u_edx u, r + 4 := u_ebx u, r + 3 := KStack (r + 8),
         r + 2 := u_ebp u, r + 1 := u_esi u, r := u_edi u, r - 1 := KStack r, r - 2 := KCode (Kernel_fn 0)))"

text \<open>A system call of the current task from user mode: its effect and the context it returns with, if it
  returns. After a successful \<open>exec\<close> the call returns into \<open>fork_return\<close> one word below the frame.\<close>

definition syscall_entry :: "'d ata_io \<Rightarrow> nat \<Rightarrow> user_ctx \<Rightarrow> ('d, 'a) kernel_state_scheme \<Rightarrow>
    (user_ctx option \<times> ('d, 'a) kernel_state_scheme) option" where
  "syscall_entry io t u s = do {
     let r = stack_words - 13;
     (res, s) \<leftarrow> syscall_handler io r (upd_task t (\<lambda>x. x\<lparr>t_stack := entry_stack u (t_stack x)\<rparr>) s);
     case res of None \<Rightarrow> Some (None, s)
     | Some v \<Rightarrow>
         if t_stack (tasks s t) (r - 2) = KCode Fork_return
         then Some (Some (fork_return (t_stack (tasks s t)) (r - 1)), s)
         else let s = set_stack t (r + 7) (KVal (of_int v)) s
              in Some (Some (fork_return (t_stack (tasks s t)) r), s)
   }"

section \<open>User memory\<close>

text \<open>The page of an address is mapped for user mode.\<close>

definition user_ok :: "'a paging_state_scheme \<Rightarrow> u32 \<Rightarrow> bool" where
  "user_ok s a \<longleftrightarrow> (\<exists>pte. walk_pte s a = Some pte \<and> pte AND PTE_USER \<noteq> 0)"

lemma same_page_index:
  assumes "unat a div 4096 = unat b div 4096"
  shows "pd_index a = pd_index b" "pt_index a = pt_index b"
proof -
  have "unat x div 4194304 = unat x div 4096 div 1024" for x :: u32 by (simp add: div_mult2_eq [symmetric])
  then show "pd_index a = pd_index b" "pt_index a = pt_index b"
    using assms by (simp_all add: pd_index_def pt_index_def unat_drop_bit32 unat_and_3FF)
qed

lemma same_page_user_ok: "unat a div 4096 = unat b div 4096 \<Longrightarrow> user_ok s a = user_ok s b"
  using same_page_index [of a b] by (simp add: user_ok_def walk_pte_alt)

lemma user_page_ok_eq:
  assumes "pt_wf s F" "unat a < 0xC0000000"
  shows "user_page_ok a s = Some (user_ok s a)"
proof -
  have i: "pd_index a < 1023" using assms(2) by (simp add: pd_index_def unat_drop_bit32 less_mult_imp_div_less)
  show ?thesis
    using i vread_pd [OF pt_wfD(1) [OF assms(1)], of "drop_bit 22 a"]
      vread_pt [OF pt_wfD(1) [OF assms(1)], of "drop_bit 22 a" "drop_bit 12 a AND 0x3FF"]
    by (auto simp: user_page_ok_def user_ok_def drop22 drop12 walk_pte_alt pt_frame_def)
qed

lemma range_loop_eq:
  assumes "pt_wf s F" "unat e \<le> 0xC0000000"
  shows "unat p mod 4096 = 0 \<Longrightarrow> range_loop p e s = Some (\<forall>a. p \<le> a \<and> a < e \<longrightarrow> user_ok s a)"
proof (induction "unat e - unat p" arbitrary: p rule: less_induct)
  case less
  show ?case
  proof (cases "p < e")
    case False
    then show ?thesis by (subst range_loop.simps) auto
  next
    case True
    then have l: "unat p < unat e" by (simp add: word_less_nat_alt)
    then have u: "unat (p + 0x1000) = unat p + 4096" using assms(2) by (simp add: unat_add32)
    have ok: "user_page_ok p s = Some (user_ok s p)" using user_page_ok_eq [OF assms(1)] l assms(2) by simp
    have IH: "range_loop (p + 0x1000) e s = Some (\<forall>a. p + 0x1000 \<le> a \<and> a < e \<longrightarrow> user_ok s a)"
      by (rule less.hyps) (use u l less.prems in simp_all)
    have page: "user_ok s a = user_ok s p" if "p \<le> a" "\<not> p + 0x1000 \<le> a" for a
    proof (rule same_page_user_ok)
      have "unat p \<le> unat a" "unat a < unat p + 4096" using that u by (simp_all add: word_le_nat_alt)
      moreover obtain k where "unat p = 4096 * k" using less.prems by (auto simp: mod_eq_0_iff_dvd dvd_def)
      ultimately show "unat a div 4096 = unat p div 4096" by (auto simp: div_nat_eqI)
    qed
    have up: "p \<le> a" if "p + 0x1000 \<le> a" for a using that u by (simp add: word_le_nat_alt)
    have "(\<forall>a. p \<le> a \<and> a < e \<longrightarrow> user_ok s a) \<longleftrightarrow> user_ok s p \<and> (\<forall>a. p + 0x1000 \<le> a \<and> a < e \<longrightarrow> user_ok s a)"
      using page up True by (metis order_refl)
    then show ?thesis using True ok IH by (subst range_loop.simps) simp
  qed
qed

text \<open>
  C7: \<open>user_range_valid\<close> is exact: on well-formed page tables it returns, and it accepts a buffer exactly when the
  buffer is empty or lies below the kernel, without wrapping around, with every byte on a page that is mapped
  for user mode.
\<close>

theorem user_range_valid_exact:
  assumes "pt_wf s F"
  shows "user_range_valid addr len s = Some (len = 0 \<or> (unat addr + unat len \<le> 0xC0000000 \<and>
    (\<forall>a. unat addr \<le> unat a \<and> unat a < unat addr + unat len \<longrightarrow>
       (\<exists>pte. walk_pte s a = Some pte \<and> pte AND PTE_USER \<noteq> 0))))"
proof (cases "len \<noteq> 0 \<and> unat addr + unat len \<le> 0xC0000000")
  case False
  have "addr \<ge> 0xC0000000 \<or> addr + len < addr \<or> addr + len > 0xC0000000" if "len \<noteq> 0"
  proof (rule ccontr)
    assume "\<not> ?thesis"
    then have *: "unat addr < 0xC0000000" "unat addr \<le> unat (addr + len)" "unat (addr + len) \<le> 0xC0000000"
      by (auto simp: word_le_nat_alt word_less_nat_alt)
    have "unat (addr + len) = (unat addr + unat len) mod 4294967296" by (simp add: unat_word_ariths)
    moreover have "unat len < 4294967296" by (rule unat_lt32)
    moreover have "0 < unat len" using that by (simp add: unat_gt_0)
    ultimately have "unat (addr + len) = unat addr + unat len"
      using * by (cases "unat addr + unat len < 4294967296") (auto simp: mod_if split: if_splits)
    then show False using False * that by simp
  qed
  then show ?thesis using False by (auto simp: user_range_valid_def Let_def)
next
  case True
  then have e: "unat (addr + len) = unat addr + unat len" by (simp add: unat_add32)
  have l: "0 < unat len" using True by (simp add: unat_gt_0)
  have c: "\<not> addr \<ge> 0xC0000000" "\<not> addr + len < addr" "\<not> addr + len > 0xC0000000"
    using True e l by (simp_all add: word_le_nat_alt word_less_nat_alt)
  let ?b = "addr AND NOT 0xFFF"
  have m: "(0xFFF :: u32) = mask 12" by (simp add: mask_eq_exp_minus_1)
  have b: "unat ?b = unat addr - unat addr mod 4096" unfolding m unat_and_not_mask32 by simp
  have bm: "unat ?b mod 4096 = 0" unfolding b by (simp add: minus_mod_eq_mult_div)
  have bd: "unat ?b div 4096 = unat addr div 4096" unfolding b by (simp add: minus_mod_eq_mult_div)
  have low: "user_ok s a = user_ok s addr" if "unat ?b \<le> unat a" "unat a < unat addr" for a
    by (rule same_page_user_ok) (use that bd div_le_mono [of "unat ?b" "unat a" 4096] div_le_mono [of "unat a" "unat addr" 4096] in linarith)
  have "(\<forall>a. ?b \<le> a \<and> a < addr + len \<longrightarrow> user_ok s a) \<longleftrightarrow>
      (\<forall>a. unat addr \<le> unat a \<and> unat a < unat addr + unat len \<longrightarrow> user_ok s a)"
  proof (intro iffI allI impI)
    fix a :: u32 assume "\<forall>a. ?b \<le> a \<and> a < addr + len \<longrightarrow> user_ok s a" "unat addr \<le> unat a \<and> unat a < unat addr + unat len"
    then show "user_ok s a" using e b by (auto simp: word_le_nat_alt word_less_nat_alt)
  next
    fix a :: u32 assume h: "\<forall>a. unat addr \<le> unat a \<and> unat a < unat addr + unat len \<longrightarrow> user_ok s a" "?b \<le> a \<and> a < addr + len"
    show "user_ok s a"
      using h low [of a] e l by (cases "unat addr \<le> unat a") (simp_all add: word_le_nat_alt word_less_nat_alt)
  qed
  moreover have "range_loop ?b (addr + len) s = Some (\<forall>a. ?b \<le> a \<and> a < addr + len \<longrightarrow> user_ok s a)"
    by (rule range_loop_eq [OF assms _ bm]) (use e True in simp)
  ultimately show ?thesis using True c by (simp add: user_range_valid_def Let_def user_ok_def)
qed

theorem user_range_valid_exact_witness:
  "\<exists>s. map_page 0x400000 0x401000 7 small_paging = Some s \<and> user_range_valid 0x400010 100 s = Some True \<and>
    user_range_valid 0x400FF0 100 s = Some False"
proof -
  have i: "pd_index 0x400000 = 1" "pt_index 0x400000 = 0"
    using index_of_split [of "0x400000" 1 0 0] by simp_all
  obtain s F where s: "map_page 0x400000 0x401000 7 small_paging = Some s" "pt_wf s F" "walk_pte s 0x400000 = Some 0x401007"
    "\<forall>vb. pd_index vb < 1023 \<longrightarrow> (pd_index vb, pt_index vb) \<noteq> (1, 0) \<longrightarrow> walk_pte s vb = walk_pte small_paging vb"
    using map_page_correct [OF small_paging_wf, of "0x400000" "0x401000" 7] i by (auto simp: present_odd)
  have "walk_pte s a = Some 0x401007" if "0x400010 \<le> unat a \<and> unat a < 0x400074" for a
  proof -
    have "unat a = 1 * 4194304 + 0 * 4096 + (unat a - 4194304)" using that by simp
    note j = index_of_split [OF this, simplified]
    have "unat a - 4194304 < 4096" using that by linarith
    then show ?thesis using s(3) i j by (auto simp: walk_pte_alt split: if_splits)
  qed
  then have "user_range_valid 0x400010 100 s = Some True"
    using user_range_valid_exact [OF s(2), of "0x400010" 100] by auto
  moreover have "user_range_valid 0x400FF0 100 s = Some False"
  proof -
    have j: "pd_index 0x401000 = 1" "pt_index 0x401000 = 1" using index_of_split [of "0x401000" 1 1 0] by simp_all
    then have "walk_pte s 0x401000 = None" using s(4) [rule_format, of "0x401000"]
      by (simp add: walk_pte_alt small_paging_pde present_odd)
    then have "\<exists>a :: u32. unat (0x400FF0 :: u32) \<le> unat a \<and> unat a < unat (0x400FF0 :: u32) + unat (100 :: u32) \<and> walk_pte s a = None"
      by (intro exI [of _ "0x401000"]) simp
    then show ?thesis using user_range_valid_exact [OF s(2), of "0x400FF0" 100] by auto
  qed
  ultimately show ?thesis using s(1) by blast
qed

section \<open>The way in and out of the kernel\<close>

lemma entry_return: "fork_return (entry_stack u st) (stack_words - 13) = u"
  by (simp add: fork_return_def entry_stack_def Let_def)

text \<open>
  C8: A system call that the task has no capability for changes nothing the task can see but EAX, which is
  \<open>-EPERM\<close>: the user context is otherwise restored exactly, and in the kernel only the task's own kernel stack
  was written.
\<close>

theorem syscall_refused:
  assumes "current_task s = Some t" "u_eax u = KVal n" "n < NUM_SYSCALLS"
    "syscall_caps ! unat n \<noteq> 0" "t_caps (tasks s t) AND syscall_caps ! unat n \<noteq> syscall_caps ! unat n"
  shows "\<exists>st. syscall_entry io t u s = Some (Some (u\<lparr>u_eax := KVal (of_int (- EPERM))\<rparr>), upd_task t (\<lambda>x. x\<lparr>t_stack := st\<rparr>) s)"
proof -
  let ?r = "stack_words - 13" and ?s = "upd_task t (\<lambda>x. x\<lparr>t_stack := entry_stack u (t_stack x)\<rparr>) s"
  have e: "regs t ?r EAX ?s = n" using assms(2) by (simp add: regs_def entry_stack_def Let_def upd_task_def)
  have h: "syscall_handler io ?r ?s = Some (Some (- EPERM), ?s)"
  proof -
    have c: "get_current_task ?s = Some t" using assms(1) by (simp add: get_current_task_def upd_task_def)
    have p: "t_caps (tasks ?s t) = t_caps (tasks s t)" by (simp add: upd_task_def)
    show ?thesis unfolding syscall_handler_def c option.case Let_def e p using assms(3-5) by simp
  qed
  have k: "t_stack (tasks ?s t) (?r - 2) \<noteq> KCode Fork_return" by (simp add: entry_stack_def Let_def upd_task_def)
  have f: "fork_return (t_stack (tasks (set_stack t (?r + 7) (KVal (of_int (- EPERM))) ?s) t)) ?r = u\<lparr>u_eax := KVal (of_int (- EPERM))\<rparr>"
    by (simp add: fork_return_def entry_stack_def Let_def set_stack_def upd_task_def)
  have g: "set_stack t (?r + 7) w ?s = upd_task t (\<lambda>x. x\<lparr>t_stack := (entry_stack u (t_stack (tasks s t)))(?r + 7 := w)\<rparr>) s" for w
    by (simp add: set_stack_def upd_task_def)
  have "syscall_entry io t u s = Some (Some (u\<lparr>u_eax := KVal (of_int (- EPERM))\<rparr>), set_stack t (?r + 7) (KVal (of_int (- EPERM))) ?s)"
    unfolding syscall_entry_def Let_def h Option.bind.simps prod.case option.case if_not_P [OF k] f ..
  then show ?thesis unfolding g by blast
qed

text \<open>
  After \<open>exec\<close>, the frame that the system call returns through starts the new program: EIP is its entry
  point, in the user code segment with interrupts on, ESP is the new user stack in the user data segment, and
  all other registers are zero.
\<close>

theorem exec_frame_starts_program:
  assumes "2 \<le> r"
  shows "t_stack (tasks (exec_frame t r entry ustack s) t) (r - 2) = KCode Fork_return \<and>
    fork_return (t_stack (tasks (exec_frame t r entry ustack s) t)) (r - 1) =
      \<lparr>u_edi = KVal 0, u_esi = KVal 0, u_ebp = KVal 0, u_ebx = KVal 0, u_edx = KVal 0, u_ecx = KVal 0, u_eax = KVal 0,
       u_eip = KVal entry, u_cs = KVal 0x1B, u_eflags = KVal 0x202, u_esp = KVal ustack, u_ss = KVal 0x23\<rparr>"
proof -
  obtain k where r: "r = Suc (Suc k)" using assms le_Suc_ex [of 2 r] by auto
  show ?thesis unfolding r by (simp add: exec_frame_def fork_return_def upd_task_def)
qed


theorem syscall_refused_witness:
  "let s = demo_kernel\<lparr>current_task := Some 3, tasks := (\<lambda>_. zero_task)\<rparr>;
       u = \<lparr>u_edi = KVal 0, u_esi = KVal 0, u_ebp = KVal 0, u_ebx = KVal 0, u_edx = KVal 0, u_ecx = KVal 0,
            u_eax = KVal 7, u_eip = KVal 0x400100, u_cs = KVal 0x1B, u_eflags = KVal 0x202, u_esp = KVal 0xBFFF0000, u_ss = KVal 0x23\<rparr>
   in \<exists>st. syscall_entry no_drive 3 u s =
     Some (Some (u\<lparr>u_eax := KVal (of_int (- EPERM))\<rparr>), upd_task 3 (\<lambda>x. x\<lparr>t_stack := st\<rparr>) s)"
  unfolding Let_def
  by (rule syscall_refused [where n = 7]) (simp_all add: syscall_caps_def zero_task_def)

theorem exec_frame_starts_program_witness:
  "u_eip (fork_return (t_stack (tasks (exec_frame 3 4083 0x400100 0xBFFF0000 (demo_kernel :: unit kernel_state)) 3)) 4082) = KVal 0x400100"
  using exec_frame_starts_program [of 4083 3 "0x400100" "0xBFFF0000" "demo_kernel :: unit kernel_state"] by simp

end
