(* ===== verification/Trap.thy ===== *)
theory Trap
  imports Syscall
begin

text \<open>
  Exceptions, \<open>kernel/trap.c\<close>, the page fault handler and the interrupt descriptor table of
  \<open>kernel/idt.c\<close>, and the task state segment of \<open>user/tss.c\<close>. The registers CR2 and ESP that the code
  reads are arguments. The addresses of the handlers are an argument, \<open>addr\<close>. A kernel that halts for
  good is \<^const>\<open>None\<close>.
\<close>

section \<open>Reports\<close>

definition exception_names :: "string list" where
  "exception_names = [''Divide Error'', ''Debug'', ''Non-Maskable Interrupt'', ''Breakpoint'', ''Overflow'',
     ''Bound Range Exceeded'', ''Invalid Opcode'', ''Device Not Available'', ''Double Fault'',
     ''Coprocessor Segment Overrun'', ''Invalid TSS'', ''Segment Not Present'', ''Stack-Segment Fault'',
     ''General Protection Fault'', ''Page Fault'', ''Reserved'', ''x87 FPU Error'', ''Alignment Check'',
     ''Machine Check'', ''SIMD FP Exception'', ''Virtualization Exception'', ''Control Protection Exception''] @
     replicate 10 ''Reserved''"

definition trap_bytes :: "u8 list \<Rightarrow> ('d, 'a) kernel_state_scheme \<Rightarrow> ('d, 'a) kernel_state_scheme" where
  "trap_bytes bs s = (let s = serial_write bs s in s\<lparr>console := vga_write bs (console s)\<rparr>)"

definition trap_out :: "string \<Rightarrow> ('d, 'a) kernel_state_scheme \<Rightarrow> ('d, 'a) kernel_state_scheme" where
  "trap_out t = trap_bytes (text_bytes t)"

definition newline :: string where "newline = [CHR 0x0A]"

definition trap_hex_out :: "u32 \<Rightarrow> ('d, 'a) kernel_state_scheme \<Rightarrow> ('d, 'a) kernel_state_scheme" where
  "trap_hex_out v = trap_bytes (hex_digits 8 v)"

definition trap_field :: "string \<Rightarrow> u32 \<Rightarrow> ('d, 'a) kernel_state_scheme \<Rightarrow> ('d, 'a) kernel_state_scheme" where
  "trap_field name v s = trap_out newline (trap_hex_out v (trap_out ''=0x'' (trap_out name s)))"

text \<open>The loop of \<open>trap_dump_stack\<close>; \<open>n\<close> words are left.\<close>

primrec dump_words :: "nat \<Rightarrow> u32 \<Rightarrow> u32 \<Rightarrow> ('d, 'a) kernel_state_scheme \<Rightarrow> ('d, 'a) kernel_state_scheme option" where
  "dump_words 0 a limit s = Some s"
| "dump_words (Suc n) a limit s =
     (if a \<ge> limit then Some s
      else do {
        let s = trap_out ''] 0x'' (trap_hex_out a (trap_out ''  [0x'' s));
        w \<leftarrow> read32 s a;
        dump_words n (a + 4) limit (trap_out newline (trap_hex_out w s))
      })"

definition dump_limit :: "u32 \<Rightarrow> bool \<Rightarrow> u32" where
  "dump_limit esp is_user =
     (if is_user then 0xC0000000
      else let base = esp AND NOT 0xFFF;
               base = (if base < 0xFF000000 \<or> base > 0xFFFFF000 then 0xFF000000 else base);
               limit = base + 0x4000
           in if limit > 0xFFFFF000 then 0xFFFFF000 else limit)"

definition trap_dump_stack :: "u32 \<Rightarrow> bool \<Rightarrow> ('d, 'a) kernel_state_scheme \<Rightarrow> ('d, 'a) kernel_state_scheme option" where
  "trap_dump_stack esp is_user s =
     dump_words 16 esp (dump_limit esp is_user)
       (trap_out (''):'' @ newline) (trap_out (if is_user then ''user'' else ''kernel'')
         (trap_out (newline @ ''stack dump ('') s)))"

definition trap_error_code_decode :: "u32 \<Rightarrow> ('d, 'a) kernel_state_scheme \<Rightarrow> ('d, 'a) kernel_state_scheme" where
  "trap_error_code_decode error_code s =
     (let s = trap_out (newline @ ''error_code bits: '') s;
          s = trap_out (if error_code AND 1 \<noteq> 0 then ''present '' else ''not-present '') s;
          s = trap_out (if error_code AND 2 \<noteq> 0 then ''write '' else ''read '') s;
          s = trap_out (if error_code AND 4 \<noteq> 0 then ''user-mode'' else ''kernel-mode'') s;
          s = trap_out newline s;
          kind = drop_bit 3 (error_code AND 0x1F)
      in if kind \<noteq> 0 then trap_out newline (trap_hex_out kind (trap_out ''  selector index='' s)) else s)"

record trap_frame =
  tf_eip :: u32
  tf_cs :: u32
  tf_eflags :: u32
  tf_esp :: u32
  tf_ss :: u32

definition rule_line :: string where
  "rule_line = replicate 30 (CHR ''='') @ newline"

section \<open>Exceptions\<close>

text \<open>The report of \<open>exception_trap\<close>.\<close>

definition trap_report :: "trap_frame \<Rightarrow> u32 \<Rightarrow> u32 \<Rightarrow> u32 \<Rightarrow> u32 \<Rightarrow> ('d, 'a) kernel_state_scheme \<Rightarrow> ('d, 'a) kernel_state_scheme option" where
  "trap_report tf error_code vector cr2 esp s = do {
     let is_user = (tf_cs tf AND 3 \<noteq> 0);
     let s = trap_out ''KERNEL EXCEPTION: '' (trap_out (newline @ rule_line) s);
     let s = trap_out (if is_user then ''[USER MODE] '' else ''[KERNEL MODE] '') s;
     let s = trap_out (if vector < 32 then exception_names ! unat vector else ''Unknown'') s;
     let s = trap_out newline s;
     let s = trap_field ''eflags'' (tf_eflags tf) (trap_field ''cs'' (tf_cs tf) (trap_field ''eip'' (tf_eip tf)
               (trap_field ''vector'' vector s)));
     let s = (if is_user then trap_field ''user_ss'' (tf_ss tf) (trap_field ''user_esp'' (tf_esp tf) s) else s);
     let s = trap_field ''cr2'' cr2 (trap_field ''error_code'' error_code s);
     let s = (if vector = 14 then trap_error_code_decode error_code s else s);
     s \<leftarrow> trap_dump_stack (if is_user then tf_esp tf else esp) is_user s;
     let s = trap_out (newline @ ''current_task pid='') s;
     let s = (case current_task s of None \<Rightarrow> trap_out ''NULL'' s
              | Some c \<Rightarrow> trap_hex_out (of_int (t_pid (tasks s c))) s);
     Some (trap_out (newline @ rule_line) s)
   }"

definition exception_trap :: "trap_frame \<Rightarrow> u32 \<Rightarrow> u32 \<Rightarrow> u32 \<Rightarrow> u32 \<Rightarrow> ('d, 'a) kernel_state_scheme \<Rightarrow> ('d, 'a) kernel_state_scheme option" where
  "exception_trap tf error_code vector cr2 esp s = do {
     s \<leftarrow> trap_report tf error_code vector cr2 esp s;
     if tf_cs tf AND 3 \<noteq> 0 then
       (if current_task s = None then None
        else task_exit (sint vector) (trap_out (''USER task killed, returning to scheduler'' @ newline) s))
     else None
   }"

definition page_fault_handler :: "trap_frame \<Rightarrow> u32 \<Rightarrow> u32 \<Rightarrow> u32 \<Rightarrow> ('d, 'a) kernel_state_scheme \<Rightarrow> ('d, 'a) kernel_state_scheme option" where
  "page_fault_handler tf error_code cr2 esp s = do {
     let mp = (case current_task s of None \<Rightarrow> 0 | Some c \<Rightarrow> t_map (tasks s c));
     (e, s) \<leftarrow> (if mp \<noteq> 0 then vm_fault mp cr2 error_code s else Some (-1, s));
     if mp \<noteq> 0 \<and> e = 0 then Some s else exception_trap tf error_code 14 cr2 esp s
   }"

text \<open>The handlers of the exception vectors: those for which the processor pushes an error code pass it on.\<close>

definition has_error_code :: "nat \<Rightarrow> bool" where
  "has_error_code v \<longleftrightarrow> v \<in> {8, 10, 11, 12, 13, 14, 17}"

definition exc_vector :: "nat \<Rightarrow> trap_frame \<Rightarrow> u32 \<Rightarrow> u32 \<Rightarrow> u32 \<Rightarrow> ('d, 'a) kernel_state_scheme \<Rightarrow> ('d, 'a) kernel_state_scheme option" where
  "exc_vector v tf error_code = exception_trap tf (if has_error_code v then error_code else 0) (of_nat v)"

definition user_test_int_handler :: "('d, 'a) kernel_state_scheme \<Rightarrow> ('d, 'a) kernel_state_scheme" where
  "user_test_int_handler = serial_write (text_bytes (''User mode interrupt triggered!'' @ newline))"

section \<open>The interrupt descriptor table\<close>

datatype handler = Exc_vector nat | Page_fault_handler | Keyboard_entry | Pit_entry | Pit_handler | Syscall_entry |
  User_test_int_handler

record idt_entry =
  base_low :: u16
  sel :: u16
  always0 :: u8
  gate_flags :: u8
  base_high :: u16

abbreviation GATE_INTERRUPT :: u8 where "GATE_INTERRUPT \<equiv> 0x8E"
abbreviation GATE_USER :: u8 where "GATE_USER \<equiv> 0xEE"
abbreviation IRQ1_VECTOR :: nat where "IRQ1_VECTOR \<equiv> 33"

definition gate :: "u32 \<Rightarrow> u16 \<Rightarrow> u8 \<Rightarrow> idt_entry" where
  "gate base sl fl = \<lparr>base_low = ucast (base AND 0xFFFF), sel = sl, always0 = 0, gate_flags = fl,
     base_high = ucast (drop_bit 16 base AND 0xFFFF)\<rparr>"

definition idt_set_gate :: "nat \<Rightarrow> u32 \<Rightarrow> u16 \<Rightarrow> u8 \<Rightarrow> (nat \<Rightarrow> idt_entry) \<Rightarrow> nat \<Rightarrow> idt_entry" where
  "idt_set_gate num base sl fl idt = idt(num := gate base sl fl)"

text \<open>The table of the exception handlers.\<close>

definition exc_handlers :: "handler list" where
  "exc_handlers = map Exc_vector [0..<32]"

definition idt_init :: "(handler \<Rightarrow> u32) \<Rightarrow> (nat \<Rightarrow> idt_entry) \<Rightarrow> nat \<Rightarrow> idt_entry" where
  "idt_init addr idt =
     (let idt = idt(0x80 := gate (addr Syscall_entry) 0x08 0xEE);
          idt = fold (\<lambda>i idt. idt(i := gate (addr (exc_handlers ! i)) 0x08 GATE_INTERRUPT)) [0..<32] idt;
          idt = idt_set_gate 14 (addr Page_fault_handler) 0x08 GATE_INTERRUPT idt;
          idt = idt_set_gate IRQ1_VECTOR (addr Keyboard_entry) 0x08 GATE_INTERRUPT idt;
          idt = idt_set_gate 32 (addr Pit_entry) 0x08 GATE_INTERRUPT idt
      in idt_set_gate 0x90 (addr User_test_int_handler) 0x08 GATE_USER idt)"

text \<open>\<open>pit_init\<close> programs the timer for 100 Hz and replaces the gate of vector 32.\<close>

definition pit_init :: "(handler \<Rightarrow> u32) \<Rightarrow> (nat \<Rightarrow> idt_entry) \<Rightarrow> (u16 \<times> u16) list \<times> (nat \<Rightarrow> idt_entry)" where
  "pit_init addr idt =
     (let divisor = 1193180 div 100 :: u32 in
      ([(0x43, 0x36), (0x40, ucast (divisor AND 0xFF)), (0x40, ucast (drop_bit 8 divisor AND 0xFF))],
       idt_set_gate 32 (addr Pit_handler) 0x08 0x8E idt))"

section \<open>The task state segment\<close>

record tss =
  tss_esp0 :: u32
  tss_ss0 :: u32
  tss_iomap_base :: u16

text \<open>\<open>tss_init\<close> also writes the address of the segment into its GDT descriptor, whose bytes are \<open>g\<close>.\<close>

definition tss_init :: "u32 \<Rightarrow> (nat \<Rightarrow> u8) \<Rightarrow> tss \<times> (nat \<Rightarrow> u8)" where
  "tss_init base g =
     (\<lparr>tss_esp0 = 0, tss_ss0 = 0x10, tss_iomap_base = 104\<rparr>,
      g(2 := ucast (base AND 0xFF), 3 := ucast (drop_bit 8 base AND 0xFF),
        4 := ucast (drop_bit 16 base AND 0xFF), 7 := ucast (drop_bit 24 base AND 0xFF)))"

definition tss_set_kernel_stack :: "u32 \<Rightarrow> tss \<Rightarrow> tss" where
  "tss_set_kernel_stack esp0 t = t\<lparr>tss_esp0 := esp0\<rparr>"

section \<open>Properties\<close>

text \<open>How the processor reads a gate: the address it jumps to and the least privileged level that may use it.\<close>

definition gate_offset :: "idt_entry \<Rightarrow> u32" where
  "gate_offset e = ucast (base_low e) OR push_bit 16 (ucast (base_high e))"

definition gate_dpl :: "idt_entry \<Rightarrow> u8" where
  "gate_dpl e = drop_bit 5 (gate_flags e) AND 3"

lemma gate_offset_gate: "gate_offset (gate base sl fl) = base"
proof -
  have m: "0xFFFF = (mask 16 :: u32)" by (simp add: mask_eq_exp_minus_1)
  show ?thesis unfolding gate_offset_def gate_def m
    by (rule bit_word_eqI) (auto simp: bit_simps)
qed

definition vector_target :: "nat \<Rightarrow> handler" where
  "vector_target v = (if v = 14 then Page_fault_handler else if v < 32 then Exc_vector v else if v = 32 then Pit_entry
     else if v = 33 then Keyboard_entry else if v = 0x80 then Syscall_entry else User_test_int_handler)"

definition vectors :: "nat set" where
  "vectors = {..33} \<union> {0x80, 0x90}"

lemma fold_gates:
  "fold (\<lambda>i idt. idt(i := g i)) [0..<n] idt v = (if v < n then g v else idt v)"
  by (induction n) auto

lemma idt_init_at:
  "idt_init addr idt v = (if v \<in> vectors
     then gate (addr (vector_target v)) 0x08 (if v = 0x80 \<or> v = 0x90 then GATE_USER else GATE_INTERRUPT) else idt v)"
  by (auto simp: idt_init_def Let_def fold_gates idt_set_gate_def vectors_def vector_target_def exc_handlers_def)

text \<open>
  C34: The interrupt table dispatches. After \<open>idt_init\<close> on the cleared table the processor enters, for each vector
  in use, exactly the handler meant for it, in the kernel code segment; no other vector is present, and user code
  may raise only \<open>0x80\<close> and \<open>0x90\<close>.
\<close>

theorem idt_init_dispatch:
  "let e = idt_init addr (\<lambda>_. \<lparr>base_low = 0, sel = 0, always0 = 0, gate_flags = 0, base_high = 0\<rparr>) v in
   (gate_flags e AND 0x80 \<noteq> 0 \<longleftrightarrow> v \<in> vectors) \<and> (gate_dpl e = 3 \<longleftrightarrow> v = 0x80 \<or> v = 0x90) \<and>
   (if v \<in> vectors then gate_offset e = addr (vector_target v) \<and> sel e = 0x08 else gate_flags e = 0)"
  unfolding idt_init_at Let_def
  by (auto simp: gate_offset_gate) (auto simp: gate_def gate_dpl_def vectors_def)

end
