(* ===== verification/Locks_Test.thy ===== *)
theory Locks_Test
  imports Locks Trap
begin

text \<open>
  The lock self test, \<open>kernel/locks_test.c\<close>: two kernel threads and the boot thread, which runs as the idle task. A
  thread runs until it calls the scheduler; \<open>locks_test_step\<close> runs the current thread up to that point, at the place
  where it left off. The timer interrupt is taken not to strike during the test.
\<close>

section \<open>Model\<close>

text \<open>The statics of the file, the locals \<open>a\<close> and \<open>b\<close> of \<open>locks_test_run\<close>, and how far each thread is.\<close>

record locks_test =
  g_lock :: mutex
  g_waiter :: "nat option"
  lt_a :: "nat option"
  lt_b :: "nat option"
  pc_main :: nat
  pc_holder :: nat
  pc_waiter :: nat

abbreviation lock_holder :: kcode where "lock_holder \<equiv> Kernel_fn 1"
abbreviation lock_waiter :: kcode where "lock_waiter \<equiv> Kernel_fn 2"

abbreviation say :: "string \<Rightarrow> ('d, 'a) kernel_state_scheme \<Rightarrow> ('d, 'a) kernel_state_scheme" where
  "say t \<equiv> serial_write (text_bytes t)"

abbreviation say_pid :: "string \<Rightarrow> nat \<Rightarrow> string \<Rightarrow> ('d, 'a) kernel_state_scheme \<Rightarrow> ('d, 'a) kernel_state_scheme" where
  "say_pid t me u s \<equiv> say u (serial_write_hex (of_int (t_pid (tasks s me))) (say t s))"

text \<open>\<open>current_task->state = TASK_WAITING; schedule();\<close>\<close>

definition park :: "'a sched_state_scheme \<Rightarrow> 'a sched_state_scheme option" where
  "park s = do { c \<leftarrow> current_task s; schedule (upd_task c (\<lambda>x. x\<lparr>t_state := TASK_WAITING\<rparr>) s) }"

definition lock_holder_fn :: "locks_test \<Rightarrow> ('d, 'a) kernel_state_scheme \<Rightarrow> (locks_test \<times> ('d, 'a) kernel_state_scheme) option" where
  "lock_holder_fn l s = do {
     me \<leftarrow> get_current_task s;
     if pc_holder l = 0 then do {
       (got, m, s) \<leftarrow> mutex_lock (g_lock l) s;
       if \<not> got then Some (l\<lparr>g_lock := m\<rparr>, s)
       else do {
         let s = say_pid ''[locks_test] holder pid='' me ('' held'' @ newline) s;
         s \<leftarrow> yield (enqueue_task (g_waiter l) s);
         Some (l\<lparr>g_lock := m, pc_holder := 1\<rparr>, s)
       }
     }
     else if pc_holder l = 1 then do {
       (m, s) \<leftarrow> mutex_unlock (g_lock l) s;
       s \<leftarrow> park (say (''[locks_test] holder unlock restored'' @ newline) s);
       Some (l\<lparr>g_lock := m, pc_holder := 2\<rparr>, s)
     }
     else do { s \<leftarrow> park s; Some (l, s) }
   }"

definition lock_waiter_fn :: "locks_test \<Rightarrow> ('d, 'a) kernel_state_scheme \<Rightarrow> (locks_test \<times> ('d, 'a) kernel_state_scheme) option" where
  "lock_waiter_fn l s = do {
     me \<leftarrow> get_current_task s;
     if pc_waiter l \<le> 1 then do {
       let s = (if pc_waiter l = 0 then say_pid ''[locks_test] waiter pid='' me ('' start'' @ newline) s else s);
       (got, m, s) \<leftarrow> mutex_lock (g_lock l) s;
       if \<not> got then Some (l\<lparr>g_lock := m, pc_waiter := 1\<rparr>, s)
       else do {
         let s = say (''[locks_test] waiter got lock'' @ newline) s;
         (m, s) \<leftarrow> mutex_unlock m s;
         s \<leftarrow> park (say (''[locks_test] OK'' @ newline) s);
         Some (l\<lparr>g_lock := m, pc_waiter := 2\<rparr>, s)
       }
     }
     else do { s \<leftarrow> park s; Some (l, s) }
   }"

text \<open>\<open>pc_main\<close> is 2 when \<open>locks_test_run\<close> has returned.\<close>

definition locks_test_run :: "locks_test \<Rightarrow> ('d, 'a) kernel_state_scheme \<Rightarrow> (locks_test \<times> ('d, 'a) kernel_state_scheme) option" where
  "locks_test_run l s =
     (if pc_main l = 0 then
        (let m = mutex_init ''locks_test_lock'' LOCK_FLAG_INHERIT;
             s = say (''[locks_test] start'' @ newline) s;
             (a, s) = create_task lock_holder TASK_PRIO_NORMAL s;
             (b, s) = create_task lock_waiter TASK_PRIO_HIGH s;
             l = l\<lparr>g_lock := m, lt_a := a, lt_b := b\<rparr>
         in case (a, b) of
              (Some i, Some j) \<Rightarrow> do {
                let s = upd_task j (\<lambda>x. x\<lparr>t_tier := TIER_SYSTEM, t_caps := CAP_SYSTEM_DEFAULT\<rparr>) s;
                s \<leftarrow> schedule (enqueue_task a s);
                Some (l\<lparr>g_waiter := b, pc_main := 1\<rparr>, s)
              }
            | _ \<Rightarrow> Some (l\<lparr>pc_main := 2\<rparr>, say (''[locks_test] create task failed'' @ newline) s))
      else Some (l\<lparr>pc_main := 2\<rparr>, say (''[locks_test] spawned'' @ newline) s))"

text \<open>The current thread runs to its next call of the scheduler. Other tasks do not take part.\<close>

definition locks_test_step :: "locks_test \<Rightarrow> ('d, 'a) kernel_state_scheme \<Rightarrow> (locks_test \<times> ('d, 'a) kernel_state_scheme) option" where
  "locks_test_step l s =
     (if current_task s = Some idle_ref then locks_test_run l s
      else if current_task s = lt_a l then lock_holder_fn l s
      else if current_task s = lt_b l then lock_waiter_fn l s
      else None)"

partial_function (option) locks_test_main :: "locks_test \<Rightarrow> ('d, 'a) kernel_state_scheme \<Rightarrow> (locks_test \<times> ('d, 'a) kernel_state_scheme) option" where
  "locks_test_main l s =
     (if pc_main l = 2 then Some (l, s)
      else Option.bind (locks_test_step l s) (\<lambda>(l, s). locks_test_main l s))"

declare locks_test_main.simps [code]

text \<open>The first \<open>n\<close> steps.\<close>

primrec locks_test_steps :: "nat \<Rightarrow> locks_test \<Rightarrow> ('d, 'a) kernel_state_scheme \<Rightarrow> (locks_test \<times> ('d, 'a) kernel_state_scheme) option" where
  "locks_test_steps 0 l s = Some (l, s)"
| "locks_test_steps (Suc n) l s = Option.bind (locks_test_step l s) (\<lambda>(l, s). locks_test_steps n l s)"

section \<open>The run\<close>

definition crlf :: "u8 list \<Rightarrow> u8 list" where
  "crlf cs = concat (map (\<lambda>c. if c = 10 then [13, 10] else [c]) cs)"

lemma serial_write_out: "serial_write cs s = s\<lparr>serial_out := serial_out s @ crlf cs\<rparr>"
  by (induction cs arbitrary: s) (simp_all add: serial_write_def serial_write_char_def crlf_def)

lemmas say_out = serial_write_hex_def serial_write_out

text \<open>What the scheduler and the mutex look at in a task.\<close>

definition task_view :: "task \<Rightarrow> task_state \<times> tier \<times> nat option \<times> int \<times> int \<times> u32 \<times> tier \<times> bool" where
  "task_view x = (t_state x, t_tier x, t_next x, t_cur_queue x, t_mlfq_level x, t_flags x, t_saved_tier x, t_quota_done x)"

definition queue_view :: "'a sched_state_scheme \<Rightarrow> nat option list \<times> nat option list" where
  "queue_view s = (map (rq_head s) [0..<NR_QUEUES], map (rq_tail s) [0..<NR_QUEUES])"

abbreviation no_queues :: "nat option list \<times> nat option list" where
  "no_queues \<equiv> ([None, None, None, None, None], [None, None, None, None, None])"

lemma five: "[0..<5] = [0, 1, 2, 3, 4 :: nat]" by (simp add: upt_rec)

lemma find_chain_step [simp]:
  "find_chain nxt test None = Some None"
  "test x \<Longrightarrow> find_chain nxt test (Some x) = Some (Some x)"
  "\<not> test x \<Longrightarrow> find_chain nxt test (Some x) = find_chain nxt test (nxt x)"
  by (simp_all add: find_chain.simps)

lemmas run_simps = task_view_def queue_view_def five schedule_def yield_def pick_or_idle_def pick_next_task_def peek_next_task_def
  pick_queue_def take_head_def switch_to_task_def set_task_timeslice_def tier_timeslice_def clamp2_def task_qidx_def enqueue_task_def
  dequeue_task_def get_current_task_def Let_def upd_task_def say_out

lemma create_task_at:
  fixes s :: "('d, 'a) kernel_state_scheme"
  assumes "find (\<lambda>i. \<not> t_in_use (tasks s i)) [0..<MAX_TASKS] = Some i"
  obtains x where "create_task f p s = (Some i, s\<lparr>tasks := (tasks s)(i := x), pid_counter := pid_counter s + 1\<rparr>)"
    "task_view x = (TASK_READY, TIER_USER, None, -1, 0, 0, TIER_KERNEL, False)" "t_in_use x"
proof
  let ?x = "tasks (snd (create_task f p s)) i"
  show "create_task f p s = (Some i, s\<lparr>tasks := (tasks s)(i := ?x), pid_counter := pid_counter s + 1\<rparr>)"
    "task_view ?x = (TASK_READY, TIER_USER, None, -1, 0, 0, TIER_KERNEL, False)" "t_in_use ?x"
    using assms by (simp_all add: create_task_def create_task_slot_def Let_def upd_task_def task_view_def zero_task_def)
qed

lemma test_started:
  assumes "current_task s = Some idle_ref" "queue_view s = no_queues" "\<not> t_in_use (tasks s 0)" "\<not> t_in_use (tasks s 1)" "pc_main l = 0"
  shows "\<exists>s'. locks_test_run l s = Some (l\<lparr>g_lock := mutex_init ''locks_test_lock'' LOCK_FLAG_INHERIT, lt_a := Some 0, lt_b := Some 1,
      g_waiter := Some 1, pc_main := 1\<rparr>, s') \<and> current_task s' = Some 0 \<and> queue_view s' = no_queues \<and>
    task_view (tasks s' 0) = (TASK_RUNNING, TIER_USER, None, 2, 0, 0, TIER_KERNEL, False) \<and>
    task_view (tasks s' 1) = (TASK_READY, TIER_SYSTEM, None, -1, 0, 0, TIER_KERNEL, False)"
proof -
  let ?s = "say (''[locks_test] start'' @ newline) s"
  have u: "[0..<MAX_TASKS] = 0 # 1 # [2..<MAX_TASKS]" by (simp add: upt_rec)
  have "find (\<lambda>i. \<not> t_in_use (tasks ?s i)) [0..<MAX_TASKS] = Some 0" using assms(3) unfolding u by (simp add: say_out)
  then obtain x where x: "create_task lock_holder TASK_PRIO_NORMAL ?s = (Some 0, ?s\<lparr>tasks := (tasks ?s)(0 := x), pid_counter := pid_counter ?s + 1\<rparr>)"
      "task_view x = (TASK_READY, TIER_USER, None, -1, 0, 0, TIER_KERNEL, False)" "t_in_use x" by (rule create_task_at)
  let ?t = "?s\<lparr>tasks := (tasks ?s)(0 := x), pid_counter := pid_counter ?s + 1\<rparr>"
  have "find (\<lambda>i. \<not> t_in_use (tasks ?t i)) [0..<MAX_TASKS] = Some 1" using assms(4) x(3) unfolding u by (simp add: say_out)
  then obtain y where y: "create_task lock_waiter TASK_PRIO_HIGH ?t = (Some 1, ?t\<lparr>tasks := (tasks ?t)(1 := y), pid_counter := pid_counter ?t + 1\<rparr>)"
      "task_view y = (TASK_READY, TIER_USER, None, -1, 0, 0, TIER_KERNEL, False)" "t_in_use y" by (rule create_task_at)
  show ?thesis unfolding locks_test_run_def Let_def x(1) prod.case y(1) option.case
    using assms(1,2,5) x(2) y(2) by (simp add: run_simps)
qed

lemmas mutex_simps = mutex_lock_def mutex_unlock_def mutex_block_def inherit_tier_def restore_tier_def task_set_tier_def park_def

text \<open>The holder takes the mutex and wakes the waiter, which preempts it.\<close>

lemma holder_locked:
  assumes "current_task s = Some 0" "queue_view s = no_queues"
    "task_view (tasks s 0) = (TASK_RUNNING, TIER_USER, None, 2, 0, 0, TIER_KERNEL, False)"
    "task_view (tasks s 1) = (TASK_READY, TIER_SYSTEM, None, -1, 0, 0, TIER_KERNEL, False)"
    "g_lock l = mutex_init n LOCK_FLAG_INHERIT" "g_waiter l = Some 1" "pc_holder l = 0"
  shows "\<exists>s'. lock_holder_fn l s = Some (l\<lparr>g_lock := (g_lock l)\<lparr>mx_locked := 1, mx_holder := Some 0\<rparr>, pc_holder := 1\<rparr>, s') \<and>
    current_task s' = Some 1 \<and> queue_view s' = ([None, None, Some 0, None, None], [None, None, Some 0, None, None]) \<and>
    task_view (tasks s' 0) = (TASK_READY, TIER_USER, None, 2, 0, 0, TIER_KERNEL, False) \<and>
    task_view (tasks s' 1) = (TASK_RUNNING, TIER_SYSTEM, None, 1, 0, 0, TIER_KERNEL, False)"
  using assms unfolding lock_holder_fn_def by (simp add: mutex_simps mutex_init_def run_simps)

text \<open>The waiter finds the mutex taken, lends its tier to the holder and blocks; the holder runs.\<close>

lemma waiter_blocked:
  assumes "current_task s = Some 1" "queue_view s = ([None, None, Some 0, None, None], [None, None, Some 0, None, None])"
    "task_view (tasks s 0) = (TASK_READY, TIER_USER, None, 2, 0, 0, TIER_KERNEL, False)"
    "task_view (tasks s 1) = (TASK_RUNNING, TIER_SYSTEM, None, 1, 0, 0, TIER_KERNEL, False)"
    "mx_locked (g_lock l) = 1" "mx_holder (g_lock l) = Some 0" "mx_waitq (g_lock l) = None" "mx_flags (g_lock l) = LOCK_FLAG_INHERIT"
    "pc_waiter l = 0"
  shows "\<exists>s'. lock_waiter_fn l s = Some (l\<lparr>g_lock := (g_lock l)\<lparr>mx_waitq := Some 1\<rparr>, pc_waiter := 1\<rparr>, s') \<and>
    current_task s' = Some 0 \<and> queue_view s' = no_queues \<and>
    task_view (tasks s' 0) = (TASK_RUNNING, TIER_SYSTEM, None, 1, 0, TASK_INHERITED, TIER_USER, False) \<and>
    task_view (tasks s' 1) = (TASK_WAITING, TIER_SYSTEM, None, 1, 0, 0, TIER_KERNEL, False)"
  using assms unfolding lock_waiter_fn_def by (simp add: mutex_simps run_simps less_tier_def)

text \<open>The holder gives the mutex and the tier back, and blocks for good; the waiter runs.\<close>

lemma holder_unlocked:
  assumes "current_task s = Some 0" "queue_view s = no_queues"
    "task_view (tasks s 0) = (TASK_RUNNING, TIER_SYSTEM, None, 1, 0, TASK_INHERITED, TIER_USER, False)"
    "task_view (tasks s 1) = (TASK_WAITING, TIER_SYSTEM, None, 1, 0, 0, TIER_KERNEL, False)"
    "mx_holder (g_lock l) = Some 0" "mx_waitq (g_lock l) = Some 1" "pc_holder l = 1"
  shows "\<exists>s'. lock_holder_fn l s = Some (l\<lparr>g_lock := (g_lock l)\<lparr>mx_locked := 0, mx_holder := None, mx_waitq := None\<rparr>, pc_holder := 2\<rparr>, s') \<and>
    current_task s' = Some 1 \<and> queue_view s' = no_queues \<and>
    task_view (tasks s' 0) = (TASK_WAITING, TIER_USER, None, 1, 0, 0, TIER_USER, False) \<and>
    task_view (tasks s' 1) = (TASK_RUNNING, TIER_SYSTEM, None, 1, 0, 0, TIER_KERNEL, False)"
  using assms unfolding lock_holder_fn_def by (simp add: mutex_simps run_simps)

text \<open>The waiter has its turn with the mutex and blocks for good; nobody is ready and the boot thread runs.\<close>

lemma waiter_done:
  assumes "current_task s = Some 1" "queue_view s = no_queues"
    "task_view (tasks s 0) = (TASK_WAITING, TIER_USER, None, 1, 0, 0, TIER_USER, False)"
    "task_view (tasks s 1) = (TASK_RUNNING, TIER_SYSTEM, None, 1, 0, 0, TIER_KERNEL, False)"
    "mx_locked (g_lock l) = 0" "mx_waitq (g_lock l) = None" "pc_waiter l = 1"
  shows "\<exists>s' out. lock_waiter_fn l s = Some (l\<lparr>g_lock := (g_lock l)\<lparr>mx_locked := 0, mx_holder := None, mx_waitq := None\<rparr>, pc_waiter := 2\<rparr>, s') \<and>
    current_task s' = Some idle_ref \<and> queue_view s' = no_queues \<and>
    task_view (tasks s' 0) = (TASK_WAITING, TIER_USER, None, 1, 0, 0, TIER_USER, False) \<and>
    task_view (tasks s' 1) = (TASK_WAITING, TIER_SYSTEM, None, 1, 0, 0, TIER_KERNEL, False) \<and>
    serial_out s' = out @ crlf (text_bytes (''[locks_test] OK'' @ newline))"
  using assms unfolding lock_waiter_fn_def by (simp add: mutex_simps run_simps)

lemma locks_test_main_step:
  "pc_main l < 2 \<Longrightarrow> locks_test_step l s = Some (l', s') \<Longrightarrow> locks_test_main l s = locks_test_main l' s'"
  by (subst locks_test_main.simps) simp

text \<open>The first half: the boot thread, the holder and the waiter run, then the holder has the tier of the waiter.\<close>

lemma locks_test_first_half:
  assumes "\<not> t_in_use (tasks s 0)" "\<not> t_in_use (tasks s 1)" "pc_main l = 0" "pc_holder l = 0" "pc_waiter l = 0"
  shows "\<exists>l' s'. locks_test_steps 3 l (task_init s) = Some (l', s') \<and> locks_test_main l (task_init s) = locks_test_main l' s' \<and>
    current_task s' = Some 0 \<and> queue_view s' = no_queues \<and>
    task_view (tasks s' 0) = (TASK_RUNNING, TIER_SYSTEM, None, 1, 0, TASK_INHERITED, TIER_USER, False) \<and>
    task_view (tasks s' 1) = (TASK_WAITING, TIER_SYSTEM, None, 1, 0, 0, TIER_KERNEL, False) \<and>
    lt_a l' = Some 0 \<and> lt_b l' = Some 1 \<and> pc_main l' = 1 \<and> pc_holder l' = 1 \<and> pc_waiter l' = 1 \<and>
    mx_holder (g_lock l') = Some 0 \<and> mx_waitq (g_lock l') = Some 1"
proof -
  let ?s = "task_init s" and ?m = "mutex_init ''locks_test_lock'' LOCK_FLAG_INHERIT"
  define l1 where "l1 = l\<lparr>g_lock := ?m, lt_a := Some 0, lt_b := Some 1, g_waiter := Some 1, pc_main := 1\<rparr>"
  define l2 where "l2 = l1\<lparr>g_lock := ?m\<lparr>mx_locked := 1, mx_holder := Some 0\<rparr>, pc_holder := 1\<rparr>"
  define l3 where "l3 = l2\<lparr>g_lock := (g_lock l2)\<lparr>mx_waitq := Some 1\<rparr>, pc_waiter := 1\<rparr>"
  have i: "current_task ?s = Some idle_ref" "queue_view ?s = no_queues" "\<not> t_in_use (tasks ?s 0)" "\<not> t_in_use (tasks ?s 1)"
    using assms(1,2) by (simp_all add: task_init_def Let_def queue_view_def five upd_task_def)
  obtain s1 where s1: "locks_test_run l ?s = Some (l1, s1)" "current_task s1 = Some 0" "queue_view s1 = no_queues"
      "task_view (tasks s1 0) = (TASK_RUNNING, TIER_USER, None, 2, 0, 0, TIER_KERNEL, False)"
      "task_view (tasks s1 1) = (TASK_READY, TIER_SYSTEM, None, -1, 0, 0, TIER_KERNEL, False)"
    using test_started [OF i assms(3)] unfolding l1_def by blast
  have a: "g_lock l1 = ?m" "g_waiter l1 = Some 1" "pc_holder l1 = 0" using assms(4) by (simp_all add: l1_def)
  obtain s2 where s2: "lock_holder_fn l1 s1 = Some (l2, s2)" "current_task s2 = Some 1"
      "queue_view s2 = ([None, None, Some 0, None, None], [None, None, Some 0, None, None])"
      "task_view (tasks s2 0) = (TASK_READY, TIER_USER, None, 2, 0, 0, TIER_KERNEL, False)"
      "task_view (tasks s2 1) = (TASK_RUNNING, TIER_SYSTEM, None, 1, 0, 0, TIER_KERNEL, False)"
    using holder_locked [OF s1(2-5) a] unfolding l2_def a(1) by blast
  have b: "mx_locked (g_lock l2) = 1" "mx_holder (g_lock l2) = Some 0" "mx_waitq (g_lock l2) = None"
      "mx_flags (g_lock l2) = LOCK_FLAG_INHERIT" "pc_waiter l2 = 0" using assms(5) by (simp_all add: l2_def l1_def mutex_init_def)
  obtain s3 where s3: "lock_waiter_fn l2 s2 = Some (l3, s3)" "current_task s3 = Some 0" "queue_view s3 = no_queues"
      "task_view (tasks s3 0) = (TASK_RUNNING, TIER_SYSTEM, None, 1, 0, TASK_INHERITED, TIER_USER, False)"
      "task_view (tasks s3 1) = (TASK_WAITING, TIER_SYSTEM, None, 1, 0, 0, TIER_KERNEL, False)"
    using waiter_blocked [OF s2(2-5) b] unfolding l3_def by blast
  have st: "locks_test_step l ?s = Some (l1, s1)" "locks_test_step l1 s1 = Some (l2, s2)" "locks_test_step l2 s2 = Some (l3, s3)"
    using i(1) s1(1,2) s2(1,2) s3(1) by (simp_all add: locks_test_step_def l1_def l2_def)
  have "locks_test_main l ?s = locks_test_main l3 s3"
    using locks_test_main_step [OF _ st(1)] locks_test_main_step [OF _ st(2)] locks_test_main_step [OF _ st(3)] assms(3)
    by (simp add: l1_def l2_def)
  then show ?thesis using st s3(2-5)
    by (intro exI [of _ l3] exI [of _ s3]) (simp add: eval_nat_numeral l3_def l2_def l1_def mutex_init_def)
qed

text \<open>The second half: the holder gives mutex and tier back, the waiter has its turn, the boot thread goes on.\<close>

lemma locks_test_second_half:
  assumes "current_task s = Some 0" "queue_view s = no_queues"
    "task_view (tasks s 0) = (TASK_RUNNING, TIER_SYSTEM, None, 1, 0, TASK_INHERITED, TIER_USER, False)"
    "task_view (tasks s 1) = (TASK_WAITING, TIER_SYSTEM, None, 1, 0, 0, TIER_KERNEL, False)"
    "lt_a l = Some 0" "lt_b l = Some 1" "pc_main l = 1" "pc_holder l = 1" "pc_waiter l = 1"
    "mx_holder (g_lock l) = Some 0" "mx_waitq (g_lock l) = Some 1"
  shows "\<exists>l' s' out. locks_test_main l s = Some (l', s') \<and> current_task s' = Some idle_ref \<and> queue_view s' = no_queues \<and>
    task_view (tasks s' 0) = (TASK_WAITING, TIER_USER, None, 1, 0, 0, TIER_USER, False) \<and>
    task_view (tasks s' 1) = (TASK_WAITING, TIER_SYSTEM, None, 1, 0, 0, TIER_KERNEL, False) \<and>
    mx_locked (g_lock l') = 0 \<and> mx_holder (g_lock l') = None \<and>
    serial_out s' = out @ crlf (text_bytes (''[locks_test] OK'' @ newline)) @ crlf (text_bytes (''[locks_test] spawned'' @ newline))"
proof -
  define l1 where "l1 = l\<lparr>g_lock := (g_lock l)\<lparr>mx_locked := 0, mx_holder := None, mx_waitq := None\<rparr>, pc_holder := 2\<rparr>"
  define l2 where "l2 = l1\<lparr>g_lock := (g_lock l1)\<lparr>mx_locked := 0, mx_holder := None, mx_waitq := None\<rparr>, pc_waiter := 2\<rparr>"
  obtain s1 where s1: "lock_holder_fn l s = Some (l1, s1)" "current_task s1 = Some 1" "queue_view s1 = no_queues"
      "task_view (tasks s1 0) = (TASK_WAITING, TIER_USER, None, 1, 0, 0, TIER_USER, False)"
      "task_view (tasks s1 1) = (TASK_RUNNING, TIER_SYSTEM, None, 1, 0, 0, TIER_KERNEL, False)"
    using holder_unlocked [OF assms(1-4,10,11,8)] unfolding l1_def by blast
  have a: "mx_locked (g_lock l1) = 0" "mx_waitq (g_lock l1) = None" "pc_waiter l1 = 1" using assms(9) by (simp_all add: l1_def)
  obtain s2 out where s2: "lock_waiter_fn l1 s1 = Some (l2, s2)" "current_task s2 = Some idle_ref" "queue_view s2 = no_queues"
      "task_view (tasks s2 0) = (TASK_WAITING, TIER_USER, None, 1, 0, 0, TIER_USER, False)"
      "task_view (tasks s2 1) = (TASK_WAITING, TIER_SYSTEM, None, 1, 0, 0, TIER_KERNEL, False)"
      "serial_out s2 = out @ crlf (text_bytes (''[locks_test] OK'' @ newline))"
    using waiter_done [OF s1(2-5) a] unfolding l2_def by blast
  let ?s = "say (''[locks_test] spawned'' @ newline) s2" and ?l = "l2\<lparr>pc_main := 2\<rparr>"
  have st: "locks_test_step l s = Some (l1, s1)" "locks_test_step l1 s1 = Some (l2, s2)" "locks_test_step l2 s2 = Some (?l, ?s)"
    using assms s1(1,2) s2(1,2) by (simp_all add: locks_test_step_def locks_test_run_def l1_def l2_def)
  have "locks_test_main ?l ?s = Some (?l, ?s)" by (subst locks_test_main.simps) simp
  then have "locks_test_main l s = Some (?l, ?s)"
    using locks_test_main_step [OF _ st(1)] locks_test_main_step [OF _ st(2)] locks_test_main_step [OF _ st(3)] assms(7)
    by (simp add: l1_def l2_def)
  then show ?thesis using s2(2-6) by (intro exI [of _ ?l] exI [of _ ?s] exI [of _ out]) (simp add: say_out l2_def queue_view_def)
qed

text \<open>
  C10: the lock self test shows priority inheritance. Run at boot, after \<open>task_init\<close> with the first two task slots free,
  the threads take turns as their comments say: after the boot thread, the holder and the waiter have run, the waiter is
  blocked and the holder runs with the waiter's tier; then the test runs to its end, the waiter reports that it had the
  mutex, the holder has its own tier back, the mutex is free, and the boot thread goes on with empty run queues.
\<close>

theorem locks_test_inherits:
  assumes "\<not> t_in_use (tasks s 0)" "\<not> t_in_use (tasks s 1)" "pc_main l = 0" "pc_holder l = 0" "pc_waiter l = 0"
  shows "\<exists>l3 s3 l' s' out. locks_test_steps 3 l (task_init s) = Some (l3, s3) \<and> current_task s3 = lt_a l3 \<and>
      t_tier (tasks s3 0) = TIER_SYSTEM \<and> t_state (tasks s3 1) = TASK_WAITING \<and> mx_holder (g_lock l3) = Some 0 \<and> mx_waitq (g_lock l3) = Some 1 \<and>
    locks_test_main l (task_init s) = Some (l', s') \<and> current_task s' = Some idle_ref \<and> queue_view s' = no_queues \<and>
      t_tier (tasks s' 0) = TIER_USER \<and> t_flags (tasks s' 0) = 0 \<and> mx_locked (g_lock l') = 0 \<and>
      serial_out s' = out @ crlf (text_bytes (''[locks_test] OK'' @ newline)) @ crlf (text_bytes (''[locks_test] spawned'' @ newline))"
proof -
  obtain l3 s3 where h: "locks_test_steps 3 l (task_init s) = Some (l3, s3)" "locks_test_main l (task_init s) = locks_test_main l3 s3"
    and f: "current_task s3 = Some 0" "queue_view s3 = no_queues"
      "task_view (tasks s3 0) = (TASK_RUNNING, TIER_SYSTEM, None, 1, 0, TASK_INHERITED, TIER_USER, False)"
      "task_view (tasks s3 1) = (TASK_WAITING, TIER_SYSTEM, None, 1, 0, 0, TIER_KERNEL, False)"
      "lt_a l3 = Some 0" "lt_b l3 = Some 1" "pc_main l3 = 1" "pc_holder l3 = 1" "pc_waiter l3 = 1"
      "mx_holder (g_lock l3) = Some 0" "mx_waitq (g_lock l3) = Some 1"
    using locks_test_first_half [OF assms] by blast
  show ?thesis using locks_test_second_half [OF f] h f by (force simp: task_view_def)
qed

definition fresh_test :: locks_test where
  "fresh_test = \<lparr>g_lock = mutex_init [] 0, g_waiter = None, lt_a = None, lt_b = None, pc_main = 0, pc_holder = 0, pc_waiter = 0\<rparr>"

theorem locks_test_inherits_witness:
  "\<exists>l' s'. locks_test_main fresh_test (task_init (demo_kernel\<lparr>tasks := (\<lambda>_. zero_task)\<rparr>)) = Some (l', s') \<and>
    current_task s' = Some idle_ref \<and> t_tier (tasks s' 0) = TIER_USER"
  using locks_test_inherits [of "demo_kernel\<lparr>tasks := (\<lambda>_. zero_task)\<rparr>" fresh_test]
  by (auto simp: fresh_test_def zero_task_def)

end
