(* ===== verification/Heap_Blocks.thy ===== *)
theory Heap_Blocks
  imports Frames
begin

text \<open>
  The heap of \<open>kernel/heap.c\<close> seen as a list of blocks. Machine words of the heap are images \<open>W n\<close> of natural
  numbers; \<open>hdr\<close> is a header word; \<open>flist\<close> says which addresses the free list visits, and \<open>insert_free\<close> and
  \<open>remove_free\<close> are characterised by it. \<open>heap_wf s bs\<close> says that the heap region is tiled by the blocks \<open>bs\<close>, with
  matching headers, flags and footers, no two free neighbours, and a free list of exactly the free blocks in the order of
  their addresses. The last part has the frame conditions (which words a step changes) the operations are verified with.
\<close>

section \<open>Words of the heap\<close>

text \<open>Addresses and sizes are natural numbers here; \<open>W\<close> is the machine word.\<close>

definition W :: "nat \<Rightarrow> u32" where
  "W = of_nat"

lemma unat_W [simp]: "a < 4294967296 \<Longrightarrow> unat (W a) = a"
  by (simp add: W_def unat_of_nat32)

lemma W_eq [simp]: "a < 4294967296 \<Longrightarrow> b < 4294967296 \<Longrightarrow> W a = W b \<longleftrightarrow> a = b"
  by (metis unat_W)

lemma W_le [simp]: "a < 4294967296 \<Longrightarrow> b < 4294967296 \<Longrightarrow> W a \<le> W b \<longleftrightarrow> a \<le> b"
  by (simp add: word_le_nat_alt)

lemma W_less [simp]: "a < 4294967296 \<Longrightarrow> b < 4294967296 \<Longrightarrow> W a < W b \<longleftrightarrow> a < b"
  by (simp add: word_less_nat_alt)

lemma W_0 [simp]: "W 0 = 0"
  by (simp add: W_def)

lemma W_zero [simp]: "a < 4294967296 \<Longrightarrow> W a = 0 \<longleftrightarrow> a = 0"
  using W_eq [of a 0] by simp

lemma W_add [simp]: "W a + W b = W (a + b)" "W a + numeral k = W (a + numeral k)"
  by (simp_all add: W_def)

lemma W_sub [simp]: "b \<le> a \<Longrightarrow> W a - W b = W (a - b)" "numeral k \<le> a \<Longrightarrow> W a - numeral k = W (a - numeral k)"
  by (simp_all add: W_def of_nat_diff)

lemma W_mult: "W a * W b = W (a * b)"
  by (simp add: W_def)

lemma W_numeral: "numeral k = W (numeral k)"
  by (simp add: W_def)

lemma W_unat [simp]: "W (unat w) = w"
  by (simp add: W_def)

text \<open>A block header: the size with the two flags in its low bits.\<close>

definition hdr :: "nat \<Rightarrow> bool \<Rightarrow> bool \<Rightarrow> u32" where
  "hdr z f pf = W z OR (if f then 1 else 0) OR (if pf then 2 else 0)"

lemma W_low_bits: "4 dvd z \<Longrightarrow> n < 2 \<Longrightarrow> \<not> bit (W z) n"
proof -
  assume "4 dvd z" "n < 2"
  then obtain k where "z = 2 ^ 2 * k" by (auto simp: dvd_def)
  then have "W z = push_bit 2 (W k)" by (simp add: W_def push_bit_eq_mult mult.commute)
  then show ?thesis using \<open>n < 2\<close> by (simp add: bit_push_bit_iff)
qed

lemma bit_two: "bit (2 :: u32) n \<longleftrightarrow> n = 1"
  using bit_exp_iff [of 1 n, where 'a = u32] by auto

lemma bit_three: "bit (3 :: u32) n \<longleftrightarrow> n < 2"
proof -
  have "(3 :: u32) = mask 2" by (simp add: mask_eq_exp_minus_1)
  then show ?thesis by (simp only: bit_mask_iff) auto
qed

lemma bit_hdr: "bit (hdr z f pf) n \<longleftrightarrow> bit (W z) n \<or> (f \<and> n = 0) \<or> (pf \<and> n = 1)"
  by (cases f; cases pf; simp only: hdr_def if_True if_False bit_or_iff bit_two bit_1_iff bit_0_eq bot_apply bot_bool_def; blast)

lemma hdr_simps [simp]:
  assumes "4 dvd z"
  shows "hdr z f pf AND NOT 3 = W z"
    "hdr z f pf AND 1 = (if f then 1 else 0)"
    "hdr z f pf AND 2 = (if pf then 2 else 0)"
    "hdr z f pf OR 2 = hdr z f True"
    "hdr z f pf AND NOT 2 = hdr z f False"
    "hdr z f pf OR 1 = hdr z True pf"
    "hdr z f pf AND NOT 1 = hdr z False pf"
    "W z OR 1 = hdr z True False"
proof -
  have b: "\<not> bit (W z) 0" "\<not> bit (W z) 1" using W_low_bits [OF assms] by auto
  have c: "bit (W z) n \<Longrightarrow> \<not> n < 2" for n using W_low_bits [OF assms] by auto
  note s = bit_and_iff bit_or_iff bit_not_iff possible_bit_word bit_hdr bit_two bit_three bit_1_iff
  show "hdr z f pf AND NOT 3 = W z" using b c by (intro bit_word_eqI) (auto simp only: s)
  show "hdr z f pf AND 1 = (if f then 1 else 0)" using b by (intro bit_word_eqI) (auto simp: s)
  show "hdr z f pf AND 2 = (if pf then 2 else 0)" 
  proof (cases pf)
    case True
    then show ?thesis by (intro bit_word_eqI) (simp only: s if_True, blast)
  next
    case False
    then show ?thesis using b by (intro bit_word_eqI) (auto simp only: s if_False bit_0_eq bot_apply bot_bool_def)
  qed
  show "hdr z f pf OR 2 = hdr z f True" by (intro bit_word_eqI) (simp only: s, blast)
  show "hdr z f pf AND NOT 2 = hdr z f False" using b by (intro bit_word_eqI) (auto simp only: s)
  show "hdr z f pf OR 1 = hdr z True pf" by (intro bit_word_eqI) (auto simp: s)
  show "hdr z f pf AND NOT 1 = hdr z False pf" using b by (intro bit_word_eqI) (auto simp only: s, metis gr0I)
  show "W z OR 1 = hdr z True False" by (auto simp: hdr_def)
qed

lemma hdr_plain: "hdr z False False = W z"
  by (simp add: hdr_def)

lemma hdr_masks [simp]:
  assumes "4 dvd z"
  shows "hdr z f pf AND - 4 = W z" "hdr z f pf AND - 3 = hdr z f False" "hdr z f pf AND - 2 = hdr z False pf"
  using hdr_simps(1,5,7) [OF assms] by simp_all

section \<open>The free list\<close>

text \<open>The free list visits the addresses \<open>fs\<close>.\<close>

definition flist :: "'a heap_state_scheme \<Rightarrow> nat list \<Rightarrow> bool" where
  "flist s fs \<longleftrightarrow> chain (\<lambda>b. nonnull (fb_next b s)) (nonnull (free_list s)) (map W fs)"

text \<open>Nothing but the free list and \<open>next\<close> fields of the blocks at \<open>A\<close> changes.\<close>

definition links_only :: "nat set \<Rightarrow> 'a heap_state_scheme \<Rightarrow> 'a heap_state_scheme \<Rightarrow> bool" where
  "links_only A s s' \<longleftrightarrow> s' = s\<lparr>hmem := hmem s', free_list := free_list s'\<rparr> \<and>
     (\<forall>x. (\<forall>a \<in> A. x \<noteq> W (a + 4)) \<longrightarrow> hmem s' x = hmem s x)"

lemma nonnull_simps [simp]: "nonnull 0 = None" "p \<noteq> 0 \<Longrightarrow> nonnull p = Some p" "nonnull p = None \<longleftrightarrow> p = 0"
  "nonnull p = Some q \<longleftrightarrow> p = q \<and> p \<noteq> 0"
  by (auto simp: nonnull_def)

definition addrs_ok :: "nat list \<Rightarrow> bool" where
  "addrs_ok fs \<longleftrightarrow> sorted_wrt (<) fs \<and> (\<forall>a \<in> set fs. 0 < a \<and> a < 4294967296)"

text \<open>The walk stops behind the addresses below the block.\<close>

lemma insert_walk_eq:
  assumes "chain (\<lambda>b. nonnull (nxt b)) (nonnull p) (map W (xs @ ys))" "addrs_ok (xs @ ys)" "b < 4294967296"
    "\<forall>a \<in> set xs. a < b" "\<forall>a \<in> set ys. b \<le> a"
  shows "insert_walk nxt (W b) q p = Some (if xs = [] then q else W (last xs), if ys = [] then 0 else W (hd ys))"
  using assms
proof (induction xs arbitrary: p q)
  case Nil
  then show ?case
    by (subst insert_walk.simps) (cases ys; auto simp: addrs_ok_def W_less W_zero)
next
  case (Cons x xs)
  then have p: "p = W x" "0 < x" "x < 4294967296" "x < b" by (auto simp: addrs_ok_def)
  have "insert_walk nxt (W b) q p = insert_walk nxt (W b) p (nxt p)"
    using p Cons.prems(3) by (subst insert_walk.simps) (simp add: W_less W_zero)
  also have "\<dots> = Some (if xs = [] then p else W (last xs), if ys = [] then 0 else W (hd ys))"
    by (rule Cons.IH) (use Cons.prems p in \<open>auto simp: addrs_ok_def\<close>)
  finally show ?case using p by simp
qed

lemma remove_walk_eq:
  assumes "chain (\<lambda>b. nonnull (nxt b)) (nonnull p) (map W (xs @ b # ys))" "addrs_ok (xs @ b # ys)"
  shows "remove_walk nxt (W b) q p = Some (Some (if xs = [] then q else W (last xs)))"
  using assms
proof (induction xs arbitrary: p q)
  case Nil
  then show ?case by (subst remove_walk.simps) (auto simp: addrs_ok_def)
next
  case (Cons x xs)
  then have p: "p = W x" "0 < x" "x < 4294967296" "x < b" "b < 4294967296" by (auto simp: addrs_ok_def)
  have "remove_walk nxt (W b) q p = remove_walk nxt (W b) p (nxt p)"
    using p Cons.prems(2) by (subst remove_walk.simps) (simp add: W_eq W_zero)
  also have "\<dots> = Some (Some (if xs = [] then p else W (last xs)))"
    by (rule Cons.IH) (use Cons.prems p in \<open>auto simp: addrs_ok_def\<close>)
  finally show ?case using p by simp
qed

lemma find_fit_eq:
  assumes "chain (\<lambda>b. nonnull (nxt b)) (nonnull p) (map W fs)" "addrs_ok fs"
  shows "find_fit nxt sz t p = Some (case find (\<lambda>a. t \<le> sz (W a)) fs of None \<Rightarrow> 0 | Some a \<Rightarrow> W a)"
  using assms
proof (induction fs arbitrary: p)
  case Nil
  then show ?case by (subst find_fit.simps) simp
next
  case (Cons x fs)
  then have p: "p = W x" "0 < x" "x < 4294967296" by (auto simp: addrs_ok_def)
  have "find_fit nxt sz t (nxt p) = Some (case find (\<lambda>a. t \<le> sz (W a)) fs of None \<Rightarrow> 0 | Some a \<Rightarrow> W a)"
    by (rule Cons.IH) (use Cons.prems p in \<open>auto simp: addrs_ok_def\<close>)
  then show ?case using p by (subst find_fit.simps) (simp add: W_zero)
qed

lemma links_only_refl [simp]: "links_only A s s"
  by (simp add: links_only_def)

lemma links_only_mono: "links_only A s s' \<Longrightarrow> A \<subseteq> B \<Longrightarrow> links_only B s s'"
  by (auto simp: links_only_def)

lemma fb_next_set_next: "fb_next a (set_next b v s) = (if a = b then v else fb_next a s)"
  by (auto simp: fb_next_def set_next_def hstore_def)

lemma fb_next_free_list [simp]: "fb_next a (s\<lparr>free_list := p\<rparr>) = fb_next a s"
  by (simp add: fb_next_def)

lemma nonnull_set_next: "(\<lambda>a. nonnull (fb_next a (set_next b v s))) = (\<lambda>a. nonnull (fb_next a s))(b := nonnull v)"
  by (auto simp: fb_next_set_next fun_eq_iff)

lemma W_inj: "\<forall>a \<in> set fs. a < 4294967296 \<Longrightarrow> b < 4294967296 \<Longrightarrow> W b \<in> W ` set fs \<longleftrightarrow> b \<in> set fs"
  by (auto simp: W_eq image_iff)

lemma chain_head: "chain nxt p xs \<Longrightarrow> p = (if xs = [] then None else Some (hd xs))"
  by (cases xs) auto

lemma chain_insert:
  assumes "chain nxt p (us @ u # ys)" "y \<notin> set (us @ u # ys)"
  shows "chain (nxt(y := nxt u, u := Some y)) p (us @ u # y # ys)"
proof -
  have "u \<notin> set us" "u \<notin> set ys" using chain_distinct [OF assms(1)] by auto
  then show ?thesis using assms by (auto simp: chain_append)
qed

text \<open>\<open>insert_free\<close> puts a block at its place in the order of addresses, \<open>remove_free\<close> takes it out.\<close>

lemma insert_free_flist:
  assumes "flist s (xs @ ys)" "addrs_ok (xs @ b # ys)"
  shows "\<exists>s'. insert_free (W b) s = Some s' \<and> flist s' (xs @ b # ys) \<and> links_only (insert b (set xs)) s s'"
proof -
  have ok: "addrs_ok (xs @ ys)" "b < 4294967296" "0 < b" "\<forall>a \<in> set xs. a < b" "\<forall>a \<in> set ys. b < a"
    "\<forall>a \<in> set xs. 0 < a \<and> a < 4294967296" "\<forall>a \<in> set ys. 0 < a \<and> a < 4294967296"
    using assms(2) by (auto simp: addrs_ok_def sorted_wrt_append)
  let ?n = "\<lambda>a. nonnull (fb_next a s)" and ?cur = "if ys = [] then 0 else W (hd ys)"
  have w: "insert_walk (\<lambda>b. fb_next b s) (W b) 0 (free_list s) = Some (if xs = [] then 0 else W (last xs), ?cur)"
    by (rule insert_walk_eq) (use assms ok in \<open>auto simp: flist_def less_imp_le\<close>)
  have c: "chain ?n (nonnull (free_list s)) (map W xs @ map W ys)" using assms(1) by (simp add: flist_def)
  have cur: "nonnull ?cur = (if ys = [] then None else Some (W (hd ys)))" using ok(7) by (auto simp: W_zero)
  have bn: "W b \<notin> set (map W xs)" "W b \<notin> set (map W ys)" "W b \<noteq> 0"
    using ok by (auto simp: image_iff W_eq W_zero)
  show ?thesis
  proof (cases xs rule: rev_cases)
    case Nil
    let ?s = "(set_next (W b) ?cur s)\<lparr>free_list := W b\<rparr>"
    have "insert_free (W b) s = Some ?s" using w Nil by (simp add: insert_free_def)
    moreover have "flist ?s (b # ys)"
      using c Nil bn cur chain_head [of ?n "nonnull (free_list s)" "map W ys"]
      by (auto simp: flist_def nonnull_set_next hd_map)
    moreover have "links_only {b} s ?s" by (auto simp: links_only_def set_next_def hstore_def)
    ultimately show ?thesis using Nil by auto
  next
    case (snoc us u)
    let ?s = "set_next (W u) (W b) (set_next (W b) ?cur s)"
    have u: "W u \<noteq> 0" "W u \<noteq> W b" using ok snoc by (auto simp: W_zero W_eq)
    have "insert_free (W b) s = Some ?s" using w snoc u by (simp add: insert_free_def)
    moreover have "flist ?s (us @ u # b # ys)"
    proof -
      have "chain ?n (nonnull (free_list s)) (map W us @ W u # map W ys)" using c snoc by simp
      then have h: "?n (W u) = nonnull ?cur"
        using cur chain_head [of ?n "?n (W u)" "map W ys"] by (auto simp: chain_append hd_map)
      show ?thesis
        using chain_insert [of ?n "nonnull (free_list s)" "map W us" "W u" "map W ys" "W b"] c bn snoc h
        by (cases "ys = []") (simp_all add: flist_def nonnull_set_next, simp_all add: set_next_def hstore_def)
    qed
    moreover have "links_only {b, u} s ?s" by (auto simp: links_only_def set_next_def hstore_def)
    ultimately show ?thesis using snoc links_only_mono [of "{b, u}" s ?s "insert b (set xs)"] by auto
  qed
qed

lemma remove_free_flist:
  assumes "flist s (xs @ b # ys)" "addrs_ok (xs @ b # ys)"
  shows "\<exists>s'. remove_free (W b) s = Some s' \<and> flist s' (xs @ ys) \<and> links_only (set xs) s s'"
proof -
  have ok: "\<forall>a \<in> set xs. 0 < a \<and> a < 4294967296" using assms(2) by (auto simp: addrs_ok_def)
  let ?n = "\<lambda>a. nonnull (fb_next a s)"
  have w: "remove_walk (\<lambda>b. fb_next b s) (W b) 0 (free_list s) = Some (Some (if xs = [] then 0 else W (last xs)))"
    by (rule remove_walk_eq) (use assms in \<open>auto simp: flist_def\<close>)
  have c: "chain ?n (nonnull (free_list s)) (map W xs @ W b # map W ys)" using assms(1) by (simp add: flist_def)
  show ?thesis
  proof (cases xs rule: rev_cases)
    case Nil
    have "remove_free (W b) s = Some (s\<lparr>free_list := fb_next (W b) s\<rparr>)" using w Nil by (simp add: remove_free_def)
    moreover have "flist (s\<lparr>free_list := fb_next (W b) s\<rparr>) ys"
      using c Nil by (simp add: flist_def fb_next_def)
    moreover have "links_only {} s (s\<lparr>free_list := fb_next (W b) s\<rparr>)" by (simp add: links_only_def)
    ultimately show ?thesis using Nil by auto
  next
    case (snoc us u)
    let ?s = "set_next (W u) (fb_next (W b) s) s"
    have "remove_free (W b) s = Some ?s" using w snoc ok by (simp add: remove_free_def W_zero)
    moreover have "flist ?s (us @ u # ys)"
      using chain_unlink [of ?n "nonnull (free_list s)" "map W us" "W u" "W b" "map W ys"] c snoc
      by (simp add: flist_def nonnull_set_next) (simp add: set_next_def hstore_def)
    moreover have "links_only {u} s ?s" by (auto simp: links_only_def set_next_def hstore_def)
    ultimately show ?thesis using snoc links_only_mono [of "{u}" s ?s "set xs"] by auto
  qed
qed

section \<open>Blocks\<close>

text \<open>
  A heap is a list of blocks, each with its size and whether it is free. The block list \<open>bs\<close> starts at address
  \<open>a\<close>; \<open>pf\<close> tells whether the block before is free. Header and footer hold the size, no two neighbours are free.
\<close>

type_synonym blocks = "(nat \<times> bool) list"

definition tot :: "blocks \<Rightarrow> nat" where
  "tot bs = sum_list (map fst bs)"

fun blocks_at :: "(u32 \<Rightarrow> u32) \<Rightarrow> nat \<Rightarrow> bool \<Rightarrow> blocks \<Rightarrow> bool" where
  "blocks_at m a pf [] = True"
| "blocks_at m a pf ((z, f) # bs) = (16 \<le> z \<and> 4 dvd z \<and> m (W a) = hdr z f pf \<and> m (W (a + z - 4)) = W z \<and>
     \<not> (f \<and> pf) \<and> blocks_at m (a + z) f bs)"

fun frees :: "nat \<Rightarrow> blocks \<Rightarrow> nat list" where
  "frees a [] = []"
| "frees a ((z, f) # bs) = (if f then [a] else []) @ frees (a + z) bs"

text \<open>The payload of the blocks in use: address and length.\<close>

fun owned :: "nat \<Rightarrow> blocks \<Rightarrow> (nat \<times> nat) list" where
  "owned a [] = []"
| "owned a ((z, f) # bs) = (if f then [] else [(a + 4, z - 8)]) @ owned (a + z) bs"

fun tags :: "nat \<Rightarrow> blocks \<Rightarrow> nat set" where
  "tags a [] = {}"
| "tags a ((z, f) # bs) = {a, a + z - 4} \<union> tags (a + z) bs"

definition last_free :: "bool \<Rightarrow> blocks \<Rightarrow> bool" where
  "last_free pf bs = (if bs = [] then pf else snd (last bs))"

abbreviation H0 :: nat where "H0 \<equiv> 0xD0000000"

definition heap_wf :: "'a heap_state_scheme \<Rightarrow> blocks \<Rightarrow> bool" where
  "heap_wf s bs \<longleftrightarrow> blocks_at (hmem s) H0 False bs \<and> bs \<noteq> [] \<and> heap_end s = W (H0 + tot bs) \<and> heap_brk s = heap_end s \<and>
     H0 + tot bs \<le> 0xFFC00000 \<and> flist s (frees H0 bs)"

definition sizes_ok :: "blocks \<Rightarrow> bool" where
  "sizes_ok bs \<longleftrightarrow> (\<forall>(z, f) \<in> set bs. 16 \<le> z \<and> 4 dvd z)"

lemma tot_simps [simp]: "tot [] = 0" "tot ((z, f) # bs) = z + tot bs" "tot (xs @ ys) = tot xs + tot ys"
  by (simp_all add: tot_def)

lemma last_free_simps [simp]: "last_free pf [] = pf" "last_free pf (b # bs) = last_free (snd b) bs"
  "last_free pf (bs @ [b]) = snd b"
  by (auto simp: last_free_def)

lemma blocks_at_append:
  "blocks_at m a pf (xs @ ys) \<longleftrightarrow> blocks_at m a pf xs \<and> blocks_at m (a + tot xs) (last_free pf xs) ys"
  by (induction m a pf xs rule: blocks_at.induct) (auto simp: add.assoc)

lemma frees_append: "frees a (xs @ ys) = frees a xs @ frees (a + tot xs) ys"
  by (induction a xs rule: frees.induct) (auto simp: add.assoc)

lemma owned_append: "owned a (xs @ ys) = owned a xs @ owned (a + tot xs) ys"
  by (induction a xs rule: owned.induct) (auto simp: add.assoc)

lemma tags_append: "tags a (xs @ ys) = tags a xs \<union> tags (a + tot xs) ys"
  by (induction a xs rule: tags.induct) (auto simp: add.assoc)

lemma sizes_ok_simps [simp]: "sizes_ok []" "sizes_ok ((z, f) # bs) \<longleftrightarrow> 16 \<le> z \<and> 4 dvd z \<and> sizes_ok bs"
  "sizes_ok (xs @ ys) \<longleftrightarrow> sizes_ok xs \<and> sizes_ok ys"
  by (auto simp: sizes_ok_def)

lemma blocks_at_sizes: "blocks_at m a pf bs \<Longrightarrow> sizes_ok bs"
  by (induction m a pf bs rule: blocks_at.induct) auto

lemma frees_bounds: "sizes_ok bs \<Longrightarrow> x \<in> set (frees a bs) \<Longrightarrow> a \<le> x \<and> x + 16 \<le> a + tot bs"
  by (induction a bs rule: frees.induct) (force split: if_splits)+

lemma tags_bounds: "sizes_ok bs \<Longrightarrow> x \<in> tags a bs \<Longrightarrow> a \<le> x \<and> x + 4 \<le> a + tot bs"
  by (induction a bs rule: tags.induct) force+

lemma owned_bounds: "sizes_ok bs \<Longrightarrow> (p, n) \<in> set (owned a bs) \<Longrightarrow> a + 4 \<le> p \<and> p + n + 4 \<le> a + tot bs \<and> 8 \<le> n"
  by (induction a bs rule: owned.induct) (force split: if_splits)+

lemma frees_sorted: "sizes_ok bs \<Longrightarrow> sorted_wrt (<) (frees a bs)"
  by (induction a bs rule: frees.induct) (auto dest: frees_bounds)

lemma next_not_tag: "sizes_ok bs \<Longrightarrow> x \<in> set (frees a bs) \<Longrightarrow> x + 4 \<notin> tags a bs"
proof (induction a bs rule: frees.induct)
  case (2 a z f bs)
  then show ?case using tags_bounds [of bs _ "a + z"] frees_bounds [of bs _ "a + z"] by (fastforce split: if_splits)
qed simp

lemma next_not_owned:
  "sizes_ok bs \<Longrightarrow> x \<in> set (frees a bs) \<Longrightarrow> (p, n) \<in> set (owned a bs) \<Longrightarrow> y < n \<Longrightarrow> p + y \<noteq> x + 4"
proof (induction a bs rule: frees.induct)
  case (2 a z f bs)
  then show ?case using owned_bounds [of bs p n "a + z"] frees_bounds [of bs x "a + z"] by (fastforce split: if_splits)
qed simp

lemma tag_not_owned:
  "sizes_ok bs \<Longrightarrow> x \<in> tags a bs \<Longrightarrow> (p, n) \<in> set (owned a bs) \<Longrightarrow> y < n \<Longrightarrow> p + y \<noteq> x"
proof (induction a bs rule: frees.induct)
  case (2 a z f bs)
  then show ?case using owned_bounds [of bs p n "a + z"] tags_bounds [of bs x "a + z"] by (fastforce split: if_splits)
qed simp

lemma blocks_at_cong:
  assumes "blocks_at m a pf bs" "\<forall>x \<in> tags a bs. m' (W x) = m (W x)"
  shows "blocks_at m' a pf bs"
  using assms by (induction m a pf bs rule: blocks_at.induct) auto

lemma flist_cong:
  assumes "flist s fs" "free_list s' = free_list s" "\<forall>x \<in> set fs. hmem s' (W (x + 4)) = hmem s (W (x + 4))"
  shows "flist s' fs"
proof -
  have "fb_next (W x) s' = fb_next (W x) s" if "x \<in> set fs" for x
    using assms(3) that by (simp add: fb_next_def add.commute)
  then have "chain (\<lambda>b. nonnull (fb_next b s')) (nonnull (free_list s)) (map W fs)"
    using assms(1) unfolding flist_def by (subst chain_cong [where nxt' = "\<lambda>b. nonnull (fb_next b s)"]) auto
  then show ?thesis using assms(2) by (simp add: flist_def)
qed

lemma addrs_ok_frees:
  assumes "sizes_ok bs" "0 < a" "a + tot bs \<le> 4294967296"
  shows "addrs_ok (frees a bs)"
  using assms frees_bounds [OF assms(1)] frees_sorted [OF assms(1), of a] by (fastforce simp: addrs_ok_def)

section \<open>Frames of heap memory\<close>

text \<open>Memory below \<open>2 ^ 32\<close> agrees outside \<open>A\<close>.\<close>

definition agree :: "nat set \<Rightarrow> 'a heap_state_scheme \<Rightarrow> 'a heap_state_scheme \<Rightarrow> bool" where
  "agree A s s' \<longleftrightarrow> (\<forall>x < 4294967296. x \<notin> A \<longrightarrow> hmem s' (W x) = hmem s (W x))"

text \<open>Only heap memory and the head of the free list change.\<close>

definition heap_only :: "'a heap_state_scheme \<Rightarrow> 'a heap_state_scheme \<Rightarrow> bool" where
  "heap_only s s' \<longleftrightarrow> (\<exists>m p. s' = s\<lparr>hmem := m, free_list := p\<rparr>)"

lemma agree_trans: "agree A s s1 \<Longrightarrow> agree B s1 s2 \<Longrightarrow> agree (A \<union> B) s s2"
  by (auto simp: agree_def)

lemma heap_only_trans:
  assumes "heap_only s s1" "heap_only s1 s2"
  shows "heap_only s s2"
proof -
  obtain m p n q where "s1 = s\<lparr>hmem := m, free_list := p\<rparr>" "s2 = s1\<lparr>hmem := n, free_list := q\<rparr>"
    using assms by (auto simp: heap_only_def)
  then have "s2 = s\<lparr>hmem := n, free_list := q\<rparr>" by simp
  then show ?thesis unfolding heap_only_def by blast
qed

lemma heap_only_hstore [simp]: "heap_only s (hstore a v s)" "heap_only s s"
proof -
  show "heap_only s (hstore a v s)"
    unfolding heap_only_def hstore_def by (intro exI [of _ "(hmem s)(a := v)"] exI [of _ "free_list s"]) simp
  show "heap_only s s" unfolding heap_only_def by (intro exI [of _ "hmem s"] exI [of _ "free_list s"]) simp
qed

lemma heap_only_sel:
  assumes "heap_only s s'"
  shows "heap_end s' = heap_end s" "heap_brk s' = heap_brk s"
  using assms by (auto simp: heap_only_def)

lemma links_onlyD:
  assumes "links_only A s s'" "\<forall>a \<in> A. a + 4 < 4294967296"
  shows "agree ((\<lambda>a. a + 4) ` A) s s'" "heap_only s s'"
proof -
  have "\<forall>a \<in> A. W x \<noteq> W (a + 4)" if "x < 4294967296" "x \<notin> (\<lambda>a. a + 4) ` A" for x
    using assms(2) that by auto
  then show "agree ((\<lambda>a. a + 4) ` A) s s'" using assms(1) by (simp add: links_only_def agree_def)
  show "heap_only s s'" using assms(1) unfolding links_only_def heap_only_def by blast
qed

lemma agree_hstore: "a < 4294967296 \<Longrightarrow> agree {a} s (hstore (W a) v s)"
  by (simp add: agree_def hstore_def)

lemma hstore_same: "hmem s a = v \<Longrightarrow> hstore a v s = s"
  by (auto simp: hstore_def)

lemma hmem_hstore [simp]: "hmem (hstore a v s) b = (if b = a then v else hmem s b)"
  by (simp add: hstore_def)

lemma hstore_sel [simp]: "free_list (hstore a v s) = free_list s" "heap_end (hstore a v s) = heap_end s"
    "heap_brk (hstore a v s) = heap_brk s"
  by (simp_all add: hstore_def)

lemma heap_wfD:
  assumes "heap_wf s (xs @ (z, f) # ys)"
  defines "b \<equiv> H0 + tot xs"
  shows "blocks_at (hmem s) H0 False xs" "hmem s (W b) = hdr z f (last_free False xs)" "hmem s (W (b + z - 4)) = W z"
    "16 \<le> z" "4 dvd z" "f \<Longrightarrow> \<not> last_free False xs" "blocks_at (hmem s) (b + z) f ys" "sizes_ok xs" "sizes_ok ys"
    "b + z + tot ys \<le> 0xFFC00000" "heap_end s = W (b + z + tot ys)" "heap_brk s = heap_end s"
    "flist s (frees H0 xs @ (if f then [b] else []) @ frees (b + z) ys)"
  using assms by (auto simp: heap_wf_def blocks_at_append frees_append add.assoc add.left_commute dest: blocks_at_sizes)

lemma heap_wfI:
  assumes "blocks_at (hmem s) H0 False bs" "bs \<noteq> []" "heap_end s = W (H0 + tot bs)" "heap_brk s = heap_end s"
    "H0 + tot bs \<le> 0xFFC00000" "flist s (frees H0 bs)"
  shows "heap_wf s bs"
  using assms by (simp add: heap_wf_def)

lemma block_in_heap_W: "a < 4294967292 \<Longrightarrow> e < 4294967296 \<Longrightarrow> heap_end s = W e \<Longrightarrow>
    block_in_heap (W a) s \<longleftrightarrow> H0 \<le> a \<and> a + 4 \<le> e"
  by (simp add: block_in_heap_def HEAP_VIRT_START_def W_numeral)

lemma blocks_at_agree:
  assumes "blocks_at (hmem s) a pf bs" "agree A s s'" "a + tot bs \<le> 0xFFC00000" "\<And>x. x \<in> tags a bs \<Longrightarrow> x \<notin> A"
  shows "blocks_at (hmem s') a pf bs"
proof (rule blocks_at_cong [OF assms(1)], intro ballI)
  fix x assume x: "x \<in> tags a bs"
  then have "x < 4294967296" using tags_bounds [OF blocks_at_sizes [OF assms(1)] x] assms(3) by simp
  then show "hmem s' (W x) = hmem s (W x)" using assms(2,4) x by (auto simp: agree_def)
qed

lemma flist_agree:
  assumes "flist s fs" "agree A s s'" "free_list s' = free_list s" "\<And>x. x \<in> set fs \<Longrightarrow> x + 4 < 4294967296 \<and> x + 4 \<notin> A"
  shows "flist s' fs"
  by (rule flist_cong [OF assms(1,3)]) (use assms(2,4) in \<open>auto simp: agree_def\<close>)

lemma agreeD: "agree A s s' \<Longrightarrow> x < 4294967296 \<Longrightarrow> x \<notin> A \<Longrightarrow> hmem s' (W x) = hmem s (W x)"
  by (simp add: agree_def)

lemma agree_mono: "agree A s s' \<Longrightarrow> A \<subseteq> B \<Longrightarrow> agree B s s'"
  by (auto simp: agree_def)

lemma block_size_W: "hmem s (W a) = hdr z f pf \<Longrightarrow> 4 dvd z \<Longrightarrow> block_size (W a) s = W z"
  by (simp add: block_size_def)

text \<open>Setting and clearing the flag in the header of the following block.\<close>

lemma blocks_at_hd:
  assumes "blocks_at m a pf ys" "ys \<noteq> []"
  obtains z f where "m (W a) = hdr z f pf" "4 dvd z" "16 \<le> z" "hd ys = (z, f)"
  using assms by (cases ys) auto

lemma in_heap_after:
  assumes "sizes_ok ys" "heap_end s = W (a + tot ys)" "H0 \<le> a" "a + tot ys \<le> 0xFFC00000"
  shows "block_in_heap (W a) s \<longleftrightarrow> ys \<noteq> []"
  using assms block_in_heap_W [of a "a + tot ys" s] by (cases ys) auto

lemma mark_noop:
  assumes "blocks_at (hmem s) a True ys" "heap_end s = W (a + tot ys)" "H0 \<le> a" "a + tot ys \<le> 0xFFC00000"
  shows "(if block_in_heap (W a) s then hstore (W a) (hmem s (W a) OR BLOCK_FLAG_PREV_FREE) s else s) = s"
  using assms in_heap_after [OF blocks_at_sizes [OF assms(1)] assms(2-4)]
  by (auto simp: BLOCK_FLAG_PREV_FREE_def elim!: blocks_at_hd intro!: hstore_same)

text \<open>The \<open>next\<close> fields of the free blocks.\<close>

definition nexts :: "nat list \<Rightarrow> nat set" where
  "nexts fs = (\<lambda>a. a + 4) ` set fs"

text \<open>Where tags and free blocks lie on the two sides of a block.\<close>

lemma heap_zip:
  assumes wf: "heap_wf s (xs @ (z, f) # ys)"
  defines "b \<equiv> H0 + tot xs"
  shows "H0 \<le> b" "b + z \<le> 0xFFC00000"
    "x \<in> set (frees H0 xs) \<Longrightarrow> H0 \<le> x \<and> x + 16 \<le> b"
    "x \<in> set (frees (b + z) ys) \<Longrightarrow> b + z \<le> x \<and> x + 16 \<le> 0xFFC00000"
    "x \<in> tags H0 xs \<Longrightarrow> x + 4 \<le> b \<and> x \<notin> nexts (frees H0 xs)" "x \<in> tags (b + z) ys \<Longrightarrow> b + z \<le> x"
    "x \<in> nexts (frees H0 xs) \<Longrightarrow> x + 12 \<le> b"
    "b \<le> c \<Longrightarrow> c < b + z \<Longrightarrow> addrs_ok (frees H0 xs @ c # frees (b + z) ys)"
proof -
  note d = heap_wfD [OF wf, folded b_def]
  show bz: "H0 \<le> b" "b + z \<le> 0xFFC00000" using d(10) by (auto simp: b_def)
  show fx: "x \<in> set (frees H0 xs) \<Longrightarrow> H0 \<le> x \<and> x + 16 \<le> b" for x
    using frees_bounds [OF d(8), of _ H0] by (auto simp: b_def)
  show fy: "x \<in> set (frees (b + z) ys) \<Longrightarrow> b + z \<le> x \<and> x + 16 \<le> 0xFFC00000" for x
    using frees_bounds [OF d(9), of _ "b + z"] d(10) by force
  show "x \<in> nexts (frees H0 xs) \<Longrightarrow> x + 12 \<le> b" using fx by (fastforce simp: nexts_def)
  show "x \<in> tags H0 xs \<Longrightarrow> x + 4 \<le> b \<and> x \<notin> nexts (frees H0 xs)"
    using tags_bounds [OF d(8), of x H0] next_not_tag [OF d(8), of _ H0] by (auto simp: b_def nexts_def)
  show "x \<in> tags (b + z) ys \<Longrightarrow> b + z \<le> x" using tags_bounds [OF d(9), of x "b + z"] by simp
  show "b \<le> c \<Longrightarrow> c < b + z \<Longrightarrow> addrs_ok (frees H0 xs @ c # frees (b + z) ys)"
    using fx fy bz frees_sorted [OF d(8), of H0] frees_sorted [OF d(9), of "b + z"]
    by (fastforce simp: addrs_ok_def sorted_wrt_append)
qed

lemma links_only_nexts:
  assumes "links_only A s s'" "A = set fs" "\<And>a. a \<in> set fs \<Longrightarrow> a + 4 < 4294967296"
  shows "agree (nexts fs) s s'" "heap_only s s'"
  using links_onlyD [OF assms(1)] assms(2,3) by (simp_all add: nexts_def)

text \<open>Splitting of the block that \<open>kmalloc\<close> takes.\<close>

definition take_spec :: "nat \<Rightarrow> nat \<Rightarrow> blocks" where
  "take_spec z t = (if 16 \<le> z - t then [(t, False), (z - t, True)] else [(z, False)])"

text \<open>The first step, which takes a free block out of the list.\<close>

lemma remove_block:
  assumes wf: "heap_wf s (xs @ (z, True) # ys)"
  defines "b \<equiv> H0 + tot xs"
  obtains s1 where "remove_free (W b) s = Some s1" "flist s1 (frees H0 xs @ frees (b + z) ys)"
    "agree (nexts (frees H0 xs)) s s1" "heap_only s s1" "hmem s1 (W b) = hdr z True False"
    "blocks_at (hmem s1) (b + z) True ys"
proof -
  note d = heap_wfD [OF wf, folded b_def] and q = heap_zip [OF wf, folded b_def]
  obtain s1 where s1: "remove_free (W b) s = Some s1" "flist s1 (frees H0 xs @ frees (b + z) ys)"
      "links_only (set (frees H0 xs)) s s1"
    using remove_free_flist [of s "frees H0 xs" b "frees (b + z) ys"] d(13) q(8) [of b] d(4) by auto
  note a1 = links_only_nexts [OF s1(3) refl]
  have a: "agree (nexts (frees H0 xs)) s s1" "heap_only s s1" using a1 q(2,3) by fastforce+
  have "hmem s1 (W b) = hdr z True False" using agreeD [OF a(1), of b] q(7) [of b] q(1,2) d(2,6) by fastforce
  moreover have "blocks_at (hmem s1) (b + z) True ys"
  proof (rule blocks_at_agree [OF d(7) a(1) d(10)])
    show "x \<notin> nexts (frees H0 xs)" if "x \<in> tags (b + z) ys" for x using q(6) [OF that] q(7) [of x] by fastforce
  qed
  ultimately show thesis using that s1 a by blast
qed

end
