(* ===== verification/Heap_Ops.thy ===== *)
theory Heap_Ops
  imports Heap_Blocks
begin

text \<open>
  The two operations that change blocks: \<open>take_block\<close>, the second half of \<open>kmalloc\<close>, which splits a free block or takes
  it whole, and \<open>kfree\<close>, which merges the block with its free neighbours. Each is described by the block list it
  leaves and by the words it changes.
\<close>

text \<open>Putting a block into the list between the free blocks before and behind it.\<close>

lemma insert_block:
  assumes wf: "heap_wf s (xs @ (z, f) # ys)" and c: "H0 + tot xs \<le> c" "c + 16 \<le> H0 + tot xs + z"
    and l: "flist s1 (frees H0 xs @ frees (H0 + tot xs + z) ys)"
  obtains s2 where "insert_free (W c) s1 = Some s2" "flist s2 (frees H0 xs @ c # frees (H0 + tot xs + z) ys)"
    "agree (insert (c + 4) (nexts (frees H0 xs))) s1 s2" "heap_only s1 s2"
proof -
  note q = heap_zip [OF wf]
  obtain s2 where s2: "insert_free (W c) s1 = Some s2" "flist s2 (frees H0 xs @ c # frees (H0 + tot xs + z) ys)"
      "links_only (insert c (set (frees H0 xs))) s1 s2"
    using insert_free_flist [OF l q(8) [of c]] c by auto
  have "agree (nexts (c # frees H0 xs)) s1 s2" "heap_only s1 s2"
    using links_only_nexts [OF s2(3), of "c # frees H0 xs"] q(2,3) c by fastforce+
  then show thesis using that s2 by (simp add: nexts_def)
qed

text \<open>A heap in which one block has been replaced by others of the same total size.\<close>

lemma heap_wf_replace:
  assumes wf: "heap_wf s (xs @ (z, f) # ys)" and a: "agree A s s'" and h: "heap_only s s'"
    and A: "\<And>x. x \<in> A \<Longrightarrow> x \<in> nexts (frees H0 xs) \<or> H0 + tot xs \<le> x"
    and mid: "blocks_at (hmem s') (H0 + tot xs) (last_free False xs) mid" "tot mid = z" "mid \<noteq> []"
    and ys: "blocks_at (hmem s') (H0 + tot xs + z) (last_free False mid) ys"
    and l: "flist s' (frees H0 xs @ frees (H0 + tot xs) mid @ frees (H0 + tot xs + z) ys)"
  shows "heap_wf s' (xs @ mid @ ys)"
proof (rule heap_wfI)
  note d = heap_wfD [OF wf] and q = heap_zip [OF wf] and e = heap_only_sel [OF h]
  have "blocks_at (hmem s') H0 False xs"
  proof (rule blocks_at_agree [OF d(1) a])
    show "x \<notin> A" if "x \<in> tags H0 xs" for x using A [of x] q(5) [OF that] by force
  qed (use q(2) in simp)
  moreover have "last_free (last_free False xs) mid = last_free False mid" using mid(3) by (simp add: last_free_def)
  ultimately show "blocks_at (hmem s') H0 False (xs @ mid @ ys)" using mid ys by (simp add: blocks_at_append)
  show "heap_end s' = W (H0 + tot (xs @ mid @ ys))" "heap_brk s' = heap_end s'" "H0 + tot (xs @ mid @ ys) \<le> 0xFFC00000"
    using d(10-12) e mid(2) by (simp_all add: add.assoc)
  show "flist s' (frees H0 (xs @ mid @ ys))" using l mid(2) by (simp add: frees_append)
qed (use mid in simp)

text \<open>Clearing flags that are clear already changes nothing.\<close>

lemma clear_noop:
  assumes "hmem s (W a) = hdr z f False" "4 dvd z"
  shows "(if block_in_heap (W a) s then hstore (W a) (hmem s (W a) AND NOT BLOCK_FLAG_PREV_FREE) s else s) = s"
  using assms by (simp add: BLOCK_FLAG_PREV_FREE_def hstore_same)

text \<open>The last steps of \<open>kmalloc\<close>, on a block of size \<open>t\<close> whose header is written.\<close>

lemma finish_block:
  assumes "hmem s (W b) = hdr t f False" "4 dvd t" "16 \<le> t" "b + t = u + 4" "b + t < 4294967296"
  shows "hstore (W b) (hmem s (W b) AND NOT BLOCK_FLAG_FREE) s = hstore (W b) (hdr t False False) s"
    "block_footer (W b) (hstore (W b) (hdr t False False) s) = W u"
    "block_size (W b) (hstore (W b) (hdr t False False) s) = W t"
    "block_after (W b) (hstore (W u) (W t) (hstore (W b) (hdr t False False) s)) = W (b + t)"
proof -
  have u: "u < 4294967296" "b < 4294967296" "u \<noteq> b" "4 \<le> b + t" "b + t - 4 = u" using assms by linarith+
  show "hstore (W b) (hmem s (W b) AND NOT BLOCK_FLAG_FREE) s = hstore (W b) (hdr t False False) s"
    using assms(1,2) by (simp add: BLOCK_FLAG_FREE_def)
  show s: "block_size (W b) (hstore (W b) (hdr t False False) s) = W t" using assms(2) by (simp add: block_size_W)
  show "block_footer (W b) (hstore (W b) (hdr t False False) s) = W u" using u by (simp add: block_footer_def s)
  have "block_size (W b) (hstore (W u) (W t) (hstore (W b) (hdr t False False) s)) = W t"
    using assms(2) u by (simp add: block_size_W)
  then show "block_after (W b) (hstore (W u) (W t) (hstore (W b) (hdr t False False) s)) = W (b + t)"
    by (simp add: block_after_def)
qed

text \<open>
  \<open>take_block\<close> when the block is split at \<open>c\<close>: the result and the memory it leaves, in terms of the state \<open>s4\<close>
  behind the insertion of the rest.
\<close>

lemma take_split_run:
  assumes wf: "heap_wf s (xs @ (z, True) # ys)" and t: "4 dvd t" "16 \<le> t" and z: "4 dvd r" "16 \<le> r" "z = t + r"
    and b: "b = H0 + tot xs" "b + t = c" "u + 4 = c" "v + 4 = b + z" "b + 12 \<le> u" "c + 12 \<le> v"
  obtains s4 where "take_block (W b) (W t) s = Some (W (b + 4), hstore (W u) (W t) (hstore (W b) (hdr t False False) s4))"
    "flist s4 (frees H0 xs @ c # frees (b + z) ys)" "heap_only s s4" "agree (nexts (frees H0 xs) \<union> {c, c + 4, v}) s s4"
    "hmem s4 (W c) = hdr r True False" "hmem s4 (W v) = W r"
proof -
  note d = heap_wfD [OF wf, folded b(1)] and q = heap_zip [OF wf, folded b(1)]
  have lt: "b < 4294967296" "u < 4294967296" "c < 4294967296" "v < 4294967296" "z < 4294967296" using q(2) b by linarith+
  have ne: "b \<noteq> u" "b \<noteq> c" "b \<noteq> v" "u \<noteq> c" "u \<noteq> v" "c \<noteq> v" using b by linarith+
  obtain s1 where s1: "remove_free (W b) s = Some s1" "flist s1 (frees H0 xs @ frees (b + z) ys)"
      "agree (nexts (frees H0 xs)) s s1" "heap_only s s1" "hmem s1 (W b) = hdr z True False"
      "blocks_at (hmem s1) (b + z) True ys"
    using remove_block [OF wf, folded b(1)] by blast
  let ?s2 = "hstore (W c) (hdr r True False) s1"
  let ?s3 = "hstore (W v) (W r) ?s2"
  have l3: "flist ?s3 (frees H0 xs @ frees (b + z) ys)"
  proof (rule flist_agree [OF s1(2) agree_trans [OF agree_hstore [OF lt(3)] agree_hstore [OF lt(4)]]])
    show "x + 4 < 4294967296 \<and> x + 4 \<notin> {c} \<union> {v}" if "x \<in> set (frees H0 xs @ frees (b + z) ys)" for x
      using that q(2) q(3,4) [of x] b by auto
  qed simp
  obtain s4 where s4: "insert_free (W c) ?s3 = Some s4" "flist s4 (frees H0 xs @ c # frees (b + z) ys)"
      "agree (insert (c + 4) (nexts (frees H0 xs))) ?s3 s4" "heap_only ?s3 s4"
    using insert_block [OF wf, folded b(1), of c, OF _ _ l3] b(2-6) by auto
  have n: "x \<notin> insert (c + 4) (nexts (frees H0 xs))" if "b \<le> x" "x \<noteq> c + 4" for x using q(7) [of x] that by auto
  have m4: "hmem s4 (W b) = hdr z True False" "hmem s4 (W c) = hdr r True False" "hmem s4 (W v) = W r"
    using agreeD [OF s4(3) lt(1) n] agreeD [OF s4(3) lt(3) n] agreeD [OF s4(3) lt(4) n] b(2-6)
    by (simp_all add: lt ne s1(5))
  have ys2: "blocks_at (hmem ?s2) (b + z) True ys"
    by (rule blocks_at_agree [OF s1(6) agree_hstore [OF lt(3)] d(10)]) (use q(6) b in fastforce)
  have 1: "block_size (W b) s1 - W t = W r" using block_size_W [OF s1(5) d(5)] z by simp
  have 2: "W r \<ge> MIN_BLOCK_SIZE" using z lt by (simp add: W_numeral)
  have 3: "hstore (W c) (W r OR BLOCK_FLAG_FREE) s1 = ?s2" using z by (simp add: BLOCK_FLAG_FREE_def)
  have cr: "c + r = b + z" using b(2-6) z by simp
  have vz: "W (b + z) - 4 = W v" by (simp flip: b(4))
  have 4: "block_after (W c) ?s2 = W (b + z)" "block_footer (W c) ?s2 = W v"
    using block_size_W [of ?s2 c r True False] z(1,2) by (simp_all add: block_after_def block_footer_def cr vz)
  have 5: "(if block_in_heap (W (b + z)) ?s2 then hstore (W (b + z)) (hmem ?s2 (W (b + z)) OR BLOCK_FLAG_PREV_FREE) ?s2 else ?s2) = ?s2"
    by (rule mark_noop [OF ys2 _ _ d(10)]) (use heap_only_sel [OF s1(4)] d(11) q(1) in simp_all)
  have 6: "W t OR (hmem s4 (W b) AND BLOCK_FLAG_PREV_FREE) = hdr t False False"
    using m4 d(5) t by (simp add: BLOCK_FLAG_PREV_FREE_def hdr_plain)
  let ?s5 = "hstore (W b) (hdr t False False) s4"
  let ?s6 = "hstore (W u) (W t) ?s5"
  have f: "hmem ?s5 (W b) = hdr t False False" "hstore (W b) (hdr t False False) ?s5 = ?s5" by (simp_all add: hstore_same)
  have bc: "b + t = u + 4" "b + t < 4294967296" using b(2-6) lt by simp_all
  note 7 = finish_block [OF f(1) t bc, unfolded f(2) b(2)]
  have "hmem ?s6 (W c) = hdr r True False" using m4 lt ne by simp
  note 8 = clear_noop [OF this z(1)]
  have "take_block (W b) (W t) s = Some (W (b + 4), ?s6)"
    unfolding take_block_def s1(1) Option.bind.simps Let_def 1 W_add b(2)
    by (simp only: 2 if_True 3 4 5 s4(1) Option.bind.simps 6 7 8 block_payload_def W_add)
  moreover have "heap_only s s4" by (meson heap_only_trans heap_only_hstore s1(4) s4(4))
  moreover have "agree (nexts (frees H0 xs) \<union> {c, c + 4, v}) s s4"
    by (rule agree_mono [OF agree_trans [OF agree_trans [OF s1(3) agree_trans [OF agree_hstore [OF lt(3)] agree_hstore [OF lt(4)]]] s4(3)]]) auto
  ultimately show thesis using that s4(2) m4 by blast
qed

lemma take_block_split:
  assumes wf: "heap_wf s (xs @ (z, True) # ys)" and t: "16 \<le> t" "4 dvd t" "t + 16 \<le> z"
  defines "b \<equiv> H0 + tot xs"
  shows "\<exists>s'. take_block (W b) (W t) s = Some (W (b + 4), s') \<and> heap_wf s' (xs @ [(t, False), (z - t, True)] @ ys) \<and>
    heap_only s s' \<and> agree (nexts (frees H0 xs) \<union> {b..<b + z}) s s'"
proof -
  note d = heap_wfD [OF wf, folded b_def] and q = heap_zip [OF wf, folded b_def]
  define c u v r where "c = b + t" and "u = b + t - 4" and "v = b + z - 4" and "r = z - t"
  have o: "b + t = c" "u + 4 = c" "v + 4 = b + z" "b + 12 \<le> u" "c + 12 \<le> v" "16 \<le> r" "z = t + r" "4 dvd r"
    using t d(5) by (auto simp: c_def u_def v_def r_def)
  have lt: "b < 4294967296" "u < 4294967296" "c < 4294967296" "v < 4294967296" using q(2) o by linarith+
  have ne: "b \<noteq> u" "b \<noteq> c" "b \<noteq> v" "u \<noteq> c" "u \<noteq> v" "c \<noteq> v" using o by linarith+
  have b: "b = H0 + tot xs" by (simp add: b_def)
  obtain s4 where s4: "take_block (W b) (W t) s = Some (W (b + 4), hstore (W u) (W t) (hstore (W b) (hdr t False False) s4))"
    "flist s4 (frees H0 xs @ c # frees (b + z) ys)" "heap_only s s4" "agree (nexts (frees H0 xs) \<union> {c, c + 4, v}) s s4"
    "hmem s4 (W c) = hdr r True False" "hmem s4 (W v) = W r"
    by (rule take_split_run [OF wf t(2,1) o(8,6,7) b o(1-5)]) blast
  let ?s = "hstore (W u) (W t) (hstore (W b) (hdr t False False) s4)"
  have h: "heap_only s ?s" by (meson heap_only_trans heap_only_hstore s4(3))
  have a4: "agree {b, u} s4 ?s" using agree_trans [OF agree_hstore [OF lt(1)] agree_hstore [OF lt(2)]] by (simp add: insert_commute)
  have a: "agree (nexts (frees H0 xs) \<union> {b, u, c, c + 4, v}) s ?s" by (rule agree_mono [OF agree_trans [OF s4(4) a4]]) auto
  have "heap_wf ?s (xs @ [(t, False), (r, True)] @ ys)"
  proof (rule heap_wf_replace [OF wf a h, folded b_def])
    show "x \<in> nexts (frees H0 xs) \<or> b \<le> x" if "x \<in> nexts (frees H0 xs) \<union> {b, u, c, c + 4, v}" for x
      using that o by auto
    have "c + r - 4 = v" "b + t - 4 = u" using o by linarith+
    then show "blocks_at (hmem ?s) b (last_free False xs) [(t, False), (r, True)]"
      using s4(5,6) t(1,2) o(6,8) d(6) by (simp add: o(1) lt ne ne [symmetric])
    show "blocks_at (hmem ?s) (b + z) (last_free False [(t, False), (r, True)]) ys"
    proof (rule blocks_at_agree [OF _ a d(10)])
      show "x \<notin> nexts (frees H0 xs) \<union> {b, u, c, c + 4, v}" if "x \<in> tags (b + z) ys" for x
        using q(6) [OF that] q(7) [of x] o by auto
    qed (use d(7) in simp)
    have "flist ?s (frees H0 xs @ c # frees (b + z) ys)"
    proof (rule flist_agree [OF s4(2) a4])
      show "x + 4 < 4294967296 \<and> x + 4 \<notin> {b, u}" if "x \<in> set (frees H0 xs @ c # frees (b + z) ys)" for x
        using that q(2) q(3,4) [of x] o by auto
    qed simp
    then show "flist ?s (frees H0 xs @ frees b [(t, False), (r, True)] @ frees (b + z) ys)" by (simp add: o(1))
  qed (use o in simp_all)
  moreover have "agree (nexts (frees H0 xs) \<union> {b..<b + z}) s ?s" by (rule agree_mono [OF a]) (use o in auto)
  ultimately show ?thesis using s4(1) h by (auto simp: r_def)
qed

text \<open>Setting or clearing the flag in the header of the block behind.\<close>

definition set_prev :: "nat \<Rightarrow> bool \<Rightarrow> 'a heap_state_scheme \<Rightarrow> 'a heap_state_scheme" where
  "set_prev a pf s = (if block_in_heap (W a) s
     then hstore (W a) (if pf then hmem s (W a) OR BLOCK_FLAG_PREV_FREE else hmem s (W a) AND NOT BLOCK_FLAG_PREV_FREE) s
     else s)"

lemma set_prev_sel [simp]: "free_list (set_prev a pf s) = free_list s" "heap_only s (set_prev a pf s)"
  by (simp_all add: set_prev_def)

lemma set_prev_agree: "a < 4294967296 \<Longrightarrow> agree {a} s (set_prev a pf s)"
  by (simp add: set_prev_def agree_def)

lemma set_prev_blocks:
  assumes "blocks_at (hmem s) a pf ys" "heap_end s = W (a + tot ys)" "H0 \<le> a" "a + tot ys \<le> 0xFFC00000"
    "pf' \<Longrightarrow> ys \<noteq> [] \<Longrightarrow> \<not> snd (hd ys)"
  shows "blocks_at (hmem (set_prev a pf' s)) a pf' ys"
proof (cases ys)
  case (Cons y ys')
  obtain z f where y: "y = (z, f)" by force
  have h: "set_prev a pf' s = hstore (W a) (hdr z f pf') s"
    using in_heap_after [OF blocks_at_sizes [OF assms(1)] assms(2-4)] assms(1) Cons y
    by (auto simp: set_prev_def BLOCK_FLAG_PREV_FREE_def)
  have z: "16 \<le> z" "4 dvd z" "blocks_at (hmem s) (a + z) f ys'" using assms(1) Cons y by auto
  have lt: "a < 4294967296" "a + z + tot ys' \<le> 0xFFC00000" using assms(4) Cons y by auto
  have "blocks_at (hmem (set_prev a pf' s)) (a + z) f ys'"
  proof (rule blocks_at_agree [OF z(3) set_prev_agree [OF lt(1)] lt(2)])
    show "x \<notin> {a}" if "x \<in> tags (a + z) ys'" for x
      using tags_bounds [OF blocks_at_sizes [OF z(3)] that] z(1) by auto
  qed
  moreover have "hmem s (W (a + z - 4)) = W z" "a + z - 4 \<noteq> a" "a + z - 4 < 4294967296" using assms(1) Cons y z lt by auto
  ultimately show ?thesis using z assms(5) Cons y lt(1) by (auto simp: h)
qed (simp add: set_prev_def)

lemma take_block_whole:
  assumes wf: "heap_wf s (xs @ (z, True) # ys)" and t: "t \<le> z" "z < t + 16"
  defines "b \<equiv> H0 + tot xs"
  shows "\<exists>s'. take_block (W b) (W t) s = Some (W (b + 4), s') \<and> heap_wf s' (xs @ [(z, False)] @ ys) \<and>
    heap_only s s' \<and> agree (nexts (frees H0 xs) \<union> {b..b + z}) s s'"
proof -
  note d = heap_wfD [OF wf, folded b_def] and q = heap_zip [OF wf, folded b_def]
  define v where "v = b + z - 4"
  have o: "b + z = v + 4" "b + 12 \<le> v" "b < 4294967296" "v < 4294967296" "b + z < 4294967296"
    using d(4) q(2) by (auto simp: v_def)
  have ne: "b \<noteq> v" "b + z \<noteq> v" "b + z \<noteq> b" using o(1,2) by linarith+
  obtain s1 where s1: "remove_free (W b) s = Some s1" "flist s1 (frees H0 xs @ frees (b + z) ys)"
      "agree (nexts (frees H0 xs)) s s1" "heap_only s s1" "hmem s1 (W b) = hdr z True False"
      "blocks_at (hmem s1) (b + z) True ys"
    using remove_block [OF wf, folded b_def] by blast
  let ?s2 = "hstore (W v) (W z) (hstore (W b) (hdr z False False) s1)"
  have 1: "block_size (W b) s1 - W t = W (z - t)" using block_size_W [OF s1(5) d(5)] t by simp
  have 2: "\<not> W (z - t) \<ge> MIN_BLOCK_SIZE" using t o by (simp add: W_numeral)
  note 3 = finish_block [OF s1(5) d(5,4) o(1,5)]
  have run: "take_block (W b) (W t) s = Some (W (b + 4), set_prev (b + z) False ?s2)"
    unfolding take_block_def s1(1) Option.bind.simps Let_def 1
    by (simp only: 2 if_False Option.bind.simps 3 block_payload_def W_add set_prev_def)
  let ?s = "set_prev (b + z) False ?s2"
  have h: "heap_only s ?s" by (meson heap_only_trans heap_only_hstore set_prev_sel(2) s1(4))
  have a2: "agree {b, v} s1 ?s2" using agree_trans [OF agree_hstore [OF o(3)] agree_hstore [OF o(4)]] by (simp add: insert_commute)
  have a: "agree (nexts (frees H0 xs) \<union> {b, v, b + z}) s ?s"
    by (rule agree_mono [OF agree_trans [OF s1(3) agree_trans [OF a2 set_prev_agree [OF o(5)]]]]) auto
  have "heap_wf ?s (xs @ [(z, False)] @ ys)"
  proof (rule heap_wf_replace [OF wf a h, folded b_def])
    show "x \<in> nexts (frees H0 xs) \<or> b \<le> x" if "x \<in> nexts (frees H0 xs) \<union> {b, v, b + z}" for x using that o by auto
    have "hmem ?s (W b) = hdr z False False" "hmem ?s (W v) = W z"
      using agreeD [OF set_prev_agree [OF o(5), of ?s2 False] o(3)] agreeD [OF set_prev_agree [OF o(5), of ?s2 False] o(4)] ne o
      by auto
    then show "blocks_at (hmem ?s) b (last_free False xs) [(z, False)]" using d(4-6) by (simp add: o(1))
    have "blocks_at (hmem ?s2) (b + z) True ys"
    proof (rule blocks_at_agree [OF s1(6) a2 d(10)])
      show "x \<notin> {b, v}" if "x \<in> tags (b + z) ys" for x using q(6) [OF that] o by auto
    qed
    then show "blocks_at (hmem ?s) (b + z) (last_free False [(z, False)]) ys"
      using set_prev_blocks [of ?s2 "b + z" True ys False] heap_only_sel [OF s1(4)] d(10,11) q(1) by simp
    have "flist ?s (frees H0 xs @ frees (b + z) ys)"
    proof (rule flist_agree [OF s1(2) agree_trans [OF a2 set_prev_agree [OF o(5)]]])
      show "x + 4 < 4294967296 \<and> x + 4 \<notin> {b, v} \<union> {b + z}" if "x \<in> set (frees H0 xs @ frees (b + z) ys)" for x
        using that q(2) q(3,4) [of x] o(1,2) by auto
    qed simp
    then show "flist ?s (frees H0 xs @ frees b [(z, False)] @ frees (b + z) ys)" by simp
  qed simp_all
  moreover have "agree (nexts (frees H0 xs) \<union> {b..b + z}) s ?s" by (rule agree_mono [OF a]) (use o in auto)
  ultimately show ?thesis using run h by auto
qed

text \<open>What an update between two parts of the heap leaves of them.\<close>

lemma blocks_below:
  assumes b: "blocks_at (hmem s) a pf xs" and a: "agree A s s'" "a + tot xs \<le> 0xFFC00000"
    and A: "\<And>x. x \<in> A \<Longrightarrow> x \<in> nexts (frees a xs) \<or> a + tot xs \<le> x"
  shows "blocks_at (hmem s') a pf xs"
proof (rule blocks_at_agree [OF b a])
  show "x \<notin> A" if "x \<in> tags a xs" for x
    using A [of x] tags_bounds [OF blocks_at_sizes [OF b] that] next_not_tag [OF blocks_at_sizes [OF b], of _ a] that
    by (auto simp: nexts_def)
qed

lemma blocks_above:
  assumes b: "blocks_at (hmem s) c g ys" and a: "agree A s s'" "c + tot ys \<le> 0xFFC00000"
    and A: "\<And>x. x \<in> A \<Longrightarrow> x < c"
  shows "blocks_at (hmem s') c g ys"
proof (rule blocks_at_agree [OF b a])
  show "x \<notin> A" if "x \<in> tags c ys" for x
    using A [of x] tags_bounds [OF blocks_at_sizes [OF b] that] by auto
qed

lemma flist_around:
  assumes l: "flist s (frees a xs @ frees c ys)" and ok: "sizes_ok xs" "sizes_ok ys" "a + tot xs \<le> c" "c + tot ys \<le> 0xFFC00000"
    and a: "agree A s s'" "free_list s' = free_list s" and A: "\<And>x. x \<in> A \<Longrightarrow> a + tot xs \<le> x \<and> x < c + 4"
  shows "flist s' (frees a xs @ frees c ys)"
proof (rule flist_agree [OF l a])
  show "x + 4 < 4294967296 \<and> x + 4 \<notin> A" if "x \<in> set (frees a xs @ frees c ys)" for x
    using that frees_bounds [OF ok(1), of x a] frees_bounds [OF ok(2), of x c] A [of "x + 4"] ok(3,4) by auto
qed

lemma nexts_Cons [simp]: "nexts (b # fs) = insert (b + 4) (nexts fs)"
  by (simp add: nexts_def)

lemma nexts_bound: "sizes_ok xs \<Longrightarrow> x \<in> nexts (frees a xs) \<Longrightarrow> a + 4 \<le> x \<and> x + 12 \<le> a + tot xs"
  using frees_bounds [of xs _ a] by (fastforce simp: nexts_def)

lemma addrs_around:
  assumes ok: "sizes_ok xs" "sizes_ok ys" and c: "0 < a" "a + tot xs \<le> c" "c < e" "e + tot ys \<le> 0xFFC00000"
  shows "addrs_ok (frees a xs @ c # frees e ys)"
proof -
  have fx: "x \<in> set (frees a xs) \<Longrightarrow> a \<le> x \<and> x + 16 \<le> a + tot xs" for x using frees_bounds [OF ok(1)] .
  have fy: "x \<in> set (frees e ys) \<Longrightarrow> e \<le> x \<and> x + 16 \<le> 0xFFC00000" for x using frees_bounds [OF ok(2)] c(4) by force
  show ?thesis using c fx fy frees_sorted [OF ok(1), of a] frees_sorted [OF ok(2), of e]
    by (fastforce simp: addrs_ok_def sorted_wrt_append)
qed

section \<open>Freeing a block\<close>

text \<open>
  While \<open>kfree\<close> works, the block at \<open>H0 + tot xs\<close> of size \<open>z\<close> is in no list, and its neighbours are in order; \<open>g\<close>
  is the flag in the header behind it.
\<close>

definition open_at :: "'a heap_state_scheme \<Rightarrow> blocks \<Rightarrow> nat \<Rightarrow> bool \<Rightarrow> bool \<Rightarrow> blocks \<Rightarrow> bool" where
  "open_at s xs z f g ys \<longleftrightarrow> blocks_at (hmem s) H0 False xs \<and> \<not> last_free False xs \<and>
     hmem s (W (H0 + tot xs)) = hdr z f False \<and> 16 \<le> z \<and> 4 dvd z \<and> blocks_at (hmem s) (H0 + tot xs + z) g ys \<and>
     heap_end s = W (H0 + tot xs + z + tot ys) \<and> heap_brk s = heap_end s \<and> H0 + tot xs + z + tot ys \<le> 0xFFC00000 \<and>
     flist s (frees H0 xs @ frees (H0 + tot xs + z) ys)"

definition merge_prev :: "blocks \<Rightarrow> nat \<Rightarrow> blocks \<times> nat" where
  "merge_prev xs z = (if last_free False xs then (butlast xs, fst (last xs) + z) else (xs, z))"

definition merge_next :: "nat \<Rightarrow> blocks \<Rightarrow> nat \<times> blocks" where
  "merge_next z ys = (case ys of (v, True) # ys' \<Rightarrow> (z + v, ys') | _ \<Rightarrow> (z, ys))"

lemma kfree_steps:
  assumes "ptr \<noteq> 0" "block_in_heap (ptr - 4) s" "block_size (ptr - 4) s \<noteq> 0"
  shows "kfree ptr s = do {
     (block, s) \<leftarrow> kfree_prev (ptr - 4) s;
     s \<leftarrow> kfree_next block s;
     let nxt = block_after block s;
     let s = (if block_in_heap nxt s then hstore nxt (hmem s nxt OR BLOCK_FLAG_PREV_FREE) s else s);
     let s = hstore block (hmem s block OR BLOCK_FLAG_FREE) s;
     let s = hstore (block_footer block s) (block_size block s) s;
     insert_free block (set_next block 0 s)
   }"
  using assms by (simp add: kfree_def kfree_prev_def kfree_next_def Let_def)

lemma kfree_prev_ok:
  assumes wf: "heap_wf s (xs @ (z, False) # ys)" and m: "merge_prev xs z = (xs1, z1)"
  shows "\<exists>s' f. kfree_prev (W (H0 + tot xs)) s = Some (W (H0 + tot xs1), s') \<and> open_at s' xs1 z1 f False ys \<and>
    heap_only s s' \<and> agree (insert (H0 + tot xs1) (nexts (frees H0 xs1))) s s' \<and> H0 + tot xs1 + z1 = H0 + tot xs + z"
proof (cases "last_free False xs")
  case False
  have "kfree_prev (W (H0 + tot xs)) s = Some (W (H0 + tot xs), s)"
    using heap_wfD(2,5) [OF wf] False by (simp add: kfree_prev_def Let_def BLOCK_FLAG_PREV_FREE_def)
  moreover have "open_at s xs z False False ys"
    using heap_wfD [OF wf] False by (simp add: open_at_def)
  moreover have "agree A s s" for A by (simp add: agree_def)
  ultimately show ?thesis using m False by (auto simp: merge_prev_def)
next
  case True
  then obtain w where x: "xs = xs1 @ [(w, True)]" "z1 = w + z"
    using m by (cases xs rule: rev_cases) (auto simp: merge_prev_def)
  define b where "b = H0 + tot xs1"
  have wf1: "heap_wf s (xs1 @ (w, True) # (z, False) # ys)" using wf x by simp
  note d = heap_wfD [OF wf1, folded b_def] and q = heap_zip [OF wf1, folded b_def]
  obtain s1 where s1: "remove_free (W b) s = Some s1" "flist s1 (frees H0 xs1 @ frees (b + w + z) ys)"
      "agree (nexts (frees H0 xs1)) s s1" "heap_only s s1" "hmem s1 (W b) = hdr w True False"
      "hmem s1 (W (b + w)) = hdr z False True" "blocks_at (hmem s1) (b + w + z) False ys" "16 \<le> z" "4 dvd z"
    using remove_block [OF wf1, folded b_def] by auto
  let ?s = "hstore (W b) (hdr (w + z) True False) s1"
  have bw: "H0 + tot xs = b + w" "b < 4294967296" "b + w < 4294967292" "b + w + z + tot ys \<le> 0xFFC00000"
    using x q(2) d(10) by (auto simp: b_def add.assoc)
  have e: "heap_end s = W (b + w + (z + tot ys))" using d(11) by simp
  have "hmem s (W (b + w)) = hdr z False True" using heap_wfD(2) [OF wf] x by (simp add: b_def add.assoc)
  then have c: "hmem s (W (b + w)) AND BLOCK_FLAG_PREV_FREE \<noteq> 0" using s1(9) by (simp add: BLOCK_FLAG_PREV_FREE_def)
  have 1: "W (b + w) - 4 = W (b + w - 4)" "hmem s (W (b + w - 4)) = W w" "W (b + w) - W w = W b" using d(3,4) by simp_all
  have g: "block_in_heap (W b) s"
    by (subst block_in_heap_W [OF _ _ e]) (use bw q(1) d(4) in simp_all)
  have "block_size (W (b + w)) s1 = W z" using block_size_W [OF s1(6,9)] .
  then have 2: "(W w + block_size (W (b + w)) s1) OR BLOCK_FLAG_FREE OR (hmem s1 (W b) AND BLOCK_FLAG_PREV_FREE) = hdr (w + z) True False"
    using s1(5,9) d(5) by (simp add: BLOCK_FLAG_FREE_def BLOCK_FLAG_PREV_FREE_def)
  have run: "kfree_prev (W (b + w)) s = Some (W b, ?s)"
    using c g by (simp add: kfree_prev_def Let_def 1 s1(1) 2)
  have a: "agree (insert b (nexts (frees H0 xs1))) s ?s"
    by (rule agree_mono [OF agree_trans [OF s1(3) agree_hstore [OF bw(2)]]]) auto
  have h: "heap_only s ?s" by (meson heap_only_trans heap_only_hstore s1(4))
  have "open_at ?s xs1 z1 True False ys"
    unfolding open_at_def x(2) b_def [symmetric]
  proof (intro conjI)
    show "blocks_at (hmem ?s) H0 False xs1"
      by (rule blocks_below [OF d(1) a]) (use q(2) in \<open>auto simp: b_def\<close>)
    show "blocks_at (hmem ?s) (b + (w + z)) False ys"
      by (rule blocks_above [OF _ agree_hstore [OF bw(2)]]) (use s1(7,8) bw(4) in \<open>auto simp: add.assoc\<close>)
    show "flist ?s (frees H0 xs1 @ frees (b + (w + z)) ys)"
      by (rule flist_around [OF _ _ _ _ _ agree_hstore [OF bw(2)]])
        (use s1(2,8) d(8,9) bw(4) in \<open>auto simp: add.assoc b_def\<close>)
  qed (use s1 d heap_only_sel [OF h] in \<open>auto simp: add.assoc\<close>)
  then show ?thesis unfolding bw(1) b_def [symmetric] using run a h x(2) by (intro exI [of _ ?s] exI [of _ True]) simp
qed

lemma open_atD:
  assumes "open_at s xs z f g ys"
  defines "b \<equiv> H0 + tot xs"
  shows "blocks_at (hmem s) H0 False xs" "\<not> last_free False xs" "hmem s (W b) = hdr z f False" "16 \<le> z" "4 dvd z"
    "blocks_at (hmem s) (b + z) g ys" "heap_end s = W (b + z + tot ys)" "heap_brk s = heap_end s"
    "b + z + tot ys \<le> 0xFFC00000" "flist s (frees H0 xs @ frees (b + z) ys)" "sizes_ok xs" "sizes_ok ys" "H0 \<le> b"
  using assms by (auto simp: open_at_def dest: blocks_at_sizes)

lemma kfree_next_none:
  assumes o: "open_at s xs z f False ys" and n: "ys \<noteq> [] \<Longrightarrow> \<not> snd (hd ys)"
  shows "kfree_next (W (H0 + tot xs)) s = Some s"
proof -
  note d = open_atD [OF o]
  have e: "block_after (W (H0 + tot xs)) s = W (H0 + tot xs + z)" using block_size_W [OF d(3,5)] by (simp add: block_after_def)
  have "block_in_heap (W (H0 + tot xs + z)) s \<longleftrightarrow> ys \<noteq> []" by (rule in_heap_after [OF d(12,7)]) (use d(9) in auto)
  moreover have "\<not> block_is_free (W (H0 + tot xs + z)) s" if "ys \<noteq> []"
    using d(6) n that by (cases ys) (auto simp: block_is_free_def BLOCK_FLAG_FREE_def)
  ultimately show ?thesis by (auto simp: kfree_next_def e)
qed

lemma kfree_next_merge:
  assumes o: "open_at s xs z f False ((v, True) # ys)"
  defines "b \<equiv> H0 + tot xs"
  shows "\<exists>s'. kfree_next (W b) s = Some s' \<and> open_at s' xs (z + v) True True ys \<and> heap_only s s' \<and>
    agree (insert b (nexts (frees H0 xs))) s s' \<and> (ys \<noteq> [] \<longrightarrow> \<not> snd (hd ys))"
proof -
  note d = open_atD [OF o, folded b_def]
  have v: "16 \<le> v" "4 dvd v" "hmem s (W (b + z)) = hdr v True False" "blocks_at (hmem s) (b + z + v) True ys" "sizes_ok ys"
    using d(6,12) by auto
  have lt: "b < 4294967296" "b + z < 4294967296" "b + (z + v) + tot ys \<le> 0xFFC00000" "H0 \<le> b" using d(9) by (auto simp: b_def)
  have ok: "addrs_ok (frees H0 xs @ (b + z) # frees (b + z + v) ys)"
    by (rule addrs_around [OF d(11) v(5)]) (use lt v(1) in \<open>auto simp: b_def\<close>)
  obtain s1 where s1: "remove_free (W (b + z)) s = Some s1" "flist s1 (frees H0 xs @ frees (b + z + v) ys)"
      "links_only (set (frees H0 xs)) s s1"
    using remove_free_flist [of s "frees H0 xs" "b + z" "frees (b + z + v) ys", OF _ ok] d(10) by auto
  have "a + 4 < 4294967296" if "a \<in> set (frees H0 xs)" for a using frees_bounds [OF d(11) that] lt by (simp add: b_def)
  note a1 = links_only_nexts [OF s1(3) refl this]
  have m1: "hmem s1 (W x) = hmem s (W x)" if "b \<le> x" "x < 4294967296" for x
    using agreeD [OF a1(1) that(2)] frees_bounds [OF d(11), of _ H0] that by (force simp: nexts_def b_def)
  let ?s = "hstore (W b) (hdr (z + v) True False) s1"
  have e: "block_after (W b) s = W (b + z)" using block_size_W [OF d(3,5)] by (simp add: block_after_def)
  have g: "block_in_heap (W (b + z)) s" by (subst in_heap_after [OF d(12,7)]) (use lt d(9) in auto)
  have fr: "block_is_free (W (b + z)) s" using v by (simp add: block_is_free_def BLOCK_FLAG_FREE_def)
  have h1: "hmem s1 (W b) = hdr z f False" "hmem s1 (W (b + z)) = hdr v True False" using m1 lt d(3) v(3) by simp_all
  have 2: "(block_size (W b) s1 + block_size (W (b + z)) s1) OR BLOCK_FLAG_FREE OR (hmem s1 (W b) AND BLOCK_FLAG_PREV_FREE) = hdr (z + v) True False"
    using h1 d(5) v(2) by (simp add: block_size_W BLOCK_FLAG_FREE_def BLOCK_FLAG_PREV_FREE_def)
  have run: "kfree_next (W b) s = Some ?s" by (simp add: kfree_next_def e g fr s1(1) 2)
  have a: "agree (insert b (nexts (frees H0 xs))) s ?s"
    by (rule agree_mono [OF agree_trans [OF a1(1) agree_hstore [OF lt(1)]]]) auto
  have h: "heap_only s ?s" by (meson heap_only_trans heap_only_hstore a1(2))
  have "open_at ?s xs (z + v) True True ys"
    unfolding open_at_def b_def [symmetric]
  proof (intro conjI)
    show "blocks_at (hmem ?s) H0 False xs"
      by (rule blocks_below [OF d(1) a]) (use lt in \<open>auto simp: b_def\<close>)
    show "blocks_at (hmem ?s) (b + (z + v)) True ys"
    proof (rule blocks_above [OF _ a])
      show "x < b + (z + v)" if "x \<in> insert b (nexts (frees H0 xs))" for x
        using that nexts_bound [OF d(11), of x H0] v(1) by (auto simp: b_def)
    qed (use v(4) lt in \<open>auto simp: add.assoc\<close>)
    show "flist ?s (frees H0 xs @ frees (b + (z + v)) ys)"
      by (rule flist_around [OF _ _ _ _ _ agree_hstore [OF lt(1)]])
        (use s1(2) d(4,11) v lt in \<open>auto simp: add.assoc b_def\<close>)
  qed (use d v lt heap_only_sel [OF h] in \<open>auto simp: add.assoc\<close>)
  then show ?thesis using run h a v(4) by (cases ys) auto
qed

lemma set_prev_True: "set_prev a True s =
    (if block_in_heap (W a) s then hstore (W a) (hmem s (W a) OR BLOCK_FLAG_PREV_FREE) s else s)"
  by (simp add: set_prev_def)

lemma set_next_heap_only [simp]: "heap_only s (set_next a v s)"
  by (simp add: set_next_def)

lemma open_at_closed:
  assumes o: "open_at s xs z f g ys" and a: "agree A s s'" "heap_only s s'"
    and A: "\<And>x. x \<in> A \<Longrightarrow> x \<in> nexts (frees H0 xs) \<or> H0 + tot xs \<le> x"
    and b: "hmem s' (W (H0 + tot xs)) = hdr z True False" "hmem s' (W (H0 + tot xs + z - 4)) = W z"
    and ys: "blocks_at (hmem s') (H0 + tot xs + z) True ys"
    and l: "flist s' (frees H0 xs @ (H0 + tot xs) # frees (H0 + tot xs + z) ys)"
  shows "heap_wf s' (xs @ [(z, True)] @ ys)"
proof (rule heap_wfI)
  note d = open_atD [OF o]
  have "blocks_at (hmem s') H0 False xs" by (rule blocks_below [OF d(1) a(1) _ A]) (use d(9) in auto)
  then show "blocks_at (hmem s') H0 False (xs @ [(z, True)] @ ys)" using b ys d(2,4,5) by (simp add: blocks_at_append)
qed (use heap_only_sel [OF a(2)] open_atD [OF o] l in \<open>auto simp: add.assoc frees_append\<close>)

lemma kfree_finish:
  assumes o: "open_at s xs z f g ys" and n: "ys \<noteq> [] \<Longrightarrow> \<not> snd (hd ys)"
  defines "b \<equiv> H0 + tot xs"
  shows "\<exists>s'. (let nxt = block_after (W b) s;
      s = (if block_in_heap nxt s then hstore nxt (hmem s nxt OR BLOCK_FLAG_PREV_FREE) s else s);
      s = hstore (W b) (hmem s (W b) OR BLOCK_FLAG_FREE) s;
      s = hstore (block_footer (W b) s) (block_size (W b) s) s
      in insert_free (W b) (set_next (W b) 0 s)) = Some s' \<and> heap_wf s' (xs @ [(z, True)] @ ys) \<and> heap_only s s' \<and>
    agree (nexts (frees H0 xs) \<union> {b, b + 4, b + z - 4, b + z}) s s'"
proof -
  note d = open_atD [OF o, folded b_def]
  define v where "v = b + z - 4"
  have p: "b + z = v + 4" "b + z - 4 = v" "b + 12 \<le> v" "b < 4294967296" "b + z < 4294967296" "v < 4294967296" "b + 4 < 4294967296"
    using d(4,9) by (auto simp: v_def)
  let ?s1 = "set_prev (b + z) True s"
  let ?s2 = "hstore (W v) (W z) (hstore (W b) (hdr z True False) ?s1)"
  let ?s3 = "set_next (W b) 0 ?s2"
  have e: "block_after (W b) s = W (b + z)" using block_size_W [OF d(3,5)] by (simp add: block_after_def)
  have m1: "hmem ?s1 (W b) = hdr z f False" using agreeD [OF set_prev_agree [OF p(5), of s True] p(4)] d(3,4) by simp
  have 1: "hmem ?s1 (W b) OR BLOCK_FLAG_FREE = hdr z True False" using m1 d(5) by (simp add: BLOCK_FLAG_FREE_def)
  have 2: "block_size (W b) (hstore (W b) (hdr z True False) ?s1) = W z" using d(5) by (simp add: block_size_W)
  have 3: "block_footer (W b) (hstore (W b) (hdr z True False) ?s1) = W v" using d(4) p(2) by (simp add: block_footer_def 2)
  have a2: "agree {b + z, b, v} s ?s2"
    by (rule agree_mono [OF agree_trans [OF set_prev_agree [OF p(5)] agree_trans [OF agree_hstore [OF p(4)] agree_hstore [OF p(6)]]]]) auto
  have a3: "agree {b + 4} ?s2 ?s3" using agree_hstore [OF p(7), of ?s2 0] by (simp add: set_next_def)
  note a23 = agree_trans [OF a2 a3]
  have "flist ?s3 (frees H0 xs @ frees (b + z) ys)"
    by (rule flist_around [OF d(10-12) _ d(9) a23]) (use d(4) p in \<open>auto simp: b_def set_next_def\<close>)
  moreover have "addrs_ok (frees H0 xs @ b # frees (b + z) ys)"
    by (rule addrs_around [OF d(11,12)]) (use d(4,9) in \<open>auto simp: b_def\<close>)
  ultimately obtain s4 where s4: "insert_free (W b) ?s3 = Some s4" "flist s4 (frees H0 xs @ b # frees (b + z) ys)"
      "links_only (insert b (set (frees H0 xs))) ?s3 s4"
    using insert_free_flist by blast
  have "a + 4 < 4294967296" if "a \<in> set (b # frees H0 xs)" for a
    using that frees_bounds [OF d(11), of a H0] p by (auto simp: b_def)
  note a4 = links_only_nexts [OF s4(3) list.simps(15) [symmetric] this]
  have h: "heap_only s s4" by (meson heap_only_trans heap_only_hstore set_prev_sel(2) a4(2) set_next_heap_only)
  have a: "agree (nexts (frees H0 xs) \<union> {b, b + 4, v, b + z}) s s4"
    by (rule agree_mono [OF agree_trans [OF a23 a4(1)]]) auto
  have keep: "hmem s4 (W x) = hmem ?s2 (W x)" if "b \<le> x" "x < 4294967296" "x \<noteq> b + 4" for x
  proof -
    have "x \<notin> nexts (b # frees H0 xs)" using that nexts_bound [OF d(11), of x H0] by (auto simp: b_def)
    then show ?thesis using agreeD [OF a4(1) that(2)] agreeD [OF a3 that(2)] that(3) by simp
  qed
  have "heap_wf s4 (xs @ [(z, True)] @ ys)"
  proof (rule open_at_closed [OF o a h, folded b_def])
    show "x \<in> nexts (frees H0 xs) \<or> b \<le> x" if "x \<in> nexts (frees H0 xs) \<union> {b, b + 4, v, b + z}" for x using that p by auto
    show "hmem s4 (W b) = hdr z True False" "hmem s4 (W (b + z - 4)) = W z" using keep [of b] keep [of v] p by auto
    have "blocks_at (hmem ?s1) (b + z) True ys" by (rule set_prev_blocks [OF d(6,7) _ d(9) n]) (use d(13) in auto)
    then have "blocks_at (hmem ?s2) (b + z) True ys"
      by (rule blocks_above [OF _ agree_trans [OF agree_hstore [OF p(4)] agree_hstore [OF p(6)]] d(9)]) (use p in auto)
    then have "blocks_at (hmem ?s3) (b + z) True ys" by (rule blocks_above [OF _ a3 d(9)]) (use p in auto)
    then show "blocks_at (hmem s4) (b + z) True ys"
    proof (rule blocks_above [OF _ a4(1) d(9)])
      show "x < b + z" if "x \<in> nexts (b # frees H0 xs)" for x
        using that nexts_bound [OF d(11), of x H0] d(4) by (auto simp: b_def)
    qed
    show "flist s4 (frees H0 xs @ b # frees (b + z) ys)" by (rule s4(2))
  qed
  moreover have "(let nxt = block_after (W b) s;
      s = (if block_in_heap nxt s then hstore nxt (hmem s nxt OR BLOCK_FLAG_PREV_FREE) s else s);
      s = hstore (W b) (hmem s (W b) OR BLOCK_FLAG_FREE) s;
      s = hstore (block_footer (W b) s) (block_size (W b) s) s
      in insert_free (W b) (set_next (W b) 0 s)) = Some s4"
    unfolding Let_def e set_prev_True [symmetric] 1 2 3 by (rule s4(1))
  ultimately show ?thesis using h a by (auto simp: p(2))
qed

lemma merge_next_free: "merge_next z ys = (z1, ys1) \<Longrightarrow> ys1 = ys \<Longrightarrow> ys \<noteq> [] \<Longrightarrow> \<not> snd (hd ys)"
  by (auto simp: merge_next_def split: list.splits bool.splits)

lemma kfree_ok:
  assumes wf: "heap_wf s (xs @ (z, False) # ys)" and m: "merge_prev xs z = (xs1, z0)" "merge_next z0 ys = (z1, ys1)"
  defines "b \<equiv> H0 + tot xs1"
  shows "\<exists>s'. kfree (W (H0 + tot xs + 4)) s = Some s' \<and> heap_wf s' (xs1 @ [(z1, True)] @ ys1) \<and> heap_only s s' \<and>
    agree (nexts (frees H0 xs1) \<union> {b..b + z1}) s s'"
proof -
  note d = heap_wfD [OF wf] and q = heap_zip [OF wf]
  obtain s1 f1 where s1: "kfree_prev (W (H0 + tot xs)) s = Some (W b, s1)" "open_at s1 xs1 z0 f1 False ys" "heap_only s s1"
      "agree (insert b (nexts (frees H0 xs1))) s s1"
    using kfree_prev_ok [OF wf m(1)] by (auto simp: b_def)
  obtain s2 f2 g2 where s2: "kfree_next (W b) s1 = Some s2" "open_at s2 xs1 z1 f2 g2 ys1" "heap_only s1 s2"
      "agree (insert b (nexts (frees H0 xs1))) s1 s2" "ys1 \<noteq> [] \<Longrightarrow> \<not> snd (hd ys1)"
  proof (cases "\<exists>v. ys = (v, True) # ys1")
    case True
    then obtain v where v: "ys = (v, True) # ys1" "z1 = z0 + v" using m(2) by (auto simp: merge_next_def)
    then show thesis using that kfree_next_merge [of s1 xs1 z0 f1 v ys1] s1(2) by (metis b_def)
  next
    case False
    then have e: "ys1 = ys" "z1 = z0" using m(2) by (auto simp: merge_next_def split: list.splits bool.splits)
    have n: "ys \<noteq> [] \<Longrightarrow> \<not> snd (hd ys)" using False m(2) by (cases ys) (auto simp: merge_next_def split: bool.splits)
    show thesis by (rule that [of s1 f1 False]) (use kfree_next_none [OF s1(2) n] s1(2) e n in \<open>auto simp: b_def agree_def\<close>)
  qed
  obtain s3 where s3: "heap_wf s3 (xs1 @ [(z1, True)] @ ys1)" "heap_only s2 s3" 
      "agree (nexts (frees H0 xs1) \<union> {b, b + 4, b + z1 - 4, b + z1}) s2 s3"
      "(let nxt = block_after (W b) s2;
        s = (if block_in_heap nxt s2 then hstore nxt (hmem s2 nxt OR BLOCK_FLAG_PREV_FREE) s2 else s2);
        s = hstore (W b) (hmem s (W b) OR BLOCK_FLAG_FREE) s;
        s = hstore (block_footer (W b) s) (block_size (W b) s) s
        in insert_free (W b) (set_next (W b) 0 s)) = Some s3"
    using kfree_finish [OF s2(2,5)] by (auto simp: b_def)
  have p: "W (H0 + tot xs + 4) - 4 = W (H0 + tot xs)" by simp
  have nz: "W (H0 + tot xs + 4) \<noteq> 0" using q(2) d(4) by simp
  have g: "block_in_heap (W (H0 + tot xs)) s"
    using in_heap_after [of "(z, False) # ys" s "H0 + tot xs"] d(4,5,9-11) by (auto simp: add.assoc)
  have sz: "block_size (W (H0 + tot xs)) s \<noteq> 0" using block_size_W [OF d(2,5)] d(4) q(2) by simp
  have "kfree (W (H0 + tot xs + 4)) s = Some s3"
    using kfree_steps [OF nz, unfolded p, OF g sz] s1(1) s2(1) s3(4) by (simp add: Let_def)
  moreover have "heap_only s s3" by (meson heap_only_trans s1(3) s2(3) s3(2))
  moreover have "agree (nexts (frees H0 xs1) \<union> {b..b + z1}) s s3"
    by (rule agree_mono [OF agree_trans [OF s1(4) agree_trans [OF s2(4) s3(3)]]]) (use open_atD(4) [OF s2(2)] in auto)
  ultimately show ?thesis using s3(1) by blast
qed

section \<open>The payload of the other blocks\<close>

definition keeps :: "(nat \<times> nat) set \<Rightarrow> 'a heap_state_scheme \<Rightarrow> 'a heap_state_scheme \<Rightarrow> bool" where
  "keeps R s s' \<longleftrightarrow> (\<forall>(p, n) \<in> R. \<forall>y < n. hmem s' (W (p + y)) = hmem s (W (p + y)))"

lemma keeps_around:
  assumes ok: "sizes_ok xs" "sizes_ok ys" "H0 + tot xs + z + tot ys \<le> 0xFFC00000"
    and a: "agree (nexts (frees H0 xs) \<union> {H0 + tot xs..H0 + tot xs + z}) s s'"
  shows "keeps (set (owned H0 xs) \<union> set (owned (H0 + tot xs + z) ys)) s s'"
proof -
  have "hmem s' (W (p + y)) = hmem s (W (p + y))" if "(p, n) \<in> set (owned H0 xs)" "y < n" for p n y
    using agreeD [OF a, of "p + y"] owned_bounds [OF ok(1) that(1)] next_not_owned [OF ok(1) _ that] ok(3) that(2)
    by (auto simp: nexts_def)
  moreover have "hmem s' (W (p + y)) = hmem s (W (p + y))" if o: "(p, n) \<in> set (owned (H0 + tot xs + z) ys)" "y < n" for p n y
    using agreeD [OF a, of "p + y"] owned_bounds [OF ok(2) that(1)] nexts_bound [OF ok(1), of "p + y" H0] ok(3) that(2)
    by auto
  ultimately show ?thesis by (auto simp: keeps_def)
qed

end
