(* ===== verification/Heap_Alloc.thy ===== *)
theory Heap_Alloc
  imports Heap_Ops
begin

text \<open>
  Allocation and release of the kernel heap: the search of the free list, growth through the page tables, \<open>kmalloc\<close> and
  \<open>kfree\<close> on the set of payloads in use, and the bound on fragmentation that coalescing gives.
\<close>

section \<open>Finding a block\<close>

lemma frees_split:
  "x \<in> set (frees a bs) \<Longrightarrow> \<exists>xs z ys. bs = xs @ (z, True) # ys \<and> x = a + tot xs"
proof (induction a bs rule: frees.induct)
  case (2 a z f bs)
  show ?case
  proof (cases "f \<and> x = a")
    case True
    then show ?thesis by (intro exI [of _ "[]"]) auto
  next
    case False
    then obtain xs z' ys where "bs = xs @ (z', True) # ys" "x = a + z + tot xs" using 2 by (auto split: if_splits)
    then show ?thesis by (intro exI [of _ "(z, f) # xs"]) auto
  qed
qed simp

lemma frees_in: "(z, True) \<in> set bs \<Longrightarrow> \<exists>xs ys. bs = xs @ (z, True) # ys \<and> a + tot xs \<in> set (frees a bs)"
  by (force simp: in_set_conv_decomp frees_append)

lemma find_block_ok:
  assumes wf: "heap_wf s bs" and t: "t < 4294967296"
  shows "(\<exists>xs z ys. bs = xs @ (z, True) # ys \<and> t \<le> z \<and> find_block (W t) s = Some (W (H0 + tot xs)) \<and> (\<forall>w. (w, True) \<in> set xs \<longrightarrow> w < t)) \<or>
    (find_block (W t) s = Some 0 \<and> (\<forall>w. (w, True) \<in> set bs \<longrightarrow> w < t))"
proof -
  let ?P = "\<lambda>a. W t \<le> block_size (W a) s"
  have so: "sizes_ok bs" "H0 + tot bs \<le> 0xFFC00000" using wf by (auto simp: heap_wf_def dest: blocks_at_sizes)
  have f: "find_block (W t) s = Some (case find ?P (frees H0 bs) of None \<Rightarrow> 0 | Some a \<Rightarrow> W a)"
    unfolding find_block_def
    by (rule find_fit_eq) (use wf addrs_ok_frees [OF so(1), of H0] so(2) in \<open>auto simp: heap_wf_def flist_def\<close>)
  have sz: "?P (H0 + tot xs) \<longleftrightarrow> t \<le> z" if "bs = xs @ (z, True) # ys" for xs z ys
    using heap_wfD(2,5,10) [of s xs z True ys] wf that t by (simp add: block_size_W)
  show ?thesis
  proof (cases "find ?P (frees H0 bs)")
    case None
    have "w < t" if "(w, True) \<in> set bs" for w
      using frees_in [OF that, of H0] None sz by (auto simp: find_None_iff)
    then show ?thesis using f None by simp
  next
    case (Some a)
    obtain us vs where u: "frees H0 bs = us @ a # vs" "\<forall>x \<in> set us. \<not> ?P x" "?P a"
      using find_Some_split [OF Some] by blast
    obtain xs z ys where x: "bs = xs @ (z, True) # ys" "a = H0 + tot xs" using frees_split [of a H0 bs] u(1) by auto
    have "w < t" if m0: "(w, True) \<in> set xs" for w
    proof -
      obtain xs1 xs2 where w: "xs = xs1 @ (w, True) # xs2" using split_list [OF m0] by blast
      then have m: "H0 + tot xs1 \<in> set (frees H0 bs)" "H0 + tot xs1 < a" using x so(1) by (auto simp: frees_append)
      have "sorted_wrt (<) (us @ a # vs)" using frees_sorted [OF so(1), of H0] u(1) by simp
      then have "H0 + tot xs1 \<in> set us" using m u(1) by (auto simp: sorted_wrt_append)
      then show ?thesis using u(2) sz [of xs1 w] x(1) w by auto
    qed
    then show ?thesis using f Some x u(3) sz [OF x(1)] by auto
  qed
qed

section \<open>Allocation from a free block\<close>

lemma take_block_ok:
  assumes wf: "heap_wf s (xs @ (z, True) # ys)" and t: "16 \<le> t" "4 dvd t" "t \<le> z"
  shows "\<exists>s'. take_block (W (H0 + tot xs)) (W t) s = Some (W (H0 + tot xs + 4), s') \<and> heap_wf s' (xs @ take_spec z t @ ys) \<and>
    heap_only s s' \<and> agree (nexts (frees H0 xs) \<union> {H0 + tot xs..H0 + tot xs + z}) s s'"
proof (cases "16 \<le> z - t")
  case True
  then have "t + 16 \<le> z" by simp
  from take_block_split [OF wf t(1,2) this] obtain s' where s': "take_block (W (H0 + tot xs)) (W t) s = Some (W (H0 + tot xs + 4), s')"
    "heap_wf s' (xs @ take_spec z t @ ys)" "heap_only s s'" "agree (nexts (frees H0 xs) \<union> {H0 + tot xs..<H0 + tot xs + z}) s s'"
    using True by (auto simp: take_spec_def)
  have "agree (nexts (frees H0 xs) \<union> {H0 + tot xs..H0 + tot xs + z}) s s'" by (rule agree_mono [OF s'(4)]) auto
  then show ?thesis using s' by blast
next
  case False
  then show ?thesis using take_block_whole [OF wf t(3)] by (auto simp: take_spec_def)
qed

lemma owned_take:
  assumes "t \<le> z" "8 \<le> t"
  shows "\<exists>m. t - 8 \<le> m \<and> m \<le> t + 7 \<and> set (owned H0 (xs @ take_spec z t @ ys)) =
    insert (H0 + tot xs + 4, m) (set (owned H0 xs) \<union> set (owned (H0 + tot xs + z) ys)) \<and> m + 8 \<le> z \<and> tot (take_spec z t) = z"
proof (cases "16 \<le> z - t")
  case True
  then show ?thesis using assms by (intro exI [of _ "t - 8"]) (auto simp: take_spec_def owned_append add.assoc)
next
  case False
  then show ?thesis using assms by (intro exI [of _ "z - 8"]) (auto simp: take_spec_def owned_append add.assoc)
qed

lemma total_size_W:
  assumes "0 < n" "n \<le> 0x10000000"
  obtains t where "total_size (W n) = W t" "16 \<le> t" "4 dvd t" "n + 8 \<le> t" "t \<le> n + 15" "n + 11 \<le> z \<Longrightarrow> 16 \<le> z \<Longrightarrow> t \<le> z"
proof -
  define r where "r = (n + 3) div 4 * 4"
  have "W n + 3 = W (n + 3)" by simp
  moreover have "W (n + 3) AND NOT 3 = W r"
  proof -
    have m: "(3 :: u32) = mask 2" by (simp add: mask_eq_exp_minus_1)
    have "unat (W (n + 3) AND NOT 3) = r"
      using assms(2) unfolding m unat_and_not_mask32 by (simp add: r_def minus_mod_eq_div_mult)
    then show ?thesis by (metis W_unat)
  qed
  ultimately have rs: "round_size (W n) = W r" by (simp add: round_size_def)
  have r: "n \<le> r" "r \<le> n + 3" "4 dvd r" by (auto simp: r_def)
  define t where "t = (if r + 8 < 16 then 16 else r + 8)"
  have "total_size (W n) = W t" using r assms(2) by (simp add: total_size_def rs Let_def W_numeral t_def)
  moreover have "16 \<le> t" "4 dvd t" "n + 8 \<le> t" "t \<le> n + 15" using r assms(1) by (auto simp: t_def)
  moreover have "t \<le> z" if "n + 11 \<le> z" "16 \<le> z" for z using that r by (auto simp: t_def)
  ultimately show thesis using that by blast
qed

section \<open>Growth\<close>

lemma pt_wf_cong:
  assumes "pt_wf s F" "pmem s' = pmem s" "cr3 s' = cr3 s" "free_ok s' F'" "set F' \<subseteq> set F"
  shows "pt_wf s' F'"
proof -
  have p: "pde s' i = pde s i" for i using assms(2,3) by (simp add: pde_def)
  show ?thesis using assms unfolding pt_wf_def rec_ok_def has_pt_def pt_frame_def p by auto
qed

lemma expand_heap_total:
  assumes wf: "pt_wf s F" and va: "va < 0xFFC00000"
  shows "\<exists>r s' F'. expand_heap (W va) s = Some (r, s') \<and> pt_wf s' F' \<and> (r = 0 \<or> r = -1)"
proof (cases F)
  case Nil
  let ?s = "case current_task s of None \<Rightarrow> s | Some c \<Rightarrow> if t_tier (tasks s c) = TIER_USER
     then (upd_task c (\<lambda>x. x\<lparr>t_tier := TIER_CRITICAL\<rparr>) s)\<lparr>pressure_triggered := True\<rparr> else s"
  have "alloc_page_frame s = Some (0, ?s)" using alloc_page_frame_Nil pt_wfD(2) [OF wf] Nil by blast
  moreover have "pt_wf ?s []"
    by (rule pt_wf_cong [OF wf]) (use pt_wfD(2) [OF wf] Nil in \<open>auto simp: upd_task_def free_ok_def split: option.split\<close>)
  ultimately show ?thesis by (simp add: expand_heap_def) blast
next
  case (Cons f F1)
  have i: "pd_index (W va) < 1023" using va by (simp add: pd_index_def unat_drop_bit32)
  obtain s1 where s1: "alloc_page_frame s = Some (of_nat (f * PAGE_SIZE), s1)" "free_ok s1 F1" "pmem s1 = pmem s" "cr3 s1 = cr3 s"
    using alloc_page_frame_Cons pt_wfD(2) [OF wf] Cons by blast
  have wf1: "pt_wf s1 F1" by (rule pt_wf_cong [OF wf s1(3,4,2)]) (use Cons in auto)
  have fo: "free_ok s (f # F1)" using pt_wfD(2) [OF wf] Cons by simp
  have nz: "(of_nat (f * PAGE_SIZE) :: u32) \<noteq> 0"
    using of_nat_frame_nonzero free_ok_head [OF fo] by force
  have "\<exists>s' F'. map_page (W va) (of_nat (f * PAGE_SIZE)) (PTE_PRESENT OR PTE_RW) s1 = Some s' \<and> pt_wf s' F'"
  proof (cases "has_pt s1 (pd_index (W va)) \<or> F1 \<noteq> []")
    case True
    have "present (of_nat (f * PAGE_SIZE) OR ((PTE_PRESENT OR PTE_RW) AND 0xFFF))" by (simp add: present_odd even_or_iff)
    then show ?thesis using map_page_correct [OF wf1 i True] by blast
  next
    case False
    then show ?thesis using map_page_full [of s1 "W va"] wf1 i by (auto simp: has_pt_def)
  qed
  then show ?thesis using s1(1) nz by (auto simp: expand_heap_def)
qed

lemma grow_pages_total:
  "pt_wf s F \<Longrightarrow> \<forall>i \<in> set is. unat (heap_brk s) + i * PAGE_SIZE < 0xFFC00000 \<Longrightarrow>
   \<exists>r s' F'. grow_pages is s = Some (r, s') \<and> pt_wf s' F' \<and> (r = 0 \<or> r = -1)"
proof (induction "is" arbitrary: s F)
  case Nil
  then show ?case by auto
next
  case (Cons i js)
  have "heap_brk s + of_nat (i * PAGE_SIZE) = W (unat (heap_brk s) + i * PAGE_SIZE)" by (simp add: W_def)
  then obtain r s1 F1 where s1: "expand_heap (heap_brk s + of_nat (i * PAGE_SIZE)) s = Some (r, s1)" "pt_wf s1 F1" "r = 0 \<or> r = -1"
    using expand_heap_total [OF Cons.prems(1), of "unat (heap_brk s) + i * PAGE_SIZE"] Cons.prems(2) by auto
  have "heap_brk s1 = heap_brk s" using pg_frame_heap(3) [OF expand_heap_frame [OF s1(1)]] .
  then show ?case using Cons.IH [OF s1(2)] s1 Cons.prems(2) by (cases "r = 0") auto
qed

text \<open>New memory behind a heap whose last block is in use, and behind one whose last block is free.\<close>

lemma heap_wf_brk:
  assumes "heap_wf s bs"
  shows "heap_brk s = W (H0 + tot bs)" "heap_end s = W (H0 + tot bs)" "H0 + tot bs \<le> 0xFFC00000" "sizes_ok bs" "bs \<noteq> []"
  using assms by (auto simp: heap_wf_def dest: blocks_at_sizes)

lemma append_block:
  assumes b: "blocks_at (hmem s) H0 False bs" "\<not> last_free False bs" "flist s (frees H0 bs)"
    and n: "16 \<le> n" "4 dvd n" "H0 + tot bs + n \<le> 0xFFC00000"
    and e: "heap_brk s = W (H0 + tot bs + n)" "heap_end s = heap_brk s"
    and h: "hmem s (W (H0 + tot bs)) = hdr n True False" "hmem s (W (H0 + tot bs + n - 4)) = W n"
  shows "\<exists>s'. insert_free (W (H0 + tot bs)) s = Some s' \<and> heap_wf s' (bs @ [(n, True)]) \<and> heap_only s s' \<and>
    agree (nexts (frees H0 bs) \<union> {H0 + tot bs + 4}) s s'"
proof -
  let ?b = "H0 + tot bs"
  note so = blocks_at_sizes [OF b(1)]
  have "addrs_ok (frees H0 bs @ [?b])" using addrs_around [OF so, of "[]" H0 ?b "?b + 1"] n by simp
  then obtain s' where s': "insert_free (W ?b) s = Some s'" "flist s' (frees H0 bs @ [?b])"
      "links_only (insert ?b (set (frees H0 bs))) s s'"
    using insert_free_flist [of s "frees H0 bs" "[]" ?b] b(3) by auto
  have "a + 4 < 4294967296" if "a \<in> set (?b # frees H0 bs)" for a using that frees_bounds [OF so, of a H0] n by auto
  note a = links_only_nexts [OF s'(3) list.simps(15) [symmetric] this]
  have m: "hmem s' (W x) = hmem s (W x)" if "?b \<le> x" "x < 4294967296" "x \<noteq> ?b + 4" for x
    using agreeD [OF a(1) that(2)] that nexts_bound [OF so, of x H0] by auto
  have "blocks_at (hmem s') H0 False bs" by (rule blocks_below [OF b(1) a(1)]) (use n in auto)
  then have "blocks_at (hmem s') H0 False (bs @ [(n, True)])"
    using m [of ?b] m [of "?b + n - 4"] h n b(2) by (simp add: blocks_at_append)
  then have "heap_wf s' (bs @ [(n, True)])"
    using s'(2) heap_only_sel [OF a(2)] e n by (simp add: heap_wf_def frees_append add.assoc)
  then show ?thesis using s'(1) a by auto
qed

text \<open>Only the heap changes, the page tables do not.\<close>

definition heap_part :: "'a heap_state_scheme \<Rightarrow> 'a heap_state_scheme \<Rightarrow> bool" where
  "heap_part s s' \<longleftrightarrow> (\<exists>m p q e. s' = s\<lparr>hmem := m, free_list := p, heap_brk := q, heap_end := e\<rparr>)"

lemma heap_partI: "s' = s\<lparr>hmem := m, free_list := p, heap_brk := q, heap_end := e\<rparr> \<Longrightarrow> heap_part s s'"
  unfolding heap_part_def by blast

lemma heap_part_trans: "heap_part s s1 \<Longrightarrow> heap_part s1 s2 \<Longrightarrow> heap_part s s2"
  by (auto simp: heap_part_def intro: heap_partI [unfolded heap_part_def])

lemma heap_only_part: "heap_only s s' \<Longrightarrow> heap_part s s'"
  unfolding heap_only_def by (elim exE, rule heap_partI [where q = "heap_brk s" and e = "heap_end s"]) simp

lemma heap_part_pt_wf: "heap_part s s' \<Longrightarrow> pt_wf s F \<Longrightarrow> pt_wf s' F"
  by (rule pt_wf_cong [of s F]) (auto simp: heap_part_def intro: free_ok_cong [OF pt_wfD(2)])

definition moved :: "nat \<Rightarrow> 'a heap_state_scheme \<Rightarrow> 'a heap_state_scheme" where
  "moved n s = s\<lparr>heap_brk := heap_brk s + W n, heap_end := heap_brk s + W n\<rparr>"

lemma moved_sel [simp]: "hmem (moved n s) = hmem s" "free_list (moved n s) = free_list s" "heap_brk (moved n s) = heap_brk s + W n"
    "heap_end (moved n s) = heap_brk s + W n" "heap_part s (moved n s)" "agree A s (moved n s)"
proof -
  show "heap_part s (moved n s)"
    unfolding moved_def by (rule heap_partI [where m = "hmem s" and p = "free_list s"]) simp
qed (simp_all add: moved_def agree_def)

lemma moved_fold: "s\<lparr>heap_brk := heap_brk s + W n\<rparr>\<lparr>heap_end := heap_brk (s\<lparr>heap_brk := heap_brk s + W n\<rparr>)\<rparr> = moved n s"
  by (simp add: moved_def)

lemma moved_hstore: "moved n (hstore a v s) = hstore a v (moved n s)" "moved n (set_next a v s) = set_next a v (moved n s)"
  by (simp_all add: moved_def hstore_def set_next_def)

lemma agree_moved [simp]: "agree A s (moved n s') = agree A s s'"
  by (simp add: agree_def)

text \<open>The free block of size \<open>n\<close> that growing makes at \<open>b\<close>, the end of \<open>xs\<close>, in a state whose list has no block there.\<close>

lemma grown_block:
  assumes b: "blocks_at (hmem s) H0 False xs" "\<not> last_free False xs" "flist s (frees H0 xs)"
    and n: "16 \<le> n" "4 dvd n" "H0 + tot xs + n \<le> 0xFFC00000"
    and e: "heap_brk s = W (H0 + tot xs + n)" "heap_end s = heap_brk s"
    and h: "hmem s (W (H0 + tot xs)) = hdr n True False"
  shows "\<exists>s'. insert_free (W (H0 + tot xs)) (set_next (W (H0 + tot xs)) 0 (hstore (W (H0 + tot xs + n - 4)) (W n) s)) = Some s' \<and>
    heap_wf s' (xs @ [(n, True)]) \<and> heap_part s s' \<and> agree (nexts (frees H0 xs) \<union> {H0 + tot xs..H0 + tot xs + n}) s s'"
proof -
  define c where "c = H0 + tot xs"
  have p: "c + 4 < 4294967296" "c + n - 4 < 4294967296" "c < 4294967296" "c + 4 \<noteq> c + n - 4" "c \<noteq> c + n - 4" "c \<le> c + n - 4"
    using n by (auto simp: c_def)
  let ?s = "set_next (W c) 0 (hstore (W (c + n - 4)) (W n) s)"
  have e1: "?s = hstore (W (c + 4)) 0 (hstore (W (c + n - 4)) (W n) s)" by (simp add: set_next_def)
  have a: "agree {c + n - 4, c + 4} s ?s"
    unfolding e1 by (rule agree_mono [OF agree_trans [OF agree_hstore [OF p(2)] agree_hstore [OF p(1)]]]) auto
  have ho: "heap_only s ?s" by (meson heap_only_trans heap_only_hstore set_next_heap_only)
  have 1: "blocks_at (hmem ?s) H0 False xs" by (rule blocks_below [OF b(1) a]) (use n p in \<open>auto simp: c_def\<close>)
  have 2: "flist ?s (frees H0 xs)"
  proof (rule flist_agree [OF b(3) a])
    show "free_list ?s = free_list s" by (simp add: e1)
    show "x + 4 < 4294967296 \<and> x + 4 \<notin> {c + n - 4, c + 4}" if "x \<in> set (frees H0 xs)" for x
      using frees_bounds [OF blocks_at_sizes [OF b(1)] that] p n(1) by (auto simp: c_def)
  qed
  have 3: "heap_brk ?s = W (H0 + tot xs + n)" "heap_end ?s = heap_brk ?s" using e by (simp_all add: e1)
  have 4: "hmem ?s (W (H0 + tot xs)) = hdr n True False" "hmem ?s (W (H0 + tot xs + n - 4)) = W n"
    using h p by (simp_all add: e1 c_def [symmetric])
  obtain s' where s': "insert_free (W c) ?s = Some s'" "heap_wf s' (xs @ [(n, True)])" "heap_only ?s s'"
      "agree (nexts (frees H0 xs) \<union> {c + 4}) ?s s'"
    using append_block [OF 1 b(2) 2 n 3 4] by (auto simp: c_def)
  have "agree (nexts (frees H0 xs) \<union> {c..c + n}) s s'"
    by (rule agree_mono [OF agree_trans [OF a s'(4)]]) (use n p in auto)
  then show ?thesis using s' heap_only_part [OF heap_only_trans [OF ho s'(3)]] unfolding c_def by blast
qed

lemma grow_link_free:
  assumes wf: "heap_wf s (xs @ [(z, True)])" and n: "16 \<le> n" "4 dvd n" "H0 + tot xs + z + n \<le> 0xFFC00000"
  shows "\<exists>s'. grow_link (W n) s = Some s' \<and> heap_wf s' (xs @ [(z + n, True)]) \<and> heap_part s s' \<and>
    agree (nexts (frees H0 xs) \<union> {H0 + tot xs..H0 + tot xs + (z + n)}) s s'"
proof -
  define c where "c = H0 + tot xs"
  note d = heap_wfD [OF wf, folded c_def] and q = heap_zip [OF wf, folded c_def]
  obtain s1 where s1: "remove_free (W c) s = Some s1" "flist s1 (frees H0 xs)" "agree (nexts (frees H0 xs)) s s1"
      "heap_only s s1" "hmem s1 (W c) = hdr z True False"
    using remove_block [OF wf, folded c_def] by auto
  have b: "heap_brk s = W (c + z)" "heap_end s = W (c + z)" "c < 4294967296" "c + z < 4294967296" "H0 \<le> c" using d(10-12) by (auto simp: c_def)
  have 1: "W (c + z) - 4 = W (c + z - 4)" "hmem s (W (c + z - 4)) = W z" "W (c + z) - W z = W c" using d(3,4) by simp_all
  have g: "block_in_heap (W c) s" by (subst block_in_heap_W [OF _ _ b(2)]) (use b(3-5) d(4) in simp_all)
  have f: "block_is_free (W c) s" using d(2,5) by (simp add: block_is_free_def BLOCK_FLAG_FREE_def)
  have v: "HEAP_VIRT_START < W (c + z)" using b d(4) by (simp add: HEAP_VIRT_START_def W_numeral)
  let ?s2 = "moved n (hstore (W c) (hdr (z + n) True False) s1)"
  have 2: "W (z + n) OR BLOCK_FLAG_FREE OR (hmem s1 (W c) AND BLOCK_FLAG_PREV_FREE) = hdr (z + n) True False"
    using s1(5) d(5) n(2) by (simp add: BLOCK_FLAG_FREE_def BLOCK_FLAG_PREV_FREE_def)
  have 3: "block_size (W c) ?s2 = W (z + n)" using d(5) n(2) by (simp add: block_size_W)
  have 4: "block_footer (W c) ?s2 = W (c + (z + n) - 4)" using d(4) by (simp add: block_footer_def 3)
  have run: "grow_link (W n) s = insert_free (W c) (set_next (W c) 0 (hstore (W (c + (z + n) - 4)) (W (z + n)) ?s2))"
    unfolding grow_link_def Let_def b(1) 1 using g f v
    by (simp only: s1(1) Option.bind.simps 2 moved_fold 3 4 if_True simp_thms W_add)
  have a: "agree (nexts (frees H0 xs) \<union> {c}) s ?s2"
    using agree_trans [OF s1(3) agree_hstore [OF b(3), of s1 "hdr (z + n) True False"]] by simp
  have 5: "blocks_at (hmem ?s2) H0 False xs" by (rule blocks_below [OF d(1) a]) (use n in \<open>auto simp: c_def\<close>)
  have 6: "flist ?s2 (frees H0 xs)"
  proof (rule flist_agree [OF s1(2), of "{c}"])
    show "agree {c} s1 ?s2" using agree_hstore [OF b(3)] by simp
    show "x + 4 < 4294967296 \<and> x + 4 \<notin> {c}" if "x \<in> set (frees H0 xs)" for x using q(3) [OF that] b(3) by auto
  qed simp
  have 7: "heap_brk ?s2 = W (H0 + tot xs + (z + n))" "heap_end ?s2 = heap_brk ?s2"
    using heap_only_sel [OF s1(4)] b by (simp_all add: c_def add.assoc)
  obtain s' where s': "grow_link (W n) s = Some s'" "heap_wf s' (xs @ [(z + n, True)])" "heap_part ?s2 s'"
      "agree (nexts (frees H0 xs) \<union> {c..c + (z + n)}) ?s2 s'"
    using grown_block [OF 5 _ 6 _ _ _ 7] d(4-6) n s1(5) unfolding run c_def by auto
  have "heap_part s s'" by (meson heap_part_trans heap_only_part heap_only_trans heap_only_hstore s1(4) s'(3) moved_sel(5))
  moreover have "agree (nexts (frees H0 xs) \<union> {c..c + (z + n)}) s s'" by (rule agree_mono [OF agree_trans [OF a s'(4)]]) auto
  ultimately show ?thesis using s' unfolding c_def by blast
qed

lemma grow_link_used:
  assumes wf: "heap_wf s bs" and l: "\<not> last_free False bs" and n: "16 \<le> n" "4 dvd n" "H0 + tot bs + n \<le> 0xFFC00000"
  shows "\<exists>s'. grow_link (W n) s = Some s' \<and> heap_wf s' (bs @ [(n, True)]) \<and> heap_part s s' \<and>
    agree (nexts (frees H0 bs) \<union> {H0 + tot bs..H0 + tot bs + n}) s s'"
proof -
  define c where "c = H0 + tot bs"
  note d = heap_wf_brk [OF wf, folded c_def]
  obtain xs z where x: "bs = xs @ [(z, False)]" using d(5) l by (cases bs rule: rev_cases) auto
  have z: "hmem s (W (c - 4)) = W z" "16 \<le> z" "z \<le> c" "4 dvd z" "hmem s (W (c - z)) = hdr z False (last_free False xs)"
    using heap_wfD(2-5) [of s xs z False "[]"] wf x by (auto simp: c_def)
  have b: "c < 4294967296" "c + n - 4 < 4294967296" "c + n \<le> 0xFFC00000" "H0 \<le> c" "4 \<le> c" using n by (auto simp: c_def)
  have f: "\<not> block_is_free (W (c - z)) s" using z(4,5) by (simp add: block_is_free_def BLOCK_FLAG_FREE_def)
  let ?s1 = "hstore (W c) (hdr n True False) s"
  have 1: "W n OR BLOCK_FLAG_FREE = hdr n True False" using n by (simp add: BLOCK_FLAG_FREE_def)
  have 2: "block_footer (W c) ?s1 = W (c + n - 4)" using n by (simp add: block_footer_def block_size_W)
  have run: "grow_link (W n) s = insert_free (W c) (set_next (W c) 0 (hstore (W (c + n - 4)) (W n) (moved n ?s1)))"
  proof -
    have p: "W c - 4 = W (c - 4)" "W c - W z = W (c - z)" using b(5) z(3) by simp_all
    show ?thesis unfolding grow_link_def Let_def d(1) p z(1)
      by (simp only: f simp_thms if_False p z(1) 1 2)
        (rule arg_cong [where f = "insert_free (W c)"], simp add: d(1) moved_def hstore_def set_next_def)
  qed
  have a: "agree {c} s (moved n ?s1)" using agree_hstore [OF b(1)] by simp
  have 5: "blocks_at (hmem (moved n ?s1)) H0 False bs"
    by (rule blocks_below [OF _ a]) (use wf n in \<open>auto simp: heap_wf_def c_def\<close>)
  have 6: "flist (moved n ?s1) (frees H0 bs)"
  proof (rule flist_agree [OF _ a])
    show "flist s (frees H0 bs)" using wf by (simp add: heap_wf_def)
    show "x + 4 < 4294967296 \<and> x + 4 \<notin> {c}" if "x \<in> set (frees H0 bs)" for x
      using frees_bounds [OF d(4) that] b by (auto simp: c_def)
  qed simp
  have 7: "heap_brk (moved n ?s1) = W (H0 + tot bs + n)" "heap_end (moved n ?s1) = heap_brk (moved n ?s1)"
    using d(1) by (simp_all add: c_def)
  obtain s' where s': "grow_link (W n) s = Some s'" "heap_wf s' (bs @ [(n, True)])" "heap_part (moved n ?s1) s'"
      "agree (nexts (frees H0 bs) \<union> {c..c + n}) (moved n ?s1) s'"
    using grown_block [OF 5 l 6 n 7] unfolding run c_def by auto
  have "heap_part s s'" by (meson heap_part_trans heap_only_part heap_only_hstore s'(3) moved_sel(5))
  moreover have "agree (nexts (frees H0 bs) \<union> {c..c + n}) s s'" by (rule agree_mono [OF agree_trans [OF a s'(4)]]) auto
  ultimately show ?thesis using s' unfolding c_def by blast
qed

lemma heap_wf_cong:
  assumes "heap_wf s bs" "hmem s' = hmem s" "free_list s' = free_list s" "heap_brk s' = heap_brk s" "heap_end s' = heap_end s"
  shows "heap_wf s' bs"
proof -
  have "fb_next b s' = fb_next b s" for b using assms(2) by (simp add: fb_next_def)
  then have "flist s' fs = flist s fs" for fs using assms(3) by (simp add: flist_def)
  then show ?thesis using assms by (simp add: heap_wf_def)
qed

lemma keeps_refl [simp]: "hmem s' = hmem s \<Longrightarrow> keeps R s s'"
  by (auto simp: keeps_def)

lemma keeps_trans: "keeps R s s1 \<Longrightarrow> keeps R s1 s2 \<Longrightarrow> keeps R s s2"
  by (fastforce simp: keeps_def)

lemma keeps_mono: "keeps R s s' \<Longrightarrow> R' \<subseteq> R \<Longrightarrow> keeps R' s s'"
  by (auto simp: keeps_def)

lemma grow_link_ok:
  assumes wf: "heap_wf s bs" and n: "16 \<le> n" "4 dvd n" "H0 + tot bs + n \<le> 0xFFC00000"
  shows "\<exists>s' bs' w. grow_link (W n) s = Some s' \<and> heap_wf s' bs' \<and> heap_part s s' \<and> set (owned H0 bs') = set (owned H0 bs) \<and>
    keeps (set (owned H0 bs)) s s' \<and> (w, True) \<in> set bs' \<and> n \<le> w \<and> tot bs' = tot bs + n"
proof (cases "last_free False bs")
  case True
  then obtain xs z where x: "bs = xs @ [(z, True)]" using heap_wf_brk(5) [OF wf] by (cases bs rule: rev_cases) auto
  have m: "H0 + tot xs + z + n \<le> 0xFFC00000" using n(3) x by (simp add: add.assoc)
  obtain s' where s': "grow_link (W n) s = Some s'" "heap_wf s' (xs @ [(z + n, True)])" "heap_part s s'"
      "agree (nexts (frees H0 xs) \<union> {H0 + tot xs..H0 + tot xs + (z + n)}) s s'"
    using grow_link_free [OF wf [unfolded x] n(1,2) m] by blast
  have so: "sizes_ok xs" using heap_wf_brk(4) [OF wf] x by simp
  have "keeps (set (owned H0 bs)) s s'" using keeps_around [OF so _ _ s'(4), of "[]"] m x by (simp add: owned_append)
  moreover have "set (owned H0 (xs @ [(z + n, True)])) = set (owned H0 bs)" "(z + n, True) \<in> set (xs @ [(z + n, True)])"
    "tot (xs @ [(z + n, True)]) = tot bs + n"
    using x by (simp_all add: owned_append)
  ultimately show ?thesis using s'(1-3) le_add2 [of n z] by blast
next
  case False
  obtain s' where s': "grow_link (W n) s = Some s'" "heap_wf s' (bs @ [(n, True)])" "heap_part s s'"
      "agree (nexts (frees H0 bs) \<union> {H0 + tot bs..H0 + tot bs + n}) s s'"
    using grow_link_used [OF wf False n] by blast
  have "keeps (set (owned H0 bs)) s s'" using keeps_around [OF heap_wf_brk(4) [OF wf] _ _ s'(4), of "[]"] n by simp
  moreover have "set (owned H0 (bs @ [(n, True)])) = set (owned H0 bs)" "(n, True) \<in> set (bs @ [(n, True)])"
    "tot (bs @ [(n, True)]) = tot bs + n" by (simp_all add: owned_append)
  ultimately show ?thesis using s'(1-3) by blast
qed

lemma grow_heap_ok:
  assumes wf: "heap_wf s bs" "pt_wf s F" and t: "0 < t" "t \<le> 0x20000000" "H0 + tot bs + t + 4096 \<le> 0xFE000000"
  shows "\<exists>r s' bs' F'. grow_heap (W t) s = Some (r, s') \<and> heap_wf s' bs' \<and> pt_wf s' F' \<and>
    set (owned H0 bs') = set (owned H0 bs) \<and> keeps (set (owned H0 bs)) s s' \<and>
    (r = 0 \<longrightarrow> (\<exists>w. (w, True) \<in> set bs' \<and> t \<le> w)) \<and> tot bs' \<le> tot bs + t + 4096"
proof -
  define k where "k = (t + 4095) div 4096"
  have k: "t \<le> k * 4096" "k * 4096 \<le> t + 4095" using t(1) by (simp_all add: k_def)
  have pg: "(W t + of_nat PAGE_SIZE - 1) div of_nat PAGE_SIZE = W k"
  proof -
    have "W t + of_nat PAGE_SIZE - 1 = W (t + 4095)" by (simp add: W_def)
    moreover have "unat (W (t + 4095) div 4096) = k" using t(2) by (simp add: unat_div k_def)
    then have "W (t + 4095) div 4096 = W k" by (metis W_unat)
    ultimately show ?thesis by simp
  qed
  have uk: "unat (W k) = k" using k t(2) by simp
  have ul: "W k * of_nat PAGE_SIZE = W (k * 4096)" by (simp add: W_def)
  note d = heap_wf_brk [OF wf(1)]
  have ub: "unat (heap_brk s) = H0 + tot bs" using d(1,3) by simp
  have "\<forall>i \<in> set [0..<k]. unat (heap_brk s) + i * PAGE_SIZE < 0xFFC00000" using ub t(3) k by auto
  then obtain r s1 F1 where s1: "grow_pages [0..<k] s = Some (r, s1)" "pt_wf s1 F1" "r = 0 \<or> r = -1"
    using grow_pages_total [OF wf(2)] by blast
  note fr = pg_frame_heap [OF grow_pages_frame [OF s1(1)]]
  have wf1: "heap_wf s1 bs" by (rule heap_wf_cong [OF wf(1) fr(1-4)])
  have g: "W t \<noteq> 0" "\<not> heap_brk s \<ge> 0xFE000000" using t d(1,3) by (simp_all add: W_numeral)
  have run: "grow_heap (W t) s = (if r \<noteq> 0 then Some (-1, s1)
      else Option.bind (grow_link (W (k * 4096)) s1) (\<lambda>s. Some (0, s)))"
    using g s1(1) unfolding grow_heap_def Let_def pg uk ul by simp
  show ?thesis
  proof (cases "r = 0")
    case False
    then show ?thesis using run wf1 s1(2) fr(1) by auto
  next
    case True
    have n: "16 \<le> k * 4096" "4 dvd k * 4096" "H0 + tot bs + k * 4096 \<le> 0xFFC00000"
    proof -
      have "1 \<le> k" using t(1) by (simp add: k_def)
      then show "16 \<le> k * 4096" by linarith
    qed (use t k in auto)
    obtain s' bs' w where s': "grow_link (W (k * 4096)) s1 = Some s'" "heap_wf s' bs'" "heap_part s1 s'"
        "set (owned H0 bs') = set (owned H0 bs)" "keeps (set (owned H0 bs)) s1 s'" "(w, True) \<in> set bs'" "k * 4096 \<le> w"
        "tot bs' = tot bs + k * 4096"
      using grow_link_ok [OF wf1 n] by blast
    have "keeps (set (owned H0 bs)) s s'" using keeps_trans [OF keeps_refl s'(5)] fr(1) by blast
    moreover have "\<exists>w. (w, True) \<in> set bs' \<and> t \<le> w" using s'(6,7) k(1) by (blast intro: le_trans)
    ultimately show ?thesis using run True s' heap_part_pt_wf [OF s'(3) s1(2)] k
      by (intro exI [of _ 0] exI [of _ s'] exI [of _ bs'] exI [of _ F1]) auto
  qed
qed

section \<open>Allocation\<close>

text \<open>A new block is disjoint from all others.\<close>

lemma owned_disjoint:
  assumes "sizes_ok xs" "sizes_ok ys" "(q, k) \<in> set (owned a xs) \<union> set (owned (a + tot xs + z) ys)" "m + 8 \<le> z"
  shows "{a + tot xs + 4..<a + tot xs + 4 + m} \<inter> {q..<q + k} = {}"
  using assms(3) owned_bounds [OF assms(1), of q k a] owned_bounds [OF assms(2), of q k "a + tot xs + z"] assms(4) by auto

text \<open>What \<open>kmalloc\<close> and \<open>kfree\<close> promise of a state in which the blocks \<open>R\<close> are in use.\<close>

definition allocates :: "nat \<Rightarrow> 'a heap_state_scheme \<Rightarrow> blocks \<Rightarrow> nat \<Rightarrow> 'a heap_state_scheme \<Rightarrow> blocks \<Rightarrow> bool" where
  "allocates n s bs p s' bs' \<longleftrightarrow> heap_wf s' bs' \<and> keeps (set (owned H0 bs)) s s' \<and> 4 dvd p \<and>
     (\<exists>m. n \<le> m \<and> m \<le> n + 22 \<and> (p, m) \<notin> set (owned H0 bs) \<and> set (owned H0 bs') = insert (p, m) (set (owned H0 bs)) \<and>
        (\<forall>(q, k) \<in> set (owned H0 bs). {p..<p + m} \<inter> {q..<q + k} = {}))"

lemma tot_dvd: "sizes_ok bs \<Longrightarrow> 4 dvd tot bs"
  by (induction bs) auto

lemma take_block_allocates:
  assumes wf: "heap_wf s (xs @ (z, True) # ys)" and t: "16 \<le> t" "4 dvd t" "t \<le> z" "n + 8 \<le> t" "t \<le> n + 15"
  shows "\<exists>s'. take_block (W (H0 + tot xs)) (W t) s = Some (W (H0 + tot xs + 4), s') \<and> heap_only s s' \<and>
    allocates n s (xs @ (z, True) # ys) (H0 + tot xs + 4) s' (xs @ take_spec z t @ ys)"
proof -
  note d = heap_wfD [OF wf]
  obtain s' where s': "take_block (W (H0 + tot xs)) (W t) s = Some (W (H0 + tot xs + 4), s')" "heap_wf s' (xs @ take_spec z t @ ys)"
      "heap_only s s'" "agree (nexts (frees H0 xs) \<union> {H0 + tot xs..H0 + tot xs + z}) s s'"
    using take_block_ok [OF wf t(1-3)] by blast
  obtain m where m: "t - 8 \<le> m \<and> m \<le> t + 7" "set (owned H0 (xs @ take_spec z t @ ys)) =
      insert (H0 + tot xs + 4, m) (set (owned H0 xs) \<union> set (owned (H0 + tot xs + z) ys))" "m + 8 \<le> z"
    using owned_take [of t z xs ys] t by auto
  have o: "set (owned H0 (xs @ (z, True) # ys)) = set (owned H0 xs) \<union> set (owned (H0 + tot xs + z) ys)" by (simp add: owned_append)
  have k: "keeps (set (owned H0 (xs @ (z, True) # ys))) s s'" unfolding o by (rule keeps_around [OF d(8-10) s'(4)])
  have dj: "\<forall>(q, k) \<in> set (owned H0 (xs @ (z, True) # ys)). {H0 + tot xs + 4..<H0 + tot xs + 4 + m} \<inter> {q..<q + k} = {}"
    unfolding o using owned_disjoint [OF d(8,9) _ m(3)] by blast
  have "n \<le> m" "m \<le> n + 22" using m(1) t(4,5) by linarith+
  moreover have "(H0 + tot xs + 4, m) \<notin> set (owned H0 (xs @ (z, True) # ys))"
    unfolding o using owned_bounds [OF d(8), of _ m H0] owned_bounds [OF d(9), of _ m "H0 + tot xs + z"] d(4) by force
  ultimately have "allocates n s (xs @ (z, True) # ys) (H0 + tot xs + 4) s' (xs @ take_spec z t @ ys)"
    unfolding allocates_def using s'(2) k dj m(2) o tot_dvd [OF d(8)] by (auto simp: dvd_add_right_iff)
  then show ?thesis using s' by blast
qed

lemma allocates_after:
  assumes "allocates n s1 bs1 p s' bs'" "keeps (set (owned H0 bs)) s s1" "set (owned H0 bs1) = set (owned H0 bs)"
  shows "allocates n s bs p s' bs'"
  using assms keeps_trans [OF assms(2)] by (simp add: allocates_def)

lemma kmalloc_ok:
  assumes wf: "heap_wf s bs" "pt_wf s F" and n: "0 < n" "n \<le> 0x10000000" "H0 + tot bs + n + 8192 \<le> 0xFE000000"
  shows "\<exists>p s' bs' F'. kmalloc (W n) s = Some (W p, s') \<and> pt_wf s' F' \<and>
    (if p = 0 then heap_wf s' bs' \<and> set (owned H0 bs') = set (owned H0 bs) \<and> keeps (set (owned H0 bs)) s s' \<and>
       (\<forall>z. (z, True) \<in> set bs \<longrightarrow> z < n + 16)
     else allocates n s bs p s' bs') \<and> tot bs' \<le> tot bs + n + 8192"
proof -
  obtain t where t: "total_size (W n) = W t" "16 \<le> t" "4 dvd t" "n + 8 \<le> t" "t \<le> n + 15" using total_size_W [OF n(1,2)] by metis
  have lt: "t < 4294967296" using t(5) n(2) by simp
  have take: "\<exists>s' bs'. take_block (W (H0 + tot xs)) (W t) s1 = Some (W (H0 + tot xs + 4), s') \<and> pt_wf s' F1 \<and>
      allocates n s1 bs1 (H0 + tot xs + 4) s' bs' \<and> tot bs' = tot bs1"
    if w: "heap_wf s1 bs1" "pt_wf s1 F1" "bs1 = xs @ (z, True) # ys" "t \<le> z" for s1 bs1 F1 xs z ys
  proof -
    obtain s' where s': "take_block (W (H0 + tot xs)) (W t) s1 = Some (W (H0 + tot xs + 4), s')" "heap_only s1 s'"
        "allocates n s1 (xs @ (z, True) # ys) (H0 + tot xs + 4) s' (xs @ take_spec z t @ ys)"
      using take_block_allocates [OF _ t(2,3) w(4) t(4,5)] w(1,3) by blast
    have "tot (xs @ take_spec z t @ ys) = tot bs1" using w(3,4) by (simp add: take_spec_def)
    then show ?thesis using s' heap_part_pt_wf [OF heap_only_part [OF s'(2)] w(2)] w(3) by blast
  qed
  have k: "kmalloc (W n) s = Option.bind (find_block (W t) s) (\<lambda>fb. if fb \<noteq> 0 then take_block fb (W t) s
      else Option.bind (grow_heap (W t) s) (\<lambda>(r, s). if r \<noteq> 0 then Some (0, s)
        else Option.bind (find_block (W t) s) (\<lambda>fb. if fb = 0 then Some (0, s) else take_block fb (W t) s)))"
    using n by (simp add: kmalloc_def t(1) Let_def)
  have nz: "W (H0 + tot xs) \<noteq> 0" if "heap_wf s1 (xs @ y # ys)" for s1 :: "'a heap_state_scheme" and xs y ys
    using heap_wf_brk(3) [OF that] by (cases y) simp
  show ?thesis
  proof (cases "\<exists>z. (z, True) \<in> set bs \<and> t \<le> z")
    case True
    then obtain xs z ys where f: "bs = xs @ (z, True) # ys" "t \<le> z" "find_block (W t) s = Some (W (H0 + tot xs))"
      using find_block_ok [OF wf(1) lt] by fastforce
    then show ?thesis using take [OF wf f(1,2)] k nz [OF wf(1) [unfolded f(1)]] by fastforce
  next
    case False
    then have f: "find_block (W t) s = Some 0" "\<forall>z. (z, True) \<in> set bs \<longrightarrow> z < n + 16"
      using find_block_ok [OF wf(1) lt] t(5) by fastforce+
    obtain r s1 bs1 F1 where g: "grow_heap (W t) s = Some (r, s1)" "heap_wf s1 bs1" "pt_wf s1 F1"
        "set (owned H0 bs1) = set (owned H0 bs)" "keeps (set (owned H0 bs)) s s1"
        "r = 0 \<longrightarrow> (\<exists>w. (w, True) \<in> set bs1 \<and> t \<le> w)" "tot bs1 \<le> tot bs + t + 4096"
      using grow_heap_ok [OF wf, of t] t n by fastforce
    show ?thesis
    proof (cases "r = 0")
      case False
      then show ?thesis using k f g t(5) by (intro exI [of _ 0] exI [of _ s1] exI [of _ bs1] exI [of _ F1]) auto
    next
      case True
      then obtain xs z ys where h: "bs1 = xs @ (z, True) # ys" "t \<le> z" "find_block (W t) s1 = Some (W (H0 + tot xs))"
        using find_block_ok [OF g(2) lt] g(6) by fastforce
      obtain s' bs' where s': "take_block (W (H0 + tot xs)) (W t) s1 = Some (W (H0 + tot xs + 4), s')" "pt_wf s' F1"
          "allocates n s1 bs1 (H0 + tot xs + 4) s' bs'" "tot bs' = tot bs1"
        using take [OF g(2,3) h(1,2)] by blast
      show ?thesis using k f g(1,7) h(3) True s' nz [OF g(2) [unfolded h(1)]] allocates_after [OF s'(3) g(5,4)] t(5)
        by (intro exI [of _ "H0 + tot xs + 4"] exI [of _ s'] exI [of _ bs'] exI [of _ F1]) auto
    qed
  qed
qed

section \<open>Release\<close>

lemma owned_split:
  "(p, m) \<in> set (owned a bs) \<Longrightarrow> \<exists>xs z ys. bs = xs @ (z, False) # ys \<and> p = a + tot xs + 4 \<and> m = z - 8"
proof (induction a bs rule: owned.induct)
  case (2 a z f bs)
  show ?case
  proof (cases "\<not> f \<and> (p, m) = (a + 4, z - 8)")
    case True
    then show ?thesis by (intro exI [of _ "[]"]) auto
  next
    case False
    then obtain xs z' ys where "bs = xs @ (z', False) # ys" "p = a + z + tot xs + 4" "m = z' - 8" using 2 by (auto split: if_splits)
    then show ?thesis by (intro exI [of _ "(z, f) # xs"]) auto
  qed
qed simp

lemma merge_prev_owned:
  assumes "merge_prev xs z = (xs1, z0)"
  shows "owned a xs1 = owned a xs" "tot xs1 + z0 = tot xs + z" "sizes_ok xs \<Longrightarrow> sizes_ok xs1"
  using assms by (cases xs rule: rev_cases; auto simp: merge_prev_def owned_append split: if_splits)+

lemma merge_next_owned:
  assumes "merge_next z ys = (z1, ys1)"
  shows "owned (c + z1) ys1 = owned (c + z) ys" "z1 + tot ys1 = z + tot ys" "sizes_ok ys \<Longrightarrow> sizes_ok ys1"
  using assms by (auto simp: merge_next_def add.assoc split: list.splits bool.splits)

lemma kfree_releases_ok:
  assumes wf: "heap_wf s bs" and p: "(p, m) \<in> set (owned H0 bs)"
  shows "\<exists>s' bs'. kfree (W p) s = Some s' \<and> heap_wf s' bs' \<and> set (owned H0 bs') = set (owned H0 bs) - {(p, m)} \<and>
    keeps (set (owned H0 bs')) s s' \<and> heap_only s s' \<and> tot bs' = tot bs"
proof -
  obtain xs z ys where x: "bs = xs @ (z, False) # ys" "p = H0 + tot xs + 4" "m = z - 8" using owned_split [OF p] by blast
  obtain xs1 z0 z1 ys1 where m: "merge_prev xs z = (xs1, z0)" "merge_next z0 ys = (z1, ys1)" by (metis surj_pair)
  note wf1 = wf [unfolded x(1)]
  note d = heap_wfD [OF wf1] and mp = merge_prev_owned [OF m(1)] and mn = merge_next_owned [OF m(2)]
  obtain s' where s': "kfree (W p) s = Some s'" "heap_wf s' (xs1 @ [(z1, True)] @ ys1)" "heap_only s s'"
      "agree (nexts (frees H0 xs1) \<union> {H0 + tot xs1..H0 + tot xs1 + z1}) s s'"
    using kfree_ok [OF wf1 m] x(2) by blast
  have e: "H0 + tot xs1 + z0 = H0 + tot xs + z" "H0 + tot xs1 + z1 + tot ys1 = H0 + tot xs + z + tot ys" using mp(2) mn(2) by linarith+
  have o: "owned H0 (xs1 @ [(z1, True)] @ ys1) = owned H0 xs @ owned (H0 + tot xs + z) ys"
    using mp(1) [of H0] mn(1) [of "H0 + tot xs1"] e(1) by (simp add: owned_append)
  have "keeps (set (owned H0 xs1) \<union> set (owned (H0 + tot xs1 + z1) ys1)) s s'"
    by (rule keeps_around [OF mp(3) [OF d(8)] mn(3) [OF d(9)] _ s'(4)]) (use e(2) d(10) in simp)
  then have k: "keeps (set (owned H0 (xs1 @ [(z1, True)] @ ys1))) s s'" by (simp add: owned_append)
  have "(p, m) \<notin> set (owned H0 xs @ owned (H0 + tot xs + z) ys)"
    using owned_bounds [OF d(8), of p m H0] owned_bounds [OF d(9), of p m "H0 + tot xs + z"] x(2) d(4) by auto
  then have "set (owned H0 (xs1 @ [(z1, True)] @ ys1)) = set (owned H0 bs) - {(p, m)}"
    unfolding o using x by (auto simp: owned_append)
  then show ?thesis using s' k e(2) x(1) by (intro exI [of _ s'] exI [of _ "xs1 @ [(z1, True)] @ ys1"]) auto
qed

section \<open>Space\<close>

lemma frees_count:
  "blocks_at m a pf bs \<Longrightarrow> length (frees a bs) + (if pf then 1 else 0) \<le> length (owned a bs) + 1"
  by (induction m a pf bs rule: blocks_at.induct) (auto split: if_splits)

lemma tot_bound:
  "(\<And>z. (z, True) \<in> set bs \<Longrightarrow> z \<le> k) \<Longrightarrow> sizes_ok bs \<Longrightarrow>
   tot bs \<le> sum_list (map (\<lambda>(p, m). m + 8) (owned a bs)) + k * length (frees a bs)"
proof (induction a bs rule: frees.induct)
  case (2 a z f bs)
  have "tot bs \<le> sum_list (map (\<lambda>(p, m). m + 8) (owned (a + z) bs)) + k * length (frees (a + z) bs)"
    by (rule "2.IH") (use "2.prems" in auto)
  moreover have "f \<Longrightarrow> z \<le> k" using "2.prems"(1) [of z] by auto
  ultimately show ?case using "2.prems"(2) by auto
qed simp

lemma owned_distinct: "sizes_ok bs \<Longrightarrow> distinct (owned a bs)"
proof (induction a bs rule: owned.induct)
  case (2 a z f bs)
  then show ?case using owned_bounds [of bs "a + 4" "z - 8" "a + z"] by auto
qed simp

definition used :: "(nat \<times> nat) set \<Rightarrow> nat" where
  "used R = (\<Sum>(p, m) \<in> R. m + 8)"

text \<open>With \<open>k\<close> blocks in use there are at most \<open>k + 1\<close> free ones, so one of them has its share of the free space.\<close>

lemma free_share:
  assumes wf: "heap_wf s bs" and n: "used (set (owned H0 bs)) + n * (card (set (owned H0 bs)) + 1) \<le> tot bs" "0 < n"
  obtains z where "(z, True) \<in> set bs" "n \<le> z"
proof (rule ccontr)
  assume c: "\<not> thesis"
  note found = that
  have s: "z \<le> n - 1" if m: "(z, True) \<in> set bs" for z using c found [OF m] by (cases "n \<le> z") auto
  note so = heap_wf_brk(4) [OF wf]
  let ?R = "set (owned H0 bs)"
  have l: "length (owned H0 bs) = card ?R" using distinct_card [OF owned_distinct [OF so]] by simp
  have "length (frees H0 bs) \<le> card ?R + 1" using frees_count [of "hmem s" H0 False bs] wf l by (simp add: heap_wf_def)
  then have "(n - 1) * length (frees H0 bs) \<le> (n - 1) * (card ?R + 1)" by (rule mult_le_mono2)
  moreover have "sum_list (map (\<lambda>(p, m). m + 8) (owned H0 bs)) = used ?R"
    unfolding used_def by (rule sum_list_distinct_conv_sum_set [OF owned_distinct [OF so]])
  moreover have "(n - 1) * (card ?R + 1) < n * (card ?R + 1)" by (rule mult_strict_right_mono) (use n(2) in simp_all)
  ultimately show False using tot_bound [OF s so, of H0] n(1) by linarith
qed

text \<open>\<open>kmalloc\<close> when a free block is large enough: the heap does not grow.\<close>

lemma kmalloc_fits:
  assumes wf: "heap_wf s bs" and n: "0 < n" "n \<le> 0x10000000" "(z, True) \<in> set bs" "n + 16 \<le> z"
  shows "\<exists>p s' bs'. kmalloc (W n) s = Some (W p, s') \<and> allocates n s bs p s' bs' \<and> heap_only s s' \<and> tot bs' = tot bs \<and>
    p < 4294967296 \<and> p \<noteq> 0"
proof -
  obtain t where t: "total_size (W n) = W t" "16 \<le> t" "4 dvd t" "n + 8 \<le> t" "t \<le> n + 15" using total_size_W [OF n(1,2)] by metis
  have lt: "t < 4294967296" using t(5) n(2) by simp
  obtain xs w ys where f: "bs = xs @ (w, True) # ys" "t \<le> w" "find_block (W t) s = Some (W (H0 + tot xs))"
    using find_block_ok [OF wf lt] n(3,4) t(5) by fastforce
  obtain s' where s': "take_block (W (H0 + tot xs)) (W t) s = Some (W (H0 + tot xs + 4), s')" "heap_only s s'"
      "allocates n s bs (H0 + tot xs + 4) s' (xs @ take_spec w t @ ys)"
    using take_block_allocates [OF wf [unfolded f(1)] t(2,3) f(2) t(4,5)] f(1) by blast
  have p: "H0 + tot xs + 4 < 4294967296" using heap_zip(2) [OF wf [unfolded f(1)]] by simp
  have nz: "W (H0 + tot xs) \<noteq> 0" "W n \<noteq> 0" using p n by simp_all
  have "kmalloc (W n) s = Some (W (H0 + tot xs + 4), s')" using nz f(3) s'(1) by (simp add: kmalloc_def t(1) Let_def)
  moreover have "tot (xs @ take_spec w t @ ys) = tot bs" using f(1,2) by (simp add: take_spec_def)
  ultimately show ?thesis using s' p by (intro exI [of _ "H0 + tot xs + 4"] exI [of _ s'] exI [of _ "xs @ take_spec w t @ ys"]) simp
qed

end
