(* ===== verification/Heap_Service.thy ===== *)
theory Heap_Service
  imports Heap_Alloc
begin

text \<open>
  The allocator as an interface (\<open>allocator\<close>) and the kernel heap as its implementation (\<open>kheap\<close>); \<open>heap_init\<close> and
  the self test as clients; the properties of the heap. Heap memory is a total map from word addresses here: that a heap
  page is mapped when it is accessed is not part of the statements.
\<close>

section \<open>The allocator as an interface\<close>

text \<open>
  What the clients of an allocator rely on: \<open>inv R z s\<close> says that exactly the blocks \<open>R\<close>, pairs of an address and a
  length, are in use in a heap of \<open>z\<close> bytes.
\<close>

locale allocator =
  fixes inv :: "(nat \<times> nat) set \<Rightarrow> nat \<Rightarrow> 's \<Rightarrow> bool"
    and contents :: "'s \<Rightarrow> nat \<Rightarrow> 'w"
    and alloc :: "nat \<Rightarrow> 's \<Rightarrow> (nat \<times> 's) option"
    and release :: "nat \<Rightarrow> 's \<Rightarrow> 's option"
  assumes inv_finite: "inv R z s \<Longrightarrow> finite R"
    and alloc_law: "inv R z s \<Longrightarrow> 0 < n \<Longrightarrow> n \<le> 0x10000000 \<Longrightarrow> used R + (n + 16) * (card R + 1) \<le> z \<Longrightarrow>
      \<exists>p m s'. alloc n s = Some (p, s') \<and> inv (insert (p, m) R) z s' \<and> n \<le> m \<and> m \<le> n + 22 \<and> (p, m) \<notin> R \<and>
        (\<forall>(q, k) \<in> R. {p..<p + m} \<inter> {q..<q + k} = {} \<and> (\<forall>y < k. contents s' (q + y) = contents s (q + y)))"
    and release_law: "inv R z s \<Longrightarrow> (p, m) \<in> R \<Longrightarrow>
      \<exists>s'. release p s = Some s' \<and> inv (R - {(p, m)}) z s' \<and>
        (\<forall>(q, k) \<in> R - {(p, m)}. \<forall>y < k. contents s' (q + y) = contents s (q + y))"
begin

text \<open>An allocation while the blocks in use are few and small; the bounds make it easy to chain.\<close>

lemma alloc_step:
  assumes "inv R z s" "0 < n" "n \<le> 0x10000000" "used R \<le> u" "card R \<le> c" "u + (n + 16) * (c + 1) \<le> z"
  shows "\<exists>p m s'. alloc n s = Some (p, s') \<and> inv (insert (p, m) R) z s' \<and> (p, m) \<notin> R \<and>
    used (insert (p, m) R) \<le> u + n + 30 \<and> card (insert (p, m) R) \<le> c + 1"
proof -
  have "used R + (n + 16) * (card R + 1) \<le> u + (n + 16) * (c + 1)"
    using assms(4,5) by (intro add_mono mult_le_mono) auto
  then obtain p m s' where a: "alloc n s = Some (p, s')" "inv (insert (p, m) R) z s'" "m \<le> n + 22" "(p, m) \<notin> R"
    using alloc_law [OF assms(1-3)] assms(6) by (meson order_trans)
  moreover have "used (insert (p, m) R) \<le> u + n + 30" "card (insert (p, m) R) \<le> c + 1"
    using a(3,4) assms(4,5) inv_finite [OF assms(1)] by (simp_all add: used_def)
  ultimately show ?thesis by blast
qed

lemma release_step:
  assumes "inv R z s" "(p, m) \<in> R" "used R \<le> u" "card R \<le> c"
  shows "\<exists>s'. release p s = Some s' \<and> inv (R - {(p, m)}) z s' \<and> used (R - {(p, m)}) \<le> u \<and> card (R - {(p, m)}) \<le> c"
proof -
  obtain s' where s': "release p s = Some s'" "inv (R - {(p, m)}) z s'" using release_law [OF assms(1,2)] by blast
  have "used (R - {(p, m)}) \<le> used R" unfolding used_def
    by (rule sum_mono2) (use inv_finite [OF assms(1)] in auto)
  moreover have "card (R - {(p, m)}) \<le> card R" by (rule card_Diff1_le)
  ultimately show ?thesis using s' assms(3,4) by (intro exI [of _ s']) simp
qed

text \<open>What was allocated and released again leaves the blocks in use, and their contents, as they were.\<close>

lemma alloc_release:
  assumes "inv R z s" "0 < n" "n \<le> 0x10000000" "used R + (n + 16) * (card R + 1) \<le> z"
  shows "\<exists>p s1 s2. alloc n s = Some (p, s1) \<and> release p s1 = Some s2 \<and> inv R z s2 \<and>
    (\<forall>(q, k) \<in> R. \<forall>y < k. contents s2 (q + y) = contents s (q + y))"
proof -
  obtain p m s1 where a: "alloc n s = Some (p, s1)" "inv (insert (p, m) R) z s1" "(p, m) \<notin> R"
      "\<forall>(q, k) \<in> R. \<forall>y < k. contents s1 (q + y) = contents s (q + y)"
    using alloc_law [OF assms] by blast
  have e: "insert (p, m) R - {(p, m)} = R" using a(3) by blast
  obtain s2 where s2: "release p s1 = Some s2" "inv R z s2" "\<forall>(q, k) \<in> R. \<forall>y < k. contents s2 (q + y) = contents s1 (q + y)"
    using release_law [OF a(2), of p m] unfolding e by blast
  have "\<forall>(q, k) \<in> R. \<forall>y < k. contents s2 (q + y) = contents s (q + y)" using a(4) s2(3) by fastforce
  then show ?thesis using a(1) s2(1,2) by blast
qed

end

definition heap_inv :: "(nat \<times> nat) set \<Rightarrow> nat \<Rightarrow> 'a heap_state_scheme \<Rightarrow> bool" where
  "heap_inv R z s \<longleftrightarrow> (\<exists>bs. heap_wf s bs \<and> set (owned H0 bs) = R \<and> tot bs = z)"

definition heap_alloc :: "nat \<Rightarrow> 'a heap_state_scheme \<Rightarrow> (nat \<times> 'a heap_state_scheme) option" where
  "heap_alloc n s = map_option (\<lambda>(p, s). (unat p, s)) (kmalloc (W n) s)"

interpretation kheap: allocator heap_inv "\<lambda>s a. hmem s (W a)" heap_alloc "\<lambda>p. kfree (W p)"
proof
  show "heap_inv R z s \<Longrightarrow> finite R" for R z and s :: "'a heap_state_scheme" by (auto simp: heap_inv_def)
next
  fix R z n and s :: "'a heap_state_scheme"
  assume a: "heap_inv R z s" "0 < n" "n \<le> 0x10000000" "used R + (n + 16) * (card R + 1) \<le> z"
  then obtain bs where b: "heap_wf s bs" "set (owned H0 bs) = R" "tot bs = z" by (auto simp: heap_inv_def)
  obtain w where w: "(w, True) \<in> set bs" "n + 16 \<le> w" using free_share [OF b(1), of "n + 16"] a(4) b(2,3) by auto
  obtain p s' bs' where k: "kmalloc (W n) s = Some (W p, s')" "allocates n s bs p s' bs'" "tot bs' = tot bs" "p < 4294967296"
    using kmalloc_fits [OF b(1) a(2,3) w] by blast
  obtain m where m: "n \<le> m" "m \<le> n + 22" "(p, m) \<notin> R" "set (owned H0 bs') = insert (p, m) R" "heap_wf s' bs'"
      "\<forall>(q, k) \<in> R. {p..<p + m} \<inter> {q..<q + k} = {}" "\<forall>(q, k) \<in> R. \<forall>y < k. hmem s' (W (q + y)) = hmem s (W (q + y))"
    using k(2) b(2) unfolding allocates_def keeps_def by blast
  have "heap_alloc n s = Some (p, s')" "heap_inv (insert (p, m) R) z s'"
    using k m(4,5) b(3) by (auto simp: heap_alloc_def heap_inv_def)
  then show "\<exists>p m s'. heap_alloc n s = Some (p, s') \<and> heap_inv (insert (p, m) R) z s' \<and> n \<le> m \<and> m \<le> n + 22 \<and> (p, m) \<notin> R \<and>
      (\<forall>(q, k) \<in> R. {p..<p + m} \<inter> {q..<q + k} = {} \<and> (\<forall>y < k. hmem s' (W (q + y)) = hmem s (W (q + y))))"
    using m by fast
next
  fix R z p m and s :: "'a heap_state_scheme"
  assume a: "heap_inv R z s" "(p, m) \<in> R"
  then obtain bs where b: "heap_wf s bs" "set (owned H0 bs) = R" "tot bs = z" by (auto simp: heap_inv_def)
  show "\<exists>s'. kfree (W p) s = Some s' \<and> heap_inv (R - {(p, m)}) z s' \<and>
      (\<forall>(q, k) \<in> R - {(p, m)}. \<forall>y < k. hmem s' (W (q + y)) = hmem s (W (q + y)))"
    using kfree_releases_ok [OF b(1), of p m] a(2) b by (auto simp: heap_inv_def keeps_def)
qed

section \<open>Initialisation and self test\<close>

lemma init_pages_total:
  "pt_wf s F \<Longrightarrow> \<forall>i \<in> set is. unat (heap_brk s) + i * PAGE_SIZE < 0xFFC00000 \<Longrightarrow>
   \<exists>s' F'. fold_opt (\<lambda>i s. map_option snd (expand_heap (heap_brk s + of_nat (i * PAGE_SIZE)) s)) is s = Some s' \<and>
     pt_wf s' F' \<and> pg_frame s s'"
proof (induction "is" arbitrary: s F)
  case Nil
  then show ?case by auto
next
  case (Cons i js)
  have "heap_brk s + of_nat (i * PAGE_SIZE) = W (unat (heap_brk s) + i * PAGE_SIZE)" by (simp add: W_def)
  then obtain r s1 F1 where s1: "expand_heap (heap_brk s + of_nat (i * PAGE_SIZE)) s = Some (r, s1)" "pt_wf s1 F1"
    using expand_heap_total [OF Cons.prems(1), of "unat (heap_brk s) + i * PAGE_SIZE"] Cons.prems(2) by auto
  note f = expand_heap_frame [OF s1(1)]
  obtain s2 F2 where s2: "fold_opt (\<lambda>i s. map_option snd (expand_heap (heap_brk s + of_nat (i * PAGE_SIZE)) s)) js s1 = Some s2"
      "pt_wf s2 F2" "pg_frame s1 s2"
    using Cons.IH [OF s1(2)] Cons.prems(2) pg_frame_heap(3) [OF f] by auto
  then show ?case using s1(1) pg_frame_trans [OF f s2(3)] by auto
qed

lemma free_list_heap_only [simp]: "heap_only s (s\<lparr>free_list := p\<rparr>)"
  unfolding heap_only_def by (intro exI [of _ "hmem s"] exI [of _ p]) simp

lemma heap_init_ok:
  assumes "pt_wf s F" "heap_brk s = W H0"
  shows "\<exists>s' F'. heap_init s = Some s' \<and> heap_wf s' [(0x40000, True)] \<and> pt_wf s' F'"
proof -
  have "\<forall>i \<in> set [0..<HEAP_INIT_PAGES]. unat (heap_brk s) + i * PAGE_SIZE < 0xFFC00000"
    using assms(2) by simp
  then obtain s1 F1 where s1: "fold_opt (\<lambda>i s. map_option snd (expand_heap (heap_brk s + of_nat (i * PAGE_SIZE)) s)) [0..<HEAP_INIT_PAGES] s = Some s1"
      "pt_wf s1 F1" "pg_frame s s1"
    using init_pages_total [OF assms(1)] by blast
  define s2 where "s2 = hstore (W 0xD003FFFC) (W 0x40000) (hstore (W 0xD0000004) 0 (hstore (W H0) (hdr 0x40000 True False) (s1\<lparr>free_list := W H0\<rparr>)))"
  have b: "heap_brk s1 = W H0" using pg_frame_heap(3) [OF s1(3)] assms(2) by simp
  have "heap_init s = Some (moved 0x40000 s2)"
  proof -
    have 1: "HEAP_VIRT_START = W H0" "of_nat (HEAP_INIT_PAGES * PAGE_SIZE) = W 0x40000"
      by (simp_all add: HEAP_VIRT_START_def W_def)
    have 2: "W 0x40000 OR BLOCK_FLAG_FREE = hdr 0x40000 True False" by (simp add: BLOCK_FLAG_FREE_def)
    have 3: "block_footer (W H0) (hstore (W 0xD0000004) 0 (hstore (W H0) (hdr 0x40000 True False) (s1\<lparr>free_list := W H0\<rparr>))) = W 0xD003FFFC"
      using block_size_W [of "hstore (W 0xD0000004) 0 (hstore (W H0) (hdr 0x40000 True False) (s1\<lparr>free_list := W H0\<rparr>))" H0 "0x40000" True False]
      by (simp add: block_footer_def)
    show ?thesis unfolding heap_init_def s1(1) Option.bind.simps Let_def 1
      by (simp add: set_next_def 2 3 s2_def moved_def)
  qed
  moreover have "heap_wf (moved 0x40000 s2) [(0x40000, True)]"
  proof -
    have m: "hmem s2 (W H0) = hdr 0x40000 True False" "hmem s2 (W 0xD003FFFC) = W 0x40000" "hmem s2 (W 0xD0000004) = 0"
      "free_list s2 = W H0" "heap_brk s2 = W H0" by (simp_all add: s2_def b)
    have "flist (moved 0x40000 s2) [H0]" using m(3,4) by (simp add: flist_def fb_next_def)
    moreover have "blocks_at (hmem (moved 0x40000 s2)) H0 False [(0x40000, True)]" using m(1,2) by simp
    ultimately show ?thesis using m(5) by (intro heap_wfI) simp_all
  qed
  moreover have "heap_part s1 (moved 0x40000 s2)"
  proof -
    have "heap_only s1 s2" unfolding s2_def
      by (rule heap_only_trans [OF heap_only_trans [OF heap_only_trans [OF free_list_heap_only heap_only_hstore(1)] heap_only_hstore(1)] heap_only_hstore(1)])
    then show ?thesis using heap_part_trans [OF heap_only_part moved_sel(5)] by blast
  qed
  ultimately show ?thesis using heap_part_pt_wf [OF _ s1(2)] by blast
qed

lemma heap_free_block_count_eq:
  assumes "heap_wf s bs"
  shows "heap_free_block_count s = Some (of_nat (length (frees H0 bs)))"
  using count_chain_eq [of "\<lambda>b. nonnull (fb_next b s)" "nonnull (free_list s)" "map W (frees H0 bs)" 0] assms
  by (simp add: heap_free_block_count_def heap_wf_def flist_def)

lemma largest_walk_total:
  assumes "chain (\<lambda>b. nonnull (nxt b)) (nonnull p) (map W fs)" "addrs_ok fs"
  shows "\<exists>v. largest_walk nxt sz p mx = Some v"
  using assms
proof (induction fs arbitrary: p mx)
  case Nil
  then show ?case by (subst largest_walk.simps) simp
next
  case (Cons x fs)
  then have p: "p = W x" "W x \<noteq> 0" by (auto simp: addrs_ok_def)
  have "\<exists>v. largest_walk nxt sz (nxt p) mx' = Some v" for mx'
    by (rule Cons.IH) (use Cons.prems p in \<open>auto simp: addrs_ok_def\<close>)
  then show ?case using p by (subst largest_walk.simps) simp
qed

lemma heap_largest_free_total:
  assumes "heap_wf s bs"
  shows "\<exists>v. heap_largest_free s = Some v"
proof -
  have "addrs_ok (frees H0 bs)" by (rule addrs_ok_frees [OF heap_wf_brk(4) [OF assms]]) (use heap_wf_brk(3) [OF assms] in simp_all)
  then show ?thesis unfolding heap_largest_free_def
    using largest_walk_total [of "\<lambda>b. fb_next b s" "free_list s" "frees H0 bs"] assms by (simp add: heap_wf_def flist_def)
qed

text \<open>A heap with nothing in use is one free block.\<close>

lemma nothing_in_use:
  assumes "heap_wf s bs" "owned H0 bs = []"
  shows "bs = [(tot bs, True)]"
proof -
  have "length (frees H0 bs) \<le> 1" using frees_count [of "hmem s" H0 False bs] assms by (simp add: heap_wf_def)
  moreover have "length bs = length (frees a bs) + length (owned a bs)" for a bs
    by (induction a bs rule: frees.induct) auto
  ultimately have "length bs \<le> 1" using assms(2) by (metis add.right_neutral list.size(3))
  then obtain z f where "bs = [(z, f)]" using heap_wf_brk(5) [OF assms(1)] by (cases bs) (auto simp: le_Suc_eq)
  then show ?thesis using assms(2) by (cases f) auto
qed

text \<open>The calls of the self test, through the interface.\<close>

lemma heap_alloc_kmalloc: "heap_alloc n s = Some (p, s') \<Longrightarrow> kmalloc (W n) s = Some (W p, s')"
  by (auto simp: heap_alloc_def)

lemma heap_inv_count:
  assumes "heap_inv R z s"
  shows "\<exists>n. heap_free_block_count s = Some n \<and> (R = {} \<longrightarrow> n = 1)" "\<exists>v. heap_largest_free s = Some v"
proof -
  obtain bs where b: "heap_wf s bs" "set (owned H0 bs) = R" using assms by (auto simp: heap_inv_def)
  have "length (frees H0 bs) = 1" if "R = {}" using nothing_in_use [OF b(1)] b(2) that by (cases bs) auto
  then show "\<exists>n. heap_free_block_count s = Some n \<and> (R = {} \<longrightarrow> n = 1)" using heap_free_block_count_eq [OF b(1)] by auto
  show "\<exists>v. heap_largest_free s = Some v" by (rule heap_largest_free_total [OF b(1)])
qed

definition fits_in :: "nat \<Rightarrow> nat \<Rightarrow> nat \<Rightarrow> nat \<Rightarrow> nat \<Rightarrow> bool" where
  "fits_in n u c u' c' \<longleftrightarrow> 0 < n \<and> n \<le> 600 \<and> u + (n + 16) * (c + 1) \<le> 8192 \<and> u + n + 30 \<le> u' \<and> c + 1 \<le> c'"

lemma selftest_alloc:
  assumes "heap_inv R z s" "8192 \<le> z" "used R \<le> u" "card R \<le> c" "fits_in n u c u' c'"
  shows "\<exists>p s'. kmalloc (W n) s = Some (W (fst p), s') \<and> heap_inv (insert p R) z s' \<and> p \<notin> R \<and>
    used (insert p R) \<le> u' \<and> card (insert p R) \<le> c'"
proof -
  have n: "0 < n" "n \<le> 0x10000000" "u + (n + 16) * (c + 1) \<le> z" using assms(2,5) by (auto simp: fits_in_def)
  obtain p m s' where "heap_alloc n s = Some (p, s')" "heap_inv (insert (p, m) R) z s'" "(p, m) \<notin> R"
      "used (insert (p, m) R) \<le> u + n + 30" "card (insert (p, m) R) \<le> c + 1"
    using kheap.alloc_step [OF assms(1) n(1,2) assms(3,4) n(3)] by blast
  then show ?thesis using assms(5) heap_alloc_kmalloc by (intro exI [of _ "(p, m)"] exI [of _ s']) (simp add: fits_in_def)
qed

lemma selftest_free:
  assumes "heap_inv R z s" "p \<in> R" "used R \<le> u" "card R \<le> c"
  shows "\<exists>s'. kfree (W (fst p)) s = Some s' \<and> heap_inv (R - {p}) z s' \<and> used (R - {p}) \<le> u \<and> card (R - {p}) \<le> c"
  using kheap.release_step [of R z s "fst p" "snd p"] assms by simp

lemma selftest_allocs:
  assumes s: "heap_inv {} z s" and z: "8192 \<le> z"
  shows "\<exists>a b c d e s1 s2 s3 s4 s5. kmalloc (W 64) s = Some (W (fst a), s1) \<and> kmalloc (W 256) s1 = Some (W (fst b), s2) \<and>
    kmalloc (W 64) s2 = Some (W (fst c), s3) \<and> kmalloc (W 512) s3 = Some (W (fst d), s4) \<and> kmalloc (W 128) s4 = Some (W (fst e), s5) \<and>
    heap_inv {e, d, c, b, a} z s5 \<and> distinct [e, d, c, b, a] \<and> used {e, d, c, b, a} \<le> 1174 \<and> card {e, d, c, b, a} \<le> 5"
proof -
  have u: "used {} \<le> 0" "card ({} :: (nat \<times> nat) set) \<le> 0" by (simp_all add: used_def)
  have n: "fits_in 64 0 0 94 1" "fits_in 256 94 1 380 2" "fits_in 64 380 2 474 3" "fits_in 512 474 3 1016 4" "fits_in 128 1016 4 1174 5"
    by (simp_all add: fits_in_def)
  obtain a s1 where a: "kmalloc (W 64) s = Some (W (fst a), s1)" "heap_inv {a} z s1" "used {a} \<le> 94" "card {a} \<le> 1"
    using selftest_alloc [OF s z u n(1)] by blast
  obtain b s2 where b: "kmalloc (W 256) s1 = Some (W (fst b), s2)" "heap_inv {b, a} z s2" "b \<notin> {a}" "used {b, a} \<le> 380" "card {b, a} \<le> 2"
    using selftest_alloc [OF a(2) z a(3,4) n(2)] by blast
  obtain c s3 where c: "kmalloc (W 64) s2 = Some (W (fst c), s3)" "heap_inv {c, b, a} z s3" "c \<notin> {b, a}" "used {c, b, a} \<le> 474" "card {c, b, a} \<le> 3"
    using selftest_alloc [OF b(2) z b(4,5) n(3)] by blast
  obtain d s4 where d: "kmalloc (W 512) s3 = Some (W (fst d), s4)" "heap_inv {d, c, b, a} z s4" "d \<notin> {c, b, a}" "used {d, c, b, a} \<le> 1016" "card {d, c, b, a} \<le> 4"
    using selftest_alloc [OF c(2) z c(4,5) n(4)] by blast
  obtain e s5 where e: "kmalloc (W 128) s4 = Some (W (fst e), s5)" "heap_inv {e, d, c, b, a} z s5" "e \<notin> {d, c, b, a}" "used {e, d, c, b, a} \<le> 1174" "card {e, d, c, b, a} \<le> 5"
    using selftest_alloc [OF d(2) z d(4,5) n(5)] by blast
  have "distinct [e, d, c, b, a]" using b(3) c(3) d(3) e(3) by auto
  then show ?thesis using a(1) b(1) c(1) d(1) e by blast
qed

lemma heap_selftest_ok:
  assumes s: "heap_inv {} z s" and z: "8192 \<le> z"
  shows "\<exists>s'. heap_selftest s = Some (1, s') \<and> heap_inv {} z s'"
proof -
  have N: "W 64 = 64" "W 256 = 256" "W 512 = 512" "W 128 = 128" "W 600 = 600" by (simp_all add: W_def)
  obtain a b c d e s1 s2 s3 s4 s5 where al: "kmalloc (W 64) s = Some (W (fst a), s1)" "kmalloc (W 256) s1 = Some (W (fst b), s2)"
    "kmalloc (W 64) s2 = Some (W (fst c), s3)" "kmalloc (W 512) s3 = Some (W (fst d), s4)" "kmalloc (W 128) s4 = Some (W (fst e), s5)"
    and i5: "heap_inv {e, d, c, b, a} z s5" and dist: "distinct [e, d, c, b, a]" and u: "used {e, d, c, b, a} \<le> 1174" "card {e, d, c, b, a} \<le> 5"
    using selftest_allocs [OF assms] by blast
  let ?R = "{e, d, c, b, a}"
  obtain s6 where s6: "kfree (W (fst b)) s5 = Some s6" "heap_inv (?R - {b}) z s6" "used (?R - {b}) \<le> 1174" "card (?R - {b}) \<le> 5"
    using selftest_free [OF i5 _ u, of b] by blast
  have "d \<in> ?R - {b}" using dist by auto
  then obtain s7 where s7: "kfree (W (fst d)) s6 = Some s7" "heap_inv (?R - {b} - {d}) z s7" "used (?R - {b} - {d}) \<le> 1174" "card (?R - {b} - {d}) \<le> 5"
    using selftest_free [OF s6(2) _ s6(3,4)] by blast
  have "fits_in 600 1174 5 1804 6" by (simp add: fits_in_def)
  then obtain g s8 where s8: "kmalloc (W 600) s7 = Some (W (fst g), s8)" "heap_inv (insert g (?R - {b} - {d})) z s8"
      "g \<notin> ?R - {b} - {d}" "used (insert g (?R - {b} - {d})) \<le> 1804" "card (insert g (?R - {b} - {d})) \<le> 6"
    using selftest_alloc [OF s7(2) z s7(3,4)] by blast
  let ?Q = "insert g (?R - {b} - {d})"
  have m: "a \<in> ?Q" "c \<in> ?Q - {a}" "e \<in> ?Q - {a} - {c}" "g \<in> ?Q - {a} - {c} - {e}" "?Q - {a} - {c} - {e} - {g} = {}"
    using dist s8(3) by auto
  obtain s9 where s9: "kfree (W (fst a)) s8 = Some s9" "heap_inv (?Q - {a}) z s9" "used (?Q - {a}) \<le> 1804" "card (?Q - {a}) \<le> 6"
    using selftest_free [OF s8(2) m(1) s8(4,5)] by blast
  obtain t1 where t1: "kfree (W (fst c)) s9 = Some t1" "heap_inv (?Q - {a} - {c}) z t1" "used (?Q - {a} - {c}) \<le> 1804" "card (?Q - {a} - {c}) \<le> 6"
    using selftest_free [OF s9(2) m(2) s9(3,4)] by blast
  obtain t2 where t2: "kfree (W (fst e)) t1 = Some t2" "heap_inv (?Q - {a} - {c} - {e}) z t2"
      "used (?Q - {a} - {c} - {e}) \<le> 1804" "card (?Q - {a} - {c} - {e}) \<le> 6"
    using selftest_free [OF t1(2) m(3) t1(3,4)] by blast
  obtain t3 where t3: "kfree (W (fst g)) t2 = Some t3" "heap_inv {} z t3"
    using selftest_free [OF t2(2) m(4) t2(3,4)] unfolding m(5) by blast
  obtain n v where c: "heap_free_block_count s7 = Some n" "heap_free_block_count t3 = Some 1" "heap_largest_free t3 = Some v"
    using heap_inv_count [OF s7(2)] heap_inv_count [OF t3(2)] by blast
  have "heap_selftest s = Some (1, t3)"
    using al s6(1) s7(1) s8(1) s9(1) t1(1) t2(1) t3(1) c unfolding N by (simp add: heap_selftest_def)
  then show ?thesis using t3(2) by blast
qed

text \<open>
  The heap at kernel start. From well-formed page tables \<open>heap_init\<close> makes one free block of 256 KB, and the self test
  that follows runs to its end: every allocation succeeds, and after the last release the heap has coalesced into the one
  block it started with, so the count of free blocks that it prints is 1.
\<close>

lemma heap_start_ok:
  assumes "pt_wf s F" "heap_brk s = HEAP_VIRT_START"
  shows "\<exists>s1 s2. heap_init s = Some s1 \<and> heap_wf s1 [(0x40000, True)] \<and> heap_selftest s1 = Some (1, s2) \<and>
    heap_wf s2 [(0x40000, True)]"
proof -
  have "heap_brk s = W H0" using assms(2) by (simp add: HEAP_VIRT_START_def W_def)
  then obtain s1 where s1: "heap_init s = Some s1" "heap_wf s1 [(0x40000, True)]" using heap_init_ok [OF assms(1)] by blast
  have "heap_inv {} 0x40000 s1" using s1(2) unfolding heap_inv_def by (intro exI) auto
  then obtain s2 where s2: "heap_selftest s1 = Some (1, s2)" "heap_inv {} 0x40000 s2" using heap_selftest_ok [of "0x40000"] by auto
  then obtain bs where "heap_wf s2 bs" "owned H0 bs = []" "tot bs = 0x40000" by (auto simp: heap_inv_def)
  then have "heap_wf s2 [(0x40000, True)]" using nothing_in_use [of s2 bs] by metis
  then show ?thesis using s1 s2(1) by blast
qed

section \<open>Example heaps\<close>

text \<open>A heap of 256 KB with one block of 32 bytes in use.\<close>

definition demo_heap :: "(u32 \<Rightarrow> u32) \<Rightarrow> u32 \<Rightarrow> heap_state" where
  "demo_heap m fl = paging_state.extend small_paging (heap_state.fields m fl 0xD0040000 0xD0040000)"

definition demo_used :: heap_state where
  "demo_used = demo_heap (\<lambda>a. if a = 0xD0000000 then 32 else if a = 0xD000001C then 32 else if a = 0xD0000020 then 0x3FFE1
     else if a = 0xD003FFFC then 0x3FFE0 else 0) 0xD0000020"

lemma demo_heap_pt_wf: "pt_wf (demo_heap m fl) [1024, 1025]"
  by (rule pt_wf_cong [OF small_paging_wf])
    (use small_paging_free in \<open>simp_all add: demo_heap_def heap_state.defs paging_state.defs free_ok_def\<close>)

lemma demo_heap_sel [simp]: "hmem (demo_heap m fl) = m" "free_list (demo_heap m fl) = fl" "heap_brk (demo_heap m fl) = W 0xD0040000"
  "heap_end (demo_heap m fl) = W 0xD0040000"
  by (simp_all add: demo_heap_def heap_state.defs paging_state.defs W_def)

lemma demo_words: "W 0xD0000000 = 0xD0000000" "W 0xD003FFFC = 0xD003FFFC" "W 0xD0000004 = 0xD0000004" "W 0xD000001C = 0xD000001C"
  "W 0xD0000020 = 0xD0000020" "W 0xD0000024 = 0xD0000024" "W 0x40000 = 0x40000" "W 0x3FFE0 = 0x3FFE0" "W 32 = 32"
  by (simp_all add: W_def)

lemma demo_used_wf: "heap_wf demo_used [(32, False), (0x3FFE0, True)]"
  by (rule heap_wfI) (simp_all add: demo_used_def flist_def fb_next_def hdr_def demo_words)

section \<open>Properties\<close>



text \<open>
  C3: \<open>kfree\<close> releases. Given the payload of a block in use it always returns; that block, and no other, is no longer in
  use, the heap is well formed again (so the block has been merged with the free blocks next to it: no two neighbours are
  free), the payloads of the other blocks are unchanged, and nothing but heap memory and the free list changes.
\<close>

theorem kfree_releases:
  assumes "heap_wf s bs" "(p, m) \<in> set (owned H0 bs)"
  shows "\<exists>s' bs'. kfree (W p) s = Some s' \<and> heap_wf s' bs' \<and> set (owned H0 bs') = set (owned H0 bs) - {(p, m)} \<and>
    keeps (set (owned H0 bs')) s s' \<and> heap_only s s' \<and> tot bs' = tot bs"
  by (rule kfree_releases_ok [OF assms])

theorem kfree_releases_witness:
  "\<exists>s' bs'. kfree 0xD0000004 demo_used = Some s' \<and> heap_wf s' bs' \<and> owned H0 bs' = [] \<and> tot bs' = 0x40000"
  using kfree_releases [OF demo_used_wf, of "0xD0000004" 24] by (auto simp: demo_words)

text \<open>
  C12: the fragmentation bound of the heap. When \<open>k\<close> blocks are in use in a heap of \<open>z\<close> bytes and their payloads and tags
  together leave room for \<open>k + 1\<close> times the size asked for and its overhead, \<open>kmalloc\<close> returns a block without growing
  the heap, however the blocks lie. The block has at least the size asked for and at most 22 bytes more.
\<close>

theorem kmalloc_bound:
  assumes "heap_inv R z s" "0 < n" "n \<le> 0x10000000" "used R + (n + 16) * (card R + 1) \<le> z"
  shows "\<exists>p m s'. kmalloc (W n) s = Some (W p, s') \<and> heap_inv (insert (p, m) R) z s' \<and> n \<le> m \<and> m \<le> n + 22 \<and> (p, m) \<notin> R"
  using kheap.alloc_law [OF assms] heap_alloc_kmalloc by blast

theorem kmalloc_bound_witness:
  "\<exists>p m s'. kmalloc (W 0x1FFD8) demo_used = Some (W p, s') \<and> heap_inv {(p, m), (0xD0000004, 24)} 0x40000 s' \<and>
    0x1FFD8 \<le> m \<and> m \<le> 0x1FFEE"
proof -
  have "heap_inv {(0xD0000004, 24)} 0x40000 demo_used" using demo_used_wf unfolding heap_inv_def by (intro exI) auto
  then show ?thesis using kmalloc_bound [of "{(0xD0000004, 24)}" "0x40000" demo_used "0x1FFD8"] by (simp add: used_def) blast
qed

end
