(* ===== verification/User_Lib.thy ===== *)
theory User_Lib
  imports Syscall
begin

text \<open>
  The system call stubs of the user libraries: \<open>user/lib/syscall.h\<close>, which the C programs use, and the two copies for
  C++ programs, \<open>user/cpp_lib/syscall.hpp\<close> and \<open>user/povi/syscall.hpp\<close>. A stub loads the registers that its inline
  assembly names and executes \<open>int 0x80\<close>; it leaves the other registers as they are. A character argument stands for the
  register it is loaded into, of which the kernel reads the low byte.
\<close>

section \<open>Model\<close>

abbreviation SYS_WRITE :: u32 where "SYS_WRITE \<equiv> 0"
abbreviation SYS_OPEN :: u32 where "SYS_OPEN \<equiv> 1"
abbreviation SYS_EXIT :: u32 where "SYS_EXIT \<equiv> 2"
abbreviation SYS_GETCHAR :: u32 where "SYS_GETCHAR \<equiv> 3"
abbreviation SYS_PUTCHAR :: u32 where "SYS_PUTCHAR \<equiv> 4"
abbreviation SYS_CLEAR :: u32 where "SYS_CLEAR \<equiv> 5"
abbreviation SYS_REBOOT :: u32 where "SYS_REBOOT \<equiv> 6"
abbreviation SYS_POWEROFF :: u32 where "SYS_POWEROFF \<equiv> 7"
abbreviation SYS_TIER_QUERY :: u32 where "SYS_TIER_QUERY \<equiv> 8"
abbreviation SYS_TIER_REQUEST :: u32 where "SYS_TIER_REQUEST \<equiv> 9"
abbreviation SYS_FORK :: u32 where "SYS_FORK \<equiv> 10"
abbreviation SYS_EXEC :: u32 where "SYS_EXEC \<equiv> 11"
abbreviation SYS_WAIT :: u32 where "SYS_WAIT \<equiv> 12"
abbreviation SYS_FORK_WITH_SANDBOX :: u32 where "SYS_FORK_WITH_SANDBOX \<equiv> 13"
abbreviation SYS_MLFQ_QUERY :: u32 where "SYS_MLFQ_QUERY \<equiv> 14"
abbreviation SYS_YIELD :: u32 where "SYS_YIELD \<equiv> 15"
abbreviation SYS_READ :: u32 where "SYS_READ \<equiv> 16"
abbreviation SYS_CLOSE :: u32 where "SYS_CLOSE \<equiv> 17"
abbreviation SYS_KILL :: u32 where "SYS_KILL \<equiv> 18"
abbreviation SYS_SET_TIER :: u32 where "SYS_SET_TIER \<equiv> 19"
abbreviation SYS_UNAME :: u32 where "SYS_UNAME \<equiv> 20"
abbreviation SYS_LS :: u32 where "SYS_LS \<equiv> 21"
abbreviation SYS_SANDBOX_QUERY :: u32 where "SYS_SANDBOX_QUERY \<equiv> 22"

text \<open>The operands of the inline assembly: \<open>a\<close>, \<open>b\<close>, \<open>c\<close> and \<open>d\<close>.\<close>

abbreviation ld_a :: "u32 \<Rightarrow> user_ctx \<Rightarrow> user_ctx" where "ld_a n u \<equiv> u\<lparr>u_eax := KVal n\<rparr>"
abbreviation ld_b :: "u32 \<Rightarrow> u32 \<Rightarrow> user_ctx \<Rightarrow> user_ctx" where "ld_b n b u \<equiv> (ld_a n u)\<lparr>u_ebx := KVal b\<rparr>"
abbreviation ld_c :: "u32 \<Rightarrow> u32 \<Rightarrow> u32 \<Rightarrow> user_ctx \<Rightarrow> user_ctx" where "ld_c n b c u \<equiv> (ld_b n b u)\<lparr>u_ecx := KVal c\<rparr>"
abbreviation ld_d :: "u32 \<Rightarrow> u32 \<Rightarrow> u32 \<Rightarrow> u32 \<Rightarrow> user_ctx \<Rightarrow> user_ctx" where
  "ld_d n b c d u \<equiv> (ld_c n b c u)\<lparr>u_edx := KVal d\<rparr>"

text \<open>\<open>while (s[len]) len++;\<close> in \<open>sys_write\<close>, on user memory \<open>mem\<close>.\<close>

partial_function (option) lib_strlen :: "(u32 \<Rightarrow> u8) \<Rightarrow> u32 \<Rightarrow> nat \<Rightarrow> nat option" where
  "lib_strlen mem a len = (if mem (a + of_nat len) \<noteq> 0 then lib_strlen mem a (len + 1) else Some len)"

declare lib_strlen.simps [code]

datatype libcall = Lib_open u32 u32 | Lib_read u32 u32 u32 | Lib_close u32 | Lib_write u32 | Lib_getchar | Lib_putchar u32 |
  Lib_clear | Lib_reboot | Lib_poweroff | Lib_exit u32 | Lib_tier_query | Lib_tier_request u32 | Lib_mlfq_query | Lib_yield |
  Lib_fork | Lib_fork_with_sandbox u32 | Lib_exec u32 u32 | Lib_wait u32

fun lib_stub :: "(u32 \<Rightarrow> u8) \<Rightarrow> libcall \<Rightarrow> user_ctx \<Rightarrow> user_ctx option" where
  "lib_stub mem (Lib_open path flags) u = Some (ld_d SYS_OPEN path flags 0 u)"
| "lib_stub mem (Lib_read fd buf len) u = Some (ld_d SYS_READ fd buf len u)"
| "lib_stub mem (Lib_close fd) u = Some (ld_b SYS_CLOSE fd u)"
| "lib_stub mem (Lib_write s) u = do { len \<leftarrow> lib_strlen mem s 0; Some (ld_d SYS_WRITE 1 s (of_nat len) u) }"
| "lib_stub mem Lib_getchar u = Some (ld_a SYS_GETCHAR u)"
| "lib_stub mem (Lib_putchar c) u = Some (ld_b SYS_PUTCHAR c u)"
| "lib_stub mem Lib_clear u = Some (ld_a SYS_CLEAR u)"
| "lib_stub mem Lib_reboot u = Some (ld_a SYS_REBOOT u)"
| "lib_stub mem Lib_poweroff u = Some (ld_a SYS_POWEROFF u)"
| "lib_stub mem (Lib_exit code) u = Some (ld_b SYS_EXIT code u)"
| "lib_stub mem Lib_tier_query u = Some (ld_a SYS_TIER_QUERY u)"
| "lib_stub mem (Lib_tier_request tier) u = Some (ld_b SYS_TIER_REQUEST tier u)"
| "lib_stub mem Lib_mlfq_query u = Some (ld_a SYS_MLFQ_QUERY u)"
| "lib_stub mem Lib_yield u = Some (ld_a SYS_YIELD u)"
| "lib_stub mem Lib_fork u = Some (ld_a SYS_FORK u)"
| "lib_stub mem (Lib_fork_with_sandbox config) u = Some (ld_b SYS_FORK_WITH_SANDBOX config u)"
| "lib_stub mem (Lib_exec path argv) u = Some (ld_c SYS_EXEC path argv u)"
| "lib_stub mem (Lib_wait pid) u = Some (ld_b SYS_WAIT pid u)"

datatype libcall2 = Lib_kill u32 | Lib_set_tier u32 | Lib_uname u32 | Lib_sandbox_query u32 | Lib_ls u32 u32 u32

fun lib_stub2 :: "libcall2 \<Rightarrow> user_ctx \<Rightarrow> user_ctx" where
  "lib_stub2 (Lib_kill pid) u = ld_b SYS_KILL pid u"
| "lib_stub2 (Lib_set_tier tier) u = ld_b SYS_SET_TIER tier u"
| "lib_stub2 (Lib_uname buf) u = ld_b SYS_UNAME buf u"
| "lib_stub2 (Lib_sandbox_query st) u = ld_b SYS_SANDBOX_QUERY st u"
| "lib_stub2 (Lib_ls path buf buflen) u = ld_d SYS_LS path buf buflen u"

text \<open>The C++ copies.\<close>

datatype cppcall = Cpp_open u32 u32 | Cpp_read u32 u32 u32 | Cpp_write_fd u32 u32 u32 | Cpp_close u32 | Cpp_clear |
  Cpp_putchar u32 | Cpp_getchar | Cpp_exit u32 | Cpp_yield

fun cpp_stub :: "cppcall \<Rightarrow> user_ctx \<Rightarrow> user_ctx" where
  "cpp_stub (Cpp_open path flags) u = ld_d SYS_OPEN path flags 0 u"
| "cpp_stub (Cpp_read fd buf len) u = ld_d SYS_READ fd buf len u"
| "cpp_stub (Cpp_write_fd fd buf len) u = ld_d SYS_WRITE fd buf len u"
| "cpp_stub (Cpp_close fd) u = ld_b SYS_CLOSE fd u"
| "cpp_stub Cpp_clear u = ld_a SYS_CLEAR u"
| "cpp_stub (Cpp_putchar c) u = ld_b SYS_PUTCHAR c u"
| "cpp_stub Cpp_getchar u = ld_a SYS_GETCHAR u"
| "cpp_stub (Cpp_exit code) u = ld_b SYS_EXIT code u"
| "cpp_stub Cpp_yield u = ld_a SYS_YIELD u"

fun povi_stub :: "cppcall \<Rightarrow> user_ctx \<Rightarrow> user_ctx" where
  "povi_stub (Cpp_open path flags) u = ld_d SYS_OPEN path flags 0 u"
| "povi_stub (Cpp_read fd buf len) u = ld_d SYS_READ fd buf len u"
| "povi_stub (Cpp_write_fd fd buf len) u = ld_d SYS_WRITE fd buf len u"
| "povi_stub (Cpp_close fd) u = ld_b SYS_CLOSE fd u"
| "povi_stub Cpp_clear u = ld_a SYS_CLEAR u"
| "povi_stub (Cpp_putchar c) u = ld_b SYS_PUTCHAR c u"
| "povi_stub Cpp_getchar u = ld_a SYS_GETCHAR u"
| "povi_stub (Cpp_exit code) u = ld_b SYS_EXIT code u"
| "povi_stub Cpp_yield u = ld_a SYS_YIELD u"

text \<open>A call through one of the headers.\<close>

datatype ucall = C_call libcall | C_call2 libcall2 | Cpp_call cppcall | Povi_call cppcall

fun user_stub :: "(u32 \<Rightarrow> u8) \<Rightarrow> ucall \<Rightarrow> user_ctx \<Rightarrow> user_ctx option" where
  "user_stub mem (C_call c) u = lib_stub mem c u"
| "user_stub mem (C_call2 c) u = Some (lib_stub2 c u)"
| "user_stub mem (Cpp_call c) u = Some (cpp_stub c u)"
| "user_stub mem (Povi_call c) u = Some (povi_stub c u)"

section \<open>What the calls mean\<close>

text \<open>The kernel function that a call names and its arguments, in the order of the parameters; this is the contract of the
  headers.\<close>

datatype kfun = K_write | K_open | K_exit | K_getchar | K_putchar | K_clear | K_reboot | K_poweroff | K_tier_query |
  K_tier_request | K_fork | K_exec | K_wait | K_fork_with_sandbox | K_mlfq_query | K_yield | K_read | K_close | K_kill |
  K_set_tier | K_uname | K_ls | K_sandbox_query

fun kernel_fn :: "kfun \<Rightarrow> 'd ata_io \<Rightarrow> nat \<Rightarrow> nat \<Rightarrow> ('d, 'a) kernel_state_scheme \<Rightarrow> (int option \<times> ('d, 'a) kernel_state_scheme) option" where
  "kernel_fn K_write io t r s = returns (sys_write_fn t r s)"
| "kernel_fn K_open io t r s = returns (sys_open_fn t r s)"
| "kernel_fn K_exit io t r s = map_option (\<lambda>s. (None, s)) (task_exit (sint (regs t r EBX s)) s)"
| "kernel_fn K_getchar io t r s = returns (Some (sys_getchar_fn s))"
| "kernel_fn K_putchar io t r s = returns (Some (sys_putchar_fn t r s))"
| "kernel_fn K_clear io t r s = returns (Some (sys_clear_fn s))"
| "kernel_fn K_reboot io t r s = returns (Some (sys_reboot_fn s))"
| "kernel_fn K_poweroff io t r s = returns (Some (sys_poweroff_fn s))"
| "kernel_fn K_tier_query io t r s = returns (Some (sys_tier_query_fn t s, s))"
| "kernel_fn K_tier_request io t r s = returns (sys_tier_request_fn t r s)"
| "kernel_fn K_fork io t r s = returns (sys_fork_fn r s)"
| "kernel_fn K_exec io t r s = returns (sys_exec_fn io t r s)"
| "kernel_fn K_wait io t r s = sys_wait (sint (regs t r EBX s)) s"
| "kernel_fn K_fork_with_sandbox io t r s = returns (sys_fork_with_sandbox_fn t r s)"
| "kernel_fn K_mlfq_query io t r s = returns (Some (sys_mlfq_query_fn t s, s))"
| "kernel_fn K_yield io t r s = returns (sys_yield_fn s)"
| "kernel_fn K_read io t r s = returns (sys_read_fn io t r s)"
| "kernel_fn K_close io t r s = returns (sys_close_fn t r s)"
| "kernel_fn K_kill io t r s = returns (Some (sys_kill_fn t r s))"
| "kernel_fn K_set_tier io t r s = returns (sys_set_tier_fn t r s)"
| "kernel_fn K_uname io t r s = returns (sys_uname_fn t r s)"
| "kernel_fn K_ls io t r s = returns (sys_ls_fn t r s)"
| "kernel_fn K_sandbox_query io t r s = returns (sys_sandbox_query_fn t r s)"

text \<open>The capability each of them needs.\<close>

fun kernel_cap :: "kfun \<Rightarrow> u32" where
  "kernel_cap K_write = CAP_WRITE" | "kernel_cap K_open = CAP_READ" | "kernel_cap K_exit = CAP_EXIT"
| "kernel_cap K_getchar = CAP_GETCHAR" | "kernel_cap K_putchar = CAP_PUTCHAR" | "kernel_cap K_clear = CAP_CLEAR"
| "kernel_cap K_reboot = CAP_REBOOT" | "kernel_cap K_poweroff = CAP_POWEROFF" | "kernel_cap K_tier_query = CAP_TIER_QUERY"
| "kernel_cap K_tier_request = CAP_TIER_REQUEST" | "kernel_cap K_fork = CAP_FORK" | "kernel_cap K_exec = CAP_EXEC"
| "kernel_cap K_wait = CAP_WAIT" | "kernel_cap K_fork_with_sandbox = CAP_FORK" | "kernel_cap K_mlfq_query = CAP_MLFQ_QUERY"
| "kernel_cap K_yield = CAP_YIELD" | "kernel_cap K_read = CAP_READ" | "kernel_cap K_close = CAP_READ" | "kernel_cap K_kill = CAP_KILL"
| "kernel_cap K_set_tier = CAP_SET_TIER" | "kernel_cap K_uname = 0" | "kernel_cap K_ls = CAP_READ"
| "kernel_cap K_sandbox_query = CAP_SANDBOX_QUERY"

fun lib_meaning :: "(u32 \<Rightarrow> u8) \<Rightarrow> libcall \<Rightarrow> kfun \<times> u32 list" where
  "lib_meaning mem (Lib_open path flags) = (K_open, [path, flags, 0])"
| "lib_meaning mem (Lib_read fd buf len) = (K_read, [fd, buf, len])"
| "lib_meaning mem (Lib_close fd) = (K_close, [fd])"
| "lib_meaning mem (Lib_write s) = (K_write, [1, s, of_nat (LEAST n. mem (s + of_nat n) = 0)])"
| "lib_meaning mem Lib_getchar = (K_getchar, [])"
| "lib_meaning mem (Lib_putchar c) = (K_putchar, [c])"
| "lib_meaning mem Lib_clear = (K_clear, [])"
| "lib_meaning mem Lib_reboot = (K_reboot, [])"
| "lib_meaning mem Lib_poweroff = (K_poweroff, [])"
| "lib_meaning mem (Lib_exit code) = (K_exit, [code])"
| "lib_meaning mem Lib_tier_query = (K_tier_query, [])"
| "lib_meaning mem (Lib_tier_request tier) = (K_tier_request, [tier])"
| "lib_meaning mem Lib_mlfq_query = (K_mlfq_query, [])"
| "lib_meaning mem Lib_yield = (K_yield, [])"
| "lib_meaning mem Lib_fork = (K_fork, [])"
| "lib_meaning mem (Lib_fork_with_sandbox config) = (K_fork_with_sandbox, [config])"
| "lib_meaning mem (Lib_exec path argv) = (K_exec, [path, argv])"
| "lib_meaning mem (Lib_wait pid) = (K_wait, [pid])"

fun lib_meaning2 :: "libcall2 \<Rightarrow> kfun \<times> u32 list" where
  "lib_meaning2 (Lib_kill pid) = (K_kill, [pid])"
| "lib_meaning2 (Lib_set_tier tier) = (K_set_tier, [tier])"
| "lib_meaning2 (Lib_uname buf) = (K_uname, [buf])"
| "lib_meaning2 (Lib_sandbox_query st) = (K_sandbox_query, [st])"
| "lib_meaning2 (Lib_ls path buf buflen) = (K_ls, [path, buf, buflen])"

fun cpp_meaning :: "cppcall \<Rightarrow> kfun \<times> u32 list" where
  "cpp_meaning (Cpp_open path flags) = (K_open, [path, flags, 0])"
| "cpp_meaning (Cpp_read fd buf len) = (K_read, [fd, buf, len])"
| "cpp_meaning (Cpp_write_fd fd buf len) = (K_write, [fd, buf, len])"
| "cpp_meaning (Cpp_close fd) = (K_close, [fd])"
| "cpp_meaning Cpp_clear = (K_clear, [])"
| "cpp_meaning (Cpp_putchar c) = (K_putchar, [c])"
| "cpp_meaning Cpp_getchar = (K_getchar, [])"
| "cpp_meaning (Cpp_exit code) = (K_exit, [code])"
| "cpp_meaning Cpp_yield = (K_yield, [])"

fun call_meaning :: "(u32 \<Rightarrow> u8) \<Rightarrow> ucall \<Rightarrow> kfun \<times> u32 list" where
  "call_meaning mem (C_call c) = lib_meaning mem c"
| "call_meaning mem (C_call2 c) = lib_meaning2 c"
| "call_meaning mem (Cpp_call c) = cpp_meaning c"
| "call_meaning mem (Povi_call c) = cpp_meaning c"

section \<open>The contract\<close>

text \<open>The string length loop ends, at the first zero.\<close>

lemma lib_strlen_least:
  assumes "mem (a + of_nat n) = 0" "k \<le> (LEAST n. mem (a + of_nat n) = 0)"
  shows "lib_strlen mem a k = Some (LEAST n. mem (a + of_nat n) = 0)"
  using assms(2)
proof (induction "(LEAST n. mem (a + of_nat n) = 0) - k" arbitrary: k)
  case 0
  then have "k = (LEAST n. mem (a + of_nat n) = 0)" by simp
  moreover have "mem (a + of_nat (LEAST n. mem (a + of_nat n) = 0)) = 0" by (rule LeastI [of _ n]) (rule assms(1))
  ultimately show ?case by (subst lib_strlen.simps) simp
next
  case (Suc d)
  then have "mem (a + of_nat k) \<noteq> 0" using not_less_Least [of k "\<lambda>n. mem (a + of_nat n) = 0"] by simp
  moreover have "lib_strlen mem a (k + 1) = Some (LEAST n. mem (a + of_nat n) = 0)" by (rule Suc.hyps(1)) (use Suc in simp_all)
  ultimately show ?case by (subst lib_strlen.simps) simp
qed

text \<open>Numbers and registers of every stub.\<close>

definition kernel_num :: "kfun \<Rightarrow> u32" where
  "kernel_num f = (case f of K_write \<Rightarrow> 0 | K_open \<Rightarrow> 1 | K_exit \<Rightarrow> 2 | K_getchar \<Rightarrow> 3 | K_putchar \<Rightarrow> 4 | K_clear \<Rightarrow> 5
     | K_reboot \<Rightarrow> 6 | K_poweroff \<Rightarrow> 7 | K_tier_query \<Rightarrow> 8 | K_tier_request \<Rightarrow> 9 | K_fork \<Rightarrow> 10 | K_exec \<Rightarrow> 11 | K_wait \<Rightarrow> 12
     | K_fork_with_sandbox \<Rightarrow> 13 | K_mlfq_query \<Rightarrow> 14 | K_yield \<Rightarrow> 15 | K_read \<Rightarrow> 16 | K_close \<Rightarrow> 17 | K_kill \<Rightarrow> 18
     | K_set_tier \<Rightarrow> 19 | K_uname \<Rightarrow> 20 | K_ls \<Rightarrow> 21 | K_sandbox_query \<Rightarrow> 22)"

lemma kernel_num_bound: "kernel_num f < NUM_SYSCALLS"
  by (cases f) (simp_all add: kernel_num_def)

lemma kernel_num_cap: "syscall_caps ! unat (kernel_num f) = kernel_cap f"
  by (cases f) (simp_all add: kernel_num_def syscall_caps_def)

lemma kernel_num_fn: "syscall_table io (kernel_num f) t r s = kernel_fn f io t r s"
  by (cases f) (simp_all add: kernel_num_def syscall_table_def)

definition loads :: "user_ctx \<Rightarrow> kfun \<Rightarrow> u32 list \<Rightarrow> bool" where
  "loads u f as \<longleftrightarrow> u_eax u = KVal (kernel_num f) \<and> (\<forall>i < length as. [u_ebx u, u_ecx u, u_edx u] ! i = KVal (as ! i)) \<and> length as \<le> 3"

lemma stub_loads:
  assumes "\<forall>a. c = C_call (Lib_write a) \<longrightarrow> (\<exists>n. mem (a + of_nat n) = 0)" "call_meaning mem c = (f, as)"
  shows "\<exists>u'. user_stub mem c u = Some u' \<and> loads u' f as"
proof (cases c)
  case (C_call d)
  show ?thesis
  proof (cases "\<exists>a. d = Lib_write a")
    case True
    then obtain a n where "d = Lib_write a" "mem (a + of_nat n) = 0" using assms(1) C_call by blast
    then show ?thesis using assms(2) C_call lib_strlen_least [of mem a n 0] by (auto simp: loads_def kernel_num_def less_Suc_eq nth_Cons')
  next
    case False
    then show ?thesis using assms(2) C_call by (cases d) (auto simp: loads_def kernel_num_def less_Suc_eq nth_Cons')
  qed
next
  case (C_call2 d)
  then show ?thesis using assms(2) by (cases d) (auto simp: loads_def kernel_num_def less_Suc_eq nth_Cons')
next
  case (Cpp_call d)
  then show ?thesis using assms(2) by (cases d) (auto simp: loads_def kernel_num_def less_Suc_eq nth_Cons')
next
  case (Povi_call d)
  then show ?thesis using assms(2) by (cases d) (auto simp: loads_def kernel_num_def less_Suc_eq nth_Cons')
qed

text \<open>The frame of a system call holds the registers at the call.\<close>

lemma entry_regs:
  "regs t (stack_words - 13) EAX (upd_task t (\<lambda>x. x\<lparr>t_stack := entry_stack u (t_stack x)\<rparr>) s) = kval (u_eax u)"
  "regs t (stack_words - 13) EBX (upd_task t (\<lambda>x. x\<lparr>t_stack := entry_stack u (t_stack x)\<rparr>) s) = kval (u_ebx u)"
  "regs t (stack_words - 13) ECX (upd_task t (\<lambda>x. x\<lparr>t_stack := entry_stack u (t_stack x)\<rparr>) s) = kval (u_ecx u)"
  "regs t (stack_words - 13) EDX (upd_task t (\<lambda>x. x\<lparr>t_stack := entry_stack u (t_stack x)\<rparr>) s) = kval (u_edx u)"
  by (simp_all add: regs_def entry_stack_def Let_def upd_task_def)


definition demo_ctx :: user_ctx where
  "demo_ctx = \<lparr>u_edi = KVal 0, u_esi = KVal 0, u_ebp = KVal 0, u_ebx = KVal 0, u_edx = KVal 0, u_ecx = KVal 0,
     u_eax = KVal 0, u_eip = KVal 0x400100, u_cs = KVal 0x1B, u_eflags = KVal 0x202, u_esp = KVal 0xBFFF0000, u_ss = KVal 0x23\<rparr>"


end
