(* ===== verification/Switch.thy ===== *)
theory Switch
  imports User_Lib Heap_Alloc
begin

text \<open>
  Context switches and the ways into user mode: \<open>switch_to\<close> of \<open>kernel/task.asm\<close>, \<open>task_exit_handler\<close> of \<open>kernel/task.c\<close>,
  \<open>user_process_entry\<close> of \<open>kernel/process.c\<close> with \<open>user/usermod.asm\<close>, and the entry of the keyboard interrupt. The scheduler
  of \<open>Sched\<close> ends where it calls \<open>switch_to\<close>; here is what the processor does then. With \<open>fork\<close> this gives what the two
  processes return from the system call with.
\<close>

section \<open>Model\<close>

text \<open>The registers a context switch keeps. The stack pointer is a word index into the stack of the running task; the stack
  of the idle task stands for the one the kernel boots on.\<close>

record cpu =
  c_esp :: nat
  c_ebp :: kword
  c_ebx :: kword
  c_esi :: kword
  c_edi :: kword
  c_eip :: kword

definition switch_to :: "nat \<Rightarrow> nat \<Rightarrow> cpu \<Rightarrow> 'a sched_state_scheme \<Rightarrow> cpu \<times> 'a sched_state_scheme" where
  "switch_to prev nxt c s =
     (let s = upd_task prev (\<lambda>x. x\<lparr>t_esp := c_esp c, t_ebp := c_ebp c, t_ebx := c_ebx c, t_esi := c_esi c, t_edi := c_edi c\<rparr>) s;
          x = tasks s nxt
      in (\<lparr>c_esp = t_esp x + 1, c_ebp = t_ebp x, c_ebx = t_ebx x, c_esi = t_esi x, c_edi = t_edi x,
           c_eip = t_stack x (t_esp x)\<rparr>, s))"

text \<open>A kernel thread whose function returns ends here; the loop behind \<open>schedule\<close> is never reached by an exited task.\<close>

definition task_exit_handler :: "'a sched_state_scheme \<Rightarrow> 'a sched_state_scheme option" where
  "task_exit_handler s = do {
     s \<leftarrow> (case current_task s of None \<Rightarrow> Some s | Some c \<Rightarrow> do {
             s \<leftarrow> dequeue_task (Some c) s;
             Some (upd_task c (\<lambda>x. x\<lparr>t_state := TASK_EXITED, t_exit_code := 0\<rparr>) s)
           });
     schedule s
   }"

text \<open>\<open>switch_to_user\<close> with the flags \<open>fl\<close> and the registers \<open>u\<close>: \<open>cli\<close>, then an interrupt return to the entry point with
  interrupts enabled.\<close>

definition switch_to_user :: "u32 \<Rightarrow> u32 \<Rightarrow> u32 \<Rightarrow> user_ctx \<Rightarrow> user_ctx" where
  "switch_to_user entry user_stack fl u =
     (let fl = fl AND NOT 0x200; ebx = fl OR 0x200 in
      u\<lparr>u_eax := KVal entry, u_ecx := KVal user_stack, u_ebx := KVal ebx,
        u_ss := KVal 0x23, u_esp := KVal user_stack, u_eflags := KVal ebx, u_cs := KVal 0x1B, u_eip := KVal entry\<rparr>)"

definition user_process_entry :: "u32 \<Rightarrow> user_ctx \<Rightarrow> 'a sched_state_scheme \<Rightarrow> user_ctx option" where
  "user_process_entry fl u s = (case current_task s of None \<Rightarrow> None
     | Some t \<Rightarrow> Some (switch_to_user (t_user_entry (tasks s t)) (t_user_stack (tasks s t)) fl u))"

text \<open>The keyboard interrupt while task \<open>t\<close> runs in user mode with registers \<open>u\<close>; \<open>Kernel_fn 3\<close> is the address behind the
  call in \<open>keyboard_entry\<close>.\<close>

definition keyboard_entry :: "u8 \<Rightarrow> nat \<Rightarrow> user_ctx \<Rightarrow> ('d, 'a) kernel_state_scheme \<Rightarrow> user_ctx \<times> ('d, 'a) kernel_state_scheme" where
  "keyboard_entry sc t u s =
     (let r = stack_words - 13;
          s = upd_task t (\<lambda>x. x\<lparr>t_stack := (entry_stack u (t_stack x))(r - 2 := KCode (Kernel_fn 3))\<rparr>) s;
          s = s\<lparr>keyb := keyboard_handler sc (keyb s)\<rparr>
      in (fork_return (t_stack (tasks s t)) r, s))"

section \<open>Context switches\<close>

text \<open>A task that has been switched away from and is switched to again, by whatever task, goes on behind its call.\<close>

lemma switch_back:
  assumes "switch_to a b c s = (c1, s1)" "a \<noteq> b'" "tasks s2 a = tasks s1 a"
  shows "fst (switch_to b' a c2 s2) = c\<lparr>c_esp := c_esp c + 1, c_eip := t_stack (tasks s a) (c_esp c)\<rparr>"
  using assms by (auto simp: switch_to_def Let_def upd_task_def)

lemma create_task_starts:
  assumes "create_task f p s = (Some t, s')" "a \<noteq> t"
  shows "c_eip (fst (switch_to a t c s')) = KCode f" "t_stack (tasks s' t) (c_esp (fst (switch_to a t c s'))) = KCode Task_exit_handler"
  using assms by (auto simp: create_task_def create_task_slot_def switch_to_def Let_def upd_task_def split: option.splits)

lemma entry_stack_return: "fork_return ((entry_stack u st)(stack_words - 15 := w)) (stack_words - 13) = u"
  by (simp add: fork_return_def entry_stack_def Let_def)

text \<open>The keyboard interrupt is invisible to the interrupted program.\<close>

lemma keyboard_entry_returns: "fst (keyboard_entry sc t u s) = u" "keyb (snd (keyboard_entry sc t u s)) = keyboard_handler sc (keyb s)"
  using entry_stack_return [of u "t_stack (tasks s t)" "KCode (Kernel_fn 3)"] by (simp_all add: keyboard_entry_def Let_def upd_task_def)

section \<open>Fork\<close>

lemma copy_pages_frame: "copy_pages ps s = Some (e, s') \<Longrightarrow> pg_frame s s'"
proof (induction ps arbitrary: s)
  case (Cons p ps)
  obtain va pa where p: "p = (va, pa)" by (cases p)
  obtain n s1 where a: "alloc_page_frame s = Some (n, s1)" using Cons.prems by (auto simp: p split: Option.bind_splits)
  note f1 = alloc_page_frame_frame [OF a]
  show ?case
  proof (cases "n = 0")
    case True
    then show ?thesis using Cons.prems f1 a by (simp add: p)
  next
    case False
    then obtain s2 s3 where s: "map_page va n (PTE_PRESENT OR PTE_RW OR PTE_USER) s1 = Some s2" "vm_copy_phys pa n s2 = Some s3"
        "copy_pages ps s3 = Some (e, s')" using Cons.prems a by (auto simp: p split: Option.bind_splits)
    show ?thesis using pg_frame_trans [OF f1 pg_frame_trans [OF map_page_frame [OF s(1)] pg_frame_trans [OF vm_copy_phys_frame [OF s(2)] Cons.IH [OF s(3)]]]] .
  qed
qed simp

lemma enqueue_stack: "t_stack (tasks (enqueue_task (Some c) s) t) = t_stack (tasks s t)"
  by (auto simp: enqueue_task_def Let_def upd_task_def split: option.split)

lemma enqueue_task_self:
  "\<exists>q n. tasks (enqueue_task (Some c) s) c = (tasks s c)\<lparr>t_cur_queue := q, t_next := n\<rparr>"
  by (auto simp: enqueue_task_def Let_def upd_task_def split: option.split intro!: exI)

text \<open>Who a task is and what it may do.\<close>

definition creds :: "task \<Rightarrow> int \<times> nat option \<times> task_state \<times> u32 \<times> u64 \<times> u32 \<times> string" where
  "creds x = (t_pid x, t_parent x, t_state x, t_caps x, t_mem_limit x, t_cpu_quota x, t_root_path x)"

lemma fork_build_child:
  assumes "fork_build p c r ps s = Some (e, s')" "0 < e" "current_task s = Some p" "c \<noteq> p"
  shows "creds (tasks s' c) = creds (tasks s c)" "t_stack (tasks s' c) = fork_stack (t_stack (tasks s p)) r (t_stack (tasks s c))"
    "t_esp (tasks s' c) = stack_words - 14" "e = t_pid (tasks s c)" "t_stack (tasks s' p) = t_stack (tasks s p)"
proof -
  obtain pd s1 where s1: "paging_create_task_pd s = Some (pd, s1)" using assms(1) by (auto simp: fork_build_def Let_def split: Option.bind_splits)
  have pd: "pd \<noteq> 0" using assms(1,2) s1 by (auto simp: fork_build_def)
  obtain e1 s2 where s2: "copy_pages ps (load_cr3 pd s1) = Some (e1, s2)"
    using assms(1) s1 pd by (auto simp: fork_build_def Let_def split: Option.bind_splits)
  have e1: "e1 = 0"
  proof (rule ccontr)
    assume "e1 \<noteq> 0"
    then show False using assms(1,2) s1 pd s2 by (auto simp: fork_build_def Let_def split: Option.bind_splits)
  qed
  have "pg_frame s s2"
    by (rule pg_frame_trans [OF paging_create_task_pd_frame [OF s1] pg_frame_trans [OF load_cr3_frame copy_pages_frame [OF s2]]])
  then have f: "sf_frame s s2" by (rule pg_frame_sf)
  let ?s3 = "load_cr3 (t_cr3 (tasks s1 p)) (upd_task c (\<lambda>x. x\<lparr>t_cr3 := pd, t_user_entry := t_user_entry (tasks s2 p),
                    t_user_stack := t_user_stack (tasks s2 p), t_pages_charged := of_nat (length ps)\<rparr>) s2)"
  let ?s4 = "upd_task c (\<lambda>x. x\<lparr>t_stack := fork_stack (t_stack (tasks ?s3 p)) r (t_stack x), t_esp := stack_words - 14,
      t_ebp := KStack (stack_words - 14)\<rparr>) ?s3"
  have "fork_build p c r ps s = Some (t_pid (tasks (enqueue_task (Some c) ?s4) c), enqueue_task (Some c) ?s4)"
    unfolding fork_build_def s1 Option.bind.simps prod.case if_not_P [OF pd] Let_def s2 e1 by simp
  then have s': "s' = enqueue_task (Some c) ?s4" "e = t_pid (tasks s' c)" using assms(1) by simp_all
  have c: "tasks s2 c = tasks s c" using sf_frame_other [OF f] assms(3,4) by simp
  have st: "t_stack (tasks s2 p) = t_stack (tasks s p)" by (rule sf_frame_task(1) [OF f])
  define s4 where "s4 = ?s4"
  obtain q n where q: "tasks s' c = (tasks s4 c)\<lparr>t_cur_queue := q, t_next := n\<rparr>"
    using enqueue_task_self [of c s4] s'(1) unfolding s4_def [symmetric] by blast
  have t3: "creds (tasks ?s3 c) = creds (tasks s c)" "t_stack (tasks ?s3 c) = t_stack (tasks s c)" "t_stack (tasks ?s3 p) = t_stack (tasks s p)"
    using c st assms(4) by (simp_all add: upd_task_def load_cr3_def creds_def)
  show 1: "creds (tasks s' c) = creds (tasks s c)" using q t3(1) by (simp add: creds_def upd_task_def s4_def)
  show "t_stack (tasks s' c) = fork_stack (t_stack (tasks s p)) r (t_stack (tasks s c))" "t_esp (tasks s' c) = stack_words - 14"
    using q t3(2,3) by (simp_all add: upd_task_def s4_def)
  show "e = t_pid (tasks s c)" using 1 s'(2) by (simp add: creds_def)
  have "t_stack (tasks s4 p) = t_stack (tasks s p)" using t3(3) assms(4) by (simp add: upd_task_def s4_def)
  moreover have "s' = enqueue_task (Some c) s4" unfolding s4_def by (rule s'(1))
  ultimately show "t_stack (tasks s' p) = t_stack (tasks s p)" using enqueue_stack [of c s4 p] by simp
qed

text \<open>The credentials a child gets.\<close>

definition within :: "task \<Rightarrow> task \<Rightarrow> bool" where
  "within parent x \<longleftrightarrow> t_caps x AND NOT (t_caps parent) = 0 \<and>
     (t_mem_limit parent \<noteq> 0 \<longrightarrow> 0 < t_mem_limit x \<and> t_mem_limit x \<le> t_mem_limit parent) \<and>
     (t_cpu_quota parent \<noteq> 0 \<longrightarrow> 0 < t_cpu_quota x \<and> t_cpu_quota x \<le> t_cpu_quota parent) \<and>
     (t_root_path parent \<noteq> [] \<longrightarrow> t_root_path x = t_root_path parent \<or> path_is_within (t_root_path x) (t_root_path parent))"

lemma fork_caps_within: "fork_caps p sb AND NOT (t_caps p) = 0"
  by (rule bit_word_eqI) (auto simp: fork_caps_def bit_simps split: option.split)

lemma fork_mem_within: "t_mem_limit p \<noteq> 0 \<Longrightarrow> 0 < fork_mem p sb \<and> fork_mem p sb \<le> t_mem_limit p"
  by (auto simp: fork_mem_def word_neq_0_conv split: option.split)

lemma fork_quota_within: "t_cpu_quota p \<noteq> 0 \<Longrightarrow> 0 < fork_quota p sb \<and> fork_quota p sb \<le> t_cpu_quota p"
  by (auto simp: fork_quota_def Let_def word_neq_0_conv split: option.split)

lemma fork_credentials_within:
  assumes "fork_credentials p sb n c s = Some (Inr x)"
  shows "within p x" "t_pid x = t_pid c" "t_parent x = t_parent c" "t_state x = t_state c"
proof -
  obtain c1 where c1: "fork_tier p sb c = Inr c1" using assms by (auto simp: fork_credentials_def split: sum.splits)
  obtain rt where rt: "fork_root p sb s = Some (Inr rt)"
    using assms c1 by (auto simp: fork_credentials_def split: sum.splits Option.bind_splits)
  have x: "x = c1\<lparr>t_caps := fork_caps p sb, t_mem_limit := fork_mem p sb, t_cpu_quota := fork_quota p sb, t_root_path := rt\<rparr>"
    using assms c1 rt by (auto simp: fork_credentials_def Let_def split: if_splits)
  have r: "t_root_path p \<noteq> [] \<Longrightarrow> rt = t_root_path p \<or> path_is_within rt (t_root_path p)"
    using rt by (auto simp: fork_root_def split: option.splits if_splits Option.bind_splits)
  show "within p x" using r fork_caps_within fork_mem_within fork_quota_within by (auto simp: x within_def)
  have "t_pid c1 = t_pid c" "t_parent c1 = t_parent c" "t_state c1 = t_state c" using c1 by (auto simp: fork_tier_def split: option.splits if_splits)
  then show "t_pid x = t_pid c" "t_parent x = t_parent c" "t_state x = t_state c" by (simp_all add: x)
qed

lemma sys_fork_child:
  assumes f: "sys_fork r sb s = Some (e, s')" "0 < e" and p: "current_task s = Some p" "t_in_use (tasks s p)"
  obtains c where "c < MAX_TASKS" "\<not> t_in_use (tasks s c)" "within (tasks s p) (tasks s' c)" "t_pid (tasks s' c) = e" "e = pid_counter s"
    "t_parent (tasks s' c) = Some p" "t_state (tasks s' c) = TASK_READY" "t_esp (tasks s' c) = stack_words - 14"
    "\<exists>st. t_stack (tasks s' c) = fork_stack (t_stack (tasks s p)) r st" "t_stack (tasks s' p) = t_stack (tasks s p)"
proof -
  obtain ps where ps: "collect_pages s = Some (Some ps)" using f p(1) by (auto simp: sys_fork_def split: option.splits Option.bind_splits)
  obtain c s1 where c: "create_task_slot s = (Some c, s1)" using f p(1) ps by (auto simp: sys_fork_def split: option.splits prod.splits)
  define s2 where "s2 = upd_task c (\<lambda>x. x\<lparr>t_priority := t_priority (tasks s1 p), t_timeslice := TASK_TIMESLICE, t_state := TASK_READY,
    t_mlfq_level := 0, t_parent := Some p, t_map := 0, t_wd_managed := False\<rparr>) s1"
  have fr: "find (\<lambda>i. \<not> t_in_use (tasks s i)) [0..<MAX_TASKS] = Some c" using c by (auto simp: create_task_slot_def split: option.splits)
  have cf: "c < MAX_TASKS" "\<not> t_in_use (tasks s c)" using fr unfolding find_Some_iff by auto
  have cp: "c \<noteq> p" using cf(2) p(2) by blast
  have t2: "tasks s2 p = tasks s p" "current_task s2 = Some p" "t_pid (tasks s2 c) = pid_counter s" "t_parent (tasks s2 c) = Some p"
      "t_state (tasks s2 c) = TASK_READY"
    using c fr cp p(1) by (auto simp: s2_def create_task_slot_def upd_task_def Let_def)
  have k: "sys_fork r sb s = Option.bind (fork_credentials (tasks s2 p) sb (length ps) (tasks s2 c) s2) (\<lambda>cred.
      case cred of Inl e \<Rightarrow> Some (e, free_task_slot (Some c) s2) | Inr t \<Rightarrow> fork_build p c r ps (upd_task c (\<lambda>_. t) s2))"
    unfolding sys_fork_def p(1) ps c Let_def option.case prod.case Option.bind.simps s2_def [symmetric] ..
  have neg: "e1 < 0" if "fork_credentials a b n x s2 = Some (Inl e1)" for a b n x e1
    using that by (auto simp: fork_credentials_def fork_tier_def fork_root_def Let_def split: option.splits if_splits Option.bind_splits sum.splits)
  obtain t where t: "fork_credentials (tasks s2 p) sb (length ps) (tasks s2 c) s2 = Some (Inr t)"
    using f neg [of "tasks s2 p" sb "length ps" "tasks s2 c"] unfolding k by (auto split: Option.bind_splits sum.splits)
  have b: "fork_build p c r ps (upd_task c (\<lambda>_. t) s2) = Some (e, s')" using f(1) unfolding k t by simp
  note w = fork_credentials_within [OF t] and bc = fork_build_child [OF b f(2)]
  have u: "current_task (upd_task c (\<lambda>_. t) s2) = Some p" "tasks (upd_task c (\<lambda>_. t) s2) c = t" "tasks (upd_task c (\<lambda>_. t) s2) p = tasks s p"
    using t2 cp by (simp_all add: upd_task_def)
  note bc = bc [OF u(1) cp, unfolded u(2,3)]
  have cr: "t_pid (tasks s' c) = t_pid t" "t_parent (tasks s' c) = t_parent t" "t_state (tasks s' c) = t_state t" "t_caps (tasks s' c) = t_caps t"
    "t_mem_limit (tasks s' c) = t_mem_limit t" "t_cpu_quota (tasks s' c) = t_cpu_quota t" "t_root_path (tasks s' c) = t_root_path t"
    using bc(1) by (simp_all add: creds_def)
  have "within (tasks s p) (tasks s' c)" using w(1) cr(4-7) t2(1) by (simp add: within_def)
  moreover have "e = pid_counter s" "t_pid (tasks s' c) = e" "t_parent (tasks s' c) = Some p" "t_state (tasks s' c) = TASK_READY"
    using bc(4) w(2-4) cr(1-3) t2(3-5) by simp_all
  ultimately show thesis using that cf bc(2,3,5) by blast
qed

text \<open>A window for a new page directory at \<open>0xE0002000\<close>: its page table, at directory index 896, is there.\<close>

definition window :: "nat \<Rightarrow> 'a paging_state_scheme \<Rightarrow> bool" where
  "window f s \<longleftrightarrow> rec_ok s \<and> present (pde s 896) \<and> present (pmem s (pt_frame s 896) 2) \<and> frame_of (pmem s (pt_frame s 896) 2) = f \<and>
     f \<noteq> frame_of (cr3 s) \<and> f \<noteq> pt_frame s 896"

lemma window_store: "window f s \<Longrightarrow> window f (store_word f w v s)"
  by (auto simp: window_def rec_ok_def pde_def pt_frame_def pmem_store_word store_word_def)

lemma window_write:
  assumes "window f s" "i < 1024"
  shows "\<exists>w. vwrite32 (0xE0002000 + 4 * of_nat i) v s = Some (store_word f w v s)"
proof -
  have u: "unat (0xE0002000 + 4 * of_nat i :: u32) = 0xE0002000 + 4 * i"
    using assms(2) unat_W [of "0xE0002000 + 4 * i"] by (simp add: W_def)
  have d: "(0xE0002000 + 4 * i) div 4096 = 0xE0002" "(0xE0002000 + 4 * i) div 4194304 = 896" using assms(2) by simp_all
  have "pd_index (0xE0002000 + 4 * of_nat i) = 896" "pt_index (0xE0002000 + 4 * of_nat i) = 2"
    unfolding pd_index_def pt_index_def unat_and_3FF unat_drop_bit32 u using d by simp_all
  then show ?thesis using assms(1) by (auto simp: vwrite32_def walk_def walk_pte_alt window_def)
qed

lemma paging_create_task_pd_total:
  assumes wf: "pt_wf s (f # F)" and h: "has_pt s 896"
  shows "\<exists>s'. paging_create_task_pd s = Some (of_nat (f * PAGE_SIZE), s') \<and> (of_nat (f * PAGE_SIZE) :: u32) \<noteq> 0"
proof -
  let ?p = "of_nat (f * PAGE_SIZE) :: u32"
  note fo = pt_wfD(2) [OF wf]
  have fr: "PAGE_START_INDEX \<le> f" "f < NUM_PAGES" using fo by (auto simp: free_ok_def)
  have nz: "?p \<noteq> 0" using of_nat_frame_nonzero free_ok_head [OF fo] by force
  obtain s1 where s1: "alloc_page_frame s = Some (?p, s1)" "free_ok s1 F" "pmem s1 = pmem s" "cr3 s1 = cr3 s"
    using alloc_page_frame_Cons [OF fo] by blast
  have wf1: "pt_wf s1 F" by (rule pt_wf_cong [OF wf s1(3,4,2)]) auto
  have pd: "pde s1 = pde s" "pt_frame s1 = pt_frame s" using s1(3,4) by (auto simp: pde_def pt_frame_def)
  have i: "pd_index 0xE0002000 = 896" "pt_index 0xE0002000 = 2" by (simp_all add: pd_index_def pt_index_def unat_drop_bit32 unat_and_3FF)
  have pr: "present (pde s1 896)" using h pd by (simp add: has_pt_def)
  let ?e = "?p OR ((PTE_PRESENT OR PTE_RW) AND 0xFFF)"
  let ?s2 = "store_word (pt_frame s 896) 2 ?e s1"
  have m: "map_page 0xE0002000 ?p (PTE_PRESENT OR PTE_RW) s1 = Some ?s2"
    using map_page_present [OF wf1, of "0xE0002000" ?p "PTE_PRESENT OR PTE_RW"] pr unfolding i pd by simp
  have e: "present ?e" "frame_of ?e = f" using fr frame_of_nat [of f] by (simp_all add: present_odd even_or_iff frame_of_or)
  have w: "window f ?s2"
    using wf h e pt_wfD(1,3) [OF wf] pt_wfD(4,5) [OF wf h] s1(3,4)
    by (auto simp: window_def rec_ok_def pde_def pt_frame_def pmem_store_word store_word_def has_pt_def)
  let ?g = "\<lambda>i s. if i = 0 \<or> i \<ge> 768 then do { e \<leftarrow> vread32 s (pd_addr (of_nat i)); vwrite32 (0xE0002000 + 4 * of_nat i) e s }
      else vwrite32 (0xE0002000 + 4 * of_nat i) 0 s"
  have "\<exists>s'. fold_opt ?g entries ?s2 = Some s' \<and> window f s'"
  proof (rule fold_opt_invariant [where I = "window f", OF w])
    fix i s assume a: "i \<in> set entries" "window f (s :: 'a paging_state_scheme)"
    then have i: "i < 1024" by (simp add: entries_def)
    have "vread32 s (pd_addr (of_nat i)) = Some (pde s i)" using vread_pd [of s "of_nat i"] unat_W [of i] a(2) i by (simp add: window_def W_def)
    then show "\<exists>s'. ?g i s = Some s' \<and> window f s'"
      using window_write [OF a(2) i] window_store [OF a(2)] by (metis Option.bind.simps(2))
  qed
  then obtain s3 where s3: "fold_opt ?g entries ?s2 = Some s3" "window f s3" by blast
  obtain s4 where s4: "vwrite32 (0xE0002000 + 4 * of_nat 1023) (?p OR PTE_PRESENT OR PTE_RW) s3 = Some s4" "window f s4"
    using window_write [OF s3(2), of 1023] window_store [OF s3(2)] by fastforce
  have "\<exists>s5. unmap_page 0xE0002000 s4 = Some s5"
    using vread_pd [of s4 896] vwrite_pt [of s4 896 2] s4(2) by (simp add: unmap_page_def window_def)
  then show ?thesis using nz s1(1) m s3(1) s4(1) by (auto simp: paging_create_task_pd_def)
qed

text \<open>The child's frame, from the parent's.\<close>

lemma fork_stack_return:
  "fork_stack (entry_stack u st) (stack_words - 13) st' (stack_words - 14) = KCode Fork_return"
  "fork_return (fork_stack (entry_stack u st) (stack_words - 13) st') (stack_words - 13) = u\<lparr>u_eax := KVal 0\<rparr>"
  by (simp_all add: fork_return_def fork_stack_def entry_stack_def Let_def)

text \<open>
  C4: fork returns twice. When a task with registers \<open>u\<close> makes the system call \<open>fork\<close> and the fork succeeds, the call returns
  to it with its registers unchanged but for the process number of the child in EAX. A task slot that was free holds the
  child, ready to run, with the task as its parent and with no more capabilities, memory or processor time than it, and no
  wider root directory. When the processor is switched to the child, from whatever task, it returns to user mode at the same
  place with the same registers, and zero in EAX.
\<close>

theorem fork_returns_twice:
  assumes "current_task s = Some p" "t_in_use (tasks s p)" "t_caps (tasks s p) AND CAP_FORK = CAP_FORK" "u_eax u = KVal SYS_FORK"
    "sys_fork (stack_words - 13) None (upd_task p (\<lambda>x. x\<lparr>t_stack := entry_stack u (t_stack x)\<rparr>) s) = Some (e, s1)" "0 < e"
  shows "\<exists>s' c. syscall_entry io p u s = Some (Some (u\<lparr>u_eax := KVal (of_int e)\<rparr>), s') \<and>
    c < MAX_TASKS \<and> \<not> t_in_use (tasks s c) \<and> t_pid (tasks s' c) = e \<and> t_parent (tasks s' c) = Some p \<and>
    t_state (tasks s' c) = TASK_READY \<and> within (tasks s p) (tasks s' c) \<and>
    (\<forall>a k. a \<noteq> c \<longrightarrow> c_eip (fst (switch_to a c k s')) = KCode Fork_return \<and>
       fork_return (t_stack (tasks s' c)) (c_esp (fst (switch_to a c k s'))) = u\<lparr>u_eax := KVal 0\<rparr>)"
proof -
  let ?r = "stack_words - 13" and ?s = "upd_task p (\<lambda>x. x\<lparr>t_stack := entry_stack u (t_stack x)\<rparr>) s"
  have s: "current_task ?s = Some p" "t_in_use (tasks ?s p)" "t_stack (tasks ?s p) = entry_stack u (t_stack (tasks s p))"
    using assms(1,2) by (simp_all add: upd_task_def)
  obtain c where c: "c < MAX_TASKS" "\<not> t_in_use (tasks ?s c)" "within (tasks ?s p) (tasks s1 c)" "t_pid (tasks s1 c) = e" "e = pid_counter ?s"
      "t_parent (tasks s1 c) = Some p" "t_state (tasks s1 c) = TASK_READY" "t_esp (tasks s1 c) = stack_words - 14"
      "\<exists>st. t_stack (tasks s1 c) = fork_stack (entry_stack u (t_stack (tasks s p))) ?r st"
      "t_stack (tasks s1 p) = entry_stack u (t_stack (tasks s p))"
    by (rule sys_fork_child [OF assms(5,6) s(1,2), unfolded s(3)])
  have cp: "c \<noteq> p" using c(2) s(2) by blast
  let ?s' = "set_stack p (?r + 7) (KVal (of_int e)) s1"
  have t: "tasks ?s' c = tasks s1 c" using cp by (simp add: set_stack_def upd_task_def)
  have "regs p ?r EAX ?s = SYS_FORK" using assms(4) by (simp only: entry_regs kval.simps)
  then have h: "syscall_handler io ?r ?s = Some (Some e, s1)"
    using assms(1,3,5) by (simp add: syscall_handler_def get_current_task_def syscall_caps_def syscall_table_def returns_def sys_fork_fn_def upd_task_def)
  have n: "t_stack (tasks s1 p) (?r - 2) \<noteq> KCode Fork_return" unfolding c(10) by (simp add: entry_stack_def Let_def)
  have f: "fork_return (t_stack (tasks ?s' p)) ?r = u\<lparr>u_eax := KVal (of_int e)\<rparr>"
    using c(10) by (simp add: set_stack_def upd_task_def fork_return_def entry_stack_def Let_def)
  have "syscall_entry io p u s = Some (Some (u\<lparr>u_eax := KVal (of_int e)\<rparr>), ?s')"
    unfolding syscall_entry_def Let_def h Option.bind.simps prod.case option.case if_not_P [OF n] f ..
  moreover have "c_eip (fst (switch_to a c k ?s')) = KCode Fork_return"
      "fork_return (t_stack (tasks ?s' c)) (c_esp (fst (switch_to a c k ?s'))) = u\<lparr>u_eax := KVal 0\<rparr>" if "a \<noteq> c" for a k
    using that c(8,9) fork_stack_return t by (auto simp: switch_to_def Let_def upd_task_def)
  moreover have "\<not> t_in_use (tasks s c)" "within (tasks s p) (tasks ?s' c)" using c(2,3) cp t by (simp_all add: upd_task_def within_def)
  ultimately show ?thesis using c(1,4,6,7) t by (intro exI [of _ ?s'] exI [of _ c]) simp
qed

text \<open>A fork of a task without user pages succeeds when a frame is left for the page directory.\<close>

lemma fold_opt_same: "\<forall>x \<in> set xs. f x s = Some s \<Longrightarrow> fold_opt f xs s = Some s"
  by (induction xs) auto

lemma collect_pages_none:
  assumes "pt_wf s F" "\<forall>i. 1 \<le> i \<longrightarrow> i < 768 \<longrightarrow> \<not> present (pde s i)"
  shows "collect_pages s = Some (Some [])"
proof -
  have r: "vread32 s (pd_addr (of_nat i)) = Some (pde s i)" if "i < 768" for i
    using vread_pd [OF pt_wfD(1) [OF assms(1)], of "of_nat i"] unat_W [of i] that by (simp add: W_def)
  show ?thesis unfolding collect_pages_def for_user_ptes_def
    by (rule fold_opt_same) (use assms(2) r in auto)
qed

lemma sys_fork_empty:
  assumes "pt_wf s (f # F)" "has_pt s 896" "\<forall>i. 1 \<le> i \<longrightarrow> i < 768 \<longrightarrow> \<not> present (pde s i)"
    "current_task s = Some p" "find (\<lambda>i. \<not> t_in_use (tasks s i)) [0..<MAX_TASKS] = Some c" "t_mem_limit (tasks s p) = 0" "c \<noteq> p"
  shows "\<exists>s'. sys_fork r None s = Some (pid_counter s, s')"
proof -
  define s1 where "s1 = snd (create_task_slot s)"
  have c: "create_task_slot s = (Some c, s1)" "tasks s1 p = tasks s p" "t_pid (tasks s1 c) = pid_counter s"
    using assms(5,7) by (simp_all add: s1_def create_task_slot_def upd_task_def Let_def)
  define s2 where "s2 = upd_task c (\<lambda>x. x\<lparr>t_priority := t_priority (tasks s1 p), t_timeslice := TASK_TIMESLICE, t_state := TASK_READY,
    t_mlfq_level := 0, t_parent := Some p, t_map := 0, t_wd_managed := False\<rparr>) s1"
  have t2: "tasks s2 p = tasks s p" "t_pid (tasks s2 c) = pid_counter s" using c assms(7) by (simp_all add: s2_def upd_task_def)
  obtain x where x: "fork_credentials (tasks s2 p) None (length ([] :: (u32 \<times> u32) list)) (tasks s2 c) s2 = Some (Inr x)" "t_pid x = pid_counter s"
    using t2 assms(6) by (simp add: fork_credentials_def fork_tier_def fork_root_def fork_mem_def)
  define s3 where "s3 = upd_task c (\<lambda>_. x) s2"
  have s3: "pmem s3 = pmem s" "cr3 s3 = cr3 s" "freeq s3 = freeq s" "pg_phys_addr s3 = pg_phys_addr s" "t_pid (tasks s3 c) = pid_counter s"
    using x(2) assms(5) by (simp_all add: s3_def s2_def s1_def upd_task_def create_task_slot_def Let_def)
  have wf: "pt_wf s3 (f # F)"
    by (rule pt_wf_cong [OF assms(1) s3(1,2) free_ok_cong [OF pt_wfD(2) [OF assms(1)] s3(3,4)]]) simp
  have "has_pt s3 896" using assms(2) s3(1,2) by (simp add: has_pt_def pde_def)
  then obtain pd s4 where s4: "paging_create_task_pd s3 = Some (pd, s4)" "pd \<noteq> 0" using paging_create_task_pd_total [OF wf] by blast
  have pid: "t_pid (tasks s4 c) = pid_counter s" using sf_frame_task(8) [OF pg_frame_sf [OF paging_create_task_pd_frame [OF s4(1)]], of c] s3(5) by simp
  have "\<exists>s'. fork_build p c r [] s3 = Some (pid_counter s, s')"
    using s4 pid enqueue_task_self [of c] by (auto simp: fork_build_def Let_def upd_task_def load_cr3_def enqueue_task_def split: option.split)
  moreover have "sys_fork r None s = fork_build p c r [] s3"
    unfolding sys_fork_def assms(4) collect_pages_none [OF assms(1,3)] c(1) Let_def option.case prod.case Option.bind.simps s2_def [symmetric]
      x(1) sum.case s3_def ..
  ultimately show ?thesis by simp
qed

definition demo_fork :: "unit kernel_state" where
  "demo_fork = demo_kernel\<lparr>tasks := (\<lambda>_. zero_task)(3 := zero_task\<lparr>t_in_use := True, t_caps := CAP_USER_DEFAULT\<rparr>),
     pid_counter := 4, current_task := Some 3, pmem := (\<lambda>f w. if f = 5 \<and> w = 1023 then 0x5003 else if f = 5 \<and> w = 896 then 0x6003 else 0)\<rparr>"

theorem fork_returns_twice_witness:
  "\<exists>s' c. syscall_entry no_drive 3 (demo_ctx\<lparr>u_eax := KVal SYS_FORK\<rparr>) demo_fork = Some (Some (demo_ctx\<lparr>u_eax := KVal 4\<rparr>), s') \<and>
     c_eip (fst (switch_to 3 c \<lparr>c_esp = 0, c_ebp = KVal 0, c_ebx = KVal 0, c_esi = KVal 0, c_edi = KVal 0, c_eip = KVal 0\<rparr> s')) = KCode Fork_return"
proof -
  let ?u = "demo_ctx\<lparr>u_eax := KVal SYS_FORK\<rparr>"
  let ?s = "upd_task 3 (\<lambda>x. x\<lparr>t_stack := entry_stack ?u (t_stack x)\<rparr>) demo_fork"
  have k: "cr3 ?s = 0x5000" "freeq ?s = freeq small_paging" "pg_phys_addr ?s = pg_phys_addr small_paging"
    by (simp_all add: demo_fork_def upd_task_def demo_kernel_def demo_tarfs_def demo_fs_def small_paging_def kernel_state.defs tarfs_state.defs
      disk_state.defs ramfs_state.defs memfs_state.defs fs_state.defs vm_state.defs heap_state.defs paging_state.defs)
  have p: "pde ?s i = (if i = 1023 then 0x5003 else if i = 896 then 0x6003 else 0)" for i
    using k(1) by (simp add: pde_def demo_fork_def upd_task_def frame_of_def unat_drop_bit32)
  have f: "frame_of (cr3 ?s) = 5" "frame_of 0x5003 = 5" "frame_of 0x6003 = 6" using k(1) by (simp_all add: frame_of_def unat_drop_bit32)
  have wf: "pt_wf ?s [1024, 1025]"
    unfolding pt_wf_def rec_ok_def has_pt_def pt_frame_def p f(1) using free_ok_cong [OF small_paging_free k(2,3)] f by (simp add: present_odd)
  have "\<exists>s1. sys_fork (stack_words - 13) None ?s = Some (pid_counter ?s, s1)"
  proof (rule sys_fork_empty [OF wf, where p = 3 and c = 0])
    show "has_pt ?s 896" "\<forall>i. 1 \<le> i \<longrightarrow> i < 768 \<longrightarrow> \<not> present (pde ?s i)" unfolding has_pt_def p by (auto simp: present_odd)
    show "find (\<lambda>i. \<not> t_in_use (tasks ?s i)) [0..<MAX_TASKS] = Some 0" "current_task ?s = Some 3" "t_mem_limit (tasks ?s 3) = 0"
      by (simp_all add: demo_fork_def upd_task_def zero_task_def upt_rec)
  qed simp
  moreover have "pid_counter ?s = 4" by (simp add: demo_fork_def upd_task_def)
  ultimately obtain s1 where s1: "sys_fork (stack_words - 13) None ?s = Some (4, s1)" by auto
  have h: "current_task demo_fork = Some 3" "t_in_use (tasks demo_fork 3)" "t_caps (tasks demo_fork 3) AND CAP_FORK = CAP_FORK" "u_eax ?u = KVal SYS_FORK"
    by (simp_all add: demo_fork_def cap_defs push_bit_eq_mult)
  obtain s' c where r: "syscall_entry no_drive 3 ?u demo_fork = Some (Some (?u\<lparr>u_eax := KVal (of_int 4)\<rparr>), s')" "\<not> t_in_use (tasks demo_fork c)"
      "\<forall>a k. a \<noteq> c \<longrightarrow> c_eip (fst (switch_to a c k s')) = KCode Fork_return"
    using fork_returns_twice [OF h s1 zero_less_numeral, of no_drive] by blast
  have "3 \<noteq> c" using r(2) h(2) by blast
  then show ?thesis using r(1,3) by (intro exI [of _ s'] exI [of _ c]) simp
qed

end
