(* ===== verification/Boot.thy ===== *)
theory Boot
  imports Locks_Test Heap_Service Switch
begin

text \<open>
  The start of the kernel, \<open>kernel/kernel.c\<close>, and the line editor of \<open>init/init.c\<close>. Tables that only the start writes (the
  interrupt descriptors, the task state segment, the locks) form a record of their own beside the kernel state; addresses that
  the linker or the boot loader chooses are arguments. \<open>sched_init\<close>, \<open>syscall_init\<close> and \<open>vm_init\<close> are empty functions.
\<close>

section \<open>Model\<close>

record machine =
  m_idt :: "nat \<Rightarrow> idt_entry"
  m_tss :: tss
  m_gdt :: "nat \<Rightarrow> u8"
  m_locks :: locks
  m_test :: locks_test

record layout =
  handler_addr :: "handler \<Rightarrow> u32"
  tss_addr :: u32
  kernel_stack_for_tss :: u32
  buf_addr :: u32
  mboot_magic :: u32
  mboot_addr :: u32

definition bdev_selftest :: "'d ata_io \<Rightarrow> ('d, 'a) kernel_state_scheme \<Rightarrow> ('d, 'a) kernel_state_scheme option" where
  "bdev_selftest io s = do {
     (_, s) \<leftarrow> ata_init io s;
     case bdev_lookup ''ata0'' s of None \<Rightarrow> Some (say (''[bdev] ata0 not found, skip selftest'' @ newline) s)
     | Some dev \<Rightarrow> do {
         (r, buf, s) \<leftarrow> bdev_read io (Some dev) 0 1 TIER_KERNEL s;
         if r \<noteq> 0 then Some (say (''[bdev] read LBA0 failed'' @ newline) s)
         else if take 5 (drop 257 buf) \<noteq> text_bytes ''ustar'' then Some (say (''[bdev] LBA0 not a tar header'' @ newline) s)
         else do {
           let s = say (''[bdev] LBA0 tar magic ok'' @ newline) s;
           let buf = text_bytes ''WRITE-BACK-TEST'' @ [0] @ drop 16 buf;
           (r, s) \<leftarrow> bdev_write io (Some dev) 8190 buf 1 TIER_KERNEL s;
           if r \<noteq> 0 then Some (say (''[bdev] write LBA8190 failed'' @ newline) s)
           else do {
             (r, buf, s) \<leftarrow> bdev_read io (Some dev) 8190 1 TIER_KERNEL s;
             Some (say ((if r \<noteq> 0 then ''[bdev] read back LBA8190 failed''
                         else if take 16 buf = text_bytes ''WRITE-BACK-TEST'' @ [0] then ''[bdev] LBA8190 write/read-back ok''
                         else ''[bdev] LBA8190 read-back mismatch'') @ newline) s)
           }
         }
       }
   }"

text \<open>The first part of \<open>kernel_main\<close>: page tables and heap.\<close>

definition boot_memory :: "('d, 'a) kernel_state_scheme \<Rightarrow> ('d, 'a) kernel_state_scheme option" where
  "boot_memory s = do {
     let s = say (''Kernel started'' @ newline) (serial_init s);
     let s = snd (paging_init 0x00100000 0x04000000 s);
     n \<leftarrow> free_pages_count s;
     let s = say newline (serial_write_hex n (say ''[mem] free pages='' s));
     s \<leftarrow> heap_init s;
     (_, s) \<leftarrow> heap_selftest s;
     Some s
   }"

text \<open>The drivers, the tables and the lock self test.\<close>

definition boot_devices :: "'d ata_io \<Rightarrow> layout \<Rightarrow> machine \<Rightarrow> ('d, 'a) kernel_state_scheme \<Rightarrow> (machine \<times> ('d, 'a) kernel_state_scheme) option" where
  "boot_devices io lay m s = do {
     s \<leftarrow> bdev_selftest io s;
     let s = s\<lparr>console := vga_init (console s)\<rparr>;
     let m = m\<lparr>m_idt := idt_init (handler_addr lay) (m_idt m)\<rparr>;
     let s = task_init s;
     let (t, g) = tss_init (tss_addr lay) (m_gdt m);
     let m = m\<lparr>m_tss := tss_set_kernel_stack (kernel_stack_for_tss lay + 4096) t, m_gdt := g\<rparr>;
     let s = watchdog_init s;
     let (ports, idt) = pit_init (handler_addr lay) (m_idt m);
     let s = s\<lparr>port_out := port_out s @ ports\<rparr>;
     let s = s\<lparr>keyb := keyboard_init (keyb s)\<rparr>;
     (l, s) \<leftarrow> locks_test_main (m_test m) s;
     Some (m\<lparr>m_idt := idt, m_locks := locks_init (m_locks m), m_test := l\<rparr>, s)
   }"

text \<open>The root file system from the first module of the boot loader. The result is \<^const>\<open>False\<close> when the kernel halts here.\<close>

definition boot_root :: "layout \<Rightarrow> ('d, 'a) kernel_state_scheme \<Rightarrow> (bool \<times> ('d, 'a) kernel_state_scheme) option" where
  "boot_root lay s =
     (if mboot_magic lay = 0x2BADB002 \<and> mboot_addr lay \<noteq> 0 then do {
        mods_count \<leftarrow> read32 s (mboot_addr lay + 20);
        if mods_count > 0 then do {
          mods_addr \<leftarrow> read32 s (mboot_addr lay + 24);
          mod_start \<leftarrow> read32 s mods_addr;
          if mod_start \<ge> 4 * 1024 * 1024 then Some (False, say (''[fs] initrd above 4MB, not directly mapped'' @ newline) s)
          else do {
            (ram_sb, s) \<leftarrow> ramfs_mount mod_start s;
            Some (True, if ram_sb \<noteq> 0 \<and> s_root (sblocks s ram_sb) \<noteq> 0
                        then say (''[fs] ramfs as root'' @ newline) (s\<lparr>vfs_root := s_root (sblocks s ram_sb)\<rparr>) else s)
          }
        }
        else Some (True, s)
      }
      else Some (True, s))"

definition boot_mounts :: "'d ata_io \<Rightarrow> ('d, 'a) kernel_state_scheme \<Rightarrow> ('d, 'a) kernel_state_scheme option" where
  "boot_mounts io s = do {
     (tar_sb, s) \<leftarrow> tarfs_mount io (bdev_lookup ''ata0'' s) s;
     s \<leftarrow> (if tar_sb \<noteq> 0 then map_option snd (vfs_mount ''/mnt'' tar_sb s) else Some s);
     (home_sb, s) \<leftarrow> memfs_mount s;
     if home_sb \<noteq> 0 then map_option snd (vfs_mount ''/home'' home_sb s) else Some s
   }"

text \<open>The files that \<open>kernel_main\<close> reads: \<open>motd\<close>, which it shows, the shell twice, and \<open>big.txt\<close> into a heap buffer.\<close>

definition show_motd :: "'d ata_io \<Rightarrow> u32 \<Rightarrow> ('d, 'a) kernel_state_scheme \<Rightarrow> ('d, 'a) kernel_state_scheme option" where
  "show_motd io buf s = do {
     (f, s) \<leftarrow> vfs_open ''motd'' O_RDONLY s;
     if f = 0 then Some s
     else do {
       (bytes, s) \<leftarrow> vfs_read io f buf 255 s;
       s \<leftarrow> (if bytes > 0 then do {
               s \<leftarrow> write8 (buf + of_int bytes) 0 s;
               bs \<leftarrow> load_bytes (nat bytes) buf s;
               Some (say newline (serial_write (takeWhile (\<lambda>b. b \<noteq> 0) bs) s))
             }
             else Some s);
       map_option snd (vfs_close f s)
     }
   }"

definition warm_read :: "'d ata_io \<Rightarrow> u32 \<Rightarrow> string \<Rightarrow> ('d, 'a) kernel_state_scheme \<Rightarrow> (bool \<times> ('d, 'a) kernel_state_scheme) option" where
  "warm_read io buf msg s = do {
     (f, s) \<leftarrow> vfs_open ''/mnt/shell.elf'' O_RDONLY s;
     if f = 0 then Some (False, s)
     else do {
       (bytes, s) \<leftarrow> vfs_read io f buf 64 s;
       let s = (if bytes > 0 then say msg s else s);
       (_, s) \<leftarrow> vfs_close f s;
       Some (True, s)
     }
   }"

definition read_big :: "'d ata_io \<Rightarrow> ('d, 'a) kernel_state_scheme \<Rightarrow> ('d, 'a) kernel_state_scheme option" where
  "read_big io s = do {
     (f, s) \<leftarrow> vfs_open ''/mnt/big.txt'' O_RDONLY s;
     if f = 0 then Some s
     else do {
       (big, s) \<leftarrow> kmalloc 32768 s;
       s \<leftarrow> (if big \<noteq> 0 then do {
               (bytes, s) \<leftarrow> vfs_read io f big 32768 s;
               kfree big (say ('' bytes'' @ newline) (serial_write_hex (of_int bytes) (say ''[fs] big.txt read '' s)))
             }
             else Some s);
       map_option snd (vfs_close f s)
     }
   }"

definition boot_files :: "'d ata_io \<Rightarrow> layout \<Rightarrow> ('d, 'a) kernel_state_scheme \<Rightarrow> ('d, 'a) kernel_state_scheme option" where
  "boot_files io lay s =
     (if vfs_root s = 0 then Some s
      else do {
        s \<leftarrow> show_motd io (buf_addr lay) s;
        (ok, s) \<leftarrow> warm_read io (buf_addr lay) (''[fs] cache warm read ok'' @ newline) s;
        s \<leftarrow> (if ok then map_option snd (warm_read io (buf_addr lay) (''[fs] cache re-read ok'' @ newline) s) else Some s);
        read_big io s
      })"

text \<open>\<open>kernel_main\<close> up to its loop; \<^const>\<open>False\<close> when it halts instead.\<close>

definition kernel_main :: "'d ata_io \<Rightarrow> layout \<Rightarrow> machine \<Rightarrow> ('d, 'a) kernel_state_scheme \<Rightarrow> (bool \<times> machine \<times> ('d, 'a) kernel_state_scheme) option" where
  "kernel_main io lay m s = do {
     s \<leftarrow> boot_memory s;
     (m, s) \<leftarrow> boot_devices io lay m s;
     (ok, s) \<leftarrow> boot_root lay s;
     if \<not> ok then Some (False, m, s)
     else do {
       s \<leftarrow> boot_mounts io s;
       s \<leftarrow> boot_files io lay s;
       (shell, s) \<leftarrow> spawn_user_process io ''/mnt/shell.elf'' s;
       case shell of None \<Rightarrow> Some (False, m, say (''[boot] spawn shell failed'' @ newline) s)
       | Some t \<Rightarrow> (let s = snd (watchdog_register ''/mnt/shell.elf'' TIER_SYSTEM (Some t) s)
                   in Some (True, m, say (''[boot] entering idle loop'' @ newline) s))
     }
   }"

text \<open>One round of the loop at its end.\<close>

definition idle_round :: "'d ata_io \<Rightarrow> ('d, 'a) kernel_state_scheme \<Rightarrow> ('d, 'a) kernel_state_scheme option" where
  "idle_round io s = do { s \<leftarrow> watchdog_check io s; schedule s }"

section \<open>The command line of init\<close>

record init_state =
  cmd_buf :: "nat \<Rightarrow> u8"
  cmd_len :: nat

abbreviation CMD_BUF_SIZE :: nat where "CMD_BUF_SIZE \<equiv> 128"

text \<open>\<open>strcmp\<close> of a buffer and a literal.\<close>

fun init_strcmp :: "(nat \<Rightarrow> u8) \<Rightarrow> nat \<Rightarrow> u8 list \<Rightarrow> int" where
  "init_strcmp b i [] = sint (b i)"
| "init_strcmp b i (c # cs) = (if b i \<noteq> 0 \<and> c \<noteq> 0 \<and> b i = c then init_strcmp b (i + 1) cs else sint (b i) - sint c)"

definition process_char :: "u8 \<Rightarrow> init_state \<Rightarrow> ('d, 'a) kernel_state_scheme \<Rightarrow> init_state \<times> ('d, 'a) kernel_state_scheme" where
  "process_char c n s =
     (if c = 10 then
        (let n = n\<lparr>cmd_buf := (cmd_buf n)(cmd_len n := 0)\<rparr>;
             s = s\<lparr>console := vga_putchar 10 (console s)\<rparr>;
             s = (if init_strcmp (cmd_buf n) 0 (text_bytes ''clear'') = 0 then s\<lparr>console := vga_clear (console s)\<rparr>
                  else if init_strcmp (cmd_buf n) 0 (text_bytes ''reboot'') = 0 then s\<lparr>port_out := port_out s @ [(0x64, 0xFE)]\<rparr>
                  else s)
         in (n\<lparr>cmd_len := 0\<rparr>, s))
      else if c = 8 then
        (if cmd_len n > 0 then (n\<lparr>cmd_len := cmd_len n - 1\<rparr>, s\<lparr>console := vga_putchar 8 (console s)\<rparr>) else (n, s))
      else if cmd_len n < CMD_BUF_SIZE - 1 then
        (n\<lparr>cmd_buf := (cmd_buf n)(cmd_len n := c), cmd_len := cmd_len n + 1\<rparr>, s\<lparr>console := vga_putchar c (console s)\<rparr>)
      else (n, s))"

text \<open>One round of the loop of \<open>init_start\<close>.\<close>

definition init_round :: "init_state \<Rightarrow> ('d, 'a) kernel_state_scheme \<Rightarrow> init_state \<times> ('d, 'a) kernel_state_scheme" where
  "init_round n s = (let (c, k) = getchar (keyb s); s = s\<lparr>keyb := k\<rparr> in if c \<noteq> 0 then process_char c n s else (n, s))"

lemma init_round_bounded:
  assumes "cmd_len n < CMD_BUF_SIZE" "init_round n s = (n', s')"
  shows "cmd_len n' < CMD_BUF_SIZE" "\<forall>i \<ge> CMD_BUF_SIZE. cmd_buf n' i = cmd_buf n i"
  using assms by (auto simp: init_round_def process_char_def Let_def split: prod.splits if_splits)

section \<open>Memory at the start\<close>

lemma heap_init_frame: "heap_init s = Some s' \<Longrightarrow> hp_frame s s'"
proof -
  assume h: "heap_init s = Some s'"
  then obtain s1 where s1: "fold_opt (\<lambda>i s. map_option snd (expand_heap (heap_brk s + of_nat (i * PAGE_SIZE)) s)) [0..<HEAP_INIT_PAGES] s = Some s1"
    by (auto simp: heap_init_def Let_def split: Option.bind_splits)
  have "pg_frame s s1" by (rule fold_opt_pg_frame [OF _ s1]) (auto dest: expand_heap_frame)
  then have "hp_frame s s1" by (rule pg_frame_hp)
  then show ?thesis using h s1 by (auto simp: heap_init_def Let_def)
qed

lemma heap_selftest_frame: "heap_selftest s = Some (n, s') \<Longrightarrow> hp_frame s s'"
  by (auto simp: heap_selftest_def split: Option.bind_splits dest!: kmalloc_frame kfree_frame) (metis hp_frame_trans)

text \<open>The serial output belongs to the part of the state that memory management does not know.\<close>

lemma hp_frame_serial:
  fixes s s' :: "('d, 'a) kernel_state_scheme"
  assumes "hp_frame s s'"
  shows "serial_out s' = serial_out s"
proof -
  have "heap_state.more s' = heap_state.more s" using assms by (simp add: hp_frame_def)
  then show ?thesis by (cases s; cases s'; simp)
qed

lemma paging_init_more:
  fixes s :: "'a paging_state_scheme"
  shows "paging_state.more (snd (paging_init a b s)) = paging_state.more s"
proof -
  have f: "paging_state.more (fold g xs t) = paging_state.more t"
    if "\<And>i t. paging_state.more (g i t) = paging_state.more t" for g :: "nat \<Rightarrow> 'a paging_state_scheme \<Rightarrow> 'a paging_state_scheme" and xs t
    using that by (induction xs arbitrary: t) auto
  have w: "paging_state.more (store_word f w v t) = paging_state.more t" for f w v and t :: "'a paging_state_scheme"
    by (simp add: store_word_def)
  have i: "paging_state.more (init_page i t) = paging_state.more t" "paging_state.more (init_physmap p q i t) = paging_state.more t"
    for i p q and t :: "'a paging_state_scheme"
    by (simp_all add: init_page_def init_physmap_def Let_def f w)
  show ?thesis by (simp add: paging_init_def Let_def f w i)
qed

lemma crlf_simps: "crlf (xs @ ys) = crlf xs @ crlf ys" "crlf [] = []" "crlf (c # cs) = (if c = 10 then [13, 10] else [c]) @ crlf cs"
  by (simp_all add: crlf_def)



end
