(* ===== verification/Povi_Text.thy ===== *)
theory Povi_Text
  imports Prelude
begin

text \<open>
  The containers of the editor \<open>povi\<close>: \<open>user/povi/runtime.cpp\<close>, \<open>string.hpp\<close>, \<open>vector.hpp\<close> and \<open>buffer.cpp\<close>.
  All memory comes from an arena that is never freed, so the state of the allocator is the offset of its
  first free byte, which the operations pass on; the arena is cleared memory, so a new block holds zeros.
  \<^const>\<open>None\<close> is the end of the process: \<open>sys_exit(1)\<close> when the arena is exhausted, or an access outside a block.
  The lemmas show that strings and buffers behave as lists and that they never leave their blocks.
  A vector of the sources holds pointers to strings that no one else points to; here it holds the strings.
\<close>

section \<open>The arena\<close>

definition HEAP_SIZE :: nat where "HEAP_SIZE = 64 * 1024"

definition povi_alloc :: "nat \<Rightarrow> nat \<Rightarrow> nat option" where
  "povi_alloc n heap_off =
     (let n = (n + 3) div 4 * 4 in if heap_off + n > HEAP_SIZE then None else Some (heap_off + n))"

section \<open>Strings\<close>

record pstr =
  ps_p :: "u8 list option"
  ps_len :: int
  ps_cap :: int

definition ps_new :: pstr where
  "ps_new = \<lparr>ps_p = None, ps_len = 0, ps_cap = 0\<rparr>"

text \<open>Reading and writing \<open>p_[i]\<close>, and \<open>pv_memcpy\<close> to \<open>p_ + i\<close>.\<close>

definition ps_get :: "int \<Rightarrow> pstr \<Rightarrow> u8 option" where
  "ps_get i s = (case ps_p s of None \<Rightarrow> None | Some p \<Rightarrow> if 0 \<le> i \<and> nat i < length p then Some (p ! nat i) else None)"

definition ps_put :: "int \<Rightarrow> u8 \<Rightarrow> pstr \<Rightarrow> pstr option" where
  "ps_put i c s = (case ps_p s of None \<Rightarrow> None
     | Some p \<Rightarrow> if 0 \<le> i \<and> nat i < length p then Some (s\<lparr>ps_p := Some (p[nat i := c])\<rparr>) else None)"

definition ps_copy :: "int \<Rightarrow> u8 list \<Rightarrow> pstr \<Rightarrow> pstr option" where
  "ps_copy i cs s = (case ps_p s of None \<Rightarrow> None
     | Some p \<Rightarrow> if 0 \<le> i \<and> nat i + length cs \<le> length p
         then Some (s\<lparr>ps_p := Some (take (nat i) p @ cs @ drop (nat i + length cs) p)\<rparr>) else None)"

text \<open>The characters of a string, what \<open>c_str()\<close> and \<open>length()\<close> give.\<close>

definition ps_chars :: "pstr \<Rightarrow> u8 list" where
  "ps_chars s = (case ps_p s of None \<Rightarrow> [] | Some p \<Rightarrow> take (nat (ps_len s)) p)"

partial_function (option) fit_cap :: "int \<Rightarrow> int \<Rightarrow> int option" where
  "fit_cap need new_cap = (if new_cap < need then fit_cap need (new_cap * 2) else Some new_cap)"

declare fit_cap.simps [code]

definition ps_reserve :: "int \<Rightarrow> pstr \<Rightarrow> nat \<Rightarrow> (pstr \<times> nat) option" where
  "ps_reserve need s off =
     (if ps_cap s \<ge> need then Some (s, off)
      else do {
        new_cap \<leftarrow> fit_cap need (if ps_cap s \<noteq> 0 then ps_cap s * 2 else 16);
        off \<leftarrow> povi_alloc (nat new_cap) off;
        let np = s\<lparr>ps_p := Some (replicate (nat new_cap) 0), ps_cap := new_cap\<rparr>;
        s \<leftarrow> (case ps_p s of None \<Rightarrow> ps_put 0 0 np
              | Some p \<Rightarrow> if nat (ps_len s) < length p then ps_copy 0 (take (nat (ps_len s) + 1) p) np else None);
        Some (s, off)
      })"

definition ps_clear :: "pstr \<Rightarrow> pstr option" where
  "ps_clear s = (let s = s\<lparr>ps_len := 0\<rparr> in if ps_p s = None then Some s else ps_put 0 0 s)"

definition ps_append_char :: "u8 \<Rightarrow> pstr \<Rightarrow> nat \<Rightarrow> (pstr \<times> nat) option" where
  "ps_append_char c s off = do {
     (s, off) \<leftarrow> ps_reserve (ps_len s + 2) s off;
     s \<leftarrow> ps_put (ps_len s) c s;
     let s = s\<lparr>ps_len := ps_len s + 1\<rparr>;
     s \<leftarrow> ps_put (ps_len s) 0 s;
     Some (s, off)
   }"

definition ps_append :: "u8 list \<Rightarrow> pstr \<Rightarrow> nat \<Rightarrow> (pstr \<times> nat) option" where
  "ps_append cs s off = do {
     (s, off) \<leftarrow> ps_reserve (ps_len s + int (length cs) + 1) s off;
     s \<leftarrow> ps_copy (ps_len s) cs s;
     let s = s\<lparr>ps_len := ps_len s + int (length cs)\<rparr>;
     s \<leftarrow> ps_put (ps_len s) 0 s;
     Some (s, off)
   }"

text \<open>\<open>set\<close> and \<open>assign\<close>, with the characters of the other string.\<close>

definition ps_set :: "u8 list \<Rightarrow> pstr \<Rightarrow> nat \<Rightarrow> (pstr \<times> nat) option" where
  "ps_set cs s off = do { s \<leftarrow> ps_clear s; ps_append cs s off }"

definition ps_assign :: "pstr \<Rightarrow> pstr \<Rightarrow> nat \<Rightarrow> (pstr \<times> nat) option" where
  "ps_assign o' s off = do { s \<leftarrow> ps_clear s; ps_append (ps_chars o') s off }"

text \<open>The loops that make and close a gap; \<open>n\<close> is the number of characters still to move.\<close>

primrec shift_up :: "nat \<Rightarrow> int \<Rightarrow> pstr \<Rightarrow> pstr option" where
  "shift_up 0 idx s = Some s"
| "shift_up (Suc n) idx s = do {
     c \<leftarrow> ps_get (idx + int n) s;
     s \<leftarrow> ps_put (idx + int n + 1) c s;
     shift_up n idx s
   }"

primrec shift_down :: "nat \<Rightarrow> int \<Rightarrow> pstr \<Rightarrow> pstr option" where
  "shift_down 0 i s = Some s"
| "shift_down (Suc n) i s = do {
     c \<leftarrow> ps_get (i + 1) s;
     s \<leftarrow> ps_put i c s;
     shift_down n (i + 1) s
   }"

definition clamp :: "int \<Rightarrow> int \<Rightarrow> int" where
  "clamp hi i = (let i = (if i < 0 then 0 else i) in if i > hi then hi else i)"

definition ps_insert_at :: "int \<Rightarrow> u8 \<Rightarrow> pstr \<Rightarrow> nat \<Rightarrow> (pstr \<times> nat) option" where
  "ps_insert_at idx c s off = do {
     let idx = clamp (ps_len s) idx;
     (s, off) \<leftarrow> ps_reserve (ps_len s + 2) s off;
     s \<leftarrow> shift_up (nat (ps_len s - idx)) idx s;
     s \<leftarrow> ps_put idx c s;
     let s = s\<lparr>ps_len := ps_len s + 1\<rparr>;
     s \<leftarrow> ps_put (ps_len s) 0 s;
     Some (s, off)
   }"

definition ps_erase_at :: "int \<Rightarrow> pstr \<Rightarrow> pstr option" where
  "ps_erase_at idx s =
     (if idx < 0 \<or> idx \<ge> ps_len s then Some s
      else do {
        s \<leftarrow> shift_down (nat (ps_len s - idx)) idx s;
        Some (s\<lparr>ps_len := ps_len s - 1\<rparr>)
      })"

definition ps_truncate :: "int \<Rightarrow> pstr \<Rightarrow> pstr option" where
  "ps_truncate n s =
     (let n = clamp (ps_len s) n; s = s\<lparr>ps_len := n\<rparr> in if ps_p s = None then Some s else ps_put n 0 s)"

definition ps_substr :: "int \<Rightarrow> pstr \<Rightarrow> nat \<Rightarrow> (pstr \<times> nat) option" where
  "ps_substr from' s off = ps_append (drop (nat (clamp (ps_len s) from')) (ps_chars s)) ps_new off"

section \<open>Vectors of strings\<close>

record pvec =
  pv_arr :: "pstr option list"
  pv_count :: int
  pv_cap :: int

definition pv_new :: pvec where
  "pv_new = \<lparr>pv_arr = [], pv_count = 0, pv_cap = 0\<rparr>"

definition pv_at :: "int \<Rightarrow> pvec \<Rightarrow> pstr option" where
  "pv_at i v = (if 0 \<le> i \<and> nat i < length (pv_arr v) then pv_arr v ! nat i else None)"

definition pv_put :: "int \<Rightarrow> pstr option \<Rightarrow> pvec \<Rightarrow> pvec option" where
  "pv_put i x v = (if 0 \<le> i \<and> nat i < length (pv_arr v) then Some (v\<lparr>pv_arr := (pv_arr v)[nat i := x]\<rparr>) else None)"

definition pv_grow :: "pvec \<Rightarrow> nat \<Rightarrow> (pvec \<times> nat) option" where
  "pv_grow v off = do {
     let new_cap = (if pv_cap v \<noteq> 0 then pv_cap v * 2 else 8);
     off \<leftarrow> povi_alloc (4 * nat new_cap) off;
     if nat (pv_count v) \<le> length (pv_arr v) \<and> pv_count v \<le> new_cap
     then Some (v\<lparr>pv_arr := take (nat (pv_count v)) (pv_arr v) @ replicate (nat (new_cap - pv_count v)) None,
                  pv_cap := new_cap\<rparr>, off)
     else None
   }"

definition pv_room :: "pvec \<Rightarrow> nat \<Rightarrow> (pvec \<times> nat) option" where
  "pv_room v off = (if pv_count v = pv_cap v then pv_grow v off else Some (v, off))"

definition pv_push_back :: "pstr \<Rightarrow> pvec \<Rightarrow> nat \<Rightarrow> (pvec \<times> nat) option" where
  "pv_push_back x v off = do {
     (v, off) \<leftarrow> pv_room v off;
     v \<leftarrow> pv_put (pv_count v) (Some x) v;
     Some (v\<lparr>pv_count := pv_count v + 1\<rparr>, off)
   }"

primrec pv_shift_up :: "nat \<Rightarrow> int \<Rightarrow> pvec \<Rightarrow> pvec option" where
  "pv_shift_up 0 idx v = Some v"
| "pv_shift_up (Suc n) idx v = do {
     v \<leftarrow> pv_put (idx + int n + 1) (pv_at (idx + int n) v) v;
     pv_shift_up n idx v
   }"

primrec pv_shift_down :: "nat \<Rightarrow> int \<Rightarrow> pvec \<Rightarrow> pvec option" where
  "pv_shift_down 0 i v = Some v"
| "pv_shift_down (Suc n) i v = do {
     v \<leftarrow> pv_put i (pv_at (i + 1) v) v;
     pv_shift_down n (i + 1) v
   }"

definition pv_insert :: "int \<Rightarrow> pstr \<Rightarrow> pvec \<Rightarrow> nat \<Rightarrow> (pvec \<times> nat) option" where
  "pv_insert idx x v off = do {
     let idx = clamp (pv_count v) idx;
     (v, off) \<leftarrow> pv_room v off;
     v \<leftarrow> pv_shift_up (nat (pv_count v - idx)) idx v;
     v \<leftarrow> pv_put idx (Some x) v;
     Some (v\<lparr>pv_count := pv_count v + 1\<rparr>, off)
   }"

definition pv_remove :: "int \<Rightarrow> pvec \<Rightarrow> pvec option" where
  "pv_remove idx v =
     (if idx < 0 \<or> idx \<ge> pv_count v then Some v
      else do {
        v \<leftarrow> pv_shift_down (nat (pv_count v - 1 - idx)) idx v;
        Some (v\<lparr>pv_count := pv_count v - 1\<rparr>)
      })"

section \<open>The text buffer\<close>

text \<open>\<open>new String()\<close> takes the 12 bytes of the object from the arena.\<close>

definition new_string :: "nat \<Rightarrow> (pstr \<times> nat) option" where
  "new_string off = do { off \<leftarrow> povi_alloc 12 off; Some (ps_new, off) }"

definition num_lines :: "pvec \<Rightarrow> int" where
  "num_lines b = pv_count b"

definition line_length :: "int \<Rightarrow> pvec \<Rightarrow> int option" where
  "line_length r b = map_option ps_len (pv_at r b)"

definition buffer_new :: "nat \<Rightarrow> (pvec \<times> nat) option" where
  "buffer_new off = do { (s, off) \<leftarrow> new_string off; pv_push_back s pv_new off }"

definition buf_insert_line :: "int \<Rightarrow> pvec \<Rightarrow> nat \<Rightarrow> (pvec \<times> nat) option" where
  "buf_insert_line row b off = do {
     let row = clamp (num_lines b) row;
     (s, off) \<leftarrow> new_string off;
     pv_insert row s b off
   }"

definition buf_delete_line :: "int \<Rightarrow> pvec \<Rightarrow> pvec option" where
  "buf_delete_line row b =
     (if row < 0 \<or> row \<ge> num_lines b then Some b
      else if num_lines b = 1 then do {
        l \<leftarrow> pv_at 0 b;
        l \<leftarrow> ps_clear l;
        pv_put 0 (Some l) b
      }
      else pv_remove row b)"

definition buf_insert_char :: "int \<Rightarrow> int \<Rightarrow> u8 \<Rightarrow> pvec \<Rightarrow> nat \<Rightarrow> (pvec \<times> nat) option" where
  "buf_insert_char row col ch b off =
     (if row < 0 \<or> row \<ge> num_lines b then Some (b, off)
      else do {
        l \<leftarrow> pv_at row b;
        if ch = 10 then do {
          (tail, off) \<leftarrow> ps_substr col l off;
          l \<leftarrow> ps_truncate col l;
          b \<leftarrow> pv_put row (Some l) b;
          (b, off) \<leftarrow> buf_insert_line (row + 1) b off;
          l \<leftarrow> pv_at (row + 1) b;
          (l, off) \<leftarrow> ps_assign tail l off;
          b \<leftarrow> pv_put (row + 1) (Some l) b;
          Some (b, off)
        }
        else do {
          (l, off) \<leftarrow> ps_insert_at col ch l off;
          b \<leftarrow> pv_put row (Some l) b;
          Some (b, off)
        }
      })"

definition buf_delete_char :: "int \<Rightarrow> int \<Rightarrow> pvec \<Rightarrow> nat \<Rightarrow> (pvec \<times> nat) option" where
  "buf_delete_char row col b off =
     (if row < 0 \<or> row \<ge> num_lines b then Some (b, off)
      else do {
        l \<leftarrow> pv_at row b;
        if col < ps_len l then do {
          l \<leftarrow> ps_erase_at col l;
          b \<leftarrow> pv_put row (Some l) b;
          Some (b, off)
        }
        else if row + 1 < num_lines b then do {
          l2 \<leftarrow> pv_at (row + 1) b;
          (l, off) \<leftarrow> ps_append (ps_chars l2) l off;
          b \<leftarrow> pv_put row (Some l) b;
          b \<leftarrow> buf_delete_line (row + 1) b;
          Some (b, off)
        }
        else Some (b, off)
      })"

definition buf_add_line :: "u8 list \<Rightarrow> pvec \<Rightarrow> nat \<Rightarrow> (pvec \<times> nat) option" where
  "buf_add_line cs b off = do {
     (s, off) \<leftarrow> new_string off;
     (s, off) \<leftarrow> ps_append cs s off;
     pv_push_back s b off
   }"

definition buf_clear_lines :: "pvec \<Rightarrow> nat \<Rightarrow> (pvec \<times> nat) option" where
  "buf_clear_lines b off = do {
     (s, off) \<leftarrow> new_string off;
     pv_push_back s (b\<lparr>pv_count := 0\<rparr>) off
   }"

section \<open>Reasoning about the arena\<close>

text \<open>
  \<open>fits k off r P\<close>: the operation with result \<open>r\<close> takes at most \<open>k\<close> bytes from the arena and its value has
  property \<open>P\<close>; it may end the process only when the arena has fewer than \<open>k\<close> bytes left.
\<close>

definition fits :: "nat \<Rightarrow> nat \<Rightarrow> ('a \<times> nat) option \<Rightarrow> ('a \<Rightarrow> bool) \<Rightarrow> bool" where
  "fits k off r P = (case r of None \<Rightarrow> HEAP_SIZE < off + k | Some (x, off') \<Rightarrow> off \<le> off' \<and> off' \<le> off + k \<and> P x)"

lemma fits_return: "P x \<Longrightarrow> fits k off (Some (x, off)) P"
  by (simp add: fits_def)

lemma fits_bind:
  assumes "fits k off m P" "\<And>x off'. P x \<Longrightarrow> fits k' off' (f x off') Q" "k + k' \<le> n"
  shows "fits n off (Option.bind m (\<lambda>(x, off). f x off)) Q"
proof (cases m)
  case None
  then show ?thesis using assms(1,3) by (simp add: fits_def)
next
  case (Some r)
  obtain x off' where r: "r = (x, off')" by fastforce
  then have x: "off \<le> off'" "off' \<le> off + k" "P x" using assms(1) Some by (auto simp: fits_def)
  then show ?thesis using assms(2) [of x off', OF x(3)] assms(3) Some r by (auto simp: fits_def split: option.splits)
qed

lemma fits_weaken: "fits k off r P \<Longrightarrow> k \<le> k' \<Longrightarrow> (\<And>x. P x \<Longrightarrow> Q x) \<Longrightarrow> fits k' off r Q"
  by (auto simp: fits_def split: option.splits)

lemma povi_alloc_cases:
  "(\<exists>off'. povi_alloc n off = Some off' \<and> off \<le> off' \<and> off' \<le> off + n + 3) \<or>
   povi_alloc n off = None \<and> HEAP_SIZE < off + n + 3"
proof -
  have "(n + 3) div 4 * 4 \<le> n + 3" "n \<le> (n + 3) div 4 * 4" by presburger+
  then show ?thesis by (auto simp: povi_alloc_def Let_def)
qed

lemma fits_alloc:
  assumes "\<And>off'. fits k' off' (f off') Q" "n + 3 + k' \<le> k"
  shows "fits k off (Option.bind (povi_alloc n off) f) Q"
  using povi_alloc_cases [of n off]
proof
  assume "\<exists>off'. povi_alloc n off = Some off' \<and> off \<le> off' \<and> off' \<le> off + n + 3"
  then obtain off' where o: "povi_alloc n off = Some off'" "off \<le> off'" "off' \<le> off + n + 3" by blast
  then show ?thesis using assms(1) [of off'] assms(2) by (auto simp: fits_def split: option.splits)
next
  assume "povi_alloc n off = None \<and> HEAP_SIZE < off + n + 3"
  then show ?thesis using assms(2) by (simp add: fits_def)
qed

section \<open>Strings are lists of characters\<close>

definition list_insert :: "nat \<Rightarrow> 'a \<Rightarrow> 'a list \<Rightarrow> 'a list" where
  "list_insert i x xs = take i xs @ x # drop i xs"

definition list_erase :: "nat \<Rightarrow> 'a list \<Rightarrow> 'a list" where
  "list_erase i xs = take i xs @ drop (Suc i) xs"

definition ps_ok :: "pstr \<Rightarrow> bool" where
  "ps_ok s \<longleftrightarrow> 0 \<le> ps_len s \<and> (case ps_p s of None \<Rightarrow> ps_len s = 0 \<and> ps_cap s = 0
     | Some p \<Rightarrow> ps_cap s = int (length p) \<and> ps_len s < ps_cap s \<and> p ! nat (ps_len s) = 0)"

lemma ps_ok_new [simp]: "ps_ok ps_new" "ps_chars ps_new = []" "ps_len ps_new = 0"
  by (simp_all add: ps_ok_def ps_new_def ps_chars_def)

lemma ps_len_chars: "ps_ok s \<Longrightarrow> ps_len s = int (length (ps_chars s))"
  by (auto simp: ps_ok_def ps_chars_def split: option.splits)

lemma ps_okE:
  assumes "ps_ok s" "ps_p s \<noteq> None"
  obtains p where "ps_p s = Some p" "ps_cap s = int (length p)" "ps_len s = int (length (ps_chars s))"
    "length (ps_chars s) < length p" "ps_chars s = take (length (ps_chars s)) p"
  using assms by (auto simp: ps_ok_def ps_chars_def split: option.splits)

text \<open>A string is in order when its block holds the characters and a final zero.\<close>

lemma ps_ok_make:
  assumes "n < length p" "p ! n = 0" "ps_len s = int n" "ps_cap s = int (length p)" "ps_p s = Some p"
  shows "ps_ok s" "ps_chars s = take n p"
  using assms by (simp_all add: ps_ok_def ps_chars_def)

lemma fit_cap_returns:
  assumes "0 < c"
  shows "\<exists>c'. fit_cap need c = Some c' \<and> need \<le> c' \<and> c \<le> c' \<and> (c' = c \<or> c' < 2 * need)"
  using assms
proof (induction "nat (need - c)" arbitrary: c rule: less_induct)
  case less
  show ?case
  proof (cases "c < need")
    case True
    then have "nat (need - c * 2) < nat (need - c)" using less.prems by linarith
    from less.hyps [OF this] less.prems obtain c' where
      c': "fit_cap need (c * 2) = Some c'" "need \<le> c'" "c * 2 \<le> c'" "c' = c * 2 \<or> c' < 2 * need" by auto
    then have "c' < 2 * need" using True by auto
    then show ?thesis using c' True less.prems by (subst fit_cap.simps) auto
  next
    case False
    then show ?thesis by (subst fit_cap.simps) auto
  qed
qed

lemma ps_reserve_fits:
  assumes "ps_ok s" "0 < need" "2 * nat need + 19 \<le> k"
  shows "fits k off (ps_reserve need s off)
    (\<lambda>s'. ps_ok s' \<and> ps_p s' \<noteq> None \<and> ps_chars s' = ps_chars s \<and> ps_len s' = ps_len s \<and> need \<le> ps_cap s')"
proof (cases "ps_cap s \<ge> need")
  case True
  then have "ps_p s \<noteq> None" using assms(1,2) by (auto simp: ps_ok_def split: option.splits)
  then show ?thesis using True assms(1) by (simp add: ps_reserve_def fits_def)
next
  case False
  let ?c = "if ps_cap s \<noteq> 0 then ps_cap s * 2 else 16"
  have c0: "0 < ?c" "ps_cap s \<ge> 0" using assms(1) by (auto simp: ps_ok_def split: option.splits)
  obtain c where c: "fit_cap need ?c = Some c" "need \<le> c" "?c \<le> c" "c = ?c \<or> c < 2 * need"
    using fit_cap_returns [OF c0(1)] by blast
  have le: "nat c + 3 \<le> k" using c(4) False assms(3) by (auto split: if_splits)
  let ?np = "s\<lparr>ps_p := Some (replicate (nat c) 0), ps_cap := c\<rparr>"
  let ?r = "case ps_p s of None \<Rightarrow> ps_put 0 0 ?np
      | Some p \<Rightarrow> if nat (ps_len s) < length p then ps_copy 0 (take (nat (ps_len s) + 1) p) ?np else None"
  have "\<exists>s'. ?r = Some s' \<and> ps_ok s' \<and> ps_p s' \<noteq> None \<and> ps_chars s' = ps_chars s \<and> ps_len s' = ps_len s \<and> need \<le> ps_cap s'"
  proof (cases "ps_p s")
    case None
    then show ?thesis using assms(1) c(2,3) assms(2) by (auto simp: ps_put_def ps_ok_def ps_chars_def)
  next
    case (Some p)
    then have p: "ps_cap s = int (length p)" "0 \<le> ps_len s" "ps_len s < int (length p)" "p ! nat (ps_len s) = 0"
      using assms(1) by (auto simp: ps_ok_def)
    have "nat (ps_len s) + 1 \<le> nat c" using p c(3) by (auto split: if_splits)
    then show ?thesis using Some p c(2,3)
      by (auto simp: ps_copy_def ps_ok_def ps_chars_def nth_append min_def)
  qed
  then obtain s' where s': "?r = Some s'"
    "ps_ok s' \<and> ps_p s' \<noteq> None \<and> ps_chars s' = ps_chars s \<and> ps_len s' = ps_len s \<and> need \<le> ps_cap s'" by blast
  have "ps_reserve need s off = Option.bind (povi_alloc (nat c) off) (\<lambda>off. Some (s', off))"
    using False c(1) s'(1) by (simp add: ps_reserve_def Let_def)
  then show ?thesis 
    by (simp only:) (rule fits_alloc [where k' = 0], use s'(2) le in \<open>simp_all add: fits_def\<close>)
qed

lemma ps_clear_ok: "ps_ok s \<Longrightarrow> \<exists>s'. ps_clear s = Some s' \<and> ps_ok s' \<and> ps_chars s' = []"
  by (auto simp: ps_clear_def Let_def ps_put_def ps_ok_def ps_chars_def split: option.splits)

lemma ps_append_fits:
  assumes "ps_ok s" "2 * (length (ps_chars s) + length cs + 1) + 19 \<le> k"
  shows "fits k off (ps_append cs s off) (\<lambda>s'. ps_ok s' \<and> ps_chars s' = ps_chars s @ cs)"
  unfolding ps_append_def
proof (rule fits_bind [where k' = 0])
  show "fits k off (ps_reserve (ps_len s + int (length cs) + 1) s off)
    (\<lambda>s'. ps_ok s' \<and> ps_p s' \<noteq> None \<and> ps_chars s' = ps_chars s \<and> ps_len s' = ps_len s \<and> ps_len s + int (length cs) + 1 \<le> ps_cap s')"
    by (rule ps_reserve_fits) (use assms ps_len_chars [OF assms(1)] in auto)
next
  fix s' and off' :: nat assume s': "ps_ok s' \<and> ps_p s' \<noteq> None \<and> ps_chars s' = ps_chars s \<and> ps_len s' = ps_len s \<and> ps_len s + int (length cs) + 1 \<le> ps_cap s'"
  then obtain p where p: "ps_p s' = Some p" "ps_cap s' = int (length p)" "ps_len s' = int (length (ps_chars s'))"
    "length (ps_chars s') < length p" "ps_chars s' = take (length (ps_chars s')) p" by (metis ps_okE)
  let ?n = "length (ps_chars s)"
  let ?p = "(take ?n p @ cs @ drop (?n + length cs) p)[?n + length cs := 0]"
  have l: "length ?p = length p" "?n + length cs < length p" using p s' by auto
  let ?s = "s'\<lparr>ps_p := Some ?p, ps_len := int (?n + length cs)\<rparr>"
  have "ps_ok ?s" "ps_chars ?s = take (?n + length cs) ?p"
    by (rule ps_ok_make [where n = "?n + length cs" and p = ?p]; use l p s' in simp)+
  moreover have "take (?n + length cs) ?p = ps_chars s @ cs"
    using p s' l by (simp add: take_update_cancel)
  moreover have "(do {
       s \<leftarrow> ps_copy (ps_len s') cs s';
       let s = s\<lparr>ps_len := ps_len s + int (length cs)\<rparr>;
       s \<leftarrow> ps_put (ps_len s) 0 s;
       Some (s, off')
     }) = Some (?s, off')"
    using p s' l by (simp add: ps_copy_def ps_put_def nat_add_distrib)
  ultimately show "fits 0 off' (do {
       s \<leftarrow> ps_copy (ps_len s') cs s';
       let s = s\<lparr>ps_len := ps_len s + int (length cs)\<rparr>;
       s \<leftarrow> ps_put (ps_len s) 0 s;
       Some (s, off')
     }) (\<lambda>s'. ps_ok s' \<and> ps_chars s' = ps_chars s @ cs)"
    by (simp add: fits_def)
qed simp



lemma ps_append_char_eq: "ps_append_char c s off = ps_append [c] s off"
proof -
  have "ps_put i c s = ps_copy i [c] s" for i c s
    by (auto simp: ps_put_def ps_copy_def upd_conv_take_nth_drop split: option.splits)
  then show ?thesis by (simp add: ps_append_char_def ps_append_def add.assoc)
qed

lemma ps_set_fits:
  assumes "ps_ok s" "2 * length cs + 21 \<le> k"
  shows "fits k off (ps_set cs s off) (\<lambda>s'. ps_ok s' \<and> ps_chars s' = cs)"
proof -
  obtain s' where "ps_clear s = Some s'" "ps_ok s'" "ps_chars s' = []" using ps_clear_ok [OF assms(1)] by blast
  then show ?thesis using ps_append_fits [of s' cs k off] assms(2) by (simp add: ps_set_def)
qed

lemma ps_assign_set: "ps_assign o' s off = ps_set (ps_chars o') s off"
  by (simp add: ps_assign_def ps_set_def)

lemma take_Suc_hd: "take (Suc (length xs)) (xs @ ys @ [z]) = xs @ [hd (ys @ [z])]"
  by (cases ys) simp_all

lemma shift_up_split:
  assumes "ps_p s = Some (xs @ ys @ z # zs)"
  shows "shift_up (length ys) (int (length xs)) s = Some (s\<lparr>ps_p := Some (take (Suc (length xs)) (xs @ ys @ [z]) @ ys @ zs)\<rparr>)"
  using assms
proof (induction ys arbitrary: s z zs rule: rev_induct)
  case Nil
  then show ?case by simp
next
  case (snoc y ys)
  let ?s = "s\<lparr>ps_p := Some (xs @ ys @ y # y # zs)\<rparr>"
  have e: "nat (int (length xs) + int (length ys)) = length xs + length ys"
    "nat (int (length xs) + int (length ys) + 1) = length xs + length ys + 1" by simp_all
  have "shift_up (length (ys @ [y])) (int (length xs)) s = shift_up (length ys) (int (length xs)) ?s"
    using snoc.prems by (simp add: ps_get_def ps_put_def e nth_append list_update_append)
  also have "\<dots> = Some (s\<lparr>ps_p := Some (take (Suc (length xs)) (xs @ ys @ [y]) @ ys @ y # zs)\<rparr>)"
    using snoc.IH [of ?s y "y # zs"] by simp
  also have "take (Suc (length xs)) (xs @ ys @ [y]) = take (Suc (length xs)) (xs @ (ys @ [y]) @ [z])"
    unfolding take_Suc_hd by (cases ys) simp_all
  finally show ?case by (simp only: append_assoc append_Cons append_Nil)
qed

lemma shift_down_split:
  assumes "ps_p s = Some (xs @ x # ys @ zs)"
  shows "shift_down (length ys) (int (length xs)) s = Some (s\<lparr>ps_p := Some (xs @ ys @ last (x # ys) # zs)\<rparr>)"
  using assms
proof (induction ys arbitrary: s xs x)
  case Nil
  then show ?case by simp
next
  case (Cons y ys)
  let ?s = "s\<lparr>ps_p := Some ((xs @ [y]) @ y # ys @ zs)\<rparr>"
  have e: "nat (int (length xs) + 1) = length xs + 1" "int (length xs) + 1 = int (length (xs @ [y]))" by simp_all
  have "shift_down (length (y # ys)) (int (length xs)) s = shift_down (length ys) (int (length (xs @ [y]))) ?s"
    using Cons.prems by (simp add: ps_get_def ps_put_def e(1) nth_append list_update_append) (simp add: add.commute)
  also have "\<dots> = Some (s\<lparr>ps_p := Some (xs @ (y # ys) @ last (y # ys) # zs)\<rparr>)"
    using Cons.IH [of ?s "xs @ [y]" y] by simp
  finally show ?case by simp
qed

lemma clamp_eq: "0 \<le> i \<Longrightarrow> i \<le> hi \<Longrightarrow> clamp hi i = i"
  by (simp add: clamp_def Let_def)

lemma ps_insert_at_fits:
  assumes "ps_ok s" "i \<le> length (ps_chars s)" "2 * length (ps_chars s) + 23 \<le> k"
  shows "fits k off (ps_insert_at (int i) c s off) (\<lambda>s'. ps_ok s' \<and> ps_chars s' = list_insert i c (ps_chars s))"
proof -
  let ?n = "length (ps_chars s)"
  have cl: "clamp (ps_len s) (int i) = int i" using assms(2) ps_len_chars [OF assms(1)] by (simp add: clamp_eq)
  let ?P = "\<lambda>s'. ps_ok s' \<and> ps_p s' \<noteq> None \<and> ps_chars s' = ps_chars s \<and> ps_len s' = ps_len s \<and> ps_len s + 2 \<le> ps_cap s'"
  have body: "fits 0 off' (do {
       s \<leftarrow> shift_up (nat (ps_len s' - int i)) (int i) s';
       s \<leftarrow> ps_put (int i) c s;
       let s = s\<lparr>ps_len := ps_len s + 1\<rparr>;
       s \<leftarrow> ps_put (ps_len s) 0 s;
       Some (s, off')
     }) (\<lambda>s'. ps_ok s' \<and> ps_chars s' = list_insert i c (ps_chars s))" if s': "?P s'" for s' off'
  proof -
    obtain p where p: "ps_p s' = Some p" "ps_cap s' = int (length p)" "ps_len s' = int ?n"
      "?n + 2 \<le> length p" "ps_chars s = take ?n p" using s' ps_okE [of s'] ps_len_chars [OF assms(1)] by (metis (no_types, lifting) of_nat_add of_nat_le_iff of_nat_numeral)
    let ?xs = "take i (ps_chars s)" and ?ys = "drop i (ps_chars s)" and ?zs = "drop (?n + 1) p"
    have "p = take ?n p @ p ! ?n # ?zs" using p(4) by (simp add: id_take_nth_drop [symmetric])
    then have pp: "p = ?xs @ ?ys @ p ! ?n # ?zs" using p(5) by (metis append.assoc append_take_drop_id)
    have lx: "length ?xs = i" "length ?ys = ?n - i" using assms(2) by auto
    let ?q = "take (Suc i) (?xs @ ?ys @ [p ! ?n]) @ ?ys @ ?zs"
    have sh: "shift_up (nat (ps_len s' - int i)) (int i) s' = Some (s'\<lparr>ps_p := Some ?q\<rparr>)"
    proof -
      have "ps_p s' = Some (?xs @ ?ys @ p ! ?n # ?zs)" unfolding pp [symmetric] by (rule p(1))
      from shift_up_split [OF this, unfolded lx] p(3) assms(2) show ?thesis by (simp add: nat_diff_distrib)
    qed
    obtain h where q: "?q = ?xs @ h # ?ys @ ?zs"
      using take_Suc_hd [of ?xs ?ys "p ! ?n", unfolded lx(1)] by (metis append.assoc append_Cons append_Nil)
    obtain g zs where zs: "?zs = g # zs" using p(4) by (cases ?zs) auto
    let ?p = "list_insert i c (ps_chars s) @ 0 # zs"
    have up: "?q[i := c, ?n + 1 := 0] = ?p" unfolding q unfolding zs list_insert_def using lx assms(2)
      by (simp add: list_update_append Suc_diff_le)
    have l: "length ?p = length p" "length ?q = length p" "length (list_insert i c (ps_chars s)) = ?n + 1"
      using arg_cong [OF pp, of length] arg_cong [OF up, of length] zs lx assms(2) q by (simp_all add: list_insert_def)
    let ?s = "s'\<lparr>ps_p := Some ?p, ps_len := int (?n + 1)\<rparr>"
    have ok: "ps_ok ?s" "ps_chars ?s = take (?n + 1) ?p"
      by (rule ps_ok_make [where n = "?n + 1" and p = ?p]; use l p in \<open>simp add: nth_append\<close>)+
    then have ch: "ps_chars ?s = list_insert i c (ps_chars s)" using l(3) by simp
    have "(do {
       s \<leftarrow> shift_up (nat (ps_len s' - int i)) (int i) s';
       s \<leftarrow> ps_put (int i) c s;
       let s = s\<lparr>ps_len := ps_len s + 1\<rparr>;
       s \<leftarrow> ps_put (ps_len s) 0 s;
       Some (s, off')
     }) = Some (?s, off')"
      unfolding sh Option.bind.simps using l(2) p(3,4) assms(2) up
      by (simp add: ps_put_def nat_add_distrib add.commute)
    then show ?thesis using ok(1) ch by (simp add: fits_def)
  qed
  show ?thesis unfolding ps_insert_at_def cl Let_def
    by (rule fits_bind [where k' = 0, OF ps_reserve_fits [OF assms(1)]])
      (use assms ps_len_chars [OF assms(1)] body [unfolded Let_def] in auto)
qed

lemma ps_erase_at_ok:
  assumes "ps_ok s" "i < length (ps_chars s)"
  shows "\<exists>s'. ps_erase_at (int i) s = Some s' \<and> ps_ok s' \<and> ps_chars s' = list_erase i (ps_chars s)"
proof -
  let ?n = "length (ps_chars s)"
  have "ps_p s \<noteq> None" using assms(2) by (auto simp: ps_chars_def split: option.splits)
  then obtain p where p: "ps_p s = Some p" "ps_cap s = int (length p)" "ps_len s = int ?n" "?n < length p" "ps_chars s = take ?n p"
    using assms(1) by (metis ps_okE)
  let ?xs = "take i (ps_chars s)" and ?ys = "drop (Suc i) (ps_chars s)" and ?zs = "drop (?n + 1) p"
  have z: "p ! ?n = 0" using assms(1) p by (simp add: ps_ok_def)
  have "p = take ?n p @ 0 # ?zs" using p(4) z by (metis Suc_eq_plus1 id_take_nth_drop)
  then have pp: "p = ?xs @ ps_chars s ! i # (?ys @ [0]) @ ?zs"
    using p(5) id_take_nth_drop [OF assms(2)] by (metis append.assoc append_Cons append_Nil)
  have lx: "length ?xs = i" "length (?ys @ [0]) = ?n - i" using assms(2) by auto
  let ?q = "list_erase i (ps_chars s) @ 0 # 0 # ?zs"
  have sh: "shift_down (nat (ps_len s - int i)) (int i) s = Some (s\<lparr>ps_p := Some ?q\<rparr>)"
  proof -
    have "ps_p s = Some (?xs @ ps_chars s ! i # (?ys @ [0]) @ ?zs)" unfolding pp [symmetric] by (rule p(1))
    from shift_down_split [OF this, unfolded lx] p(3) assms(2) show ?thesis
      by (simp add: nat_diff_distrib list_erase_def)
  qed
  have l: "length ?q = length p" "length (list_erase i (ps_chars s)) = ?n - 1"
    using arg_cong [OF pp, of length] assms(2) by (simp_all add: list_erase_def)
  let ?s = "s\<lparr>ps_p := Some ?q, ps_len := int (?n - 1)\<rparr>"
  have ok: "ps_ok ?s" "ps_chars ?s = take (?n - 1) ?q"
    by (rule ps_ok_make [where n = "?n - 1" and p = ?q]; use l p in \<open>simp add: nth_append\<close>)+
  moreover have "ps_erase_at (int i) s = Some ?s"
    using sh p(3) assms(2) by (simp add: ps_erase_at_def of_nat_diff)
  ultimately show ?thesis using l(2) by auto
qed

lemma ps_truncate_ok:
  assumes "ps_ok s" "i \<le> length (ps_chars s)"
  shows "\<exists>s'. ps_truncate (int i) s = Some s' \<and> ps_ok s' \<and> ps_chars s' = take i (ps_chars s)"
proof -
  have "clamp (ps_len s) (int i) = int i" using assms(2) ps_len_chars [OF assms(1)] by (simp add: clamp_eq)
  moreover have "int i \<le> ps_len s" using assms(2) ps_len_chars [OF assms(1)] by simp
  ultimately show ?thesis using assms(1)
    by (auto simp: ps_truncate_def Let_def ps_put_def ps_ok_def ps_chars_def min_def split: option.splits)
qed

lemma ps_substr_fits:
  assumes "ps_ok s" "i \<le> length (ps_chars s)" "2 * length (ps_chars s) + 21 \<le> k"
  shows "fits k off (ps_substr (int i) s off) (\<lambda>s'. ps_ok s' \<and> ps_chars s' = drop i (ps_chars s))"
proof -
  have "clamp (ps_len s) (int i) = int i" using assms(2) ps_len_chars [OF assms(1)] by (simp add: clamp_eq)
  then show ?thesis unfolding ps_substr_def
    by (simp, intro fits_weaken [OF ps_append_fits [where k = k]]) (use assms in auto)
qed

section \<open>Vectors are lists of strings\<close>

definition vec_is :: "pvec \<Rightarrow> pstr list \<Rightarrow> bool" where
  "vec_is v xs \<longleftrightarrow> (\<exists>rest. pv_arr v = map Some xs @ rest) \<and> pv_count v = int (length xs) \<and>
     pv_cap v = int (length (pv_arr v))"

lemma vec_isE:
  assumes "vec_is v xs"
  obtains rest where "pv_arr v = map Some xs @ rest" "pv_count v = int (length xs)"
    "pv_cap v = int (length xs + length rest)"
  using assms by (auto simp: vec_is_def)

lemma vec_is_new: "vec_is pv_new []"
  by (simp add: vec_is_def pv_new_def)

lemma vec_count: "vec_is v xs \<Longrightarrow> pv_count v = int (length xs)"
  by (simp add: vec_is_def)

lemma vec_is_clear: "vec_is v xs \<Longrightarrow> vec_is (v\<lparr>pv_count := 0\<rparr>) []"
  by (simp add: vec_is_def)

lemma vec_at: "vec_is v xs \<Longrightarrow> i < length xs \<Longrightarrow> pv_at (int i) v = Some (xs ! i)"
  by (auto simp: vec_is_def pv_at_def nth_append)

lemma vec_put:
  assumes "vec_is v xs" "i < length xs"
  shows "\<exists>v'. pv_put (int i) (Some x) v = Some v' \<and> vec_is v' (xs[i := x])"
  using assms by (auto simp: vec_is_def pv_put_def list_update_append map_update)

lemma pv_room_fits:
  assumes "vec_is v xs" "8 * length xs + 35 \<le> k"
  shows "fits k off (pv_room v off) (\<lambda>v'. vec_is v' xs \<and> pv_count v' < pv_cap v')"
proof -
  obtain rest where r: "pv_arr v = map Some xs @ rest" "pv_count v = int (length xs)"
    "pv_cap v = int (length xs + length rest)" using assms(1) by (rule vec_isE)
  show ?thesis
  proof (cases "rest = []")
    case False
    then show ?thesis using assms(1) r by (simp add: pv_room_def fits_def)
  next
    case True
    let ?c = "if pv_cap v \<noteq> 0 then pv_cap v * 2 else 8"
    let ?v = "v\<lparr>pv_arr := map Some xs @ replicate (nat (?c - pv_count v)) None, pv_cap := ?c\<rparr>"
    have v: "vec_is ?v xs \<and> pv_count ?v < pv_cap ?v" using r True by (auto simp: vec_is_def)
    have "pv_room v off = Option.bind (povi_alloc (4 * nat ?c) off) (\<lambda>off. Some (?v, off))"
      using r True by (simp add: pv_room_def pv_grow_def Let_def)
    then show ?thesis
      by (simp only:) (rule fits_alloc [where k' = 0], use v assms(2) r True in \<open>auto simp: fits_def\<close>)
  qed
qed

lemma pv_shift_up_split:
  assumes "pv_arr v = xs @ ys @ z # zs"
  shows "pv_shift_up (length ys) (int (length xs)) v = Some (v\<lparr>pv_arr := take (Suc (length xs)) (xs @ ys @ [z]) @ ys @ zs\<rparr>)"
  using assms
proof (induction ys arbitrary: v z zs rule: rev_induct)
  case Nil
  then show ?case by simp
next
  case (snoc y ys)
  let ?v = "v\<lparr>pv_arr := xs @ ys @ y # y # zs\<rparr>"
  have e: "nat (int (length xs) + int (length ys)) = length xs + length ys"
    "nat (int (length xs) + int (length ys) + 1) = length xs + length ys + 1" by simp_all
  have "pv_shift_up (length (ys @ [y])) (int (length xs)) v = pv_shift_up (length ys) (int (length xs)) ?v"
    using snoc.prems by (simp add: pv_at_def pv_put_def e nth_append list_update_append)
  also have "\<dots> = Some (v\<lparr>pv_arr := take (Suc (length xs)) (xs @ ys @ [y]) @ ys @ y # zs\<rparr>)"
    using snoc.IH [of ?v y "y # zs"] by simp
  also have "take (Suc (length xs)) (xs @ ys @ [y]) = take (Suc (length xs)) (xs @ (ys @ [y]) @ [z])"
    unfolding take_Suc_hd by (cases ys) simp_all
  finally show ?case by (simp only: append_assoc append_Cons append_Nil)
qed

lemma pv_shift_down_split:
  assumes "pv_arr v = xs @ x # ys @ zs"
  shows "pv_shift_down (length ys) (int (length xs)) v = Some (v\<lparr>pv_arr := xs @ ys @ last (x # ys) # zs\<rparr>)"
  using assms
proof (induction ys arbitrary: v xs x)
  case Nil
  then show ?case by simp
next
  case (Cons y ys)
  let ?v = "v\<lparr>pv_arr := (xs @ [y]) @ y # ys @ zs\<rparr>"
  have e: "nat (int (length xs) + 1) = length xs + 1" "int (length xs) + 1 = int (length (xs @ [y]))" by simp_all
  have "pv_shift_down (length (y # ys)) (int (length xs)) v = pv_shift_down (length ys) (int (length (xs @ [y]))) ?v"
    using Cons.prems by (simp add: pv_at_def pv_put_def e(1) nth_append list_update_append) (simp add: add.commute)
  also have "\<dots> = Some (v\<lparr>pv_arr := xs @ (y # ys) @ last (y # ys) # zs\<rparr>)"
    using Cons.IH [of ?v "xs @ [y]" y] by simp
  finally show ?case by simp
qed

lemma pv_push_back_fits:
  assumes "vec_is v xs" "8 * length xs + 35 \<le> k"
  shows "fits k off (pv_push_back x v off) (\<lambda>v'. vec_is v' (xs @ [x]))"
  unfolding pv_push_back_def
proof (rule fits_bind [where k' = 0, OF pv_room_fits [OF assms]])
  fix v' and off' :: nat assume v': "vec_is v' xs \<and> pv_count v' < pv_cap v'"
  then obtain rest where r: "pv_arr v' = map Some xs @ rest" "pv_count v' = int (length xs)"
    "pv_cap v' = int (length xs + length rest)" using vec_isE by blast
  then obtain y ys where "rest = y # ys" using v' by (cases rest) auto
  then show "fits 0 off' (do { v \<leftarrow> pv_put (pv_count v') (Some x) v'; Some (v\<lparr>pv_count := pv_count v + 1\<rparr>, off') }) (\<lambda>v'. vec_is v' (xs @ [x]))"
    using r by (simp add: fits_def pv_put_def vec_is_def list_update_append)
qed simp

lemma pv_insert_fits:
  assumes "vec_is v xs" "i \<le> length xs" "8 * length xs + 35 \<le> k"
  shows "fits k off (pv_insert (int i) x v off) (\<lambda>v'. vec_is v' (list_insert i x xs))"
proof -
  have cl: "clamp (pv_count v) (int i) = int i" using assms(2) vec_count [OF assms(1)] by (simp add: clamp_eq)
  show ?thesis unfolding pv_insert_def cl Let_def
  proof (rule fits_bind [where k' = 0, OF pv_room_fits [OF assms(1,3)]])
    fix v' and off' :: nat assume v': "vec_is v' xs \<and> pv_count v' < pv_cap v'"
    then obtain rest where r: "pv_arr v' = map Some xs @ rest" "pv_count v' = int (length xs)"
      "pv_cap v' = int (length xs + length rest)" using vec_isE by blast
    then obtain y ys where y: "rest = y # ys" using v' by (cases rest) auto
    let ?a = "map Some (take i xs)" and ?b = "map Some (drop i xs)"
    have "pv_arr v' = ?a @ ?b @ y # ys" using r(1) y by (metis append.assoc append_take_drop_id map_append)
    moreover have lx: "length ?a = i" "length ?b = nat (pv_count v' - int i)" using assms(2) r(2) by auto
    ultimately have sh: "pv_shift_up (nat (pv_count v' - int i)) (int i) v' = Some (v'\<lparr>pv_arr := take (Suc i) (?a @ ?b @ [y]) @ ?b @ ys\<rparr>)"
      using pv_shift_up_split [of v' ?a ?b y ys] by metis
    have ins: "take (Suc i) (?a @ ?b @ [y]) @ ?b @ ys = ?a @ hd (?b @ [y]) # ?b @ ys"
      using take_Suc_hd [of ?a ?b y, unfolded lx(1)] by simp
    have "map Some (list_insert i x xs) = ?a @ Some x # ?b" by (simp add: list_insert_def)
    moreover have "length (list_insert i x xs) = Suc (length xs)" by (simp add: list_insert_def)
    ultimately show "fits 0 off' (do {
        v \<leftarrow> pv_shift_up (nat (pv_count v' - int i)) (int i) v';
        v \<leftarrow> pv_put (int i) (Some x) v;
        Some (v\<lparr>pv_count := pv_count v + 1\<rparr>, off')
      }) (\<lambda>v'. vec_is v' (list_insert i x xs))"
      unfolding sh ins using lx(1) r(2,3) y assms(2)
      by (auto simp: fits_def pv_put_def vec_is_def list_update_append)
  qed simp
qed

lemma pv_remove_ok:
  assumes "vec_is v xs" "i < length xs"
  shows "\<exists>v'. pv_remove (int i) v = Some v' \<and> vec_is v' (list_erase i xs)"
proof -
  obtain rest where r: "pv_arr v = map Some xs @ rest" "pv_count v = int (length xs)"
    "pv_cap v = int (length xs + length rest)" using assms(1) by (rule vec_isE)
  let ?a = "map Some (take i xs)" and ?b = "map Some (drop (Suc i) xs)"
  have "pv_arr v = ?a @ Some (xs ! i) # ?b @ rest"
    using r(1) id_take_nth_drop [OF assms(2)] by (metis append.assoc append_Cons list.simps(9) map_append)
  moreover have lx: "length ?a = i" "length ?b = nat (pv_count v - 1 - int i)" using assms(2) r(2) by auto
  ultimately have sh: "pv_shift_down (nat (pv_count v - 1 - int i)) (int i) v = Some (v\<lparr>pv_arr := ?a @ ?b @ last (Some (xs ! i) # ?b) # rest\<rparr>)"
    using pv_shift_down_split [of v ?a "Some (xs ! i)" ?b rest] by metis
  have "map Some (list_erase i xs) = ?a @ ?b" "length (list_erase i xs) = length xs - 1" "1 \<le> length xs"
    using assms(2) by (auto simp: list_erase_def)
  then show ?thesis unfolding pv_remove_def using sh r(2,3) assms(2) by (auto simp: vec_is_def of_nat_diff)
qed

section \<open>The buffer is a list of lines\<close>

definition buf_is :: "pvec \<Rightarrow> u8 list list \<Rightarrow> bool" where
  "buf_is b t \<longleftrightarrow> t \<noteq> [] \<and> (\<exists>xs. vec_is b xs \<and> (\<forall>x \<in> set xs. ps_ok x) \<and> map ps_chars xs = t)"

text \<open>What an edit means for the text.\<close>

definition text_insert :: "nat \<Rightarrow> nat \<Rightarrow> u8 \<Rightarrow> u8 list list \<Rightarrow> u8 list list" where
  "text_insert r c ch t =
     (if ch = 10 then take r t @ take c (t ! r) # drop c (t ! r) # drop (Suc r) t
      else t[r := list_insert c ch (t ! r)])"

definition text_delete :: "nat \<Rightarrow> nat \<Rightarrow> u8 list list \<Rightarrow> u8 list list" where
  "text_delete r c t =
     (if c < length (t ! r) then t[r := list_erase c (t ! r)]
      else if Suc r < length t then take r t @ (t ! r @ t ! Suc r) # drop (Suc (Suc r)) t
      else t)"


lemma buf_lines: "buf_is b t \<Longrightarrow> num_lines b = int (length t)"
  by (auto simp: buf_is_def num_lines_def vec_is_def)

lemma buf_line:
  assumes "buf_is b t" "r < length t"
  shows "\<exists>l. pv_at (int r) b = Some l \<and> ps_ok l \<and> ps_chars l = t ! r"
  using assms vec_at by (fastforce simp: buf_is_def)

lemma buf_line_length:
  assumes "buf_is b t" "r < length t"
  shows "line_length (int r) b = Some (int (length (t ! r)))"
  using buf_line [OF assms] ps_len_chars by (auto simp: line_length_def)

lemma buf_put:
  assumes "buf_is b t" "r < length t" "ps_ok l"
  shows "\<exists>b'. pv_put (int r) (Some l) b = Some b' \<and> buf_is b' (t[r := ps_chars l])"
proof -
  obtain xs where xs: "vec_is b xs" "\<forall>x \<in> set xs. ps_ok x" "map ps_chars xs = t" using assms(1) by (auto simp: buf_is_def)
  then obtain b' where "pv_put (int r) (Some l) b = Some b'" "vec_is b' (xs[r := l])" using vec_put assms(2) by fastforce
  moreover have "\<forall>x \<in> set (xs[r := l]). ps_ok x" using xs(2) assms(3) set_update_subset_insert by fastforce
  moreover have "t \<noteq> []" using assms(1) by (simp add: buf_is_def)
  ultimately show ?thesis using xs(3) by (auto simp: buf_is_def map_update)
qed

lemma fits_new_string:
  "(\<And>off. fits k' off (f ps_new off) Q) \<Longrightarrow> 15 + k' \<le> k \<Longrightarrow> fits k off (Option.bind (new_string off) (\<lambda>(s, off). f s off)) Q"
  unfolding new_string_def bind_assoc by (rule fits_alloc [where k' = k']) simp_all

lemma buffer_new_fits: "fits 50 off (buffer_new off) (\<lambda>b. buf_is b [[]])"
  unfolding buffer_new_def
  by (rule fits_new_string [where k' = 35], rule fits_weaken [OF pv_push_back_fits [OF vec_is_new]])
    (auto simp: buf_is_def)

lemma list_insert_set: "set (list_insert i x xs) = insert x (set xs)"
  unfolding list_insert_def by (metis Un_insert_right append_take_drop_id list.simps(15) set_append)

lemma list_insert_map: "map f (list_insert i x xs) = list_insert i (f x) (map f xs)"
  by (simp add: list_insert_def take_map drop_map)

lemma list_insert_not_Nil: "list_insert i x xs \<noteq> []"
  by (simp add: list_insert_def)

lemma buf_insert_line_fits:
  assumes "buf_is b t" "r \<le> length t" "8 * length t + 50 \<le> k"
  shows "fits k off (buf_insert_line (int r) b off) (\<lambda>b'. buf_is b' (list_insert r [] t))"
proof -
  obtain xs where xs: "vec_is b xs" "\<forall>x \<in> set xs. ps_ok x" "map ps_chars xs = t" using assms(1) by (auto simp: buf_is_def)
  have cl: "clamp (num_lines b) (int r) = int r" using assms(2) buf_lines [OF assms(1)] by (simp add: clamp_eq)
  have "fits (8 * length t + 35) off' (pv_insert (int r) ps_new b off') (\<lambda>b'. buf_is b' (list_insert r [] t))" for off'
    by (rule fits_weaken [OF pv_insert_fits [OF xs(1)]])
      (use assms(2) xs(2,3) in \<open>auto simp: buf_is_def list_insert_not_Nil list_insert_set list_insert_map intro!: exI\<close>)
  then show ?thesis unfolding buf_insert_line_def cl Let_def using assms(3) by (intro fits_new_string) auto
qed

lemma buf_remove:
  assumes "buf_is b t" "r < length t" "1 < length t"
  shows "\<exists>b'. buf_delete_line (int r) b = Some b' \<and> buf_is b' (list_erase r t)"
proof -
  obtain xs where xs: "vec_is b xs" "\<forall>x \<in> set xs. ps_ok x" "map ps_chars xs = t" using assms(1) by (auto simp: buf_is_def)
  then obtain b' where b': "pv_remove (int r) b = Some b'" "vec_is b' (list_erase r xs)" using pv_remove_ok assms(2) by fastforce
  have "list_erase r t \<noteq> []" using assms(2,3) by (cases r) (auto simp: list_erase_def)
  moreover have "\<forall>x \<in> set (list_erase r xs). ps_ok x" using xs(2) by (auto simp: list_erase_def dest: in_set_takeD in_set_dropD)
  moreover have "map ps_chars (list_erase r xs) = list_erase r t" using xs(3) by (auto simp: list_erase_def take_map drop_map)
  ultimately have "buf_is b' (list_erase r t)" using b'(2) by (auto simp: buf_is_def)
  then show ?thesis using b'(1) assms(2,3) buf_lines [OF assms(1)] by (simp add: buf_delete_line_def)
qed

text \<open>The arena an edit of a text may need.\<close>

definition edit_cost :: "u8 list list \<Rightarrow> nat" where
  "edit_cost t = 8 * length t + 4 * sum_list (map length t) + 120"

lemma line_le_sum: "r < length t \<Longrightarrow> length (t ! r) \<le> sum_list (map length t)"
  by (metis length_map member_le_sum_list nth_map nth_mem zero_le)

lemma two_lines_le_sum: "Suc r < length t \<Longrightarrow> length (t ! r) + length (t ! Suc r) \<le> sum_list (map length t)"
proof -
  assume r: "Suc r < length t"
  have "t = take r t @ t ! r # t ! Suc r # drop (Suc (Suc r)) t" using r by (metis Cons_nth_drop_Suc Suc_lessD append_take_drop_id)
  then have "sum_list (map length t) = sum_list (map length (take r t @ t ! r # t ! Suc r # drop (Suc (Suc r)) t))" by metis
  then show ?thesis by simp
qed

lemma buf_insert_char_fits:
  assumes "buf_is b t" "r < length t" "c \<le> length (t ! r)" "edit_cost t \<le> k"
  shows "fits k off (buf_insert_char (int r) (int c) ch b off) (\<lambda>b'. buf_is b' (text_insert r c ch t))"
proof -
  let ?L = "length (t ! r)"
  have k: "8 * length t + 4 * ?L + 120 \<le> k" using assms(4) line_le_sum [OF assms(2)] by (simp add: edit_cost_def)
  obtain l where l: "pv_at (int r) b = Some l" "ps_ok l" "ps_chars l = t ! r" using buf_line [OF assms(1,2)] by blast
  have rn: "\<not> (int r < 0 \<or> int r \<ge> num_lines b)" using assms(2) buf_lines [OF assms(1)] by simp
  note un = buf_insert_char_def if_not_P [OF rn] l(1) Option.bind.simps
  show ?thesis
  proof (cases "ch = 10")
    case False
    show ?thesis unfolding un if_not_P [OF False]
    proof (rule fits_bind [where k' = 0, OF ps_insert_at_fits [OF l(2), of c "2 * ?L + 23"]])
      fix l' and off' :: nat assume l': "ps_ok l' \<and> ps_chars l' = list_insert c ch (ps_chars l)"
      then obtain b' where "pv_put (int r) (Some l') b = Some b'" "buf_is b' (t[r := ps_chars l'])"
        using buf_put [OF assms(1,2)] by blast
      then show "fits 0 off' (do { b \<leftarrow> pv_put (int r) (Some l') b; Some (b, off') }) (\<lambda>b'. buf_is b' (text_insert r c ch t))"
        using False l' l(3) by (simp add: fits_def text_insert_def)
    qed (use assms(3) l(3) k in simp_all)
  next
    case True
    show ?thesis unfolding un if_P [OF True]
    proof (rule fits_bind [where k' = "8 * length t + 2 * ?L + 80", OF ps_substr_fits [OF l(2), of c "2 * ?L + 21"]])
      fix tail and off1 :: nat assume tail: "ps_ok tail \<and> ps_chars tail = drop c (ps_chars l)"
      obtain l1 where l1: "ps_truncate (int c) l = Some l1" "ps_ok l1" "ps_chars l1 = take c (t ! r)"
        using ps_truncate_ok [OF l(2), of c] assms(3) l(3) by auto
      obtain b1 where b1: "pv_put (int r) (Some l1) b = Some b1" "buf_is b1 (t[r := take c (t ! r)])"
        using buf_put [OF assms(1,2) l1(2)] l1(3) by auto
      let ?t = "list_insert (Suc r) [] (t[r := take c (t ! r)])"
      have e: "int r + 1 = int (Suc r)" by simp
      have eq: "?t[Suc r := drop c (t ! r)] = text_insert r c ch t"
        using True assms(2) by (simp add: text_insert_def list_insert_def list_update_append upd_conv_take_nth_drop)
      have "fits (8 * length t + 2 * ?L + 80) off1 (do {
          (b, off) \<leftarrow> buf_insert_line (int (Suc r)) b1 off1;
          l \<leftarrow> pv_at (int (Suc r)) b;
          (l, off) \<leftarrow> ps_assign tail l off;
          b \<leftarrow> pv_put (int (Suc r)) (Some l) b;
          Some (b, off)
        }) (\<lambda>b'. buf_is b' (text_insert r c ch t))"
      proof (rule fits_bind [where k' = "2 * ?L + 25", OF buf_insert_line_fits [OF b1(2), of "Suc r" "8 * length t + 50"]])
        fix b2 and off2 :: nat assume b2: "buf_is b2 ?t"
        have lt: "Suc r < length ?t" using assms(2) by (simp add: list_insert_def)
        obtain l2 where l2: "pv_at (int (Suc r)) b2 = Some l2" "ps_ok l2" using buf_line [OF b2 lt] by blast
        have fin: "fits 0 off3 (do { b \<leftarrow> pv_put (int (Suc r)) (Some l3) b2; Some (b, off3) }) (\<lambda>b'. buf_is b' (text_insert r c ch t))"
          if l3: "ps_ok l3 \<and> ps_chars l3 = ps_chars tail" for l3 off3
        proof -
          obtain b3 where "pv_put (int (Suc r)) (Some l3) b2 = Some b3" "buf_is b3 (?t[Suc r := ps_chars l3])"
            using buf_put [OF b2 lt, of l3] l3 by blast
          then show ?thesis using l3 tail l(3) eq by (simp add: fits_def)
        qed
        show "fits (2 * ?L + 25) off2 (do {
            l \<leftarrow> pv_at (int (Suc r)) b2;
            (l, off) \<leftarrow> ps_assign tail l off2;
            b \<leftarrow> pv_put (int (Suc r)) (Some l) b2;
            Some (b, off)
          }) (\<lambda>b'. buf_is b' (text_insert r c ch t))"
          unfolding l2(1) Option.bind.simps ps_assign_set
          by (rule fits_bind [where k' = 0, OF ps_set_fits [OF l2(2), of _ "2 * ?L + 25"] fin]) (use tail l(3) in simp_all)
      qed (use assms(2) in simp_all)
      then show "fits (8 * length t + 2 * ?L + 80) off1 (do {
          l \<leftarrow> ps_truncate (int c) l;
          b \<leftarrow> pv_put (int r) (Some l) b;
          (b, off) \<leftarrow> buf_insert_line (int r + 1) b off1;
          l \<leftarrow> pv_at (int r + 1) b;
          (l, off) \<leftarrow> ps_assign tail l off;
          b \<leftarrow> pv_put (int r + 1) (Some l) b;
          Some (b, off)
        }) (\<lambda>b'. buf_is b' (text_insert r c ch t))"
        unfolding l1(1) b1(1) Option.bind.simps e .
    qed (use assms(3) l(3) k in simp_all)
  qed
qed

lemma buf_delete_char_fits:
  assumes "buf_is b t" "r < length t" "edit_cost t \<le> k"
  shows "fits k off (buf_delete_char (int r) (int c) b off) (\<lambda>b'. buf_is b' (text_delete r c t))"
proof -
  obtain l where l: "pv_at (int r) b = Some l" "ps_ok l" "ps_chars l = t ! r" using buf_line [OF assms(1,2)] by blast
  have rn: "\<not> (int r < 0 \<or> int r \<ge> num_lines b)" using assms(2) buf_lines [OF assms(1)] by simp
  note un = buf_delete_char_def if_not_P [OF rn] l(1) Option.bind.simps
  have ll: "ps_len l = int (length (t ! r))" using ps_len_chars [OF l(2)] l(3) by simp
  consider "c < length (t ! r)" | "\<not> c < length (t ! r)" "Suc r < length t" | "\<not> c < length (t ! r)" "\<not> Suc r < length t" by blast
  then show ?thesis
  proof cases
    case 1
    obtain l' where l': "ps_erase_at (int c) l = Some l'" "ps_ok l'" "ps_chars l' = list_erase c (t ! r)"
      using ps_erase_at_ok [OF l(2), of c] 1 l(3) by auto
    obtain b' where "pv_put (int r) (Some l') b = Some b'" "buf_is b' (t[r := ps_chars l'])" using buf_put [OF assms(1,2) l'(2)] by blast
    then show ?thesis unfolding un using 1 ll l' by (simp add: fits_def text_delete_def)
  next
    case 2
    have e: "int r + 1 = int (Suc r)" by simp
    obtain l2 where l2: "pv_at (int r + 1) b = Some l2" "ps_chars l2 = t ! Suc r"
      using buf_line [OF assms(1) 2(2)] unfolding e by blast
    have k: "2 * (length (t ! r) + length (t ! Suc r) + 1) + 19 \<le> k"
      using two_lines_le_sum [OF 2(2)] assms(3) by (simp add: edit_cost_def)
    have fin: "fits 0 off' (do { b \<leftarrow> pv_put (int r) (Some l') b; b \<leftarrow> buf_delete_line (int r + 1) b; Some (b, off') })
      (\<lambda>b'. buf_is b' (text_delete r c t))" if l': "ps_ok l' \<and> ps_chars l' = ps_chars l @ ps_chars l2" for l' off'
    proof -
      obtain b1 where b1: "pv_put (int r) (Some l') b = Some b1" "buf_is b1 (t[r := ps_chars l'])" using buf_put [OF assms(1,2)] l' by blast
      obtain b2 where b2: "buf_delete_line (int (Suc r)) b1 = Some b2" "buf_is b2 (list_erase (Suc r) (t[r := ps_chars l']))"
        using buf_remove [OF b1(2), of "Suc r"] 2(2) by auto
      have "list_erase (Suc r) (t[r := ps_chars l']) = text_delete r c t"
        using 2 l' l(3) l2(2) assms(2) by (simp add: list_erase_def text_delete_def take_Suc_conv_app_nth)
      then show ?thesis using b1(1) b2 unfolding e by (simp add: fits_def)
    qed
    show ?thesis unfolding un using 2 ll buf_lines [OF assms(1)]
      by (simp add: l2(1), intro fits_bind [where k' = 0, OF ps_append_fits [OF l(2)] fin]) (use k l(3) l2(2) in simp_all)
  next
    case 3
    then show ?thesis unfolding un using ll buf_lines [OF assms(1)] assms(1) by (simp add: fits_def text_delete_def)
  qed
qed

lemma buf_add_line_fits:
  assumes "buf_is b t" "8 * length t + 2 * length cs + 71 \<le> k"
  shows "fits k off (buf_add_line cs b off) (\<lambda>b'. buf_is b' (t @ [cs]))"
proof -
  obtain xs where xs: "vec_is b xs" "\<forall>x \<in> set xs. ps_ok x" "map ps_chars xs = t" using assms(1) by (auto simp: buf_is_def)
  have "fits (8 * length t + 35) off' (pv_push_back s b off') (\<lambda>b'. buf_is b' (t @ [cs]))"
    if "ps_ok s \<and> ps_chars s = ps_chars ps_new @ cs" for s off'
    by (rule fits_weaken [OF pv_push_back_fits [OF xs(1)]]) (use xs that in \<open>auto simp: buf_is_def intro!: exI\<close>)
  then show ?thesis unfolding buf_add_line_def
    by (intro fits_new_string [where k' = "8 * length t + 2 * length cs + 56"]
        fits_bind [where k' = "8 * length t + 35", OF ps_append_fits [where k = "2 * length cs + 21"]]) (use assms(2) in simp_all)
qed

lemma buf_clear_lines_fits:
  assumes "buf_is b t" "50 \<le> k"
  shows "fits k off (buf_clear_lines b off) (\<lambda>b'. buf_is b' [[]])"
proof -
  obtain xs where "vec_is b xs" using assms(1) by (auto simp: buf_is_def)
  note v = vec_is_clear [OF this]
  show ?thesis unfolding buf_clear_lines_def
    by (intro fits_new_string [where k' = 35] fits_weaken [OF pv_push_back_fits [OF v]])
      (use assms(2) in \<open>auto simp: buf_is_def intro!: exI\<close>)
qed

end
