(* ===== verification/Povi.thy ===== *)
theory Povi
  imports Povi_Text
begin

text \<open>
  The editor \<open>povi\<close>: \<open>user/povi/editor.cpp\<close>, \<open>keymap.cpp\<close>, \<open>file_io.cpp\<close>, \<open>ui.cpp\<close> and the main loop in \<open>povi.cpp\<close>.
  The state of the editor, its two static flags and the arena are one record. The kernel is reached through the
  system calls of \<open>syscall.hpp\<close>, which are a parameter with a state of its own.
  The lemmas show that the editor implements editing of one sequence of characters at a position.
\<close>

section \<open>System calls\<close>

record 'e os =
  os_open :: "u8 list \<Rightarrow> u32 \<Rightarrow> 'e \<Rightarrow> int \<times> 'e"
  os_read :: "int \<Rightarrow> nat \<Rightarrow> 'e \<Rightarrow> int \<times> u8 list \<times> 'e"
  os_write :: "int \<Rightarrow> u8 list \<Rightarrow> 'e \<Rightarrow> int \<times> 'e"
  os_close :: "int \<Rightarrow> 'e \<Rightarrow> 'e"
  os_putchar :: "u8 \<Rightarrow> 'e \<Rightarrow> 'e"
  os_clear :: "'e \<Rightarrow> 'e"
  os_getchar :: "'e \<Rightarrow> u8 \<times> 'e"
  os_yield :: "'e \<Rightarrow> 'e"

text \<open>A string as the functions on C strings see it, up to its first zero.\<close>

definition c_str :: "pstr \<Rightarrow> u8 list" where
  "c_str s = takeWhile (\<lambda>c. c \<noteq> 0) (ps_chars s)"

fun pv_strcmp :: "u8 list \<Rightarrow> u8 list \<Rightarrow> int" where
  "pv_strcmp [] [] = 0"
| "pv_strcmp (a # as) [] = uint a"
| "pv_strcmp [] (b # bs) = - uint b"
| "pv_strcmp (a # as) (b # bs) = (if a = b then pv_strcmp as bs else uint a - uint b)"

section \<open>Editor\<close>

datatype mode = MODE_NORMAL | MODE_INSERT | MODE_COMMAND

record editor =
  ed_buffer :: pvec
  cursor_row :: int
  cursor_col :: int
  top_row :: int
  ed_mode :: mode
  filename :: pstr
  modified :: bool
  message :: pstr
  cmd_line :: pstr
  dirty :: bool
  pending_g :: bool
  heap_off :: nat

definition editor_new :: "nat \<Rightarrow> editor option" where
  "editor_new off = do {
     (b, off) \<leftarrow> buffer_new off;
     Some \<lparr>ed_buffer = b, cursor_row = 0, cursor_col = 0, top_row = 0, ed_mode = MODE_NORMAL, filename = ps_new,
       modified = False, message = ps_new, cmd_line = ps_new, dirty = True, pending_g = False, heap_off = off\<rparr>
   }"

definition clamp_cursor :: "editor \<Rightarrow> editor option" where
  "clamp_cursor ed = do {
     let ed = (if cursor_row ed < 0 then ed\<lparr>cursor_row := 0\<rparr> else ed);
     let max_row = num_lines (ed_buffer ed) - 1;
     let ed = (if cursor_row ed > max_row then ed\<lparr>cursor_row := max_row\<rparr> else ed);
     let ed = (if cursor_col ed < 0 then ed\<lparr>cursor_col := 0\<rparr> else ed);
     len \<leftarrow> line_length (cursor_row ed) (ed_buffer ed);
     Some (if cursor_col ed > len then ed\<lparr>cursor_col := len\<rparr> else ed)
   }"

definition scroll_to_cursor :: "editor \<Rightarrow> editor" where
  "scroll_to_cursor ed =
     (let ed = (if cursor_row ed < top_row ed then ed\<lparr>top_row := cursor_row ed\<rparr> else ed)
      in if cursor_row ed \<ge> top_row ed + 24 then ed\<lparr>top_row := cursor_row ed - 23\<rparr> else ed)"

definition move_left :: "editor \<Rightarrow> editor option" where
  "move_left ed =
     (if cursor_col ed > 0 then Some (ed\<lparr>cursor_col := cursor_col ed - 1\<rparr>)
      else if cursor_row ed > 0 then do {
        let ed = ed\<lparr>cursor_row := cursor_row ed - 1\<rparr>;
        len \<leftarrow> line_length (cursor_row ed) (ed_buffer ed);
        Some (ed\<lparr>cursor_col := len\<rparr>)
      }
      else Some ed)"

definition move_right :: "editor \<Rightarrow> editor option" where
  "move_right ed = do {
     len \<leftarrow> line_length (cursor_row ed) (ed_buffer ed);
     Some (if cursor_col ed < len then ed\<lparr>cursor_col := cursor_col ed + 1\<rparr>
           else if cursor_row ed + 1 < num_lines (ed_buffer ed) then ed\<lparr>cursor_row := cursor_row ed + 1, cursor_col := 0\<rparr>
           else ed)
   }"

text \<open>The common end of \<open>move_up\<close> and \<open>move_down\<close>: the column is limited to the new line.\<close>

definition cut_column :: "editor \<Rightarrow> editor option" where
  "cut_column ed = do {
     len \<leftarrow> line_length (cursor_row ed) (ed_buffer ed);
     Some (if cursor_col ed > len then ed\<lparr>cursor_col := len\<rparr> else ed)
   }"

definition move_up :: "editor \<Rightarrow> editor option" where
  "move_up ed = (if cursor_row ed > 0 then cut_column (ed\<lparr>cursor_row := cursor_row ed - 1\<rparr>) else Some ed)"

definition move_down :: "editor \<Rightarrow> editor option" where
  "move_down ed = (if cursor_row ed + 1 < num_lines (ed_buffer ed)
     then cut_column (ed\<lparr>cursor_row := cursor_row ed + 1\<rparr>) else Some ed)"

definition goto_line_start :: "editor \<Rightarrow> editor" where
  "goto_line_start ed = ed\<lparr>cursor_col := 0\<rparr>"

definition goto_line_end :: "editor \<Rightarrow> editor option" where
  "goto_line_end ed = do {
     len \<leftarrow> line_length (cursor_row ed) (ed_buffer ed);
     Some (ed\<lparr>cursor_col := len\<rparr>)
   }"

definition goto_first_line :: "editor \<Rightarrow> editor" where
  "goto_first_line ed = ed\<lparr>cursor_row := 0, cursor_col := 0\<rparr>"

definition goto_last_line :: "editor \<Rightarrow> editor option" where
  "goto_last_line ed = goto_line_end (ed\<lparr>cursor_row := num_lines (ed_buffer ed) - 1\<rparr>)"

definition ed_insert_char :: "u8 \<Rightarrow> editor \<Rightarrow> editor option" where
  "ed_insert_char c ed = do {
     (b, off) \<leftarrow> buf_insert_char (cursor_row ed) (cursor_col ed) c (ed_buffer ed) (heap_off ed);
     let ed = ed\<lparr>ed_buffer := b, heap_off := off\<rparr>;
     Some (if c = 10 then ed\<lparr>cursor_row := cursor_row ed + 1, cursor_col := 0\<rparr>
           else ed\<lparr>cursor_col := cursor_col ed + 1\<rparr>)
   }"

definition backspace :: "editor \<Rightarrow> editor option" where
  "backspace ed =
     (if cursor_col ed > 0 then do {
        (b, off) \<leftarrow> buf_delete_char (cursor_row ed) (cursor_col ed - 1) (ed_buffer ed) (heap_off ed);
        Some (ed\<lparr>ed_buffer := b, heap_off := off, cursor_col := cursor_col ed - 1\<rparr>)
      }
      else if cursor_row ed > 0 then do {
        prev_len \<leftarrow> line_length (cursor_row ed - 1) (ed_buffer ed);
        (b, off) \<leftarrow> buf_delete_char (cursor_row ed - 1) prev_len (ed_buffer ed) (heap_off ed);
        Some (ed\<lparr>ed_buffer := b, heap_off := off, cursor_row := cursor_row ed - 1, cursor_col := prev_len\<rparr>)
      }
      else Some ed)"

definition ed_delete_char :: "editor \<Rightarrow> editor option" where
  "ed_delete_char ed = do {
     (b, off) \<leftarrow> buf_delete_char (cursor_row ed) (cursor_col ed) (ed_buffer ed) (heap_off ed);
     cut_column (ed\<lparr>ed_buffer := b, heap_off := off\<rparr>)
   }"

definition status_message :: "string \<Rightarrow> editor \<Rightarrow> editor option" where
  "status_message m ed = do {
     (s, off) \<leftarrow> ps_set (bytes_of m) (message ed) (heap_off ed);
     Some (ed\<lparr>message := s, heap_off := off\<rparr>)
   }"

section \<open>Keys\<close>

datatype key_event = KEYEV_NONE | KEYEV_CHAR u8 | KEYEV_ESC | KEYEV_ENTER | KEYEV_BACKSPACE | KEYEV_UP | KEYEV_DOWN |
  KEYEV_LEFT | KEYEV_RIGHT

definition get_key_event :: "'e os \<Rightarrow> 'e \<Rightarrow> key_event \<times> 'e" where
  "get_key_event os e =
     (let (c, e) = os_getchar os e in
      (if c = 0 then KEYEV_NONE else if c = 0x1B then KEYEV_ESC else if c = 10 then KEYEV_ENTER
       else if c = 8 then KEYEV_BACKSPACE else if c = 1 then KEYEV_UP else if c = 2 then KEYEV_DOWN
       else if c = 3 then KEYEV_LEFT else if c = 4 then KEYEV_RIGHT else KEYEV_CHAR c, e))"

section \<open>Files\<close>

definition load_char :: "u8 \<Rightarrow> (pvec \<times> pstr) \<times> nat \<Rightarrow> ((pvec \<times> pstr) \<times> nat) option" where
  "load_char c = (\<lambda>((buf, cur), off).
     if c = 10 then do {
       (buf, off) \<leftarrow> buf_add_line (ps_chars cur) buf off;
       cur \<leftarrow> ps_clear cur;
       Some ((buf, cur), off)
     }
     else do {
       (cur, off) \<leftarrow> ps_append_char c cur off;
       Some ((buf, cur), off)
     })"

partial_function (option) load_loop :: "'e os \<Rightarrow> int \<Rightarrow> bool \<Rightarrow> (pvec \<times> pstr) \<times> nat \<Rightarrow> 'e \<Rightarrow>
    (bool \<times> ((pvec \<times> pstr) \<times> nat) \<times> 'e) option" where
  "load_loop os fd any st e =
     (let (got, tmp, e) = os_read os fd 512 e in
      if got \<le> 0 then Some (any, st, e)
      else Option.bind (fold_opt load_char (take (nat got) tmp) st) (\<lambda>st. load_loop os fd True st e))"

declare load_loop.simps [code]

definition load_file :: "'e os \<Rightarrow> u8 list \<Rightarrow> pvec \<Rightarrow> nat \<Rightarrow> 'e \<Rightarrow> (bool \<times> pvec \<times> nat \<times> 'e) option" where
  "load_file os path buf off e =
     (let (fd, e) = os_open os path 0 e in
      if fd < 0 then Some (False, buf, off, e)
      else do {
        (buf, off) \<leftarrow> buf_clear_lines buf off;
        (any, ((buf, cur), off), e) \<leftarrow> load_loop os fd False ((buf, ps_new), off) e;
        (buf, off) \<leftarrow> (if \<not> any \<or> ps_len cur > 0 then buf_add_line (ps_chars cur) buf off else Some (buf, off));
        Some (True, buf, off, os_close os fd e)
      })"

primrec save_lines :: "'e os \<Rightarrow> int \<Rightarrow> pvec \<Rightarrow> int list \<Rightarrow> 'e \<Rightarrow> (bool \<times> 'e) option" where
  "save_lines os fd buf [] e = Some (True, os_close os fd e)"
| "save_lines os fd buf (i # is) e = do {
     l \<leftarrow> pv_at i buf;
     let (r, e) = os_write os fd (ps_chars l) e;
     if r < 0 then Some (False, os_close os fd e)
     else let (r, e) = os_write os fd [10] e in
       if r < 0 then Some (False, os_close os fd e)
       else save_lines os fd buf is e
   }"

definition save_file :: "'e os \<Rightarrow> u8 list \<Rightarrow> pvec \<Rightarrow> 'e \<Rightarrow> (bool \<times> 'e) option" where
  "save_file os path buf e =
     (let (fd, e) = os_open os path (0x001 OR 0x100 OR 0x200) e in
      if fd < 0 then Some (False, e)
      else save_lines os fd buf [0..num_lines buf - 1] e)"

section \<open>The screen\<close>

fun digits_rev :: "nat \<Rightarrow> u8 list" where
  "digits_rev v = (if v = 0 then [] else (48 + of_nat (v mod 10)) # digits_rev (v div 10))"

declare digits_rev.simps [simp del]

definition dec_text :: "int \<Rightarrow> u8 list" where
  "dec_text v = (if v = 0 then [48] else rev (digits_rev (nat v)))"

text \<open>The characters of the status line; \<open>chars\<close> counts them as the sources do.\<close>

definition write_status :: "editor \<Rightarrow> u8 list" where
  "write_status ed =
     (let mode_str = take 80 (bytes_of (case ed_mode ed of MODE_INSERT \<Rightarrow> ''-- INSERT --'' | MODE_COMMAND \<Rightarrow> ''-- :''
            | MODE_NORMAL \<Rightarrow> ''-- NORMAL --''));
          chars = length mode_str + 1;
          name = take (80 - chars) (c_str (filename ed));
          chars = chars + length name + 1;
          plus = (if modified ed then [43] else []);
          chars = chars + length plus + 1 + 5;
          cmd = (if ed_mode ed = MODE_COMMAND then take (80 - chars) (c_str (cmd_line ed)) else []);
          chars = chars + length cmd;
          msg = (if ps_len (message ed) > 0 then 32 # take (80 - chars) (c_str (message ed)) else [])
      in mode_str @ [32] @ name @ [32] @ plus @ [32] @ dec_text (cursor_row ed + 1) @ [47] @
         dec_text (num_lines (ed_buffer ed)) @ (if ed_mode ed = MODE_COMMAND then [32, 58] @ cmd else []) @ msg)"

definition write_line :: "pstr \<Rightarrow> u8 list" where
  "write_line s = take 80 (c_str s) @ [10]"

definition ui_row :: "editor \<Rightarrow> int \<Rightarrow> u8 list option" where
  "ui_row ed r = (if r < num_lines (ed_buffer ed) then map_option write_line (pv_at r (ed_buffer ed)) else Some [10])"

definition ui_refresh :: "'e os \<Rightarrow> editor \<Rightarrow> 'e \<Rightarrow> (editor \<times> 'e) option" where
  "ui_refresh os ed e = do {
     let ed = scroll_to_cursor ed;
     e \<leftarrow> fold_opt (\<lambda>row e. map_option (\<lambda>cs. fold (os_putchar os) cs e) (ui_row ed (top_row ed + row))) [0..23] (os_clear os e);
     Some (ed, fold (os_putchar os) (write_status ed) e)
   }"

section \<open>Modes\<close>

definition mark_dirty :: "editor \<Rightarrow> editor" where
  "mark_dirty ed = ed\<lparr>dirty := True\<rparr>"

definition clear_cmd :: "editor \<Rightarrow> editor option" where
  "clear_cmd ed = do { s \<leftarrow> ps_clear (cmd_line ed); Some (ed\<lparr>cmd_line := s\<rparr>) }"

text \<open>The value is whether the editor quits.\<close>

definition do_command :: "'e os \<Rightarrow> editor \<Rightarrow> 'e \<Rightarrow> (bool \<times> editor \<times> 'e) option" where
  "do_command os ed e =
     (let cmd = c_str (cmd_line ed) in
      if pv_strcmp cmd (bytes_of ''w'') = 0 then
          (if ps_len (filename ed) = 0 then do { ed \<leftarrow> status_message ''no file name'' ed; Some (False, ed, e) }
           else do {
             (saved, e) \<leftarrow> save_file os (c_str (filename ed)) (ed_buffer ed) e;
             if saved then do { ed \<leftarrow> status_message ''written'' (ed\<lparr>modified := False\<rparr>); Some (False, ed, e) }
             else do { ed \<leftarrow> status_message ''write failed'' ed; Some (False, ed, e) }
           })
        else if pv_strcmp cmd (bytes_of ''q'') = 0 then
          (if modified ed then do {
             ed \<leftarrow> status_message ''no write since last change (use :q!)'' ed; Some (False, ed, e) }
           else Some (True, ed, e))
        else if pv_strcmp cmd (bytes_of ''wq'') = 0 then
          (if ps_len (filename ed) = 0 then do { ed \<leftarrow> status_message ''no file name'' ed; Some (False, ed, e) }
           else do {
             (saved, e) \<leftarrow> save_file os (c_str (filename ed)) (ed_buffer ed) e;
             if saved then Some (True, ed, e)
             else do { ed \<leftarrow> status_message ''write failed'' ed; Some (False, ed, e) }
           })
        else if pv_strcmp cmd (bytes_of ''q!'') = 0 then Some (True, ed, e)
        else do { ed \<leftarrow> status_message ''not an editor command'' ed; Some (False, ed, e) })"

definition run_command :: "'e os \<Rightarrow> editor \<Rightarrow> 'e \<Rightarrow> (bool \<times> editor \<times> 'e) option" where
  "run_command os ed e = do {
     (quit, ed, e) \<leftarrow> do_command os ed e;
     ed \<leftarrow> clear_cmd (ed\<lparr>ed_mode := MODE_NORMAL\<rparr>);
     Some (quit, mark_dirty ed, e)
   }"

definition handle_command_mode :: "'e os \<Rightarrow> key_event \<Rightarrow> editor \<Rightarrow> 'e \<Rightarrow> (bool \<times> editor \<times> 'e) option" where
  "handle_command_mode os ev ed e =
     (case ev of
        KEYEV_ESC \<Rightarrow> do { ed \<leftarrow> clear_cmd (ed\<lparr>ed_mode := MODE_NORMAL\<rparr>); Some (False, mark_dirty ed, e) }
      | KEYEV_ENTER \<Rightarrow> run_command os ed e
      | KEYEV_BACKSPACE \<Rightarrow> do {
          s \<leftarrow> (if ps_len (cmd_line ed) > 0 then ps_truncate (ps_len (cmd_line ed) - 1) (cmd_line ed) else Some (cmd_line ed));
          Some (False, mark_dirty (ed\<lparr>cmd_line := s\<rparr>), e)
        }
      | KEYEV_CHAR c \<Rightarrow> do {
          (s, off) \<leftarrow> ps_append_char c (cmd_line ed) (heap_off ed);
          Some (False, mark_dirty (ed\<lparr>cmd_line := s, heap_off := off\<rparr>), e)
        }
      | _ \<Rightarrow> Some (False, ed, e))"

definition handle_insert_mode :: "key_event \<Rightarrow> editor \<Rightarrow> editor option" where
  "handle_insert_mode ev ed =
     (case ev of
        KEYEV_CHAR c \<Rightarrow> map_option (\<lambda>ed. mark_dirty (ed\<lparr>modified := True\<rparr>)) (ed_insert_char c ed)
      | KEYEV_ENTER \<Rightarrow> map_option (\<lambda>ed. mark_dirty (ed\<lparr>modified := True\<rparr>)) (ed_insert_char 10 ed)
      | KEYEV_BACKSPACE \<Rightarrow> map_option (\<lambda>ed. mark_dirty (ed\<lparr>modified := True\<rparr>)) (backspace ed)
      | KEYEV_ESC \<Rightarrow> Some (mark_dirty (ed\<lparr>ed_mode := MODE_NORMAL\<rparr>))
      | KEYEV_UP \<Rightarrow> map_option mark_dirty (move_up ed)
      | KEYEV_DOWN \<Rightarrow> map_option mark_dirty (move_down ed)
      | KEYEV_LEFT \<Rightarrow> map_option mark_dirty (move_left ed)
      | KEYEV_RIGHT \<Rightarrow> map_option mark_dirty (move_right ed)
      | KEYEV_NONE \<Rightarrow> Some ed)"

definition normal_char :: "u8 \<Rightarrow> editor \<Rightarrow> editor option" where
  "normal_char c ed =
     (let ed' = ed\<lparr>pending_g := False\<rparr> in
      if c = of_char CHR ''h'' then map_option mark_dirty (move_left ed')
      else if c = of_char CHR ''j'' \<or> c = 10 then map_option mark_dirty (move_down ed')
      else if c = of_char CHR ''k'' then map_option mark_dirty (move_up ed')
      else if c = of_char CHR ''l'' then map_option mark_dirty (move_right ed')
      else if c = of_char CHR ''0'' then Some (mark_dirty (goto_line_start ed'))
      else if c = of_char CHR ''$'' then map_option mark_dirty (goto_line_end ed')
      else if c = of_char CHR ''x'' then map_option (\<lambda>ed. mark_dirty (ed\<lparr>modified := True\<rparr>)) (ed_delete_char ed')
      else if c = of_char CHR ''i'' then Some (mark_dirty (ed'\<lparr>ed_mode := MODE_INSERT\<rparr>))
      else if c = of_char CHR '':'' then map_option mark_dirty (clear_cmd (ed'\<lparr>ed_mode := MODE_COMMAND\<rparr>))
      else if c = of_char CHR ''g'' then
        Some (if pending_g ed then mark_dirty (goto_first_line ed') else ed\<lparr>pending_g := True\<rparr>)
      else if c = of_char CHR ''G'' then map_option mark_dirty (goto_last_line ed')
      else Some ed')"

definition handle_normal_mode :: "key_event \<Rightarrow> editor \<Rightarrow> editor option" where
  "handle_normal_mode ev ed =
     (let ed' = ed\<lparr>pending_g := False\<rparr> in
      case ev of
        KEYEV_CHAR c \<Rightarrow> normal_char c ed
      | KEYEV_UP \<Rightarrow> map_option mark_dirty (move_up ed')
      | KEYEV_DOWN \<Rightarrow> map_option mark_dirty (move_down ed')
      | KEYEV_LEFT \<Rightarrow> map_option mark_dirty (move_left ed')
      | KEYEV_RIGHT \<Rightarrow> map_option mark_dirty (move_right ed')
      | KEYEV_ENTER \<Rightarrow> map_option mark_dirty (move_down ed')
      | _ \<Rightarrow> Some ed)"

section \<open>Main loop\<close>

definition handle_key :: "'e os \<Rightarrow> key_event \<Rightarrow> editor \<Rightarrow> 'e \<Rightarrow> (bool \<times> editor \<times> 'e) option" where
  "handle_key os ev ed e =
     (case ed_mode ed of
        MODE_COMMAND \<Rightarrow> handle_command_mode os ev ed e
      | MODE_INSERT \<Rightarrow> map_option (\<lambda>ed. (False, ed, e)) (handle_insert_mode ev ed)
      | MODE_NORMAL \<Rightarrow> map_option (\<lambda>ed. (False, ed, e)) (handle_normal_mode ev ed))"

partial_function (option) povi_loop :: "'e os \<Rightarrow> editor \<Rightarrow> 'e \<Rightarrow> 'e option" where
  "povi_loop os ed e =
     Option.bind (if dirty ed then map_option (\<lambda>(ed, e). (ed\<lparr>dirty := False\<rparr>, e)) (ui_refresh os ed e) else Some (ed, e))
       (\<lambda>(ed, e). let (ev, e) = get_key_event os e in
          if ev = KEYEV_NONE then povi_loop os ed (os_yield os e)
          else Option.bind (handle_key os ev ed e) (\<lambda>(quit, ed, e). if quit then Some e else povi_loop os ed e))"

declare povi_loop.simps [code]

definition full_name :: "u8 list \<Rightarrow> editor \<Rightarrow> editor option" where
  "full_name arg ed = do {
     (fn, off) \<leftarrow> ps_set arg (filename ed) (heap_off ed);
     if c_str fn = [] \<or> hd (c_str fn) \<noteq> of_char CHR ''/'' then do {
       (full, off) \<leftarrow> ps_set (bytes_of ''/home/'') ps_new off;
       (full, off) \<leftarrow> ps_append (ps_chars fn) full off;
       (fn, off) \<leftarrow> ps_assign full fn off;
       Some (ed\<lparr>filename := fn, heap_off := off\<rparr>)
     }
     else Some (ed\<lparr>filename := fn, heap_off := off\<rparr>)
   }"

definition povi_main :: "'e os \<Rightarrow> u8 list option \<Rightarrow> 'e \<Rightarrow> 'e option" where
  "povi_main os arg e = do {
     ed \<leftarrow> editor_new 0;
     (ed, e) \<leftarrow> (case arg of None \<Rightarrow> map_option (\<lambda>ed. (ed, e)) (status_message ''usage: povi <filename>'' ed)
       | Some a \<Rightarrow> do {
           ed \<leftarrow> full_name a ed;
           (loaded, b, off, e) \<leftarrow> load_file os (c_str (filename ed)) (ed_buffer ed) (heap_off ed) e;
           let ed = ed\<lparr>ed_buffer := b, heap_off := off\<rparr>;
           if loaded then Some (ed, e) else map_option (\<lambda>ed. (ed, e)) (status_message ''new file'' ed)
         });
     povi_loop os (mark_dirty ed) e
   }"

section \<open>The text as one sequence of characters\<close>

definition text_of :: "pvec \<Rightarrow> u8 list list" where
  "text_of b = map (\<lambda>x. ps_chars (the x)) (take (nat (pv_count b)) (pv_arr b))"

lemma text_of_eq: "buf_is b t \<Longrightarrow> text_of b = t"
  by (auto simp: buf_is_def text_of_def vec_is_def)

text \<open>What lies before and behind the cursor, with a newline between two lines.\<close>

definition before :: "u8 list list \<Rightarrow> nat \<Rightarrow> nat \<Rightarrow> u8 list" where
  "before t r c = concat (map (\<lambda>l. l @ [10]) (take r t)) @ take c (t ! r)"

definition behind :: "u8 list list \<Rightarrow> nat \<Rightarrow> nat \<Rightarrow> u8 list" where
  "behind t r c = drop c (t ! r) @ concat (map (\<lambda>l. 10 # l) (drop (Suc r) t))"

lemma split_at: "r < length t \<Longrightarrow> \<exists>us l vs. t = us @ l # vs \<and> length us = r"
  by (metis id_take_nth_drop length_take min.absorb4)

lemma before_split: "before (us @ l # vs) (length us) c = concat (map (\<lambda>l. l @ [10]) us) @ take c l"
  by (simp add: before_def)

lemma behind_split: "behind (us @ l # vs) (length us) c = drop c l @ concat (map (\<lambda>l. 10 # l) vs)"
  by (simp add: behind_def)

lemma before_behind: "r < length t \<Longrightarrow> before t r c @ behind t r c = concat (map (\<lambda>l. l @ [10]) (take r t)) @ t ! r @ concat (map (\<lambda>l. 10 # l) (drop (Suc r) t))"
  by (simp add: before_def behind_def)

text \<open>The whole text does not depend on the position.\<close>

lemma concat_sep: "concat (map (\<lambda>l. l @ [10]) us) @ l @ concat (map (\<lambda>l. 10 # l) vs) =
    hd (us @ l # vs) @ concat (map (\<lambda>l. 10 # l) (tl (us @ l # vs)))"
proof (induction us arbitrary: l)
  case Nil
  then show ?case by simp
next
  case (Cons u us)
  show ?case
  proof (cases us)
    case Nil
    then show ?thesis by simp
  next
    case (Cons w ws)
    then show ?thesis using Cons.IH [of l] by simp
  qed
qed

lemma whole_text:
  assumes "r < length t" "r' < length t"
  shows "before t r c @ behind t r c = before t r' c' @ behind t r' c'"
proof -
  have "before t r c @ behind t r c = hd t @ concat (map (\<lambda>l. 10 # l) (tl t))" if "r < length t" for r c
  proof -
    obtain us l vs where t: "t = us @ l # vs" "length us = r" using split_at [OF \<open>r < length t\<close>] by blast
    have "before t r c @ behind t r c = concat (map (\<lambda>l. l @ [10]) us) @ l @ concat (map (\<lambda>l. 10 # l) vs)"
      unfolding t(1) t(2) [symmetric] by (simp add: before_split behind_split)
    then show ?thesis using concat_sep [of us l vs] t(1) by simp
  qed
  then show ?thesis using assms by metis
qed

text \<open>Edits of the lines are edits of the sequence.\<close>

lemma insert_view:
  assumes "r < length t" "c \<le> length (t ! r)"
  shows "before (text_insert r c ch t) (if ch = 10 then Suc r else r) (if ch = 10 then 0 else Suc c) = before t r c @ [ch]"
    "behind (text_insert r c ch t) (if ch = 10 then Suc r else r) (if ch = 10 then 0 else Suc c) = behind t r c"
proof -
  obtain us l vs where t: "t = us @ l # vs" "length us = r" using split_at [OF assms(1)] by blast
  have n: "text_insert r c 10 t = (us @ [take c l]) @ drop c l # vs" using t by (simp add: text_insert_def nth_append)
  have o: "ch \<noteq> 10 \<Longrightarrow> text_insert r c ch t = us @ list_insert c ch l # vs" using t by (simp add: text_insert_def nth_append list_update_append)
  have l: "Suc r = length (us @ [take c l])" "c \<le> length l" "take (Suc c) (list_insert c ch l) = take c l @ [ch]" "drop (Suc c) (list_insert c ch l) = drop c l"
    using t assms(2) by (auto simp: list_insert_def nth_append)
  show "before (text_insert r c ch t) (if ch = 10 then Suc r else r) (if ch = 10 then 0 else Suc c) = before t r c @ [ch]"
  proof (cases "ch = 10")
    case True
    have "before (text_insert r c 10 t) (Suc r) 0 = before t r c @ [10]"
      unfolding n l(1) before_split unfolding t(1) t(2) [symmetric] before_split by simp
    then show ?thesis using True by simp
  next
    case False
    then show ?thesis using o l(3) t by (simp add: before_split [of us, unfolded t(2)])
  qed
  show "behind (text_insert r c ch t) (if ch = 10 then Suc r else r) (if ch = 10 then 0 else Suc c) = behind t r c"
  proof (cases "ch = 10")
    case True
    have "behind (text_insert r c 10 t) (Suc r) 0 = behind t r c"
      unfolding n l(1) behind_split unfolding t(1) t(2) [symmetric] behind_split by simp
    then show ?thesis using True by simp
  next
    case False
    then show ?thesis using o l(4) t by (simp add: behind_split [of us, unfolded t(2)])
  qed
qed

lemma delete_view:
  assumes "r < length t" "c \<le> length (t ! r)"
  shows "before (text_delete r c t) r c = before t r c" "behind (text_delete r c t) r c = tl (behind t r c)"
    "r < length (text_delete r c t)" "c \<le> length (text_delete r c t ! r)"
proof -
  obtain us l vs where t: "t = us @ l # vs" "length us = r" using split_at [OF assms(1)] by blast
  have l: "c \<le> length l" "t ! r = l" using t assms(2) by (auto simp: nth_append)
  note sp = before_split [of us, unfolded t(2)] behind_split [of us, unfolded t(2)]
  consider "c < length l" | "c = length l" "vs = []" | v vs' where "c = length l" "vs = v # vs'"
    using l(1) by (cases vs) fastforce+
  then have "before (text_delete r c t) r c = before t r c \<and> behind (text_delete r c t) r c = tl (behind t r c) \<and>
    r < length (text_delete r c t) \<and> c \<le> length (text_delete r c t ! r)"
  proof cases
    case 1
    then have "text_delete r c t = us @ list_erase c l # vs" using t l by (simp add: text_delete_def list_update_append)
    moreover have "take c (list_erase c l) = take c l" "drop c (list_erase c l) = tl (drop c l)" "drop c l \<noteq> []" "c \<le> length (list_erase c l)"
      using 1 by (auto simp: list_erase_def drop_Suc tl_drop)
    ultimately show ?thesis using t by (simp add: sp nth_append)
  next
    case 2
    then have "text_delete r c t = t" using t l by (simp add: text_delete_def)
    then show ?thesis using 2 t by (simp add: sp nth_append)
  next
    case 3
    then have "text_delete r c t = us @ (l @ v) # vs'" using t l by (simp add: text_delete_def nth_append)
    then show ?thesis using 3 t by (simp add: sp nth_append)
  qed
  then show "before (text_delete r c t) r c = before t r c" "behind (text_delete r c t) r c = tl (behind t r c)"
    "r < length (text_delete r c t)" "c \<le> length (text_delete r c t ! r)" by blast+
qed

lemma left_view:
  assumes "r < length t" "c \<le> length (t ! r)"
  shows "0 < c \<Longrightarrow> before t r c = before t r (c - 1) @ [t ! r ! (c - 1)] \<and> behind t r (c - 1) = t ! r ! (c - 1) # behind t r c"
    "0 < r \<Longrightarrow> before t r 0 = before t (r - 1) (length (t ! (r - 1))) @ [10] \<and> behind t (r - 1) (length (t ! (r - 1))) = 10 # behind t r 0"
proof -
  assume "0 < c"
  then obtain d where "c = Suc d" by (cases c) auto
  then show "before t r c = before t r (c - 1) @ [t ! r ! (c - 1)] \<and> behind t r (c - 1) = t ! r ! (c - 1) # behind t r c"
    using assms(2) by (simp add: before_def behind_def take_Suc_conv_app_nth Cons_nth_drop_Suc [symmetric])
next
  assume "0 < r"
  then obtain q where "r = Suc q" by (cases r) auto
  then show "before t r 0 = before t (r - 1) (length (t ! (r - 1))) @ [10] \<and> behind t (r - 1) (length (t ! (r - 1))) = 10 # behind t r 0"
    using assms(1) by (simp add: before_def behind_def take_Suc_conv_app_nth Cons_nth_drop_Suc [symmetric])
qed

section \<open>The cursor is on the text\<close>

definition ed_ok :: "editor \<Rightarrow> bool" where
  "ed_ok ed \<longleftrightarrow> (let t = text_of (ed_buffer ed) in
     buf_is (ed_buffer ed) t \<and> 0 \<le> cursor_row ed \<and> nat (cursor_row ed) < length t \<and>
     0 \<le> cursor_col ed \<and> nat (cursor_col ed) \<le> length (t ! nat (cursor_row ed)) \<and>
     ps_ok (filename ed) \<and> ps_ok (message ed) \<and> ps_ok (cmd_line ed))"

definition view :: "editor \<Rightarrow> u8 list \<times> u8 list" where
  "view ed = (let t = text_of (ed_buffer ed); r = nat (cursor_row ed); c = nat (cursor_col ed) in (before t r c, behind t r c))"

text \<open>The editor state over a text \<open>t\<close> with the cursor at \<open>(r, c)\<close>.\<close>

definition ed_at :: "editor \<Rightarrow> u8 list list \<Rightarrow> nat \<Rightarrow> nat \<Rightarrow> bool" where
  "ed_at ed t r c \<longleftrightarrow> buf_is (ed_buffer ed) t \<and> cursor_row ed = int r \<and> cursor_col ed = int c \<and> r < length t \<and> c \<le> length (t ! r) \<and>
     ps_ok (filename ed) \<and> ps_ok (message ed) \<and> ps_ok (cmd_line ed)"

lemma ed_okE:
  assumes "ed_ok ed"
  obtains r c where "ed_at ed (text_of (ed_buffer ed)) r c"
  using assms by (auto simp: ed_ok_def ed_at_def Let_def intro: that [of "nat (cursor_row ed)" "nat (cursor_col ed)"])

lemma ed_atD:
  assumes "ed_at ed t r c"
  shows "ed_ok ed" "view ed = (before t r c, behind t r c)" "text_of (ed_buffer ed) = t"
proof -
  have "text_of (ed_buffer ed) = t" using assms text_of_eq by (simp add: ed_at_def)
  then show "ed_ok ed" "view ed = (before t r c, behind t r c)" "text_of (ed_buffer ed) = t"
    using assms by (simp_all add: ed_ok_def view_def ed_at_def Let_def)
qed

lemma ed_at_flags [simp]:
  "ed_at (ed\<lparr>dirty := a\<rparr>) t r c = ed_at ed t r c" "ed_at (ed\<lparr>modified := m\<rparr>) t r c = ed_at ed t r c"
  "ed_at (ed\<lparr>pending_g := g\<rparr>) t r c = ed_at ed t r c" "ed_at (ed\<lparr>ed_mode := mo\<rparr>) t r c = ed_at ed t r c"
  "ed_at (mark_dirty ed) t r c = ed_at ed t r c" "ed_at (ed\<lparr>heap_off := off\<rparr>) t r c = ed_at ed t r c"
  by (simp_all add: ed_at_def mark_dirty_def)

lemma ed_at_len: "ed_at ed t r c \<Longrightarrow> k < length t \<Longrightarrow> line_length (int k) (ed_buffer ed) = Some (int (length (t ! k)))"
  using buf_line_length by (auto simp: ed_at_def)

lemma ed_at_num: "ed_at ed t r c \<Longrightarrow> num_lines (ed_buffer ed) = int (length t)"
  using buf_lines by (auto simp: ed_at_def)

lemma move_left_at:
  assumes "ed_at ed t r c"
  shows "\<exists>ed' r' c'. move_left ed = Some ed' \<and> ed_at ed' t r' c' \<and>
    (before t r' c', behind t r' c') = (if before t r c = [] then ([], behind t r c) else (butlast (before t r c), last (before t r c) # behind t r c))"
proof -
  have v: "r < length t" "c \<le> length (t ! r)" "cursor_row ed = int r" "cursor_col ed = int c" using assms by (auto simp: ed_at_def)
  consider "0 < c" | "c = 0" "0 < r" | "c = 0" "r = 0" by blast
  then show ?thesis
  proof cases
    case 1
    then have "move_left ed = Some (ed\<lparr>cursor_col := int (c - 1)\<rparr>)" "ed_at (ed\<lparr>cursor_col := int (c - 1)\<rparr>) t r (c - 1)"
      using assms v by (auto simp: move_left_def ed_at_def of_nat_diff)
    then show ?thesis using left_view(1) [OF v(1,2) 1] by auto
  next
    case 2
    obtain q where q: "r = Suc q" using 2(2) by (cases r) auto
    have "move_left ed = Some (ed\<lparr>cursor_row := int q, cursor_col := int (length (t ! q))\<rparr>)"
      using v 2 ed_at_len [OF assms, of q] q by (simp add: move_left_def)
    moreover have "ed_at (ed\<lparr>cursor_row := int q, cursor_col := int (length (t ! q))\<rparr>) t q (length (t ! q))"
      using assms v q by (auto simp: ed_at_def)
    ultimately show ?thesis using left_view(2) [OF v(1,2) 2(2)] 2(1) q by auto
  next
    case 3
    then show ?thesis using assms v by (auto simp: move_left_def before_def intro!: exI [of _ 0])
  qed
qed

lemma move_right_at:
  assumes "ed_at ed t r c"
  shows "\<exists>ed' r' c'. move_right ed = Some ed' \<and> ed_at ed' t r' c' \<and>
    (before t r' c', behind t r' c') = (if behind t r c = [] then (before t r c, []) else (before t r c @ [hd (behind t r c)], tl (behind t r c)))"
proof -
  have v: "r < length t" "c \<le> length (t ! r)" "cursor_row ed = int r" "cursor_col ed = int c" using assms by (auto simp: ed_at_def)
  note len = ed_at_len [OF assms v(1)] ed_at_num [OF assms]
  consider "c < length (t ! r)" | "c = length (t ! r)" "Suc r < length t" | "c = length (t ! r)" "Suc r = length t" using v by linarith
  then show ?thesis
  proof cases
    case 1
    then have "move_right ed = Some (ed\<lparr>cursor_col := int (Suc c)\<rparr>)" "ed_at (ed\<lparr>cursor_col := int (Suc c)\<rparr>) t r (Suc c)"
      using assms v len by (auto simp: move_right_def ed_at_def)
    then show ?thesis using left_view(1) [of r t "Suc c"] v 1 by fastforce
  next
    case 2
    then have "move_right ed = Some (ed\<lparr>cursor_row := int (Suc r), cursor_col := int 0\<rparr>)" "ed_at (ed\<lparr>cursor_row := int (Suc r), cursor_col := int 0\<rparr>) t (Suc r) 0"
      using assms v len by (auto simp: move_right_def ed_at_def)
    then show ?thesis using left_view(2) [of "Suc r" t 0] v 2 by fastforce
  next
    case 3
    then have "move_right ed = Some ed" "behind t r c = []" using v len by (simp_all add: move_right_def behind_def)
    then show ?thesis using assms by auto
  qed
qed

lemma cut_column_at:
  assumes "buf_is (ed_buffer ed) t" "cursor_row ed = int r" "cursor_col ed = int c" "r < length t"
    "ps_ok (filename ed)" "ps_ok (message ed)" "ps_ok (cmd_line ed)"
  shows "\<exists>ed'. cut_column ed = Some ed' \<and> ed_at ed' t r (min c (length (t ! r)))"
  using assms buf_line_length [OF assms(1,4)] by (auto simp: cut_column_def ed_at_def min_def)

lemma move_up_at:
  assumes "ed_at ed t r c"
  shows "\<exists>ed' r' c'. move_up ed = Some ed' \<and> ed_at ed' t r' c'"
proof (cases r)
  case (Suc q)
  have "\<exists>ed'. cut_column (ed\<lparr>cursor_row := int q\<rparr>) = Some ed' \<and> ed_at ed' t q (min c (length (t ! q)))"
    by (rule cut_column_at) (use assms Suc in \<open>simp_all add: ed_at_def\<close>)
  moreover have "move_up ed = cut_column (ed\<lparr>cursor_row := int q\<rparr>)" using assms Suc by (simp add: move_up_def ed_at_def)
  ultimately show ?thesis by auto
next
  case 0
  then have "move_up ed = Some ed" using assms by (simp add: move_up_def ed_at_def)
  then show ?thesis using assms by blast
qed

lemma move_down_at:
  assumes "ed_at ed t r c"
  shows "\<exists>ed' r' c'. move_down ed = Some ed' \<and> ed_at ed' t r' c'"
proof (cases "Suc r < length t")
  case True
  have "\<exists>ed'. cut_column (ed\<lparr>cursor_row := int (Suc r)\<rparr>) = Some ed' \<and> ed_at ed' t (Suc r) (min c (length (t ! Suc r)))"
    by (rule cut_column_at) (use assms True in \<open>simp_all add: ed_at_def\<close>)
  moreover have "move_down ed = cut_column (ed\<lparr>cursor_row := int (Suc r)\<rparr>)"
    using assms True ed_at_num [OF assms] by (simp add: move_down_def ed_at_def add.commute)
  ultimately show ?thesis by auto
next
  case False
  then have "move_down ed = Some ed" using assms ed_at_num [OF assms] by (simp add: move_down_def ed_at_def)
  then show ?thesis using assms by blast
qed

lemma fits_returns: "fits k off r P \<Longrightarrow> off + k \<le> HEAP_SIZE \<Longrightarrow> \<exists>x off'. r = Some (x, off') \<and> off' \<le> off + k \<and> P x"
  by (auto simp: fits_def split: option.splits)

lemma ed_insert_at:
  assumes "ed_at ed t r c" "heap_off ed + edit_cost t \<le> HEAP_SIZE"
  shows "\<exists>ed'. ed_insert_char ch ed = Some ed' \<and> ed_at ed' (text_insert r c ch t) (if ch = 10 then Suc r else r) (if ch = 10 then 0 else Suc c)"
proof -
  have v: "buf_is (ed_buffer ed) t" "r < length t" "c \<le> length (t ! r)" "cursor_row ed = int r" "cursor_col ed = int c" using assms by (auto simp: ed_at_def)
  obtain b off where b: "buf_insert_char (int r) (int c) ch (ed_buffer ed) (heap_off ed) = Some (b, off)" "buf_is b (text_insert r c ch t)"
    using fits_returns [OF buf_insert_char_fits [OF v(1-3) order_refl] assms(2)] by blast
  have l: "r < length (text_insert r c ch t)" "ch = 10 \<Longrightarrow> Suc r < length (text_insert r c ch t)"
    "ch \<noteq> 10 \<Longrightarrow> length (text_insert r c ch t ! r) = Suc (length (t ! r))"
    using v(2,3) by (auto simp: text_insert_def list_insert_def)
  show ?thesis using assms(1) b l v by (auto simp: ed_insert_char_def ed_at_def)
qed

lemma backspace_at:
  assumes "ed_at ed t r c" "heap_off ed + edit_cost t \<le> HEAP_SIZE"
  shows "\<exists>ed' t' r' c'. backspace ed = Some ed' \<and> ed_at ed' t' r' c' \<and>
    (before t' r' c', behind t' r' c') = (butlast (before t r c), behind t r c)"
proof -
  have v: "buf_is (ed_buffer ed) t" "r < length t" "c \<le> length (t ! r)" "cursor_row ed = int r" "cursor_col ed = int c" using assms by (auto simp: ed_at_def)
  have del: "\<exists>b off. buf_delete_char (int q) (int d) (ed_buffer ed) (heap_off ed) = Some (b, off) \<and> buf_is b (text_delete q d t)" if "q < length t" for q d
    using fits_returns [OF buf_delete_char_fits [OF v(1) that order_refl] assms(2)] by blast
  consider "0 < c" | "c = 0" "0 < r" | "c = 0" "r = 0" by blast
  then show ?thesis
  proof cases
    case 1
    obtain b off where b: "buf_delete_char (int r) (int (c - 1)) (ed_buffer ed) (heap_off ed) = Some (b, off)" "buf_is b (text_delete r (c - 1) t)"
      using del [OF v(2)] by blast
    have c: "c - 1 \<le> length (t ! r)" using v(3) by simp
    let ?ed = "ed\<lparr>ed_buffer := b, heap_off := off, cursor_col := int (c - 1)\<rparr>"
    have "backspace ed = Some ?ed" using 1 b v by (simp add: backspace_def of_nat_diff)
    moreover have "ed_at ?ed (text_delete r (c - 1) t) r (c - 1)" using assms(1) b delete_view(3,4) [OF v(2) c] by (simp add: ed_at_def)
    moreover have "(before (text_delete r (c - 1) t) r (c - 1), behind (text_delete r (c - 1) t) r (c - 1)) = (butlast (before t r c), behind t r c)"
      using delete_view(1,2) [OF v(2) c] left_view(1) [OF v(2,3) 1] by simp
    ultimately show ?thesis by blast
  next
    case 2
    obtain q where rq: "r = Suc q" using 2(2) by (cases r) auto
    let ?q = q and ?d = "length (t ! q)"
    have q: "?q < length t" using v(2) rq by auto
    obtain b off where b: "buf_delete_char (int ?q) (int ?d) (ed_buffer ed) (heap_off ed) = Some (b, off)" "buf_is b (text_delete ?q ?d t)"
      using del [OF q] by blast
    let ?ed = "ed\<lparr>ed_buffer := b, heap_off := off, cursor_row := int ?q, cursor_col := int ?d\<rparr>"
    have "backspace ed = Some ?ed" using 2 b v rq ed_at_len [OF assms(1) q] by (simp add: backspace_def)
    moreover have "ed_at ?ed (text_delete ?q ?d t) ?q ?d" using assms(1) b delete_view(3,4) [OF q order_refl] by (simp add: ed_at_def)
    moreover have "(before (text_delete q ?d t) q ?d, behind (text_delete q ?d t) q ?d) = (butlast (before t r c), behind t r c)"
      using delete_view(1,2) [OF q order_refl] left_view(2) [OF v(2,3) 2(2)] 2(1) rq by simp
    ultimately show ?thesis by blast
  next
    case 3
    then show ?thesis using assms v by (auto simp: backspace_def before_def intro!: exI [of _ 0])
  qed
qed

lemma ed_delete_at:
  assumes "ed_at ed t r c" "heap_off ed + edit_cost t \<le> HEAP_SIZE"
  shows "\<exists>ed'. ed_delete_char ed = Some ed' \<and> ed_at ed' (text_delete r c t) r c"
proof -
  have v: "buf_is (ed_buffer ed) t" "r < length t" "c \<le> length (t ! r)" "cursor_row ed = int r" "cursor_col ed = int c" using assms by (auto simp: ed_at_def)
  obtain b off where b: "buf_delete_char (int r) (int c) (ed_buffer ed) (heap_off ed) = Some (b, off)" "buf_is b (text_delete r c t)"
    using fits_returns [OF buf_delete_char_fits [OF v(1,2) order_refl] assms(2)] by blast
  show ?thesis using cut_column_at [of "ed\<lparr>ed_buffer := b, heap_off := off\<rparr>" "text_delete r c t" r c] b v assms(1) delete_view(3,4) [OF v(2,3)]
    by (auto simp: ed_delete_char_def ed_at_def min_def)
qed


lemma ed_at_line_end:
  assumes "ed_at ed t r c"
  shows "\<exists>ed'. goto_line_end ed = Some ed' \<and> ed_at ed' t r (length (t ! r))"
  using assms ed_at_len [OF assms, of r] by (auto simp: goto_line_end_def ed_at_def)

lemma ed_at_last_line:
  assumes "ed_at ed t r c"
  shows "\<exists>ed' r' c'. goto_last_line ed = Some ed' \<and> ed_at ed' t r' c'"
proof -
  have l: "length t - 1 < length t" "int (length t) - 1 = int (length t - 1)" using assms by (auto simp: ed_at_def)
  have "goto_last_line ed = Some (ed\<lparr>cursor_row := int (length t - 1), cursor_col := int (length (t ! (length t - 1)))\<rparr>)"
    unfolding goto_last_line_def goto_line_end_def ed_at_num [OF assms] l(2) using ed_at_len [OF assms l(1)] by simp
  moreover have "ed_at (ed\<lparr>cursor_row := int (length t - 1), cursor_col := int (length (t ! (length t - 1)))\<rparr>) t (length t - 1) (length (t ! (length t - 1)))"
    using assms l(1) by (simp add: ed_at_def)
  ultimately show ?thesis by blast
qed

lemma clear_cmd_at:
  assumes "ed_at ed t r c"
  shows "\<exists>ed'. clear_cmd ed = Some ed' \<and> ed_at ed' t r c"
  using assms ps_clear_ok [of "cmd_line ed"] by (auto simp: clear_cmd_def ed_at_def)

text \<open>From a step on lines and positions to the view of the editor.\<close>

lemma lift_view:
  assumes "\<exists>ed' t' r' c'. m = Some ed' \<and> ed_at ed' t' r' c' \<and> (before t' r' c', behind t' r' c') = p"
    "\<And>ed' t' r' c'. ed_at (f ed') t' r' c' = ed_at ed' t' r' c'"
  shows "\<exists>ed'. map_option f m = Some ed' \<and> ed_ok ed' \<and> view ed' = p"
proof -
  obtain ed' t' r' c' where m: "m = Some ed'" "ed_at ed' t' r' c'" "(before t' r' c', behind t' r' c') = p" using assms(1) by blast
  then have "ed_at (f ed') t' r' c'" using assms(2) by simp
  from ed_atD(1,2) [OF this] m show ?thesis by simp
qed

lemma lift_same:
  assumes "\<exists>ed' r' c'. m = Some ed' \<and> ed_at ed' t r' c'" "ed_at ed t r c"
  shows "\<exists>ed'. map_option mark_dirty m = Some ed' \<and> ed_ok ed' \<and> fst (view ed') @ snd (view ed') = before t r c @ behind t r c"
proof -
  obtain ed' r' c' where m: "m = Some ed'" "ed_at ed' t r' c'" using assms(1) by blast
  then have "ed_at (mark_dirty ed') t r' c'" by simp
  from ed_atD(1,2) [OF this] m show ?thesis using whole_text [of r' t r c' c] assms(2) by (auto simp: ed_at_def)
qed

lemma insert_refines:
  assumes "ed_at ed t r c" "heap_off ed + edit_cost t \<le> HEAP_SIZE"
  shows "\<exists>ed' t' r' c'. ed_insert_char ch ed = Some ed' \<and> ed_at ed' t' r' c' \<and>
    (before t' r' c', behind t' r' c') = (before t r c @ [ch], behind t r c)"
proof -
  obtain ed' where "ed_insert_char ch ed = Some ed'"
    "ed_at ed' (text_insert r c ch t) (if ch = 10 then Suc r else r) (if ch = 10 then 0 else Suc c)" using ed_insert_at [OF assms] by blast
  moreover have "r < length t" "c \<le> length (t ! r)" using assms(1) by (auto simp: ed_at_def)
  note insert_view [OF this, of ch]
  ultimately show ?thesis by blast
qed

section \<open>Properties\<close>

text \<open>
  C35: In insert mode the editor is a pure sequence editor. As long as the arena has room, every key is handled
  without a fault: a character or a newline is inserted before the cursor, backspace removes what is before it
  (across a line end, too), left and right move over one character, and up and down leave the text as it is.
\<close>

theorem povi_insert_mode_refines:
  assumes "ed_ok ed" "view ed = (xs, ys)" "heap_off ed + edit_cost (text_of (ed_buffer ed)) \<le> HEAP_SIZE"
  shows "\<exists>ed'. handle_insert_mode ev ed = Some ed' \<and> ed_ok ed' \<and>
    (case ev of
       KEYEV_CHAR ch \<Rightarrow> view ed' = (xs @ [ch], ys)
     | KEYEV_ENTER \<Rightarrow> view ed' = (xs @ [10], ys)
     | KEYEV_BACKSPACE \<Rightarrow> view ed' = (butlast xs, ys)
     | KEYEV_LEFT \<Rightarrow> view ed' = (if xs = [] then ([], ys) else (butlast xs, last xs # ys))
     | KEYEV_RIGHT \<Rightarrow> view ed' = (if ys = [] then (xs, []) else (xs @ [hd ys], tl ys))
     | _ \<Rightarrow> fst (view ed') @ snd (view ed') = xs @ ys)"
proof -
  let ?t = "text_of (ed_buffer ed)"
  obtain r c where a: "ed_at ed ?t r c" using assms(1) by (rule ed_okE)
  have v: "xs = before ?t r c" "ys = behind ?t r c" using ed_atD(2) [OF a] assms(2) by auto
  note edit = lift_view [where f = "\<lambda>ed. mark_dirty (ed\<lparr>modified := True\<rparr>)"] and move = lift_view [where f = mark_dirty]
  note ins = edit [OF insert_refines [OF a assms(3)]]
  show ?thesis
  proof (cases ev)
    case KEYEV_BACKSPACE
    then show ?thesis using edit [OF backspace_at [OF a assms(3)]] v
      by (simp add: handle_insert_mode_def)
  next
    case KEYEV_LEFT
    have "\<exists>ed' t' r' c'. move_left ed = Some ed' \<and> ed_at ed' t' r' c' \<and>
      (before t' r' c', behind t' r' c') = (if xs = [] then ([], ys) else (butlast xs, last xs # ys))"
      unfolding v using move_left_at [OF a] by blast
    from move [OF this] show ?thesis using KEYEV_LEFT by (simp add: handle_insert_mode_def)
  next
    case KEYEV_RIGHT
    have "\<exists>ed' t' r' c'. move_right ed = Some ed' \<and> ed_at ed' t' r' c' \<and>
      (before t' r' c', behind t' r' c') = (if ys = [] then (xs, []) else (xs @ [hd ys], tl ys))"
      unfolding v using move_right_at [OF a] by blast
    from move [OF this] show ?thesis using KEYEV_RIGHT by (simp add: handle_insert_mode_def)
  next
    case KEYEV_ESC
    have "ed_at (mark_dirty (ed\<lparr>ed_mode := MODE_NORMAL\<rparr>)) ?t r c" using a by simp
    from ed_atD(1,2) [OF this] KEYEV_ESC show ?thesis unfolding v by (simp add: handle_insert_mode_def)
  next
    case KEYEV_UP
    then show ?thesis using lift_same [OF move_up_at [OF a] a] v by (simp add: handle_insert_mode_def)
  next
    case KEYEV_DOWN
    then show ?thesis using lift_same [OF move_down_at [OF a] a] v by (simp add: handle_insert_mode_def)
  next
    case (KEYEV_CHAR ch)
    then show ?thesis using ins [of ch] v by (simp add: handle_insert_mode_def)
  next
    case KEYEV_ENTER
    then show ?thesis using ins [of 10] v by (simp add: handle_insert_mode_def)
  next
    case KEYEV_NONE
    then show ?thesis using assms(1,2) by (simp add: handle_insert_mode_def)
  qed
qed

lemma status_message_at:
  assumes "ed_at ed t r c" "heap_off ed + 2 * length m + 21 \<le> HEAP_SIZE"
  shows "\<exists>ed'. status_message m ed = Some ed' \<and> ed_at ed' t r c"
proof -
  have "ps_ok (message ed)" "heap_off ed + (2 * length (bytes_of m) + 21) \<le> HEAP_SIZE"
    using assms by (simp_all add: ed_at_def bytes_of_def)
  from fits_returns [OF ps_set_fits [OF this(1) order_refl] this(2)] show ?thesis
    using assms(1) by (auto simp: status_message_def ed_at_def)
qed

lemma save_lines_returns:
  assumes "\<forall>i \<in> set is. pv_at i b \<noteq> None"
  shows "save_lines os fd b is e \<noteq> None"
  using assms
proof (induction "is" arbitrary: e)
  case Nil
  then show ?case by simp
next
  case (Cons i "is")
  then obtain l where "pv_at i b = Some l" by auto
  then show ?case using Cons by (auto simp: Let_def split: prod.splits)
qed

lemma save_file_returns:
  assumes "buf_is b t"
  shows "save_file os path b e \<noteq> None"
proof -
  have "pv_at i b \<noteq> None" if "i \<in> set [0..num_lines b - 1]" for i
  proof -
    have "nat i < length t" "int (nat i) = i" using that buf_lines [OF assms] by auto
    then show ?thesis using buf_line [OF assms, of "nat i"] by auto
  qed
  then show ?thesis using save_lines_returns [of "[0..num_lines b - 1]" b] by (auto simp: save_file_def Let_def split: prod.splits)
qed

lemma run_command_at:
  assumes "ed_at ed t r c" "heap_off ed + 150 \<le> HEAP_SIZE"
  shows "\<exists>q ed' e'. run_command os ed e = Some (q, ed', e') \<and> ed_at ed' t r c"
proof -
  have msg: "\<exists>ed'. status_message m ed'' = Some ed' \<and> ed_at ed' t r c" if "ed'' = ed \<or> ed'' = ed\<lparr>modified := False\<rparr>" "length m \<le> 40" for m ed''
    by (rule status_message_at) (use assms that in auto)
  obtain sv e1 where sv: "save_file os (c_str (filename ed)) (ed_buffer ed) e = Some (sv, e1)"
    using save_file_returns assms(1) by (metis ed_at_def not_None_eq surj_pair)
  have "\<exists>q ed1 e1. do_command os ed e = Some (q, ed1, e1) \<and> ed_at ed1 t r c"
    unfolding do_command_def Let_def sv Option.bind.simps prod.case
    using msg [of ed "''no file name''"] msg [of "ed\<lparr>modified := False\<rparr>" "''written''"] msg [of ed "''write failed''"]
      msg [of ed "''no write since last change (use :q!)''"] msg [of ed "''not an editor command''"] assms(1)
    by (simp only: length_Cons list.size simp_thms split: if_splits) (auto split: if_splits)
  then obtain q ed1 e2 where act: "do_command os ed e = Some (q, ed1, e2)" "ed_at ed1 t r c" by blast
  obtain ed2 where "clear_cmd (ed1\<lparr>ed_mode := MODE_NORMAL\<rparr>) = Some ed2" "ed_at ed2 t r c"
    using clear_cmd_at [of "ed1\<lparr>ed_mode := MODE_NORMAL\<rparr>" t r c] act(2) by auto
  then show ?thesis unfolding run_command_def act(1) by simp
qed


text \<open>Some position of the text.\<close>

definition ed_on :: "editor \<Rightarrow> u8 list list \<Rightarrow> bool" where
  "ed_on ed t \<longleftrightarrow> (\<exists>r c. ed_at ed t r c)"

lemma ed_onI: "ed_at ed t r c \<Longrightarrow> ed_on ed t"
  by (auto simp: ed_on_def)

lemma ed_on_flags [simp]:
  "ed_on (ed\<lparr>modified := m\<rparr>) t = ed_on ed t" "ed_on (ed\<lparr>pending_g := g\<rparr>) t = ed_on ed t"
  "ed_on (ed\<lparr>ed_mode := mo\<rparr>) t = ed_on ed t" "ed_on (mark_dirty ed) t = ed_on ed t"
  by (simp_all add: ed_on_def)

lemma ed_onD: "ed_on ed t \<Longrightarrow> ed_ok ed \<and> text_of (ed_buffer ed) = t"
  using ed_atD by (auto simp: ed_on_def)

lemma moves_on:
  assumes "ed_on ed t"
  shows "\<exists>ed'. move_left ed = Some ed' \<and> ed_on ed' t" "\<exists>ed'. move_right ed = Some ed' \<and> ed_on ed' t"
    "\<exists>ed'. move_up ed = Some ed' \<and> ed_on ed' t" "\<exists>ed'. move_down ed = Some ed' \<and> ed_on ed' t"
    "\<exists>ed'. goto_line_end ed = Some ed' \<and> ed_on ed' t" "\<exists>ed'. goto_last_line ed = Some ed' \<and> ed_on ed' t"
proof -
  obtain r c where a: "ed_at ed t r c" using assms by (auto simp: ed_on_def)
  show "\<exists>ed'. move_left ed = Some ed' \<and> ed_on ed' t" using move_left_at [OF a] ed_onI by blast
  show "\<exists>ed'. move_right ed = Some ed' \<and> ed_on ed' t" using move_right_at [OF a] ed_onI by blast
  show "\<exists>ed'. move_up ed = Some ed' \<and> ed_on ed' t" using move_up_at [OF a] ed_onI by blast
  show "\<exists>ed'. move_down ed = Some ed' \<and> ed_on ed' t" using move_down_at [OF a] ed_onI by blast
  show "\<exists>ed'. goto_line_end ed = Some ed' \<and> ed_on ed' t" using ed_at_line_end [OF a] ed_onI by blast
  show "\<exists>ed'. goto_last_line ed = Some ed' \<and> ed_on ed' t" using ed_at_last_line [OF a] ed_onI by blast
qed

lemma normal_char_at:
  assumes "ed_at ed t r c" "heap_off ed + edit_cost t \<le> HEAP_SIZE"
  shows "\<exists>ed' t' r' c'. normal_char ch ed = Some ed' \<and> ed_at ed' t' r' c' \<and>
    (if ch = of_char CHR ''x'' then (before t' r' c', behind t' r' c') = (before t r c, tl (behind t r c)) \<and> modified ed' else t' = t)"
proof -
  let ?ed = "ed\<lparr>pending_g := False\<rparr>"
  have a: "ed_at ?ed t r c" "heap_off ?ed + edit_cost t \<le> HEAP_SIZE" using assms by simp_all
  have rc: "r < length t" "c \<le> length (t ! r)" using a by (auto simp: ed_at_def)
  obtain ed1 where x: "ed_delete_char ?ed = Some ed1" "ed_at ed1 (text_delete r c t) r c" using ed_delete_at [OF a] by blast
  have x': "ed_at (mark_dirty (ed1\<lparr>modified := True\<rparr>)) (text_delete r c t) r c" "modified (mark_dirty (ed1\<lparr>modified := True\<rparr>))"
    using x(2) by (simp, simp add: mark_dirty_def)
  have st: "ed_at (goto_line_start ?ed) t r 0" "ed_at (goto_first_line ?ed) t 0 0"
    using a(1) by (auto simp: goto_line_start_def goto_first_line_def ed_at_def)
  obtain ed2 where cl: "clear_cmd (?ed\<lparr>ed_mode := MODE_COMMAND\<rparr>) = Some ed2" "ed_at ed2 t r c"
    using clear_cmd_at [of "?ed\<lparr>ed_mode := MODE_COMMAND\<rparr>" t r c] a(1) by auto
  have on: "ed_on ?ed t" using a(1) by (rule ed_onI)
  consider "ch = of_char CHR ''x''" | "ch \<noteq> of_char CHR ''x''" by blast
  then show ?thesis
  proof cases
    case 1
    then have "normal_char ch ed = Some (mark_dirty (ed1\<lparr>modified := True\<rparr>))" using x(1) by (simp add: normal_char_def Let_def)
    then show ?thesis using 1 x' delete_view(1,2) [OF rc] by auto
  next
    case 2
    have "\<exists>ed'. normal_char ch ed = Some ed' \<and> ed_on ed' t"
      unfolding normal_char_def Let_def cl(1) option.map if_not_P [OF 2]
      using moves_on [OF on] ed_onI [OF cl(2)] st [THEN ed_onI] ed_onI [OF assms(1)] by auto
    then show ?thesis using 2 by (auto simp: ed_on_def)
  qed
qed

lemma handle_normal_at:
  assumes "ed_at ed t r c" "heap_off ed + edit_cost t \<le> HEAP_SIZE"
  shows "\<exists>ed' t'. handle_normal_mode ev ed = Some ed' \<and> ed_on ed' t' \<and> (t' = t \<or> modified ed')"
proof -
  let ?ed = "ed\<lparr>pending_g := False\<rparr>"
  have on: "ed_on ?ed t" "ed_on ed t" using ed_onI [OF assms(1)] by simp_all
  show ?thesis
  proof (cases ev)
    case (KEYEV_CHAR ch)
    then show ?thesis using normal_char_at [OF assms, of ch] ed_onI by (fastforce simp: handle_normal_mode_def Let_def split: if_splits)
  qed (use moves_on [OF on(1)] on in \<open>fastforce simp: handle_normal_mode_def Let_def\<close>)+
qed

lemma handle_insert_at:
  assumes "ed_at ed t r c" "heap_off ed + edit_cost t \<le> HEAP_SIZE"
  shows "\<exists>ed' t'. handle_insert_mode ev ed = Some ed' \<and> ed_on ed' t' \<and> (t' = t \<or> modified ed')"
proof -
  have m: "modified (mark_dirty (ed'\<lparr>modified := True\<rparr>))" for ed' by (simp add: mark_dirty_def)
  have on: "ed_on ed t" using assms(1) by (rule ed_onI)
  have i: "\<exists>ed' t'. ed_insert_char ch ed = Some ed' \<and> ed_on ed' t'" for ch
    using insert_refines [OF assms] ed_onI by blast
  have b: "\<exists>ed' t'. backspace ed = Some ed' \<and> ed_on ed' t'" using backspace_at [OF assms] ed_onI by blast
  show ?thesis
  proof (cases ev)
    case (KEYEV_CHAR ch)
    then show ?thesis using i [of ch] m by (fastforce simp: handle_insert_mode_def)
  next
    case KEYEV_ENTER
    then show ?thesis using i [of 10] m by (fastforce simp: handle_insert_mode_def)
  next
    case KEYEV_BACKSPACE
    then show ?thesis using b m by (fastforce simp: handle_insert_mode_def)
  qed (use moves_on [OF on] on in \<open>fastforce simp: handle_insert_mode_def\<close>)+
qed

lemma handle_command_at:
  assumes "ed_at ed t r c" "heap_off ed + 2 * length (ps_chars (cmd_line ed)) + 150 \<le> HEAP_SIZE"
  shows "\<exists>q ed' e'. handle_command_mode os ev ed e = Some (q, ed', e') \<and> ed_at ed' t r c"
proof -
  have ok: "ps_ok (cmd_line ed)" using assms(1) by (simp add: ed_at_def)
  show ?thesis
  proof (cases ev)
    case KEYEV_ESC
    then show ?thesis using clear_cmd_at [of "ed\<lparr>ed_mode := MODE_NORMAL\<rparr>" t r c] assms(1) by (auto simp: handle_command_mode_def)
  next
    case KEYEV_ENTER
    then show ?thesis using run_command_at [OF assms(1), of os e] assms(2) by (simp add: handle_command_mode_def)
  next
    case KEYEV_BACKSPACE
    have "\<exists>s. (if ps_len (cmd_line ed) > 0 then ps_truncate (ps_len (cmd_line ed) - 1) (cmd_line ed) else Some (cmd_line ed)) = Some s \<and> ps_ok s"
    proof (cases "ps_chars (cmd_line ed)")
      case Nil
      then show ?thesis using ps_len_chars [OF ok] ok by simp
    next
      case (Cons x xs)
      then show ?thesis using ps_truncate_ok [OF ok, of "length xs"] ps_len_chars [OF ok] by auto
    qed
    then show ?thesis using KEYEV_BACKSPACE assms(1) by (auto simp: handle_command_mode_def ed_at_def mark_dirty_def)
  next
    case (KEYEV_CHAR ch)
    have room: "heap_off ed + (2 * (length (ps_chars (cmd_line ed)) + length [ch] + 1) + 19) \<le> HEAP_SIZE" using assms(2) by simp
    obtain s off where "ps_append [ch] (cmd_line ed) (heap_off ed) = Some (s, off)" "ps_ok s"
      using fits_returns [OF ps_append_fits [OF ok order_refl] room] by blast
    then show ?thesis using KEYEV_CHAR assms(1)
      by (auto simp: handle_command_mode_def ps_append_char_eq ed_at_def mark_dirty_def)
  qed (use assms(1) in \<open>auto simp: handle_command_mode_def\<close>)
qed

text \<open>
  C36: The editor is memory safe and tracks changes. Whatever the mode and the key, and whatever the file system does, as
  long as the arena has room the key is handled without an access outside a block, the buffer keeps at least one
  line and the cursor stays on the text; and a key that changes the text sets the flag that keeps \<open>:q\<close> from
  quitting.
\<close>

theorem povi_key_safe:
  assumes "ed_ok ed"
    "heap_off ed + edit_cost (text_of (ed_buffer ed)) + 2 * length (ps_chars (cmd_line ed)) + 150 \<le> HEAP_SIZE"
  shows "\<exists>quit ed' e'. handle_key os ev ed e = Some (quit, ed', e') \<and> ed_ok ed' \<and>
    (text_of (ed_buffer ed') = text_of (ed_buffer ed) \<or> modified ed')"
proof -
  let ?t = "text_of (ed_buffer ed)"
  obtain r c where a: "ed_at ed ?t r c" using assms(1) by (rule ed_okE)
  have room: "heap_off ed + edit_cost ?t \<le> HEAP_SIZE" "heap_off ed + 2 * length (ps_chars (cmd_line ed)) + 150 \<le> HEAP_SIZE"
    using assms(2) by simp_all
  show ?thesis
  proof (cases "ed_mode ed")
    case MODE_NORMAL
    then show ?thesis using handle_normal_at [OF a room(1), of ev] ed_onD by (fastforce simp: handle_key_def)
  next
    case MODE_INSERT
    then show ?thesis using handle_insert_at [OF a room(1), of ev] ed_onD by (fastforce simp: handle_key_def)
  next
    case MODE_COMMAND
    then show ?thesis using handle_command_at [OF a room(2), of os ev e] ed_atD by (fastforce simp: handle_key_def)
  qed
qed

section \<open>Files\<close>

text \<open>
  What the editor relies on of the file calls for a path, as their documentation has it: \<open>content\<close> is the content of
  the file and \<open>pos\<close> the position of the open file. Opening for writing clears the file, a write appends, and a
  read returns the next bytes, fewer than asked for only at the end of the file.
\<close>

definition file_calls :: "'e os \<Rightarrow> u8 list \<Rightarrow> int \<Rightarrow> ('e \<Rightarrow> u8 list) \<Rightarrow> ('e \<Rightarrow> nat) \<Rightarrow> bool" where
  "file_calls os path fd content pos \<longleftrightarrow> 0 \<le> fd \<and>
     (\<forall>e. fst (os_open os path 0x301 e) = fd \<and> content (snd (os_open os path 0x301 e)) = []) \<and>
     (\<forall>e. fst (os_open os path 0 e) = fd \<and> content (snd (os_open os path 0 e)) = content e \<and> pos (snd (os_open os path 0 e)) = 0) \<and>
     (\<forall>e bs. 0 \<le> fst (os_write os fd bs e) \<and> content (snd (os_write os fd bs e)) = content e @ bs) \<and>
     (\<forall>e n. let (got, bs, e') = os_read os fd n e; k = min n (length (content e) - pos e) in
        got = int k \<and> take k bs = take k (drop (pos e) (content e)) \<and> content e' = content e \<and> pos e' = pos e + k) \<and>
     (\<forall>e. content (os_close os fd e) = content e)"

lemma file_read:
  assumes "file_calls os path fd content pos" "os_read os fd n e = (got, bs, e')"
  shows "got = int (min n (length (content e) - pos e))" "take (nat got) bs = take n (drop (pos e) (content e))"
    "content e' = content e" "pos e' = pos e + nat got"
proof -
  have "\<forall>e n. let (got, bs, e') = os_read os fd n e; k = min n (length (content e) - pos e) in
        got = int k \<and> take k bs = take k (drop (pos e) (content e)) \<and> content e' = content e \<and> pos e' = pos e + k"
    using assms(1) by (simp add: file_calls_def)
  from spec [OF spec [OF this, of e], of n] show g: "got = int (min n (length (content e) - pos e))" "content e' = content e"
    "pos e' = pos e + nat got" and "take (nat got) bs = take n (drop (pos e) (content e))"
    unfolding assms(2) Let_def by (auto simp: min_def)
qed

text \<open>The bytes of a text in a file, and what reading bytes adds to the lines so far and the current line.\<close>

definition file_bytes :: "u8 list list \<Rightarrow> u8 list" where
  "file_bytes t = concat (map (\<lambda>l. l @ [10]) t)"

fun feed :: "u8 list \<Rightarrow> u8 list list \<Rightarrow> u8 list \<Rightarrow> u8 list list \<times> u8 list" where
  "feed [] t l = (t, l)"
| "feed (c # cs) t l = (if c = 10 then feed cs (t @ [l]) [] else feed cs t (l @ [c]))"

lemma feed_append: "feed (xs @ ys) t l = (case feed xs t l of (t', l') \<Rightarrow> feed ys t' l')"
  by (induction xs arbitrary: t l) auto

lemma feed_line: "10 \<notin> set xs \<Longrightarrow> feed (xs @ [10]) t l = (t @ [l @ xs], [])"
  by (induction xs arbitrary: l) auto

lemma feed_file_bytes: "\<forall>l \<in> set t. 10 \<notin> set l \<Longrightarrow> feed (file_bytes t) t0 [] = (t0 @ t, [])"
proof (induction t arbitrary: t0)
  case Nil
  then show ?case by (simp add: file_bytes_def)
next
  case (Cons l t)
  have b: "file_bytes (l # t) = (l @ [10]) @ file_bytes t" by (simp add: file_bytes_def)
  have "10 \<notin> set l" using Cons.prems by simp
  then have "feed (file_bytes (l # t)) t0 [] = feed (file_bytes t) (t0 @ [l]) []"
    unfolding b feed_append [of "l @ [10]"] feed_line [OF \<open>10 \<notin> set l\<close>] by simp
  then show ?case using Cons by simp
qed

lemma feed_size: "feed cs t l = (t', l') \<Longrightarrow> length t' + length l' \<le> length t + length l + length cs"
  by (induction cs arbitrary: t l) (fastforce split: if_splits)+

section \<open>Saving\<close>

lemma save_lines_writes:
  assumes "file_calls os path fd content pos" "buf_is b t" "k \<le> length t"
  shows "\<exists>e'. save_lines os fd b (map int [k..<length t]) e = Some (True, e') \<and> content e' = content e @ file_bytes (drop k t)"
  using assms(3)
proof (induction "length t - k" arbitrary: k e)
  case 0
  then show ?case using assms(1) by (simp add: file_calls_def file_bytes_def)
next
  case (Suc n)
  then have k: "k < length t" by simp
  obtain l where l: "pv_at (int k) b = Some l" "ps_chars l = t ! k" using buf_line [OF assms(2) k] by blast
  obtain r1 e1 where w1: "os_write os fd (ps_chars l) e = (r1, e1)" by fastforce
  obtain r2 e2 where w2: "os_write os fd [10] e1 = (r2, e2)" by fastforce
  have w: "0 \<le> fst (os_write os fd bs e)" "content (snd (os_write os fd bs e)) = content e @ bs" for bs e
    using assms(1) by (simp_all add: file_calls_def)
  have "0 \<le> r1" "content e1 = content e @ t ! k" "0 \<le> r2" "content e2 = content e1 @ [10]"
    using w [of "ps_chars l" e] w [of "[10]" e1] w1 w2 l(2) by auto
  moreover obtain e' where "save_lines os fd b (map int [Suc k..<length t]) e2 = Some (True, e')"
    "content e' = content e2 @ file_bytes (drop (Suc k) t)" using Suc.hyps(1) [of "Suc k" e2] Suc.hyps(2) k by (metis Suc_diff_Suc Suc_inject Suc_leI)
  moreover have "file_bytes (drop k t) = t ! k @ [10] @ file_bytes (drop (Suc k) t)"
    using k by (simp add: file_bytes_def Cons_nth_drop_Suc [symmetric])
  ultimately show ?case using l(1) w1 w2 k by (simp add: upt_conv_Cons)
qed

lemma upto_map_int: "[0..int n - 1] = map int [0..<n]"
  by (induction n) (simp_all add: upto_rec2)

lemma save_file_writes:
  assumes "file_calls os path fd content pos" "buf_is b t"
  shows "\<exists>e'. save_file os path b e = Some (True, e') \<and> content e' = file_bytes t"
proof -
  obtain e1 where o: "os_open os path 0x301 e = (fd, e1)" "content e1 = []" "0 \<le> fd"
    using assms(1) unfolding file_calls_def by (metis prod.collapse)
  have fl: "0x001 OR 0x100 OR 0x200 = (0x301 :: u32)" by simp
  show ?thesis using save_lines_writes [OF assms, of 0 e1] o buf_lines [OF assms(2)]
    unfolding save_file_def fl by (simp add: upto_map_int)
qed

section \<open>Loading\<close>

lemma load_char_fits:
  assumes "buf_is buf t" "ps_ok cur" "ps_chars cur = l" "10 * (length t + length l) + 75 \<le> k"
  shows "fits k off (load_char c ((buf, cur), off)) (\<lambda>(buf', cur'). ps_ok cur' \<and> buf_is buf' (fst (feed [c] t l)) \<and> ps_chars cur' = snd (feed [c] t l))"
proof (cases "c = 10")
  case True
  obtain cur' where c: "ps_clear cur = Some cur'" "ps_ok cur'" "ps_chars cur' = []" using ps_clear_ok [OF assms(2)] by blast
  show ?thesis unfolding load_char_def prod.case if_P [OF True] c(1) Option.bind.simps
    by (rule fits_bind [where k' = 0, OF buf_add_line_fits [OF assms(1), where k = k]]) (use True c assms in \<open>auto simp: fits_def\<close>)
next
  case False
  show ?thesis unfolding load_char_def prod.case if_not_P [OF False] ps_append_char_eq
    by (rule fits_bind [where k' = 0, OF ps_append_fits [OF assms(2), where k = k]]) (use False assms in \<open>auto simp: fits_def\<close>)
qed

lemma load_chars_fits:
  assumes "buf_is buf t" "ps_ok cur" "ps_chars cur = l" "10 * (length t + length l + length cs) + 75 \<le> k"
  shows "fits (length cs * k) off (fold_opt load_char cs ((buf, cur), off))
    (\<lambda>(buf', cur'). ps_ok cur' \<and> buf_is buf' (fst (feed cs t l)) \<and> ps_chars cur' = snd (feed cs t l))"
  using assms
proof (induction cs arbitrary: buf cur t l off)
  case Nil
  then show ?case by (simp add: fits_def)
next
  case (Cons c cs)
  obtain t1 l1 where f: "feed [c] t l = (t1, l1)" by fastforce
  have sz: "length t1 + length l1 \<le> length t + length l + 1" using feed_size [OF f] by simp
  have fs: "feed (c # cs) t l = feed cs t1 l1" using feed_append [of "[c]" cs t l] f by simp
  have "fits (k + length cs * k) off (Option.bind (load_char c ((buf, cur), off)) (\<lambda>(x, off). fold_opt load_char cs (x, off)))
    (\<lambda>(buf', cur'). ps_ok cur' \<and> buf_is buf' (fst (feed (c # cs) t l)) \<and> ps_chars cur' = snd (feed (c # cs) t l))"
  proof (rule fits_bind [where k' = "length cs * k", OF load_char_fits [OF Cons.prems(1-3), where k = k]])
    fix x off' assume x: "case x of (buf', cur') \<Rightarrow> ps_ok cur' \<and> buf_is buf' (fst (feed [c] t l)) \<and> ps_chars cur' = snd (feed [c] t l)"
    obtain buf' cur' where xe: "x = (buf', cur')" by fastforce
    show "fits (length cs * k) off' (fold_opt load_char cs (x, off')) (\<lambda>(buf', cur'). ps_ok cur' \<and> buf_is buf' (fst (feed (c # cs) t l)) \<and> ps_chars cur' = snd (feed (c # cs) t l))"
      unfolding fs xe by (rule Cons.IH) (use x xe f sz Cons.prems(4) in auto)
  qed (use Cons.prems(4) in simp_all)
  then show ?case by simp
qed

lemma load_loop_result:
  assumes "file_calls os path fd content pos" "buf_is buf t" "ps_ok cur" "ps_chars cur = l"
    "10 * (length t + length l + length (drop (pos e) (content e))) + 75 \<le> k"
  shows "case load_loop os fd any ((buf, cur), off) e of None \<Rightarrow> HEAP_SIZE < off + length (drop (pos e) (content e)) * k
    | Some (any', ((buf', cur'), off'), e') \<Rightarrow> any' = (any \<or> drop (pos e) (content e) \<noteq> []) \<and> off \<le> off' \<and>
        off' \<le> off + length (drop (pos e) (content e)) * k \<and> ps_ok cur' \<and> content e' = content e \<and>
        buf_is buf' (fst (feed (drop (pos e) (content e)) t l)) \<and> ps_chars cur' = snd (feed (drop (pos e) (content e)) t l)"
  using assms(2-)
proof (induction "length (drop (pos e) (content e))" arbitrary: any buf cur off e t l rule: less_induct)
  case less
  let ?cs = "drop (pos e) (content e)"
  obtain got tmp e1 where rd: "os_read os fd 512 e = (got, tmp, e1)" by (metis surj_pair)
  note r = file_read [OF assms(1) rd]
  show ?case
  proof (cases "?cs = []")
    case True
    then have "got = 0" using r(1) by simp
    then have "load_loop os fd any ((buf, cur), off) e = Some (any, ((buf, cur), off), e1)" using rd by (subst load_loop.simps) simp
    then show ?thesis using True less.prems r(3) by simp
  next
    case False
    then have g: "0 < got" "\<not> got \<le> 0" using r(1) by auto
    define xs ys where "xs = take 512 ?cs" and "ys = drop 512 ?cs"
    then have cs: "?cs = xs @ ys" and tmp: "take (nat got) tmp = xs" and nxs: "xs \<noteq> []"
      using r(2) False append_take_drop_id [of 512 ?cs] by (simp_all only: take_eq_Nil simp_thms)
    have ys: "drop (pos e1) (content e1) = ys" using r \<open>ys = drop 512 ?cs\<close> by (auto simp: min_def add.commute)
    have len: "length ?cs = length xs + length ys" unfolding cs by simp
    have lt: "length (drop (pos e1) (content e1)) < length ?cs" unfolding ys len using nxs by simp
    obtain t1 l1 where f: "feed xs t l = (t1, l1)" by fastforce
    have fs: "feed ?cs t l = feed ys t1 l1"
      unfolding cs feed_append [of xs ys t l] f by simp
    have sz: "length t1 + length l1 \<le> length t + length l + length xs" by (rule feed_size [OF f])
    have loop: "load_loop os fd any ((buf, cur), off) e = Option.bind (fold_opt load_char xs ((buf, cur), off)) (\<lambda>st. load_loop os fd True st e1)"
      using rd g(2) tmp by (subst load_loop.simps) simp
    have ft: "fits (length xs * k) off (fold_opt load_char xs ((buf, cur), off))
      (\<lambda>(buf', cur'). ps_ok cur' \<and> buf_is buf' t1 \<and> ps_chars cur' = l1)"
      using load_chars_fits [OF less.prems(1-3), of xs k off] less.prems(4) f len by simp
    show ?thesis
    proof (cases "fold_opt load_char xs ((buf, cur), off)")
      case None
      then have "HEAP_SIZE < off + length xs * k" using ft by (simp add: fits_def)
      then show ?thesis unfolding loop None len by (simp add: add_mult_distrib)
    next
      case (Some st)
      obtain buf1 cur1 off1 where st: "st = ((buf1, cur1), off1)" by (metis surj_pair)
      have s1: "off \<le> off1" "off1 \<le> off + length xs * k" "ps_ok cur1" "buf_is buf1 t1" "ps_chars cur1 = l1"
        using ft Some st by (auto simp: fits_def)
      have "10 * (length t1 + length l1 + length (drop (pos e1) (content e1))) + 75 \<le> k"
        using sz len less.prems(4) unfolding ys by simp
      from less.hyps [OF lt s1(4,3,5) this, of off1 True, unfolded ys, unfolded r(3)] show ?thesis
        unfolding loop Some st Option.bind.simps fs len
        using s1(1,2) cs nxs by (auto simp: add_mult_distrib split: option.splits)
    qed
  qed
qed


lemma load_file_result:
  assumes "file_calls os path fd content pos" "buf_is buf t0" "content e = file_bytes t" "\<forall>l \<in> set t. 10 \<notin> set l" "t \<noteq> []"
    "k = 10 * length (file_bytes t) + 85"
  shows "case load_file os path buf off e of None \<Rightarrow> HEAP_SIZE < off + 50 + length (file_bytes t) * k
    | Some (ok, buf', off', e') \<Rightarrow> ok \<and> buf_is buf' ([] # t) \<and> content e' = content e"
proof -
  obtain e1 where o: "os_open os path 0 e = (fd, e1)" "content e1 = content e" "pos e1 = 0" "\<not> fd < 0"
    using assms(1) unfolding file_calls_def by (metis linorder_not_le prod.collapse)
  have cl: "fits 50 off (buf_clear_lines buf off) (\<lambda>b'. buf_is b' [[]])" by (rule buf_clear_lines_fits [OF assms(2)]) simp
  have fd: "feed (file_bytes t) [[]] [] = ([] # t, [])" using feed_file_bytes [OF assms(4), of "[[]]"] by simp
  have ne: "file_bytes t \<noteq> []" using assms(5) by (cases t) (auto simp: file_bytes_def)
  have close: "content (os_close os fd e') = content e'" for e' using assms(1) by (simp add: file_calls_def)
  show ?thesis
  proof (cases "buf_clear_lines buf off")
    case None
    then have "HEAP_SIZE < off + 50" using cl by (simp add: fits_def)
    then show ?thesis unfolding load_file_def o(1) using None o(4) by simp
  next
    case (Some r)
    obtain b1 off1 where r: "r = (b1, off1)" by fastforce
    have b1: "buf_is b1 [[]]" "off1 \<le> off + 50" using cl Some r by (auto simp: fits_def)
    have room: "10 * (length [[]] + length [] + length (drop (pos e1) (content e1))) + 75 \<le> k"
      using assms(3,6) o(2,3) by simp
    note L = load_loop_result [OF assms(1) b1(1) ps_ok_new(1,2) room, of off1 False, unfolded o(2,3) assms(3) drop_0 fd fst_conv snd_conv]
    show ?thesis
    proof (cases "load_loop os fd False ((b1, ps_new), off1) e1")
      case None
      then show ?thesis unfolding load_file_def o(1) using Some r o(4) L b1(2) by simp
    next
      case (Some q)
      obtain any b2 cur off2 e2 where q: "q = (any, ((b2, cur), off2), e2)" by (metis surj_pair)
      have L': "any" "ps_ok cur" "content e2 = file_bytes t" "buf_is b2 ([] # t)" "ps_chars cur = []" using L Some q ne by auto
      then have "ps_len cur = 0" using ps_len_chars by fastforce
      then show ?thesis unfolding load_file_def o(1) using \<open>buf_clear_lines buf off = Some r\<close> r o(4) Some q L' close assms(3) by simp
    qed
  qed
qed

text \<open>
  C37: Loading a saved text does not give the text back. On any file system that stores what is written, saving succeeds and
  loading the file again yields the saved lines behind an additional empty first line, so that every cycle of
  loading and saving makes the file one line longer. Loading fails only when the arena is too small.
\<close>

theorem povi_save_load:
  assumes "file_calls os path fd content pos" "buf_is b t" "\<forall>l \<in> set t. 10 \<notin> set l" "buf_is b0 t0"
  shows "\<exists>e1. save_file os path b e = Some (True, e1) \<and> content e1 = file_bytes t \<and>
    (case load_file os path b0 off e1 of
       None \<Rightarrow> HEAP_SIZE < off + 50 + length (file_bytes t) * (10 * length (file_bytes t) + 85)
     | Some (ok, b', off', e2) \<Rightarrow> ok \<and> text_of b' = [] # t \<and> content e2 = content e1)"
proof -
  obtain e1 where s: "save_file os path b e = Some (True, e1)" "content e1 = file_bytes t" using save_file_writes [OF assms(1,2)] by blast
  have "t \<noteq> []" using assms(2) by (simp add: buf_is_def)
  from load_file_result [OF assms(1,4) s(2) assms(3) this refl, of off] show ?thesis
    using s text_of_eq by (fastforce split: option.splits)
qed

lemma editor_new_at:
  "\<exists>ed. editor_new 0 = Some ed \<and> ed_at ed [[]] 0 0 \<and> heap_off ed \<le> 50 \<and> cmd_line ed = ps_new \<and> ed_mode ed = MODE_NORMAL"
proof -
  have "0 + 50 \<le> HEAP_SIZE" by (simp add: HEAP_SIZE_def)
  then obtain b off where "buffer_new 0 = Some (b, off)" "buf_is b [[]]" "off \<le> 0 + 50"
    using fits_returns [OF buffer_new_fits [of 0]] by blast
  then show ?thesis by (simp add: editor_new_def ed_at_def)
qed

theorem povi_insert_mode_refines_witness:
  "\<exists>ed ed'. editor_new 0 = Some ed \<and> handle_insert_mode (KEYEV_CHAR 65) ed = Some ed' \<and> view ed' = ([65], [])"
proof -
  obtain ed where ed: "editor_new 0 = Some ed" "ed_at ed [[]] 0 0" "heap_off ed \<le> 50" using editor_new_at by blast
  note d = ed_atD [OF ed(2)]
  have "heap_off ed + edit_cost (text_of (ed_buffer ed)) \<le> HEAP_SIZE" using d(3) ed(3) by (simp add: edit_cost_def HEAP_SIZE_def)
  from povi_insert_mode_refines [OF d(1) d(2) this, of "KEYEV_CHAR 65"] ed(1) show ?thesis
    by (auto simp: before_def behind_def)
qed

text \<open>A file system with one file, which the calls at any path read and write.\<close>

definition one_file :: "(u8 list \<times> nat) os" where
  "one_file = \<lparr>os_open = (\<lambda>_ flags (cs, p). (3, if flags AND 0x200 \<noteq> 0 then [] else cs, 0)),
     os_read = (\<lambda>_ n (cs, p). (int (min n (length cs - p)), take n (drop p cs), cs, p + min n (length cs - p))),
     os_write = (\<lambda>_ bs (cs, p). (int (length bs), cs @ bs, p)),
     os_close = (\<lambda>_ e. e), os_putchar = (\<lambda>_ e. e), os_clear = (\<lambda>e. e), os_getchar = (\<lambda>e. (0, e)), os_yield = (\<lambda>e. e)\<rparr>"

lemma one_file_calls: "file_calls one_file path 3 fst snd"
  by (auto simp: file_calls_def one_file_def min_def split: prod.splits)

theorem povi_key_safe_witness:
  "\<exists>ed r. editor_new 0 = Some ed \<and> handle_key one_file (KEYEV_CHAR 58) ed ([], 0) = Some r \<and> ed_ok (fst (snd r))"
proof -
  obtain ed where ed: "editor_new 0 = Some ed" "ed_at ed [[]] 0 0" "heap_off ed \<le> 50" "cmd_line ed = ps_new" using editor_new_at by blast
  note d = ed_atD [OF ed(2)]
  have "heap_off ed + edit_cost (text_of (ed_buffer ed)) + 2 * length (ps_chars (cmd_line ed)) + 150 \<le> HEAP_SIZE"
    using d(3) ed(3,4) by (simp add: edit_cost_def HEAP_SIZE_def)
  from povi_key_safe [OF d(1) this, of one_file "KEYEV_CHAR 58" "([], 0)"] ed(1) show ?thesis by force
qed

theorem povi_save_load_witness:
  "\<exists>b off e1 b' off' e2. buffer_new 0 = Some (b, off) \<and> save_file one_file [97] b ([1, 2], 1) = Some (True, e1) \<and> fst e1 = [10] \<and>
     load_file one_file [97] b off e1 = Some (True, b', off', e2) \<and> text_of b' = [[], []]"
proof -
  have "0 + 50 \<le> HEAP_SIZE" by (simp add: HEAP_SIZE_def)
  then obtain b off where b: "buffer_new 0 = Some (b, off)" "buf_is b [[]]" "off \<le> 0 + 50"
    using fits_returns [OF buffer_new_fits [of 0]] by blast
  have "\<forall>l \<in> set [[]]. (10 :: u8) \<notin> set l" by simp
  from povi_save_load [OF one_file_calls b(2) this b(2), of "[97]" "([1, 2], 1)" off] obtain e1 where
    e1: "save_file one_file [97] b ([1, 2], 1) = Some (True, e1)" "fst e1 = file_bytes [[]]"
    "case load_file one_file [97] b off e1 of None \<Rightarrow> HEAP_SIZE < off + 50 + length (file_bytes [[]]) * (10 * length (file_bytes [[]]) + 85)
     | Some (ok, b', off', e2) \<Rightarrow> ok \<and> text_of b' = [] # [[]] \<and> fst e2 = fst e1" by blast
  have "\<not> HEAP_SIZE < off + 50 + length (file_bytes [[]]) * (10 * length (file_bytes [[]]) + 85)"
    using b(3) by (simp add: HEAP_SIZE_def file_bytes_def)
  then obtain b' off' e2 where "load_file one_file [97] b off e1 = Some (True, b', off', e2)" "text_of b' = [[], []]"
    using e1(3) by (auto split: option.splits)
  moreover have "fst e1 = [10]" using e1(2) by (simp add: file_bytes_def)
  ultimately show ?thesis using b(1) e1(1) by blast
qed

end
