(* ===== verification/Shell.thy ===== *)
theory Shell
  imports Keyboard
begin

text \<open>
  The user shell, \<open>user/shell.c\<close>: line editing with history and completion, splitting a line into arguments, and
  the commands. Its arrays are lists of bytes of their full length; \<^const>\<open>None\<close> is an access outside an array. The
  system calls of \<open>user/lib/syscall.h\<close> are a parameter with a state of its own. C strings that are only read are
  lists without their final zero.
\<close>

section \<open>System calls\<close>

record 'e shell_os =
  sys_getchar :: "'e \<Rightarrow> u8 \<times> 'e"
  sys_putchar :: "u8 \<Rightarrow> 'e \<Rightarrow> 'e"
  sys_write :: "u8 list \<Rightarrow> 'e \<Rightarrow> 'e"
  sys_ls :: "u8 list \<Rightarrow> nat \<Rightarrow> 'e \<Rightarrow> int \<times> u8 list \<times> 'e"
  sys_clear :: "'e \<Rightarrow> 'e"
  sys_reboot :: "'e \<Rightarrow> 'e"
  sys_poweroff :: "'e \<Rightarrow> 'e"
  sys_tier_query :: "'e \<Rightarrow> int \<times> 'e"
  sys_mlfq_query :: "'e \<Rightarrow> int \<times> 'e"
  sys_exit :: "int \<Rightarrow> 'e \<Rightarrow> 'e"
  sys_wait :: "int \<Rightarrow> 'e \<Rightarrow> int \<times> 'e"
  sys_fork :: "'e \<Rightarrow> int \<times> 'e"
  sys_exec :: "u8 list \<Rightarrow> u8 list list \<Rightarrow> bool \<Rightarrow> 'e \<Rightarrow> int \<times> 'e"

text \<open>The last argument of \<^const>\<open>sys_exec\<close> says whether the argument pointers end with a null pointer.\<close>

section \<open>Strings and arrays\<close>

definition put_at :: "nat \<Rightarrow> u8 \<Rightarrow> u8 list \<Rightarrow> u8 list option" where
  "put_at i c xs = (if i < length xs then Some (xs[i := c]) else None)"

definition str_at :: "nat \<Rightarrow> u8 list \<Rightarrow> u8 list option" where
  "str_at i xs = (if 0 \<in> set (drop i xs) then Some (takeWhile (\<lambda>c. c \<noteq> 0) (drop i xs)) else None)"

definition char_at :: "u8 list \<Rightarrow> nat \<Rightarrow> u8" where
  "char_at s i = (if i < length s then s ! i else 0)"

fun sh_strcmp :: "u8 list \<Rightarrow> u8 list \<Rightarrow> int" where
  "sh_strcmp (a # as) (b # bs) = (if a = b then sh_strcmp as bs else sint a - sint b)"
| "sh_strcmp as bs = sint (char_at as 0) - sint (char_at bs 0)"

fun sh_strncmp :: "u8 list \<Rightarrow> u8 list \<Rightarrow> nat \<Rightarrow> int" where
  "sh_strncmp as bs 0 = 0"
| "sh_strncmp (a # as) (b # bs) (Suc n) = (if a = b then sh_strncmp as bs n else sint a - sint b)"
| "sh_strncmp as bs (Suc n) = sint (char_at as 0) - sint (char_at bs 0)"

text \<open>\<open>print_hex\<close>: the eight hexadecimal digits of a value.\<close>

definition sh_hex :: "u32 \<Rightarrow> u8 list" where
  "sh_hex v = map (\<lambda>i. let nib = drop_bit (4 * (7 - i)) v AND 0xF in ucast (if nib < 10 then 48 + nib else 65 + nib - 10)) [0..<8]"

text \<open>The loop of \<open>split\<close>; \<open>argv\<close> has the positions of the arguments found so far.\<close>

function split_loop :: "u8 list \<Rightarrow> nat \<Rightarrow> bool \<Rightarrow> nat list \<Rightarrow> nat \<Rightarrow> (nat list \<times> u8 list) option" where
  "split_loop cmd p inw argv mx =
     (if p \<ge> length cmd then None
      else if cmd ! p = 0 then Some (argv, cmd)
      else if cmd ! p = 32 \<or> cmd ! p = 9 then split_loop (cmd[p := 0]) (p + 1) False argv mx
      else if \<not> inw then
        (if length argv + 1 \<ge> mx then Some (argv @ [p], cmd) else split_loop cmd (p + 1) True (argv @ [p]) mx)
      else split_loop cmd (p + 1) True argv mx)"
  by pat_completeness auto
termination
  by (relation "measure (\<lambda>(cmd, p, _). length cmd - p)") auto

declare split_loop.simps [simp del]

definition split :: "u8 list \<Rightarrow> nat \<Rightarrow> (nat list \<times> u8 list) option" where
  "split cmd mx = split_loop cmd 0 False [] mx"

section \<open>Completion\<close>

definition builtin_cmds :: "u8 list list" where
  "builtin_cmds = map bytes_of [''help'', ''clear'', ''ls'', ''reboot'', ''poweroff'', ''tier'', ''exit'', ''wait'', ''run'']"

text \<open>The names in the output of \<open>sys_ls\<close> that begin with \<open>base\<close>, until there are \<open>mx\<close> candidates.\<close>

function collect_names :: "u8 list \<Rightarrow> u8 list \<Rightarrow> u8 list list \<Rightarrow> nat \<Rightarrow> u8 list list" where
  "collect_names buf base cands mx =
     (if buf = [] \<or> length cands \<ge> mx then cands
      else let tmp = take 47 (takeWhile (\<lambda>c. c \<noteq> 10) buf);
               rest = drop (length tmp) buf;
               rest = (if rest \<noteq> [] \<and> hd rest = 10 then tl rest else rest);
               cands = (if length base \<le> length tmp \<and> sh_strncmp (takeWhile (\<lambda>c. c \<noteq> 0) tmp) base (length base) = 0
                        then cands @ [takeWhile (\<lambda>c. c \<noteq> 0) tmp] else cands)
           in collect_names rest base cands mx)"
  by pat_completeness auto
termination
proof (relation "measure (\<lambda>(buf, _). length buf)", goal_cases)
  case (2 buf base cands mx tmp rest rest' cands')
  then show ?case by (cases buf) (auto simp: Let_def split: if_splits)
qed simp

declare collect_names.simps [simp del]

definition collect_ls_prefix :: "'e shell_os \<Rightarrow> u8 list \<Rightarrow> u8 list \<Rightarrow> u8 list list \<Rightarrow> nat \<Rightarrow> 'e \<Rightarrow> u8 list list \<times> 'e" where
  "collect_ls_prefix os path base cands mx e =
     (let (n, buf, e) = sys_ls os path 511 e in
      (if n < 0 then cands else collect_names (take (nat n) buf) base cands mx, e))"

primrec word_start :: "u8 list \<Rightarrow> nat \<Rightarrow> nat" where
  "word_start cmd 0 = 0"
| "word_start cmd (Suc ws) = (if cmd ! ws \<noteq> 32 then word_start cmd ws else Suc ws)"

definition dir_candidates :: "'e shell_os \<Rightarrow> u8 list \<Rightarrow> u8 list \<Rightarrow> 'e \<Rightarrow> u8 list list \<times> 'e" where
  "dir_candidates os pre dir e =
     (let (cands, e) = collect_ls_prefix os dir (drop (length dir + 1) pre) [] 24 e
      in (map (\<lambda>name. take 47 (dir @ [47] @ name)) cands, e))"

definition candidates :: "'e shell_os \<Rightarrow> bool \<Rightarrow> u8 list \<Rightarrow> 'e \<Rightarrow> u8 list list \<times> 'e" where
  "candidates os first pre e =
     (if first then collect_ls_prefix os (bytes_of ''/mnt'') pre
          (filter (\<lambda>b. sh_strncmp b pre (length pre) = 0) builtin_cmds) 24 e
      else if char_at pre 0 = 47 then
        (case find (\<lambda>dir. length pre > length dir \<and> sh_strncmp pre dir (length dir) = 0 \<and> pre ! length dir = 47)
                [bytes_of ''/mnt'', bytes_of ''/home''] of
           None \<Rightarrow> ([], e) | Some dir \<Rightarrow> dir_candidates os pre dir e)
      else ([], e))"

function common_len :: "u8 list list \<Rightarrow> nat \<Rightarrow> nat" where
  "common_len cands common =
     (if common < length (hd cands) \<and> (\<forall>c \<in> set (tl cands). char_at c common = hd cands ! common)
      then common_len cands (common + 1) else common)"
  by pat_completeness auto
termination
  by (relation "measure (\<lambda>(cands, common). length (hd cands) - common)") auto

declare common_len.simps [simp del]

text \<open>Appending characters to the line as long as there is room, with their echo.\<close>

primrec add_chars :: "'e shell_os \<Rightarrow> nat \<Rightarrow> u8 list \<Rightarrow> u8 list \<times> nat \<times> 'e \<Rightarrow> (u8 list \<times> nat \<times> 'e) option" where
  "add_chars os cap [] st = Some st"
| "add_chars os cap (c # cs) st =
     (let (cmd, len, e) = st in
      if len < cap - 1 then do {
        cmd \<leftarrow> put_at len c cmd;
        add_chars os cap cs (cmd, len + 1, sys_putchar os c e)
      }
      else Some st)"

definition add_terminated :: "'e shell_os \<Rightarrow> nat \<Rightarrow> u8 list \<Rightarrow> u8 list \<Rightarrow> nat \<Rightarrow> 'e \<Rightarrow> (u8 list \<times> nat \<times> 'e) option" where
  "add_terminated os cap cs cmd len e = do {
     (cmd, len, e) \<leftarrow> add_chars os cap cs (cmd, len, e);
     cmd \<leftarrow> put_at len 0 cmd;
     Some (cmd, len, e)
   }"

definition tab_complete :: "'e shell_os \<Rightarrow> u8 list \<Rightarrow> nat \<Rightarrow> nat \<Rightarrow> 'e \<Rightarrow> (u8 list \<times> nat \<times> 'e) option" where
  "tab_complete os cmd len cap e =
     (let ws = word_start cmd len; pre = take (len - ws) (drop ws cmd) in
      if length pre \<ge> 48 then Some (cmd, len, e)
      else let (cands, e) = candidates os (ws = 0) pre e in
      if cands = [] then Some (cmd, len, e)
      else if length cands = 1 then add_terminated os cap (drop (length pre) (hd cands)) cmd len e
      else let common = common_len cands (length pre) in
      if common > length pre then add_terminated os cap (drop (length pre) (take common (hd cands))) cmd len e
      else let e = sys_write os [10] e;
               e = fold (\<lambda>c e. sys_putchar os 32 (sys_write os c e)) cands e;
               e = sys_write os (bytes_of [char_of (10 :: nat), CHR ''>'', CHR '' '']) e
           in Some (cmd, len, fold (sys_putchar os) (take len cmd) e))"

section \<open>Line editing\<close>

record shell =
  sh_cmd :: "u8 list"
  sh_len :: nat
  hist_pos :: int
  history :: "u8 list list"
  hist_count :: int

text \<open>Copying an entry of the history into the line, with its echo.\<close>

primrec recall :: "'e shell_os \<Rightarrow> u8 list \<Rightarrow> u8 list \<times> nat \<times> 'e \<Rightarrow> (u8 list \<times> nat \<times> 'e) option" where
  "recall os [] st = None"
| "recall os (c # cs) st =
     (let (cmd, len, e) = st in
      if c = 0 then Some st
      else do { cmd \<leftarrow> put_at len c cmd; recall os cs (cmd, len + 1, sys_putchar os c e) })"

definition sh_history :: "'e shell_os \<Rightarrow> int \<Rightarrow> shell \<Rightarrow> 'e \<Rightarrow> (shell \<times> 'e) option" where
  "sh_history os pos st e =
     (if pos < 0 \<or> pos \<ge> hist_count st then Some (st, e)
      else do {
        let e = ((sys_putchar os 8) ^^ sh_len st) e;
        row \<leftarrow> (if nat pos < length (history st) then Some (history st ! nat pos) else None);
        (cmd, len, e) \<leftarrow> recall os row (sh_cmd st, 0, e);
        cmd \<leftarrow> put_at len 0 cmd;
        Some (st\<lparr>sh_cmd := cmd, sh_len := len, hist_pos := pos\<rparr>, e)
      })"

text \<open>One character other than a newline.\<close>

definition sh_key :: "'e shell_os \<Rightarrow> u8 \<Rightarrow> shell \<Rightarrow> 'e \<Rightarrow> (shell \<times> 'e) option" where
  "sh_key os c st e =
     (if c = 0 then Some (st, e)
      else if c = KEY_UP \<or> c = KEY_DOWN then sh_history os (if c = KEY_UP then hist_pos st - 1 else hist_pos st + 1) st e
      else if c = 8 then
        (if sh_len st > 0 then Some (st\<lparr>sh_len := sh_len st - 1\<rparr>, sys_putchar os 8 e) else Some (st, e))
      else if c = 9 then do {
        (cmd, len, e) \<leftarrow> tab_complete os (sh_cmd st) (sh_len st) 64 e;
        Some (st\<lparr>sh_cmd := cmd, sh_len := len\<rparr>, e)
      }
      else if c \<in> {KEY_HOME, KEY_END, KEY_PGUP, KEY_PGDN, KEY_INS, KEY_DEL} then Some (st, e)
      else if sh_len st < 63 then do {
        cmd \<leftarrow> put_at (sh_len st) c (sh_cmd st);
        cmd \<leftarrow> put_at (sh_len st + 1) 0 cmd;
        Some (st\<lparr>sh_cmd := cmd, sh_len := sh_len st + 1\<rparr>, sys_putchar os c e)
      }
      else Some (st, e))"

partial_function (option) read_line :: "'e shell_os \<Rightarrow> shell \<Rightarrow> 'e \<Rightarrow> (shell \<times> 'e) option" where
  "read_line os st e =
     (let (c, e) = sys_getchar os e in
      if c = 10 then Some (st, sys_write os [10] e)
      else Option.bind (sh_key os c st e) (\<lambda>(st, e). read_line os st e))"

declare read_line.simps [code]

definition push_history :: "shell \<Rightarrow> shell option" where
  "push_history st =
     (if sh_len st = 0 then Some st
      else do {
        let st = (if hist_count st = 16 then st\<lparr>history := tl (history st) @ [last (history st)], hist_count := 15\<rparr> else st);
        let i = nat (hist_count st);
        row \<leftarrow> (if i < length (history st) then Some (history st ! i) else None);
        let n = min (sh_len st + 1) 64;
        if n \<le> length (sh_cmd st) \<and> n \<le> length row
        then Some (st\<lparr>history := (history st)[i := take n (sh_cmd st) @ drop n row], hist_count := hist_count st + 1\<rparr>)
        else None
      })"

section \<open>Commands\<close>

text \<open>A listing; \<open>err\<close> are the texts written when it fails.\<close>

definition show_ls :: "'e shell_os \<Rightarrow> u8 list list \<Rightarrow> u8 list \<Rightarrow> 'e \<Rightarrow> 'e" where
  "show_ls os err path e =
     (let (r, buf, e) = sys_ls os path 511 e in
      if r < 0 then fold (sys_write os) err e
      else if r = 0 then sys_write os (bytes_of ''(empty)'' @ [10]) e
      else sys_write os (takeWhile (\<lambda>c. c \<noteq> 0) (take (nat r) buf)) e)"

definition mnt_path :: "u8 list \<Rightarrow> nat \<Rightarrow> u8 list" where
  "mnt_path arg n = (if char_at arg 0 = 47 then take n arg else take n (bytes_of ''/mnt/'' @ arg))"

definition report :: "'e shell_os \<Rightarrow> string \<Rightarrow> int \<Rightarrow> 'e \<Rightarrow> 'e" where
  "report os what st e =
     (let w = word_of_int st :: u32;
          e = sys_write os (bytes_of what) e;
          e = sys_write os (sh_hex (signed_drop_bit 8 w AND 0xFFFF)) e;
          e = sys_write os (bytes_of '' code='') e;
          e = sys_write os (sh_hex (w AND 0xFF)) e
      in sys_write os [10] e)"

definition has_elf :: "u8 list \<Rightarrow> bool" where
  "has_elf path \<longleftrightarrow> length path \<ge> 4 \<and> drop (length path - 4) path = bytes_of ''.elf''"

text \<open>The child between \<open>fork\<close> and its exit when \<open>exec\<close> fails; \<open>terminated\<close> as for \<^const>\<open>sys_exec\<close>.\<close>

definition run_child :: "'e shell_os \<Rightarrow> u8 list list \<Rightarrow> bool \<Rightarrow> 'e \<Rightarrow> 'e" where
  "run_child os args terminated e =
     (let path = (if char_at (hd args) 0 = 47 then take 64 (hd args) else take 80 (bytes_of ''/mnt/'' @ hd args));
          (r, e) = sys_exec os path args terminated e;
          retry = (r \<noteq> 0 \<and> \<not> has_elf path \<and> length path < 75);
          path = (if retry then path @ bytes_of ''.elf'' else path);
          (r, e) = (if retry then sys_exec os path args terminated e else (r, e));
          e = (if r = 0 then e
               else if r = - 2 then sys_write os (bytes_of ''error: command not found'' @ [10]) e
               else if r = - 8 then sys_write os (bytes_of ''error: not an executable'' @ [10]) e
               else if r = - 12 then sys_write os (bytes_of ''error: out of memory'' @ [10]) e
               else if r = - 13 then sys_write os (bytes_of ''error: permission denied'' @ [10]) e
               else sys_write os (bytes_of '')'' @ [10]) (sys_write os path (sys_write os (bytes_of ''error: exec failed ('') e)))
      in sys_exit os 1 e)"

text \<open>A line with its arguments; the value says whether the process has ended.\<close>

definition run_program :: "'e shell_os \<Rightarrow> u8 list list \<Rightarrow> bool \<Rightarrow> bool \<Rightarrow> 'e \<Rightarrow> bool \<times> 'e" where
  "run_program os args terminated bg e =
     (let (pid, e) = sys_fork os e in
      if pid = 0 then (True, run_child os args terminated e)
      else if pid > 0 then
        (if bg then (False, sys_write os [10] (sys_write os (sh_hex (word_of_int pid)) (sys_write os (bytes_of ''[bg] child pid='') e)))
         else let (st, e) = sys_wait os pid e in
           (False, if st < 0 then sys_write os (bytes_of ''wait failed'' @ [10]) e else report os ''done pid='' st e))
      else (False, sys_write os (bytes_of ''fork failed'' @ [10]) e))"

definition run_builtin :: "'e shell_os \<Rightarrow> u8 list list \<Rightarrow> bool \<Rightarrow> bool \<Rightarrow> 'e \<Rightarrow> bool \<times> 'e" where
  "run_builtin os args terminated bg e =
     (let is = (\<lambda>s. sh_strcmp (hd args) (bytes_of s) = 0) in
      if is ''help'' then (False, sys_write os (bytes_of ''commands: help clear ls reboot poweroff tier exit wait run'' @ [10]) e)
      else if is ''ls'' then
        (False, if length args > 1 then
                  (let path = mnt_path (args ! 1) 79 in show_ls os [bytes_of ''error: cannot list '', path, [10]] path e)
                else let e = sys_write os (bytes_of ''/home:'' @ [10]) e;
                         e = show_ls os [bytes_of ''error: cannot list /home'' @ [10]] (bytes_of ''/home'') e;
                         e = sys_write os (bytes_of ''/mnt:'' @ [10]) e
                     in show_ls os [bytes_of ''error: cannot list /mnt'' @ [10]] (bytes_of ''/mnt'') e)
      else if is ''clear'' then (False, sys_clear os e)
      else if is ''reboot'' then (False, sys_reboot os (sys_write os (bytes_of ''Rebooting...'' @ [10]) e))
      else if is ''poweroff'' then (False, sys_poweroff os (sys_write os (bytes_of ''Powering off...'' @ [10]) e))
      else if is ''tier'' then
        (let (t, e) = sys_tier_query os e
         in (False, sys_write os [10] (sys_putchar os (48 + word_of_int t) (sys_write os (bytes_of ''tier='') e))))
      else if is ''mlfq'' then
        (let (l, e) = sys_mlfq_query os e
         in (False, sys_write os [10] (sys_putchar os (48 + word_of_int l) (sys_write os (bytes_of ''mlfq='') e))))
      else if is ''exit'' then (True, sys_exit os 0 (sys_write os (bytes_of ''bye'' @ [10]) e))
      else if is ''wait'' then
        (let (st, e) = sys_wait os (- 1) e
         in (False, if st < 0 then sys_write os (bytes_of ''no child'' @ [10]) e else report os ''reaped pid='' st e))
      else run_program os args terminated bg e)"

text \<open>The arguments of the line, cut at the first one that begins with \<open>&\<close>.\<close>

definition run_line :: "'e shell_os \<Rightarrow> u8 list \<Rightarrow> 'e \<Rightarrow> (u8 list \<times> bool \<times> 'e) option" where
  "run_line os cmd e = do {
     (argv, cmd) \<leftarrow> split cmd 4;
     args \<leftarrow> those (map (\<lambda>p. str_at p cmd) argv);
     let used = takeWhile (\<lambda>a. char_at a 0 \<noteq> 38) args;
     let bg = (length used < length args);
     Some (cmd, if used = [] then (False, e) else run_builtin os used (length used < 4) bg e)
   }"

text \<open>One round of the main loop and the loop itself.\<close>

definition shell_round :: "'e shell_os \<Rightarrow> shell \<Rightarrow> 'e \<Rightarrow> (bool \<times> shell \<times> 'e) option" where
  "shell_round os st e = do {
     let e = sys_write os (bytes_of ''> '') e;
     cmd \<leftarrow> put_at 0 0 (sh_cmd st);
     (st, e) \<leftarrow> read_line os (st\<lparr>sh_cmd := cmd, sh_len := 0, hist_pos := hist_count st\<rparr>) e;
     st \<leftarrow> push_history st;
     (cmd, ended, e) \<leftarrow> (if sh_len st > 0 then run_line os (sh_cmd st) e else Some (sh_cmd st, False, e));
     Some (ended, st\<lparr>sh_cmd := cmd\<rparr>, e)
   }"

partial_function (option) shell_loop :: "'e shell_os \<Rightarrow> shell \<Rightarrow> 'e \<Rightarrow> 'e option" where
  "shell_loop os st e =
     Option.bind (shell_round os st e) (\<lambda>(ended, st, e). if ended then Some e else shell_loop os st e)"

declare shell_loop.simps [code]

definition shell_main :: "'e shell_os \<Rightarrow> shell \<Rightarrow> 'e \<Rightarrow> 'e option" where
  "shell_main os st e = shell_loop os st (sys_write os (bytes_of ''PokuOS User Shell'' @ [10]) e)"

section \<open>The arrays of the shell\<close>

text \<open>
  The line has 64 bytes with a zero at or behind its end, and the 16 entries of the history have 64 bytes each,
  the last of them zero.
\<close>

definition line_ok :: "u8 list \<Rightarrow> nat \<Rightarrow> bool" where
  "line_ok cmd len \<longleftrightarrow> length cmd = 64 \<and> (\<exists>i. len \<le> i \<and> i < 64 \<and> cmd ! i = 0)"

definition rows_ok :: "u8 list list \<Rightarrow> bool" where
  "rows_ok h \<longleftrightarrow> length h = 16 \<and> (\<forall>row \<in> set h. length row = 64 \<and> row ! 63 = 0)"

definition sh_ok :: "shell \<Rightarrow> bool" where
  "sh_ok st \<longleftrightarrow> line_ok (sh_cmd st) (sh_len st) \<and> rows_ok (history st) \<and> 0 \<le> hist_count st \<and> hist_count st \<le> 16"

lemma put_at_ok: "i < length xs \<Longrightarrow> put_at i c xs = Some (xs[i := c])"
  by (simp add: put_at_def)

lemma line_terminated: "length cmd = 64 \<Longrightarrow> len < 64 \<Longrightarrow> line_ok (cmd[len := 0]) len"
  by (auto simp: line_ok_def)

lemma add_chars_ok:
  assumes "length cmd = 64" "len < 64"
  shows "\<exists>cmd' len' e'. add_chars os 64 cs (cmd, len, e) = Some (cmd', len', e') \<and> length cmd' = 64 \<and> len' < 64"
  using assms
proof (induction cs arbitrary: cmd len e)
  case Nil
  then show ?case by simp
next
  case (Cons c cs)
  then show ?case using Cons.IH [of "cmd[len := c]" "len + 1"] by (simp add: put_at_ok)
qed

lemma add_terminated_ok:
  assumes "length cmd = 64" "len < 64"
  shows "\<exists>cmd' len' e'. add_terminated os 64 cs cmd len e = Some (cmd', len', e') \<and> line_ok cmd' len'"
proof -
  obtain cmd' len' e' where "add_chars os 64 cs (cmd, len, e) = Some (cmd', len', e')" "length cmd' = 64" "len' < 64"
    using add_chars_ok [OF assms, of os cs e] by blast
  then show ?thesis by (simp add: add_terminated_def put_at_ok line_terminated)
qed

lemma tab_complete_ok:
  assumes "line_ok cmd len"
  shows "\<exists>cmd' len' e'. tab_complete os cmd len 64 e = Some (cmd', len', e') \<and> line_ok cmd' len'"
proof -
  have "length cmd = 64" "len < 64" using assms by (auto simp: line_ok_def)
  note ad = add_terminated_ok [OF this, of os]
  show ?thesis using assms ad by (auto simp: tab_complete_def Let_def split: prod.splits)
qed

lemma recall_ok:
  assumes "length cmd = 64" "len + length row \<le> 64" "0 \<in> set row"
  shows "\<exists>cmd' len' e'. recall os row (cmd, len, e) = Some (cmd', len', e') \<and> length cmd' = 64 \<and> len' < 64"
  using assms
proof (induction row arbitrary: cmd len e)
  case Nil
  then show ?case by simp
next
  case (Cons c row)
  then show ?case using Cons.IH [of "cmd[len := c]" "len + 1"] by (auto simp: put_at_ok)
qed

lemma sh_history_ok:
  assumes "sh_ok st"
  shows "\<exists>st' e'. sh_history os pos st e = Some (st', e') \<and> sh_ok st'"
proof (cases "pos < 0 \<or> pos \<ge> hist_count st")
  case True
  then show ?thesis using assms by (simp add: sh_history_def)
next
  case False
  then have p: "nat pos < length (history st)" using assms by (auto simp: sh_ok_def rows_ok_def)
  then have row: "length (history st ! nat pos) = 64" "history st ! nat pos ! 63 = 0" using assms by (auto simp: sh_ok_def rows_ok_def)
  then have "0 \<in> set (history st ! nat pos)" by (metis lessI nth_mem numeral_nat(2) semiring_norm(26,27) eval_nat_numeral(3))
  then obtain cmd' len' e' where "recall os (history st ! nat pos) (sh_cmd st, 0, ((sys_putchar os 8) ^^ sh_len st) e) = Some (cmd', len', e')"
    "length cmd' = 64" "len' < 64"
    using recall_ok [of "sh_cmd st" 0 "history st ! nat pos" os "((sys_putchar os 8) ^^ sh_len st) e"] row assms
    by (auto simp: sh_ok_def line_ok_def)
  then show ?thesis using False p assms line_terminated by (auto simp: sh_history_def put_at_ok sh_ok_def)
qed

lemma sh_key_ok:
  assumes "sh_ok st"
  shows "\<exists>st' e'. sh_key os c st e = Some (st', e') \<and> sh_ok st'"
proof -
  let ?s = "st\<lparr>sh_len := sh_len st - 1\<rparr>"
  have bs: "sh_ok ?s" using assms by (auto simp: sh_ok_def line_ok_def intro: le_trans [OF diff_le_self])
  have l: "line_ok (sh_cmd st) (sh_len st)" "length (sh_cmd st) = 64" using assms by (auto simp: sh_ok_def line_ok_def)
  obtain cmd' len' e' where tab: "tab_complete os (sh_cmd st) (sh_len st) 64 e = Some (cmd', len', e')" "line_ok cmd' len'"
    using tab_complete_ok [OF l(1), of os e] by blast
  have tabs: "sh_ok (st\<lparr>sh_cmd := cmd', sh_len := len'\<rparr>)" using assms tab(2) by (simp add: sh_ok_def)
  have typed: "\<exists>cmd. put_at (sh_len st) c (sh_cmd st) = Some cmd \<and> put_at (sh_len st + 1) 0 cmd = Some (cmd[sh_len st + 1 := 0]) \<and>
    sh_ok (st\<lparr>sh_cmd := cmd[sh_len st + 1 := 0], sh_len := sh_len st + 1\<rparr>)" if "sh_len st < 63"
    using that l assms line_terminated [of "(sh_cmd st)[sh_len st := c]" "sh_len st + 1"] by (simp add: put_at_ok sh_ok_def)
  show ?thesis unfolding sh_key_def tab(1) using assms sh_history_ok [OF assms, of os] bs tabs typed by auto
qed

lemma rows_shift: "rows_ok h \<Longrightarrow> rows_ok (tl h @ [last h])"
  using last_in_set [of h] list.set_sel(2) [of h] by (cases h) (auto simp: rows_ok_def)

lemma push_history_ok:
  assumes "sh_ok st"
  shows "\<exists>st'. push_history st = Some st' \<and> sh_ok st'"
proof (cases "sh_len st = 0")
  case True
  then show ?thesis using assms by (simp add: push_history_def)
next
  case False
  let ?st = "if hist_count st = 16 then st\<lparr>history := tl (history st) @ [last (history st)], hist_count := 15\<rparr> else st"
  let ?i = "nat (hist_count ?st)" and ?n = "min (sh_len st + 1) 64"
  have h: "rows_ok (history ?st)" "0 \<le> hist_count ?st" "hist_count ?st < 16" "sh_cmd ?st = sh_cmd st" "sh_len ?st = sh_len st"
    using assms rows_shift by (auto simp: sh_ok_def)
  then have i: "?i < length (history ?st)" by (auto simp: rows_ok_def)
  let ?row = "history ?st ! ?i" and ?new = "take ?n (sh_cmd st) @ drop ?n (history ?st ! ?i)"
  have row: "length ?row = 64" "?row ! 63 = 0" using h(1) i by (auto simp: rows_ok_def)
  obtain z where z: "sh_len st \<le> z" "z < 64" "sh_cmd st ! z = 0" "length (sh_cmd st) = 64" using assms by (auto simp: sh_ok_def line_ok_def)
  have "sh_cmd st ! 63 = 0" if "sh_len st = 63"
  proof -
    have "z = 63" using z that by linarith
    then show ?thesis using z(3) by simp
  qed
  then have cmd: "length (sh_cmd st) = 64" "sh_len st = 63 \<Longrightarrow> sh_cmd st ! 63 = 0" "sh_len st < 64" using z by auto
  have new: "length ?new = 64" using row(1) cmd(1) by simp
  have "?new ! 63 = 0"
  proof (cases "sh_len st = 63")
    case True
    then show ?thesis using cmd by (simp add: nth_append)
  next
    case False
    then show ?thesis using row cmd by (simp add: nth_append)
  qed
  then have "rows_ok ((history ?st)[?i := ?new])" using h(1) new set_update_subset_insert [of "history ?st" ?i ?new] by (fastforce simp: rows_ok_def)
  then have "sh_ok (?st\<lparr>history := (history ?st)[?i := ?new], hist_count := hist_count ?st + 1\<rparr>)"
    using assms h by (simp add: sh_ok_def)
  moreover have "push_history st = Some (?st\<lparr>history := (history ?st)[?i := ?new], hist_count := hist_count ?st + 1\<rparr>)"
    unfolding push_history_def if_not_P [OF False] Let_def if_P [OF i] Option.bind.simps h(4,5) using row(1) cmd(1) by simp
  ultimately show ?thesis by blast
qed

section \<open>Splitting\<close>

definition is_blank :: "u8 \<Rightarrow> bool" where
  "is_blank c \<longleftrightarrow> c = 32 \<or> c = 9"

text \<open>The words of a line, as the reference for \<^const>\<open>split\<close>.\<close>

function words_of :: "u8 list \<Rightarrow> u8 list list" where
  "words_of [] = []"
| "words_of (c # cs) = (if is_blank c then words_of cs
     else (c # takeWhile (\<lambda>c. \<not> is_blank c) cs) # words_of (dropWhile (\<lambda>c. \<not> is_blank c) cs))"
  by pat_completeness auto
termination
  by (relation "measure length") (auto simp: le_imp_less_Suc length_dropWhile_le)

text \<open>Where \<^const>\<open>split_loop\<close> finds arguments in the rest of a line, and what it leaves of the rest.\<close>

fun word_starts :: "nat \<Rightarrow> bool \<Rightarrow> u8 list \<Rightarrow> nat list" where
  "word_starts p inw [] = []"
| "word_starts p inw (c # cs) =
     (if is_blank c then word_starts (p + 1) False cs
      else if inw then word_starts (p + 1) True cs else p # word_starts (p + 1) True cs)"

definition zero_blanks :: "u8 list \<Rightarrow> u8 list" where
  "zero_blanks = map (\<lambda>c. if is_blank c then 0 else c)"

lemma split_loop_eq:
  assumes "0 \<notin> set s" "length argv + length (word_starts (length pre) inw s) < mx"
  shows "split_loop (pre @ s @ 0 # rest) (length pre) inw argv mx =
    Some (argv @ word_starts (length pre) inw s, pre @ zero_blanks s @ 0 # rest)"
  using assms
proof (induction s arbitrary: pre inw argv)
  case Nil
  then show ?case by (subst split_loop.simps) (simp add: zero_blanks_def)
next
  case (Cons c s)
  have c: "c \<noteq> 0" "\<not> length (pre @ (c # s) @ 0 # rest) \<le> length pre" "(pre @ (c # s) @ 0 # rest) ! length pre = c"
    using Cons.prems by (auto simp: nth_append)
  have sh: "pre @ (c # s) @ 0 # rest = (pre @ [c]) @ s @ 0 # rest" "length pre + 1 = length (pre @ [c])" by simp_all
  show ?case
  proof (cases "is_blank c")
    case True
    have "split_loop (pre @ (c # s) @ 0 # rest) (length pre) inw argv mx =
      split_loop ((pre @ [0]) @ s @ 0 # rest) (length (pre @ [0])) False argv mx"
      using True c by (subst split_loop.simps) (simp add: is_blank_def)
    then show ?thesis using True Cons.IH [of argv "pre @ [0]" False] Cons.prems by (simp add: zero_blanks_def)
  next
    case False
    then have nb: "c \<noteq> 32" "c \<noteq> 9" by (auto simp: is_blank_def)
    have "split_loop (pre @ (c # s) @ 0 # rest) (length pre) inw argv mx =
      split_loop ((pre @ [c]) @ s @ 0 # rest) (length (pre @ [c])) True (if inw then argv else argv @ [length pre]) mx"
      using nb c False Cons.prems(2) by (subst split_loop.simps) (cases inw; simp)
    then show ?thesis using False Cons.IH [of "if inw then argv else argv @ [length pre]" "pre @ [c]" True] Cons.prems
      by (auto simp: zero_blanks_def)
  qed
qed

lemma takeWhile_zero_blanks: "0 \<notin> set s \<Longrightarrow> takeWhile (\<lambda>c. c \<noteq> 0) (zero_blanks s @ 0 # rest) = takeWhile (\<lambda>c. \<not> is_blank c) s"
  by (induction s) (auto simp: zero_blanks_def is_blank_def)

lemma word_starts_strings:
  assumes "0 \<notin> set s"
  shows "map (\<lambda>p. str_at p (pre @ zero_blanks s @ 0 # rest)) (word_starts (length pre) inw s) =
    map Some (words_of (if inw then dropWhile (\<lambda>c. \<not> is_blank c) s else s))"
  using assms
proof (induction s arbitrary: pre inw)
  case Nil
  then show ?case by simp
next
  case (Cons c s)
  let ?d = "if is_blank c then 0 else c"
  have e: "pre @ zero_blanks (c # s) @ 0 # rest = (pre @ [?d]) @ zero_blanks s @ 0 # rest" by (simp add: zero_blanks_def)
  have IH: "map (\<lambda>p. str_at p (pre @ zero_blanks (c # s) @ 0 # rest)) (word_starts (length pre + 1) b s) =
    map Some (words_of (if b then dropWhile (\<lambda>c. \<not> is_blank c) s else s))" for b
    unfolding e using Cons.IH [of "pre @ [?d]" b] Cons.prems by simp
  have "str_at (length pre) (pre @ zero_blanks (c # s) @ 0 # rest) = Some (takeWhile (\<lambda>c. \<not> is_blank c) (c # s))"
    unfolding str_at_def using takeWhile_zero_blanks [OF Cons.prems] by simp
  then show ?case using IH [of True] IH [of False] by auto
qed

lemma split_words:
  assumes "0 \<notin> set s" "length (words_of s) < mx"
  shows "\<exists>argv. split (s @ 0 # rest) mx = Some (argv, zero_blanks s @ 0 # rest) \<and>
    map (\<lambda>p. str_at p (zero_blanks s @ 0 # rest)) argv = map Some (words_of s)"
proof -
  have w: "map (\<lambda>p. str_at p (zero_blanks s @ 0 # rest)) (word_starts 0 False s) = map Some (words_of s)"
    using word_starts_strings [OF assms(1), of "[]" rest False] by simp
  then have "length (word_starts 0 False s) < mx" using assms(2) by (metis length_map)
  then show ?thesis using split_loop_eq [OF assms(1), of "[]" "[]" False mx rest] w by (simp add: split_def)
qed

text \<open>On any line with a final zero \<^const>\<open>split_loop\<close> returns, and its arguments are strings.\<close>

lemma split_loop_returns:
  assumes "p \<le> i" "i < length cmd" "cmd ! i = 0" "\<forall>q \<in> set argv. q \<le> i"
  shows "\<exists>argv' cmd'. split_loop cmd p inw argv mx = Some (argv', cmd') \<and> length cmd' = length cmd \<and> cmd' ! i = 0 \<and> (\<forall>q \<in> set argv'. q \<le> i)"
  using assms
proof (induction cmd p inw argv mx rule: split_loop.induct)
  case (1 cmd p inw argv mx)
  show ?case
  proof (cases "cmd ! p = 0")
    case True
    then show ?thesis using 1 by (subst split_loop.simps) auto
  next
    case False
    then have "p < i" using 1 by (metis le_neq_implies_less)
    then show ?thesis using 1 False by (subst split_loop.simps) (auto simp: nth_list_update)
  qed
qed

lemma those_Some: "\<forall>x \<in> set xs. x \<noteq> None \<Longrightarrow> \<exists>ys. those xs = Some ys"
  by (induction xs) (auto split: option.splits)

lemma run_line_returns:
  assumes "line_ok cmd len"
  shows "run_line os cmd e \<noteq> None"
proof -
  obtain i where i: "i < 64" "cmd ! i = 0" "length cmd = 64" using assms by (auto simp: line_ok_def)
  obtain argv cmd' where s: "split cmd 4 = Some (argv, cmd')" "length cmd' = 64" "cmd' ! i = 0" "\<forall>q \<in> set argv. q \<le> i"
    using split_loop_returns [of 0 i cmd "[]" False 4] i by (auto simp: split_def)
  have "str_at q cmd' \<noteq> None" if "q \<in> set argv" for q
  proof -
    have "q \<le> i" using s(4) that by simp
    then have "drop q cmd' ! (i - q) = 0" "i - q < length (drop q cmd')" using s(2,3) i by auto
    then have "0 \<in> set (drop q cmd')" by (metis nth_mem)
    then show ?thesis by (simp add: str_at_def)
  qed
  then obtain args where "those (map (\<lambda>p. str_at p cmd') argv) = Some args" using those_Some [of "map (\<lambda>p. str_at p cmd') argv"] by auto
  then show ?thesis using s(1) by (simp add: run_line_def Let_def)
qed

section \<open>Properties\<close>


text \<open>
  C39: Splitting agrees with the words of the line: when a line has fewer words than the limit, the arguments are exactly
  its maximal runs of characters other than blanks and tabs, in order.
\<close>

theorem shell_split_words:
  assumes "0 \<notin> set s" "length (words_of s) < mx"
  shows "\<exists>argv cmd. split (s @ 0 # rest) mx = Some (argv, cmd) \<and> those (map (\<lambda>p. str_at p cmd) argv) = Some (words_of s)"
proof -
  have "those (map Some xs) = Some xs" for xs :: "u8 list list" by (induction xs) auto
  then show ?thesis using split_words [OF assms, of rest] by auto
qed

lemma sh_type:
  assumes "sh_len st + length w \<le> 63" "length (sh_cmd st) = 64" "\<forall>c \<in> set w. c \<ge> 32" "sh_cmd st ! sh_len st = 0"
  shows "\<exists>e'. fold_opt (\<lambda>c (st, e). sh_key os c st e) w (st, e) =
    Some (st\<lparr>sh_cmd := take (sh_len st) (sh_cmd st) @ w @ 0 # drop (sh_len st + length w + 1) (sh_cmd st), sh_len := sh_len st + length w\<rparr>, e')"
  using assms
proof (induction w arbitrary: st e)
  case Nil
  then show ?case using id_take_nth_drop [of "sh_len st" "sh_cmd st"] by simp
next
  case (Cons c w)
  let ?cmd = "take (sh_len st) (sh_cmd st) @ c # 0 # drop (sh_len st + 2) (sh_cmd st)"
  have "(sh_cmd st)[sh_len st := c, sh_len st + 1 := 0] = ?cmd"
    using Cons.prems(1,2) by (simp add: upd_conv_take_nth_drop list_update_append Cons_nth_drop_Suc [symmetric])
  moreover have "c \<ge> 32" using Cons.prems(3) by simp
  then have "c \<noteq> 0" "c \<noteq> 1" "c \<noteq> 2" "c \<noteq> 8" "c \<noteq> 9" "c \<noteq> 0x10" "c \<noteq> 0x11" "c \<noteq> 0x12" "c \<noteq> 0x13" "c \<noteq> 0x14" "c \<noteq> 0x15"
    by (auto simp: word_le_nat_alt)
  ultimately have k: "sh_key os c st e = Some (st\<lparr>sh_cmd := ?cmd, sh_len := sh_len st + 1\<rparr>, sys_putchar os c e)"
    using Cons.prems(1,2) by (simp add: sh_key_def put_at_ok)
  let ?st = "st\<lparr>sh_cmd := ?cmd, sh_len := sh_len st + 1\<rparr>"
  have "\<exists>e'. fold_opt (\<lambda>c (st, e). sh_key os c st e) w (?st, sys_putchar os c e) =
    Some (?st\<lparr>sh_cmd := take (sh_len ?st) ?cmd @ w @ 0 # drop (sh_len ?st + length w + 1) ?cmd, sh_len := sh_len ?st + length w\<rparr>, e')"
    using Cons.IH [of ?st "sys_putchar os c e"] Cons.prems by (simp add: nth_append)
  then show ?case using k Cons.prems(1,2) by (simp add: min_def add.commute)
qed


definition quiet_os :: "unit shell_os" where
  "quiet_os = \<lparr>sys_getchar = (\<lambda>e. (10, e)), sys_putchar = (\<lambda>_ e. e), sys_write = (\<lambda>_ e. e), sys_ls = (\<lambda>_ _ e. (-1, [], e)),
     sys_clear = (\<lambda>e. e), sys_reboot = (\<lambda>e. e), sys_poweroff = (\<lambda>e. e), sys_tier_query = (\<lambda>e. (0, e)), sys_mlfq_query = (\<lambda>e. (0, e)),
     sys_exit = (\<lambda>_ e. e), sys_wait = (\<lambda>_ e. (-1, e)), sys_fork = (\<lambda>e. (1, e)), sys_exec = (\<lambda>_ _ _ e. (0, e))\<rparr>"

definition fresh_shell :: shell where
  "fresh_shell = \<lparr>sh_cmd = replicate 64 0, sh_len = 0, hist_pos = 0, history = replicate 16 (replicate 64 0), hist_count = 0\<rparr>"


theorem shell_split_words_witness:
  "\<exists>argv cmd. split ([108, 115, 32, 32, 47, 9, 0] @ [7]) 4 = Some (argv, cmd) \<and> those (map (\<lambda>p. str_at p cmd) argv) = Some [[108, 115], [47]]"
  using shell_split_words [of "[108, 115, 32, 32, 47, 9]" 4 "[7]"] by (simp add: is_blank_def)


end
