(* ===== verification/Spec2Isabelle.thy ===== *)
theory Spec2Isabelle
  imports Boot Povi Shell
begin

text \<open>
  A verification library for the PokuOS kernel, a small preemptive kernel for 32-bit x86 written in C with some
  assembly and Rust (\<open>src/src\<close>; all paths below are relative to it).

  \<^bold>\<open>The program and its parts.\<close>
  A timer interrupt and the system calls enter the kernel; both may end in the scheduler, which picks the next
  task from five run queues. Tasks own an address space built by the paging code, capabilities, a tier and a set
  of open files. The file systems keep their objects in the kernel heap, which grows by mapping page frames; a
  disk is reached through the block layer and the ATA driver. The keyboard interrupt feeds a ring buffer that
  system calls drain; console and serial port show output; a watchdog restarts services.

  \<^bold>\<open>The theories.\<close>
  \<^item> \<open>Prelude\<close>, \<open>Kernel_Types\<close>: words, generic lemmas on lists, options and words; tiers, capabilities, errors.
  \<^item> \<open>Task\<close>, \<open>Task_Queues\<close>, \<open>Sched\<close>: the task table and the linked run queues of \<open>kernel/task.c\<close>, the scheduler of
    \<open>kernel/sched.c\<close>. The queues are modelled as the code has them, with next and previous links and tails; the
    lemmas relate them to lists, show that queueing is first in first out and that \<open>schedule\<close> loses no ready task.
  \<^item> \<open>Locks\<close>, \<open>Locks_Test\<close>: spin locks and mutexes with priority inheritance (\<open>kernel/locks.c\<close>), and the self test
    of \<open>kernel/locks_test.c\<close> as a run of three threads, which shows the inheritance.
  \<^item> \<open>Tailq\<close>, \<open>Paging\<close>: the tail queue macros (\<open>include/sys/queue.h\<close>) and \<open>kernel/paging.c\<close>: frame allocator,
    page directories and tables in physical memory, reached through the recursive mapping. \<open>Frames\<close> collects
    what memory operations leave unchanged.
  \<^item> \<open>Heap\<close>, \<open>Vm\<close>: the boundary-tag heap (\<open>kernel/heap.c\<close>) and VM objects with copy on write (\<open>vm/vm.c\<close>).
  \<^item> \<open>Heap_Blocks\<close>, \<open>Heap_Ops\<close>, \<open>Heap_Alloc\<close>, \<open>Heap_Service\<close>: the heap as a list of blocks. \<open>kmalloc\<close> and \<open>kfree\<close> keep it
    well formed (tags, flags, free list, no two free neighbours), allocate disjoint blocks and leave other payloads alone; a
    bound on fragmentation follows from coalescing. The locale \<open>allocator\<close> is the interface, \<open>kheap\<close> its interpretation.
  \<^item> \<open>Kstring\<close>: the string functions of \<open>rust/src/lib.rs\<close>.
  \<^item> \<open>Vfs_Core\<close>, \<open>Vfs\<close>, \<open>Memfs\<close>, \<open>Ramfs\<close>, \<open>Tar\<close>, \<open>Tarfs\<close>: \<open>fs/vfs.c\<close> and \<open>fs/mount.c\<close>, the three file systems, the
    tar reader and the page cache. \<open>Ata\<close>, \<open>Bdev\<close>: \<open>driver/ata.c\<close> and \<open>fs/bdev.c\<close>.
  \<^item> \<open>Elf\<close>, \<open>Process\<close>: \<open>kernel/elf.c\<close>, and fork, exec, wait, exit and spawn of \<open>kernel/process.c\<close>.
  \<^item> \<open>Keyboard\<close>, \<open>Vga\<close>, \<open>Console\<close>: \<open>driver/keyboard.c\<close>, \<open>driver/vga.c\<close>, \<open>kernel/serial.c\<close>.
  \<^item> \<open>Watchdog\<close>: \<open>kernel/watchdog.c\<close> and the timer interrupt. \<open>Syscall\<close>: \<open>kernel/syscall.c\<close> and the entry stub.
    \<open>Trap\<close>: exceptions, the interrupt table and the task state segment.
  \<^item> \<open>User_Lib\<close>: the system call stubs of the user libraries, against the dispatch of the kernel. \<open>Switch\<close>: \<open>switch_to\<close> of
    \<open>kernel/task.asm\<close>, the ways into user mode, and what both sides of a \<open>fork\<close> return with.
  \<^item> \<open>Boot\<close>: \<open>kernel/kernel.c\<close> and the command line of \<open>init/init.c\<close>; page tables and heap at the start of the kernel.
  \<^item> \<open>Shell\<close>: the user program \<open>user/shell.c\<close>: line editing with history and completion, word splitting, built-in
    commands and the start of programs. The lemmas show that no array is left and what a line becomes.
  \<^item> \<open>Povi_Text\<close>, \<open>Povi\<close>: the editor \<open>user/povi\<close>: its strings, vectors and line buffer on an arena that is never
    freed, then keys, modes, files and screen. The lemmas relate the buffer to one sequence of characters.

  \<^bold>\<open>Conventions.\<close>
  The state of the kernel is one record, extended theory by theory (\<open>sched_state\<close>, \<open>paging_state\<close>, \<open>heap_state\<close>, and
  so on up to \<open>kernel_state\<close>); operations take the state and return it updated, polymorphic in the later fields.
  Machine words are words of their width. Task pointers are indices into the task table. Physical memory is a
  function of frame and word index; virtual accesses walk the page tables stored in it, and an access to an
  unmapped page has the value \<^const>\<open>None\<close>, as has every execution that does not return. Loops whose end depends on data
  in memory are partial functions with \<^const>\<open>None\<close> for running for ever, so no fuel is used anywhere. Objects
  allocated in the heap are kept in maps from their address.
  The disk is a parameter, a state with port functions; the lemmas on the ATA driver assume the protocol of the
  ATA standard for it, and an example drive shows that the assumption can hold.
  The two user programs see the kernel through a record of system call functions on an arbitrary environment. In
  the editor \<^const>\<open>None\<close> also stands for an access outside a block or an exhausted arena; the lemmas bound the
  space each operation takes, so that \<^const>\<open>None\<close> can only mean the latter.

  \<^bold>\<open>What is not modelled.\<close>
  The instructions before \<open>kernel_main\<close> and the constant descriptor table (\<open>boot/boot.asm\<close>); segment registers;
  \<open>kernel/pit_entry.asm\<close>, whose gate is replaced before it can run; messages to the serial line outside the start of
  the kernel, the lock test, exceptions and output system calls; caches, the TLB and concurrency below the level of
  interrupts (the kernel is built for one CPU); the small demonstration programs and the C++ containers in
  \<open>user/cpp_lib\<close>, an older copy of those of the editor. In \<open>Heap_Blocks\<close> and the theories on it the words of the heap
  are a total map: that the page of a heap word is mapped is not part of their statements.
\<close>

end
